(* ===== verification/Prelude.thy ===== *)
theory Prelude
  imports Main "HOL-Library.Word" "HOL-Library.Char_ord" "HOL-Library.List_Lexorder"
begin

text \<open>
  Shared vocabulary of the development. Rust strings are byte strings (\<open>string\<close>, a list of
  8-bit characters holding the UTF-8 encoding), a \<open>HashMap\<close> or \<open>BTreeMap\<close> is the association
  list of its entries in iteration order, a fallible function returns \<open>error + value\<close>, and a
  function that mutates a \<open>&mut\<close> argument returns the new value beside its result, on the
  error branches too. The theory holds the string operations of the standard library that the
  resolver uses, the two map insertions, the interface both satisfy, and the lemmas about
  them that the components share.
\<close>

named_theorems model_defs \<open>definitions of the model that evaluation unfolds\<close>

type_synonym 'v fields = "(string \<times> 'v) list"
type_synonym ('s, 'e, 'a) step = "'s \<Rightarrow> ('e + 'a) \<times> 's"
type_synonym u8 = "8 word"
type_synonym u32 = "32 word"
type_synonym u64 = "64 word"
type_synonym u128 = "128 word"
type_synonym i32 = "32 word"
type_synonym i64 = "64 word"
type_synonym bytes = "u8 list"

section \<open>Strings\<close>

text \<open>\<open>str::split(c)\<close>: the pieces between the separators, at least one.\<close>

fun split_on :: "char \<Rightarrow> string \<Rightarrow> string list" where
  "split_on c [] = [[]]"
| "split_on c (x # xs) =
     (if x = c then [] # split_on c xs
      else (case split_on c xs of [] \<Rightarrow> [[x]] | y # ys \<Rightarrow> (x # y) # ys))"

text \<open>\<open>str::split([c, d])\<close> on a set of separators.\<close>

fun split_on_any :: "char list \<Rightarrow> string \<Rightarrow> string list" where
  "split_on_any cs [] = [[]]"
| "split_on_any cs (x # xs) =
     (if x \<in> set cs then [] # split_on_any cs xs
      else (case split_on_any cs xs of [] \<Rightarrow> [[x]] | y # ys \<Rightarrow> (x # y) # ys))"

fun join_with :: "char \<Rightarrow> string list \<Rightarrow> string" where
  "join_with c [] = []"
| "join_with c [x] = x"
| "join_with c (x # y # ys) = x @ c # join_with c (y # ys)"

text \<open>\<open>Iterator::nth\<close>.\<close>

fun nth_opt :: "'a list \<Rightarrow> nat \<Rightarrow> 'a option" where
  "nth_opt [] n = None"
| "nth_opt (x # xs) 0 = Some x"
| "nth_opt (x # xs) (Suc n) = nth_opt xs n"

text \<open>\<open>slice::first\<close>.\<close>

definition first_opt :: "'a list \<Rightarrow> 'a option" where
  [model_defs]: "first_opt xs = (case xs of [] \<Rightarrow> None | x # _ \<Rightarrow> Some x)"

text \<open>\<open>usize\<close> of 32-bit wasm and its \<open>saturating_add\<close>; \<open>saturating_sub\<close> is the subtraction of naturals.\<close>

definition USIZE_MAX :: nat where
  "USIZE_MAX = 2 ^ 32 - 1"

definition usize_add :: "nat \<Rightarrow> nat \<Rightarrow> nat" where
  [model_defs]: "usize_add a b = min (a + b) USIZE_MAX"

definition str_starts_with :: "string \<Rightarrow> string \<Rightarrow> bool" where
  [model_defs]: "str_starts_with s p \<longleftrightarrow> take (length p) s = p"

definition str_ends_with :: "string \<Rightarrow> string \<Rightarrow> bool" where
  [model_defs]: "str_ends_with s p \<longleftrightarrow> length p \<le> length s \<and> drop (length s - length p) s = p"

fun str_contains :: "string \<Rightarrow> string \<Rightarrow> bool" where
  "str_contains [] p \<longleftrightarrow> p = []"
| "str_contains (x # xs) p \<longleftrightarrow> take (length p) (x # xs) = p \<or> str_contains xs p"

definition ascii_digit :: "char \<Rightarrow> bool" where
  [model_defs]: "ascii_digit c \<longleftrightarrow> 48 \<le> (of_char c :: nat) \<and> (of_char c :: nat) \<le> 57"

definition digit_val :: "char \<Rightarrow> nat" where
  [model_defs]: "digit_val c = of_char c - 48"

fun dec_val :: "nat \<Rightarrow> string \<Rightarrow> nat" where
  "dec_val acc [] = acc"
| "dec_val acc (c # cs) = dec_val (acc * 10 + digit_val c) cs"

fun show_nat :: "nat \<Rightarrow> string" where
  "show_nat n =
     (if n < 10 then [char_of (48 + n)] else show_nat (n div 10) @ [char_of (48 + n mod 10)])"

declare show_nat.simps [simp del]

lemma split_on_nonempty [simp]: "split_on c s \<noteq> []"
  by (cases s) (auto split: list.splits)

lemma split_on_any_nonempty [simp]: "split_on_any cs s \<noteq> []"
  by (cases s) (auto split: list.splits)

lemma join_split [simp]: "join_with c (split_on c s) = s"
proof (induction c s rule: split_on.induct)
  case (2 c x xs)
  then show ?case
    by (cases "split_on c xs"; cases "tl (split_on c xs)") auto
qed simp

lemma split_on_no_sep: "p \<in> set (split_on c s) \<Longrightarrow> c \<notin> set p"
proof (induction s arbitrary: p)
  case (Cons x xs)
  then show ?case
    by (cases "split_on c xs"; cases "x = c") auto
qed simp

lemma split_on_no_sep_id: "c \<notin> set s \<Longrightarrow> split_on c s = [s]"
  by (induction s) auto

lemma split_on_append_sep:
  "c \<notin> set p \<Longrightarrow> split_on c (p @ c # s) = p # split_on c s"
  by (induction p) auto

lemma split_join:
  "ps \<noteq> [] \<Longrightarrow> \<forall>p \<in> set ps. c \<notin> set p \<Longrightarrow> split_on c (join_with c ps) = ps"
  by (induction c ps rule: join_with.induct) (auto simp: split_on_no_sep_id split_on_append_sep)

lemma str_starts_with_append: "str_starts_with s p \<longleftrightarrow> (\<exists>t. s = p @ t)"
  unfolding str_starts_with_def by (metis append_eq_conv_conj append_take_drop_id)

lemma str_ends_with_append: "str_ends_with s p \<longleftrightarrow> (\<exists>t. s = t @ p)"
proof
  assume "str_ends_with s p"
  then have "drop (length s - length p) s = p" by (simp add: str_ends_with_def)
  then show "\<exists>t. s = t @ p" by (metis append_take_drop_id)
qed (auto simp: str_ends_with_def)

lemma str_contains_append: "str_contains s p \<longleftrightarrow> (\<exists>t u. s = t @ p @ u)"
proof (induction s)
  case (Cons x xs)
  have "take (length p) (x # xs) = p \<longleftrightarrow> (\<exists>u. x # xs = p @ u)"
    by (metis append_eq_conv_conj append_take_drop_id)
  moreover have "(\<exists>t u. x # xs = t @ p @ u) \<longleftrightarrow> (\<exists>u. x # xs = p @ u) \<or> (\<exists>t u. xs = t @ p @ u)"
    by (metis (no_types, opaque_lifting) append.left_neutral append_Cons list.exhaust list.inject)
  ultimately show ?case using Cons by simp
qed auto

lemma nth_opt_Some: "nth_opt xs n = Some x \<longleftrightarrow> n < length xs \<and> xs ! n = x"
  by (induction xs n rule: nth_opt.induct) auto

section \<open>Maps\<close>

text \<open>
  \<open>BTreeMap::insert\<close>: the entries stay sorted by key. \<open>HashMap::insert\<close>: an existing key
  keeps its place, a new one is appended; Rust leaves the iteration order of a \<open>HashMap\<close>
  open, so a theorem about a map that came from elsewhere takes any order.
\<close>

fun bt_insert :: "'k::linorder \<Rightarrow> 'v \<Rightarrow> ('k \<times> 'v) list \<Rightarrow> ('k \<times> 'v) list" where
  "bt_insert k v [] = [(k, v)]"
| "bt_insert k v ((k', v') # m) =
     (if k = k' then (k, v) # m
      else if k < k' then (k, v) # (k', v') # m
      else (k', v') # bt_insert k v m)"

fun hm_insert :: "'k \<Rightarrow> 'v \<Rightarrow> ('k \<times> 'v) list \<Rightarrow> ('k \<times> 'v) list" where
  "hm_insert k v [] = [(k, v)]"
| "hm_insert k v ((k', v') # m) =
     (if k = k' then (k, v) # m else (k', v') # hm_insert k v m)"

definition sorted_keys :: "('k::linorder \<times> 'v) list \<Rightarrow> bool" where
  "sorted_keys m \<longleftrightarrow> sorted_wrt (<) (map fst m)"

definition distinct_keys :: "('k \<times> 'v) list \<Rightarrow> bool" where
  "distinct_keys m \<longleftrightarrow> distinct (map fst m)"

text \<open>
  The interface of an insertion into an association list: what a lookup returns after an
  insert, and a representation invariant that inserts keep. The clients build maps by
  inserting the elements of a list one after another.
\<close>

locale keyed_map =
  fixes ins :: "'k \<Rightarrow> 'v \<Rightarrow> ('k \<times> 'v) list \<Rightarrow> ('k \<times> 'v) list"
    and inv :: "('k \<times> 'v) list \<Rightarrow> bool"
  assumes lookup_ins: "map_of (ins k v m) = (map_of m)(k \<mapsto> v)"
    and inv_empty: "inv []"
    and inv_ins: "inv m \<Longrightarrow> inv (ins k v m)"
    and inv_distinct: "inv m \<Longrightarrow> distinct (map fst m)"
begin

lemma lookup_ins_same: "map_of (ins k v m) k = Some v"
  by (simp add: lookup_ins)

lemma lookup_ins_other: "k' \<noteq> k \<Longrightarrow> map_of (ins k v m) k' = map_of m k'"
  by (simp add: lookup_ins)

lemma dom_ins: "fst ` set (ins k v m) = insert k (fst ` set m)"
proof -
  have "fst ` set (ins k v m) = dom (map_of (ins k v m))" by (simp add: dom_map_of_conv_image_fst)
  also have "\<dots> = insert k (dom (map_of m))" by (simp add: lookup_ins)
  finally show ?thesis by (simp add: dom_map_of_conv_image_fst)
qed

lemma lookup_fold: "map_of (fold (\<lambda>x. ins (f x) (g x)) xs m)
    = map_of m ++ map_of (rev (map (\<lambda>x. (f x, g x)) xs))"
  by (induction xs arbitrary: m) (auto simp: lookup_ins map_add_def fun_eq_iff split: option.splits)

lemma inv_fold: "inv m \<Longrightarrow> inv (fold (\<lambda>x. ins (f x) (g x)) xs m)"
  by (induction xs arbitrary: m) (auto intro: inv_ins)

lemma mem_iff_lookup: "inv m \<Longrightarrow> (k, v) \<in> set m \<longleftrightarrow> map_of m k = Some v"
  by (simp add: inv_distinct)

end

lemma map_of_bt_insert [simp]: "map_of (bt_insert k v m) = (map_of m)(k \<mapsto> v)"
  by (induction m) auto

lemma map_of_hm_insert [simp]: "map_of (hm_insert k v m) = (map_of m)(k \<mapsto> v)"
  by (induction m) auto

lemma set_keys_bt_insert: "fst ` set (bt_insert k v m) = insert k (fst ` set m)"
  by (simp flip: dom_map_of_conv_image_fst)

lemma set_keys_hm_insert: "fst ` set (hm_insert k v m) = insert k (fst ` set m)"
  by (simp flip: dom_map_of_conv_image_fst)

lemma sorted_keys_bt_insert: "sorted_keys m \<Longrightarrow> sorted_keys (bt_insert k v m)"
proof (induction m)
  case (Cons p m)
  obtain k' v' where p: "p = (k', v')" by (cases p)
  have "set (map fst (bt_insert k v m)) = insert k (set (map fst m))"
    using set_keys_bt_insert [of k v m] by simp
  with Cons show ?case
    unfolding p sorted_keys_def by (auto simp: not_less_iff_gr_or_eq)
qed (simp add: sorted_keys_def)

lemma distinct_keys_hm_insert: "distinct_keys m \<Longrightarrow> distinct_keys (hm_insert k v m)"
proof (induction m)
  case (Cons p m)
  obtain k' v' where p: "p = (k', v')" by (cases p)
  have "set (map fst (hm_insert k v m)) = insert k (set (map fst m))"
    using set_keys_hm_insert [of k v m] by simp
  with Cons show ?case unfolding p distinct_keys_def by auto
qed (simp add: distinct_keys_def)

lemma sorted_keys_distinct: "sorted_keys m \<Longrightarrow> distinct (map fst m)"
  by (simp add: sorted_keys_def strict_sorted_iff)

interpretation bt: keyed_map bt_insert sorted_keys
  by unfold_locales
     (auto simp: sorted_keys_bt_insert sorted_keys_distinct, simp add: sorted_keys_def)

interpretation hm: keyed_map hm_insert distinct_keys
  by unfold_locales (auto simp: distinct_keys_hm_insert, auto simp: distinct_keys_def)

section \<open>Results\<close>

text \<open>\<open>Option::or_fail\<close> and the \<open>?\<close> operator on a value that carries no state.\<close>

definition or_fail :: "'e \<Rightarrow> 'a option \<Rightarrow> 'e + 'a" where
  [model_defs]: "or_fail e x = (case x of None \<Rightarrow> Inl e | Some a \<Rightarrow> Inr a)"

definition bind_ok :: "'e + 'a \<Rightarrow> ('a \<Rightarrow> 'e + 'b) \<Rightarrow> 'e + 'b" where
  [model_defs]: "bind_ok r k = (case r of Inl e \<Rightarrow> Inl e | Inr a \<Rightarrow> k a)"

definition map_err :: "('e \<Rightarrow> 'f) \<Rightarrow> 'e + 'a \<Rightarrow> 'f + 'a" where
  [model_defs]: "map_err f r = (case r of Inl e \<Rightarrow> Inl (f e) | Inr a \<Rightarrow> Inr a)"

definition map_ok :: "('a \<Rightarrow> 'b) \<Rightarrow> 'e + 'a \<Rightarrow> 'e + 'b" where
  [model_defs]: "map_ok f r = (case r of Inl e \<Rightarrow> Inl e | Inr a \<Rightarrow> Inr (f a))"

text \<open>\<open>iter().map(f).collect::<Result<Vec<_>, _>>()\<close>: stops at the first error.\<close>

fun try_map :: "('a \<Rightarrow> 'e + 'b) \<Rightarrow> 'a list \<Rightarrow> 'e + 'b list" where
  "try_map f [] = Inr []"
| "try_map f (x # xs) =
     (case f x of Inl e \<Rightarrow> Inl e
      | Inr y \<Rightarrow> (case try_map f xs of Inl e \<Rightarrow> Inl e | Inr ys \<Rightarrow> Inr (y # ys)))"

lemma try_map_Inr: "try_map f xs = Inr ys \<longleftrightarrow> list_all2 (\<lambda>x y. f x = Inr y) xs ys"
proof
  show "try_map f xs = Inr ys \<Longrightarrow> list_all2 (\<lambda>x y. f x = Inr y) xs ys"
    by (induction xs arbitrary: ys) (auto split: sum.splits)
  show "list_all2 (\<lambda>x y. f x = Inr y) xs ys \<Longrightarrow> try_map f xs = Inr ys"
    by (induction rule: list_all2_induct) auto
qed

lemma try_map_total: "\<forall>x \<in> set xs. f x = Inr (g x) \<Longrightarrow> try_map f xs = Inr (map g xs)"
  by (induction xs) auto

lemma try_map_length: "try_map f xs = Inr ys \<Longrightarrow> length ys = length xs"
  by (auto simp: try_map_Inr dest: list_all2_lengthD)

lemma find_Some_mem: "find P xs = Some x \<Longrightarrow> x \<in> set xs \<and> P x"
  by (auto simp: find_Some_iff)

end
