(* ===== verification/Float64.thy ===== *)
theory Float64
  imports Prelude
begin

unbundle bit_operations_syntax

text \<open>
  What the resolver uses of Rust's \<open>f64\<close>: a value is its IEEE 754 bit pattern, and the
  operations are those of \<open>core\<close>: comparison (NaN unordered, both zeros equal), \<open>is_finite\<close>,
  \<open>fract() == 0\<close>, the saturating \<open>as i64\<close> cast, \<open>parse::<f64>()\<close> (correctly rounded, ties to
  even), \<open>to_string()\<close> (the shortest decimal that reads back) and \<open>format!("{:.0}")\<close> of an
  integral value.
\<close>

type_synonym f64 = u64

definition f64_sign :: "f64 \<Rightarrow> bool" where
  [model_defs]: "f64_sign x \<longleftrightarrow> bit x 63"

definition f64_mag :: "f64 \<Rightarrow> nat" where
  [model_defs]: "f64_mag x = unat (x AND 0x7FFFFFFFFFFFFFFF)"

definition f64_inf_mag :: nat where
  [model_defs]: "f64_inf_mag = 2047 * 2 ^ 52"

definition f64_is_nan :: "f64 \<Rightarrow> bool" where
  [model_defs]: "f64_is_nan x \<longleftrightarrow> f64_inf_mag < f64_mag x"

definition f64_is_finite :: "f64 \<Rightarrow> bool" where
  [model_defs]: "f64_is_finite x \<longleftrightarrow> f64_mag x < f64_inf_mag"

text \<open>
  The magnitudes are ordered as their bit patterns, so signed magnitudes order the
  numbers, and the two zeros have the same key.
\<close>

definition f64_key :: "f64 \<Rightarrow> int" where
  [model_defs]: "f64_key x = (if f64_sign x then - int (f64_mag x) else int (f64_mag x))"

definition f64_lt :: "f64 \<Rightarrow> f64 \<Rightarrow> bool" where
  [model_defs]: "f64_lt x y \<longleftrightarrow> \<not> f64_is_nan x \<and> \<not> f64_is_nan y \<and> f64_key x < f64_key y"

definition f64_le :: "f64 \<Rightarrow> f64 \<Rightarrow> bool" where
  [model_defs]: "f64_le x y \<longleftrightarrow> \<not> f64_is_nan x \<and> \<not> f64_is_nan y \<and> f64_key x \<le> f64_key y"

definition f64_eq :: "f64 \<Rightarrow> f64 \<Rightarrow> bool" where
  [model_defs]: "f64_eq x y \<longleftrightarrow> \<not> f64_is_nan x \<and> \<not> f64_is_nan y \<and> f64_key x = f64_key y"

text \<open>A finite value is \<open>\<plusminus> mant * 2 ^ ex\<close>.\<close>

definition f64_mant :: "nat \<Rightarrow> nat" where
  [model_defs]: "f64_mant m = (if m div 2 ^ 52 = 0 then m else m mod 2 ^ 52 + 2 ^ 52)"

definition f64_exp :: "nat \<Rightarrow> int" where
  [model_defs]: "f64_exp m = (if m div 2 ^ 52 = 0 then -1074 else int (m div 2 ^ 52) - 1075)"

definition f64_trunc_mag :: "f64 \<Rightarrow> nat" where
  [model_defs]: "f64_trunc_mag x =
     (let m = f64_mag x in
      if 0 \<le> f64_exp m then f64_mant m * 2 ^ nat (f64_exp m)
      else f64_mant m div 2 ^ nat (- f64_exp m))"

definition f64_is_integral :: "f64 \<Rightarrow> bool" where
  [model_defs]: "f64_is_integral x \<longleftrightarrow> f64_is_finite x \<and>
     (let m = f64_mag x in 0 \<le> f64_exp m \<or> f64_mant m mod 2 ^ nat (- f64_exp m) = 0)"

definition f64_as_i64 :: "f64 \<Rightarrow> int" where
  [model_defs]: "f64_as_i64 x =
     (if f64_is_nan x then 0
      else if \<not> f64_is_finite x then (if f64_sign x then - (2 ^ 63) else 2 ^ 63 - 1)
      else if f64_sign x then max (- (2 ^ 63)) (- int (f64_trunc_mag x))
      else min (2 ^ 63 - 1) (int (f64_trunc_mag x)))"

section \<open>Rounding, parsing and printing\<close>

fun bit_len :: "nat \<Rightarrow> nat" where
  "bit_len n = (if n = 0 then 0 else Suc (bit_len (n div 2)))"

declare bit_len.simps [simp del]

definition round_half_even :: "nat \<Rightarrow> nat \<Rightarrow> nat" where
  [model_defs]: "round_half_even a b =
     (let q = a div b; r = a mod b in
      if 2 * r < b \<or> 2 * r = b \<and> even q then q else q + 1)"

text \<open>The magnitude bits of the double nearest to \<open>num / den\<close>.\<close>

definition scale2 :: "nat \<Rightarrow> nat \<Rightarrow> int \<Rightarrow> nat \<times> nat" where
  [model_defs]: "scale2 num den e =
     (if 0 \<le> e then (num, den * 2 ^ nat e) else (num * 2 ^ nat (- e), den))"

definition f64_round :: "nat \<Rightarrow> nat \<Rightarrow> nat" where
  [model_defs]: "f64_round num den =
     (if num = 0 then 0 else
      let e0 = max (-1074) (int (bit_len num) - int (bit_len den) - 53);
          (a0, b0) = scale2 num den e0;
          e = (if 2 ^ 53 \<le> a0 div b0 then e0 + 1 else e0);
          (a, b) = scale2 num den e
      in min f64_inf_mag (nat (e + 1074) * 2 ^ 52 + round_half_even a b))"

definition f64_of_mag :: "bool \<Rightarrow> nat \<Rightarrow> f64" where
  [model_defs]: "f64_of_mag neg m = of_nat m OR (if neg then push_bit 63 1 else 0)"

text \<open>The value \<open>d * 10 ^ k\<close> rounded.\<close>

definition f64_round10 :: "nat \<Rightarrow> int \<Rightarrow> nat" where
  [model_defs]: "f64_round10 d k =
     (if 0 \<le> k then f64_round (d * 10 ^ nat k) 1 else f64_round d (10 ^ nat (- k)))"

fun take_digits :: "string \<Rightarrow> string \<times> string" where
  "take_digits [] = ([], [])"
| "take_digits (c # cs) =
     (if ascii_digit c then (let (ds, r) = take_digits cs in (c # ds, r)) else ([], c # cs))"

definition lower_char :: "char \<Rightarrow> char" where
  [model_defs]: "lower_char c =
     (let n = of_char c :: nat in if 65 \<le> n \<and> n \<le> 90 then char_of (n + 32) else c)"

definition upper_char :: "char \<Rightarrow> char" where
  [model_defs]: "upper_char c =
     (let n = of_char c :: nat in if 97 \<le> n \<and> n \<le> 122 then char_of (n - 32) else c)"

text \<open>\<open>[+-]\<close> split off, and the optional exponent.\<close>

fun split_sign :: "string \<Rightarrow> bool \<times> string" where
  "split_sign [] = (False, [])"
| "split_sign (c # cs) =
     (if c = CHR ''-'' then (True, cs) else if c = CHR ''+'' then (False, cs) else (False, c # cs))"

definition parse_exponent :: "string \<Rightarrow> int option" where
  [model_defs]: "parse_exponent s =
     (case s of [] \<Rightarrow> Some 0
      | c # cs \<Rightarrow>
          if lower_char c = CHR ''e'' then
            (let (neg, ds) = split_sign cs in
             if ds \<noteq> [] \<and> list_all ascii_digit ds
             then Some (if neg then - int (dec_val 0 ds) else int (dec_val 0 ds)) else None)
          else None)"

definition parse_f64 :: "string \<Rightarrow> f64 option" where
  [model_defs]: "parse_f64 s =
     (let (neg, r) = split_sign s; l = map lower_char r in
      if r = [] then None
      else if l = ''nan'' then Some (f64_of_mag neg (f64_inf_mag + 2 ^ 51))
      else if l = ''inf'' \<or> l = ''infinity'' then Some (f64_of_mag neg f64_inf_mag)
      else
        let (ip, r1) = take_digits r;
            (fp, r2) = (case r1 of [] \<Rightarrow> ([], [])
                        | c # cs \<Rightarrow> if c = CHR ''.'' then take_digits cs else ([], r1))
        in if ip = [] \<and> fp = [] then None
           else (case parse_exponent r2 of
                   None \<Rightarrow> None
                 | Some e \<Rightarrow>
                     Some (f64_of_mag neg
                       (f64_round10 (dec_val 0 (ip @ fp)) (e - int (length fp))))))"

text \<open>
  The shortest decimal: the largest power of ten for which the nearest multiple still
  rounds to the value. The search starts above the value and ends at the latest at
  \<open>10 ^ -1074\<close>, of which every double is a multiple.
\<close>

definition nearest10 :: "nat \<Rightarrow> int \<Rightarrow> nat" where
  [model_defs]: "nearest10 m k =
     (let (n, d) = (if 0 \<le> f64_exp m then (f64_mant m * 2 ^ nat (f64_exp m), 1)
                    else (f64_mant m, 2 ^ nat (- f64_exp m))) in
      if 0 \<le> k then round_half_even n (d * 10 ^ nat k)
      else round_half_even (n * 10 ^ nat (- k)) d)"

function shortest10 :: "nat \<Rightarrow> int \<Rightarrow> nat \<times> int" where
  "shortest10 m k =
     (if k \<le> -1074 \<or> f64_round10 (nearest10 m k) k = m then (nearest10 m k, k)
      else shortest10 m (k - 1))"
  by pat_completeness auto
termination
  by (relation "measure (\<lambda>(m, k). nat (k + 1074))") auto

declare shortest10.simps [simp del]

definition show_scaled :: "nat \<Rightarrow> int \<Rightarrow> string" where
  [model_defs]: "show_scaled d k =
     (let s = show_nat d; n = nat (- k) in
      if 0 \<le> k then s @ replicate (nat k) CHR ''0''
      else if n < length s then take (length s - n) s @ ''.'' @ drop (length s - n) s
      else ''0.'' @ replicate (n - length s) CHR ''0'' @ s)"

definition f64_to_string :: "f64 \<Rightarrow> string" where
  [model_defs]: "f64_to_string x =
     (if f64_is_nan x then ''NaN''
      else (if f64_sign x then ''-'' else '''') @
        (if \<not> f64_is_finite x then ''inf''
         else if f64_mag x = 0 then ''0''
         else (let (d, k) = shortest10 (f64_mag x) (int (length (show_nat (f64_trunc_mag x))))
               in show_scaled d k)))"

text \<open>\<open>format!("{:.0}", x)\<close> for an integral \<open>x\<close>: the exact integer, the sign bit shown.\<close>

definition f64_show_integral :: "f64 \<Rightarrow> string" where
  [model_defs]: "f64_show_integral x =
     (if f64_sign x then ''-'' else '''') @ show_nat (f64_trunc_mag x)"

section \<open>Order\<close>

lemma f64_lt_irrefl [simp]: "\<not> f64_lt x x"
  by (simp add: f64_lt_def)

lemma f64_lt_trans: "f64_lt x y \<Longrightarrow> f64_lt y z \<Longrightarrow> f64_lt x z"
  by (simp add: f64_lt_def)

lemma f64_le_iff: "f64_le x y \<longleftrightarrow> f64_lt x y \<or> f64_eq x y"
  by (auto simp: f64_le_def f64_lt_def f64_eq_def)

lemma f64_eq_refl_iff: "f64_eq x x \<longleftrightarrow> \<not> f64_is_nan x"
  by (simp add: f64_eq_def)

end
