(* ===== verification/Error_Codes.thy ===== *)
theory Error_Codes
  imports Prelude
begin

unbundle bit_operations_syntax

text \<open>
  \<open>confidence-resolver/src/err.rs\<close>: the 48-bit error codes that stand in for panics, their
  rendering as eight base64url characters, and the error type of the resolve path. A code is
  derived by FNV-1a from a tag or from the file, line and column of the failing call, so the
  model of a \<open>fail!()\<close> or \<open>.or_fail()?\<close> carries the position it has in the source.
\<close>

datatype error_code = ErrorCode (code_bytes: bytes)

definition bytes_of_string :: "string \<Rightarrow> bytes" where
  [model_defs]: "bytes_of_string s = map of_char s"

definition le_bytes64 :: "u64 \<Rightarrow> bytes" where
  [model_defs]: "le_bytes64 w = map (\<lambda>i. ucast (drop_bit (8 * i) w)) [0..<8]"

definition le_bytes32 :: "u32 \<Rightarrow> bytes" where
  [model_defs]: "le_bytes32 w = map (\<lambda>i. ucast (drop_bit (8 * i) w)) [0..<4]"

text \<open>\<open>u64::from_le_bytes\<close>.\<close>

fun from_le_bytes :: "bytes \<Rightarrow> u64" where
  "from_le_bytes [] = 0"
| "from_le_bytes (b # bs) = push_bit 8 (from_le_bytes bs) OR ucast b"

definition fnv_step :: "u8 \<Rightarrow> u64 \<Rightarrow> u64" where
  [model_defs]: "fnv_step b h = (h XOR ucast b) * 0x1000000001B3"

definition fnv1a64 :: "bytes list \<Rightarrow> u64" where
  [model_defs]: "fnv1a64 parts = fold (fold fnv_step) parts 0xCBF29CE484222325"

definition error_code_new :: "u64 \<Rightarrow> error_code" where
  [model_defs]: "error_code_new code = ErrorCode (take 6 (le_bytes64 code))"

definition from_tag :: "string \<Rightarrow> error_code" where
  [model_defs]: "from_tag tag = error_code_new (fnv1a64 [bytes_of_string tag])"

definition from_location :: "string \<Rightarrow> u32 \<Rightarrow> u32 \<Rightarrow> error_code" where
  [model_defs]: "from_location file line col =
     error_code_new (fnv1a64 [bytes_of_string file, le_bytes32 line, le_bytes32 col])"

definition b64u6 :: "u8 \<Rightarrow> u8" where
  [model_defs]: "b64u6 x =
     (if x \<le> 25 then 65 + x
      else if x \<le> 51 then 97 + (x - 26)
      else if x \<le> 61 then 48 + (x - 52)
      else if x = 62 then 45
      else 95)"

definition b64_load :: "bytes \<Rightarrow> u64" where
  [model_defs]: "b64_load bs = fold (\<lambda>b v. push_bit 8 v OR ucast b) bs 0"

definition b64_sextet :: "u64 \<Rightarrow> nat \<Rightarrow> u8" where
  [model_defs]: "b64_sextet v i = ucast (drop_bit (42 - i * 6) v AND 0x3F)"

definition b64 :: "error_code \<Rightarrow> bytes" where
  [model_defs]: "b64 e = map (\<lambda>i. b64u6 (b64_sextet (b64_load (code_bytes e)) i)) [0..<8]"

definition error_code_value :: "error_code \<Rightarrow> u64" where
  [model_defs]: "error_code_value e = from_le_bytes (code_bytes e @ [0, 0])"

definition b64_str :: "error_code \<Rightarrow> string" where
  [model_defs]: "b64_str e = map (\<lambda>b. char_of (unat b)) (b64 e)"

definition error_code_display :: "error_code \<Rightarrow> string" where
  [model_defs]: "error_code_display e = ''internal error ['' @ b64_str e @ '']''"

text \<open>
  \<open>ResolveError\<close>. The last constructor is not a value of the source's type: it is the outcome of a
  panic inside the resolve path. No handler of the source matches it, so it passes through
  every \<open>?\<close> and every match up to the caller, as unwinding does.
\<close>

datatype resolve_error =
    Internal error_code
  | Message string
  | MissingMaterializations
  | MaterializationsUnsupported
  | UnrecognizedRule
  | Panicked

definition resolve_error_message :: "string \<Rightarrow> resolve_error" where
  [model_defs]: "resolve_error_message msg = Message msg"

text \<open>
  What a public operation of the resolver ends with when it does not return a value: an
  error message, or a panic. \<open>String::from(ResolveError)\<close> and the identical \<open>Display\<close>.
\<close>

datatype failure = Failed string | Panic

fun resolve_error_to_string :: "resolve_error \<Rightarrow> failure" where
  "resolve_error_to_string (Internal code) = Failed (error_code_display code)"
| "resolve_error_to_string (Message msg) = Failed msg"
| "resolve_error_to_string MissingMaterializations = Failed ''Missing materializations''"
| "resolve_error_to_string MaterializationsUnsupported = Failed ''Materializations not supported''"
| "resolve_error_to_string UnrecognizedRule = Failed ''Unrecognized rule''"
| "resolve_error_to_string Panicked = Panic"

text \<open>\<open>?\<close> on a \<open>Fallible\<close> value where the caller returns \<open>Result<_, String>\<close>.\<close>

definition code_failure :: "error_code \<Rightarrow> failure" where
  [model_defs]: "code_failure e = Failed (error_code_display e)"

text \<open>The well-formed codes: exactly six bytes, as the array type of the source has.\<close>

definition wf_code :: "error_code \<Rightarrow> bool" where
  "wf_code e \<longleftrightarrow> length (code_bytes e) = 6"

lemma wf_error_code_new [simp]: "wf_code (error_code_new c)"
  by (simp add: wf_code_def error_code_new_def le_bytes64_def)

lemma wf_from_location [simp]: "wf_code (from_location f l c)"
  by (simp add: from_location_def)

lemma wf_from_tag [simp]: "wf_code (from_tag t)"
  by (simp add: from_tag_def)

lemma wf_codeE:
  assumes "wf_code e"
  obtains b0 b1 b2 b3 b4 b5 where "e = ErrorCode [b0, b1, b2, b3, b4, b5]"
proof -
  obtain bs where "e = ErrorCode bs" "length bs = 6"
    using assms by (cases e) (simp add: wf_code_def)
  then show thesis
    using that by (auto simp: length_Suc_conv eval_nat_numeral)
qed

text \<open>The value of a base64url character, the inverse of \<open>b64u6\<close> on sextets.\<close>

definition u6_of_b64 :: "u8 \<Rightarrow> u8" where
  "u6_of_b64 c =
     (if c = 95 then 63 else if c = 45 then 62
      else if 97 \<le> c then c - 97 + 26 else if 65 \<le> c then c - 65 else c - 48 + 52)"

lemma unat_plus_u8: "unat x + unat k < 256 \<Longrightarrow> unat (k + x :: u8) = unat k + unat x"
  by (simp add: unat_word_ariths add.commute)

lemma unat_minus_u8: "unat k \<le> unat (x :: u8) \<Longrightarrow> unat (x - k) = unat x - unat k"
  by (rule unat_sub) (simp add: word_le_nat_alt)

lemmas u8_to_nat = word_le_nat_alt word_unat_eq_iff unat_plus_u8 unat_minus_u8

lemma u6_of_b64_inverse:
  assumes "x \<le> 63"
  shows "u6_of_b64 (b64u6 x) = x"
proof -
  consider "unat x \<le> 25" | "26 \<le> unat x" "unat x \<le> 51" | "52 \<le> unat x" "unat x \<le> 61"
    | "x = 62" | "x = 63"
    using assms by (force simp: word_le_nat_alt word_unat_eq_iff)
  then show ?thesis
    by cases (auto simp: b64u6_def u6_of_b64_def u8_to_nat)
qed

lemma b64u6_inj: "x \<le> 63 \<Longrightarrow> y \<le> 63 \<Longrightarrow> b64u6 x = b64u6 y \<Longrightarrow> x = y"
  by (metis u6_of_b64_inverse)

lemma b64_sextet_le: "b64_sextet v i \<le> 63"
proof -
  have "drop_bit (42 - i * 6) v AND 0x3F \<le> 63" by (rule word_and_le1)
  then have "unat (drop_bit (42 - i * 6) v AND 0x3F) \<le> 63" by (simp add: word_le_nat_alt)
  then show ?thesis
    unfolding b64_sextet_def
    by (simp add: word_le_nat_alt unsigned_ucast_eq le_trans [OF take_bit_nat_less_eq_self])
qed

lemma b64_length: "length (b64 e) = 8"
  by (simp add: b64_def)

text \<open>
  The eight sextets hold all 48 bits: bit \<open>j\<close> of byte \<open>k\<close> is a bit of one sextet, so equal
  renderings come from equal codes.
\<close>

lemma b64_sextets_determine:
  fixes v w :: u64
  assumes "\<forall>i \<in> {0..<8}. b64_sextet v i = b64_sextet w i" and "n < 48"
  shows "bit v n = bit w n"
proof -
  define i where "i = 7 - n div 6"
  have i: "i < 8" "42 - i * 6 + n mod 6 = n"
  proof -
    show "i < 8" by (simp add: i_def)
    have "n div 6 \<le> 7" "n div 6 * 6 + n mod 6 = n" using assms(2) by auto
    then show "42 - i * 6 + n mod 6 = n" unfolding i_def by linarith
  qed
  have "bit (b64_sextet u i) (n mod 6) = bit u n" for u
  proof -
    have "n mod 6 < 6" by simp
    moreover have "(0x3F :: u64) = mask 6" by (simp add: mask_eq_exp_minus_1)
    ultimately have "bit (0x3F :: u64) (n mod 6)" by (simp only: bit_mask_iff) simp
    then show ?thesis
      using i(2) \<open>n mod 6 < 6\<close> assms(2)
      by (simp add: b64_sextet_def bit_simps less_trans [OF \<open>n mod 6 < 6\<close>])
  qed
  then show ?thesis using assms(1) i(1) by (metis atLeastLessThan_iff zero_le)
qed

lemma b64_load_snoc: "b64_load (bs @ [b]) = push_bit 8 (b64_load bs) OR ucast b"
  by (simp add: b64_load_def)

lemma b64_load_bit:
  "length bs \<le> 8 \<Longrightarrow> k < length bs \<Longrightarrow> j < 8 \<Longrightarrow>
    bit (b64_load bs) (8 * (length bs - 1 - k) + j) = bit (bs ! k) j"
proof (induction bs rule: rev_induct)
  case (snoc b bs)
  show ?case
  proof (cases "k < length bs")
    case True
    define n where "n = 8 * (length bs - 1 - k) + j"
    have n: "8 * (length (bs @ [b]) - 1 - k) + j = n + 8" "n + 8 < 64"
      using True snoc.prems by (auto simp: n_def)
    have "\<not> bit b (n + 8)" using bit_imp_le_length [of b "n + 8"] by auto
    then have "bit (b64_load (bs @ [b])) (n + 8) = bit (b64_load bs) n"
      using n(2) by (simp add: b64_load_snoc bit_simps)
    also have "\<dots> = bit (bs ! k) j" using snoc True by (simp add: n_def)
    finally show ?thesis using n(1) True by (simp add: nth_append)
  next
    case False
    with snoc.prems have "k = length bs" by simp
    with snoc.prems show ?thesis by (simp add: b64_load_snoc bit_simps)
  qed
qed simp

lemma b64_inj:
  assumes "wf_code e" "wf_code f" "b64 e = b64 f"
  shows "e = f"
proof -
  let ?v = "b64_load (code_bytes e)" and ?w = "b64_load (code_bytes f)"
  have "\<forall>i \<in> {0..<8}. b64_sextet ?v i = b64_sextet ?w i"
  proof
    fix i :: nat assume "i \<in> {0..<8}"
    then have "i \<in> set [0..<8]" by simp
    moreover have "\<forall>i \<in> set [0..<8].
        b64u6 (b64_sextet ?v i) = b64u6 (b64_sextet ?w i)"
      using assms(3) unfolding b64_def map_eq_conv .
    ultimately have "b64u6 (b64_sextet ?v i) = b64u6 (b64_sextet ?w i)" by (rule bspec [rotated])
    then show "b64_sextet ?v i = b64_sextet ?w i"
      by (rule b64u6_inj [OF b64_sextet_le b64_sextet_le])
  qed
  note bits = b64_sextets_determine [OF this]
  have "code_bytes e = code_bytes f"
  proof (rule nth_equalityI)
    fix k assume "k < length (code_bytes e)"
    then have k: "k < 6" using assms(1) by (simp add: wf_code_def)
    show "code_bytes e ! k = code_bytes f ! k"
    proof (rule bit_word_eqI)
      fix j :: nat assume "j < LENGTH(8)"
      then have "8 * (5 - k) + j < 48" "j < 8" using k by auto
      then show "bit (code_bytes e ! k) j = bit (code_bytes f ! k) j"
      proof -
        have *: "bit (b64_load bs) (8 * (5 - k) + j) = bit (bs ! k) j" if "length bs = 6" for bs
          using b64_load_bit [of bs k j] that k \<open>j < 8\<close> by simp
        show ?thesis
          using bits [OF \<open>8 * (5 - k) + j < 48\<close>] assms(1,2) by (simp only: * wf_code_def)
      qed
    qed
  qed (use assms in \<open>simp add: wf_code_def\<close>)
  then show ?thesis by (simp add: error_code.expand)
qed

end
