(* ===== verification/Evaluation_Context.thy ===== *)
theory Evaluation_Context
  imports Float64 Error_Codes
begin

text \<open>
  The evaluation context: \<open>google.protobuf.Struct\<close> values, the merge of a client's managed
  context into the request's (\<open>confidence-resolver/src/managed_context.rs\<close>), attribute lookup
  by dotted path and the targeting key (\<open>get_attribute_value\<close>, \<open>get_targeting_key\<close> in
  \<open>confidence-resolver/src/lib.rs\<close>). A struct's fields are the entries of a \<open>BTreeMap\<close>, in key
  order.
\<close>

text \<open>A \<open>Value\<close> is its optional \<open>kind\<close>; \<open>NULL\<close> is the value without one.\<close>

datatype gkind =
    NullValue int
  | NumberValue f64
  | StringValue string
  | BoolValue bool
  | StructValue "(string \<times> gkind option) list"
  | ListValue "gkind option list"

type_synonym gvalue = "gkind option"
type_synonym gstruct = "gvalue fields"

definition NULL :: gvalue where
  [model_defs]: "NULL = None"

definition TARGETING_KEY :: string where
  [model_defs]: "TARGETING_KEY = ''targeting_key''"

fun is_struct :: "gvalue \<Rightarrow> bool" where
  "is_struct (Some (StructValue _)) = True"
| "is_struct _ = False"

fun struct_fields :: "gvalue option \<Rightarrow> gstruct" where
  "struct_fields (Some (Some (StructValue fs))) = fs"
| "struct_fields _ = []"

section \<open>managed_context.rs\<close>

text \<open>
  \<open>set_nested(current, parts, idx, val)\<close>; the model keeps the parts from \<open>idx\<close> on instead
  of the index.
\<close>

fun set_nested :: "gstruct \<Rightarrow> string list \<Rightarrow> gvalue \<Rightarrow> gstruct" where
  "set_nested current [] val = current"
| "set_nested current [key] val = bt_insert key val current"
| "set_nested current (key # next # parts) val =
     bt_insert key
       (Some (StructValue (set_nested (struct_fields (map_of current key)) (next # parts) val)))
       current"

definition unflatten :: "gstruct \<Rightarrow> gstruct" where
  [model_defs]: "unflatten flat =
     fold (\<lambda>(path, val) root. set_nested root (split_on CHR ''.'' path) val) flat []"

fun merge_structs :: "gstruct \<Rightarrow> gstruct \<Rightarrow> gstruct" where
  "merge_structs [] result = result"
| "merge_structs ((key, managed_val) # managed) result =
     merge_structs managed
       (bt_insert key
         (case managed_val of
            Some (StructValue ms) \<Rightarrow>
              (case map_of result key of
                 Some (Some (StructValue rs)) \<Rightarrow> Some (StructValue (merge_structs ms rs))
               | _ \<Rightarrow> managed_val)
          | _ \<Rightarrow> managed_val)
         result)"

definition merge_context :: "gstruct \<Rightarrow> gstruct \<Rightarrow> gstruct" where
  [model_defs]: "merge_context managed request_context =
     (if managed = [] then request_context
      else merge_structs (unflatten managed) request_context)"

section \<open>Attribute lookup\<close>

fun get_path :: "gstruct \<Rightarrow> string list \<Rightarrow> gvalue" where
  "get_path s [] = NULL"
| "get_path s (field # parts) =
     (case map_of s field of
        None \<Rightarrow> NULL
      | Some value \<Rightarrow>
          if parts = [] then value
          else (case value of Some (StructValue struct_value) \<Rightarrow> get_path struct_value parts
                | _ \<Rightarrow> NULL))"

definition get_attribute_value :: "gstruct \<Rightarrow> string \<Rightarrow> gvalue" where
  [model_defs]: "get_attribute_value context field_path = get_path context (split_on CHR ''.'' field_path)"

definition get_targeting_key :: "gstruct \<Rightarrow> string \<Rightarrow> string + string option" where
  [model_defs]: "get_targeting_key context targeting_key =
     (let checked = (\<lambda>unit. if 100 < length unit
                       then Inl ''Targeting key is too long, max 100 characters.''
                       else Inr (Some unit))
      in case get_attribute_value context targeting_key of
        None \<Rightarrow> Inr None
      | Some (NullValue _) \<Rightarrow> Inr None
      | Some (StringValue string_unit) \<Rightarrow> checked string_unit
      | Some (NumberValue num_value) \<Rightarrow>
          if f64_is_finite num_value \<and> f64_is_integral num_value
          then checked (f64_show_integral num_value)
          else Inl ''TargetingKeyError''
      | _ \<Rightarrow> Inl ''TargetingKeyError'')"

section \<open>Paths\<close>

text \<open>The entry at a path, if the path exists: lookup as the specification sees it.\<close>

fun find_path :: "gstruct \<Rightarrow> string list \<Rightarrow> gvalue option" where
  "find_path s [] = None"
| "find_path s [k] = map_of s k"
| "find_path s (k # k' # ks) = find_path (struct_fields (map_of s k)) (k' # ks)"

lemma find_path_empty [simp]: "find_path [] ks = None"
  by (induction "[] :: gstruct" ks rule: find_path.induct) auto

lemma get_path_find: "get_path s ks = (case find_path s ks of None \<Rightarrow> NULL | Some v \<Rightarrow> v)"
proof (induction s ks rule: find_path.induct)
  case (3 s k k' ks)
  show ?case
  proof (cases "map_of s k")
    case (Some v)
    with 3 show ?thesis by (cases v rule: is_struct.cases) (auto simp: NULL_def)
  qed (auto simp: NULL_def)
qed (auto simp: NULL_def split: option.splits)

text \<open>Paths of which neither leads through the other.\<close>

definition apart :: "'a list \<Rightarrow> 'a list \<Rightarrow> bool" where
  "apart p q \<longleftrightarrow> take (length p) q \<noteq> p \<and> take (length q) p \<noteq> q"

lemma apart_Cons: "apart (x # p) (y # q) \<longleftrightarrow> x \<noteq> y \<or> apart p q"
  by (auto simp: apart_def)

lemma apart_sym: "apart p q \<longleftrightarrow> apart q p"
  by (auto simp: apart_def)

lemma apart_not_Nil: "apart p q \<Longrightarrow> p \<noteq> [] \<and> q \<noteq> []"
  by (auto simp: apart_def)

lemma find_set_nested_same: "p \<noteq> [] \<Longrightarrow> find_path (set_nested s p v) p = Some v"
  by (induction s p v rule: set_nested.induct) auto

lemma find_set_nested_apart: "apart p q \<Longrightarrow> find_path (set_nested s p v) q = find_path s q"
proof (induction s p v arbitrary: q rule: set_nested.induct)
  case (2 current key val)
  then show ?case by (cases "(current, q)" rule: find_path.cases) (auto simp: apart_def)
next
  case (3 current key nxt parts val)
  show ?case
  proof (cases "(current, q)" rule: find_path.cases)
    case (2 s k)
    with "3.prems" show ?thesis by (auto simp: apart_def)
  next
    case (3 s k k' ks)
    with "3.IH" [of "k' # ks"] "3.prems" show ?thesis by (auto simp: apart_Cons)
  qed (use "3.prems" in \<open>simp add: apart_def\<close>)
qed (simp add: apart_def)

text \<open>A struct at every level sorted by key, as \<open>BTreeMap\<close>s are.\<close>

fun wf_entries :: "gstruct \<Rightarrow> bool" where
  "wf_entries [] = True"
| "wf_entries ((k, Some (StructValue fs)) # s) = (sorted_keys fs \<and> wf_entries fs \<and> wf_entries s)"
| "wf_entries ((k, v) # s) = wf_entries s"

definition wf_struct :: "gstruct \<Rightarrow> bool" where
  "wf_struct s \<longleftrightarrow> sorted_keys s \<and> wf_entries s"

lemma wf_entries_iff:
  "wf_entries s \<longleftrightarrow> (\<forall>k fs. (k, Some (StructValue fs)) \<in> set s \<longrightarrow> wf_struct fs)"
  unfolding wf_struct_def by (induction s rule: wf_entries.induct) auto

lemma wf_struct_intro:
  "sorted_keys s \<Longrightarrow> (\<And>k fs. (k, Some (StructValue fs)) \<in> set s \<Longrightarrow> wf_struct fs) \<Longrightarrow> wf_struct s"
  by (simp add: wf_struct_def [of s] wf_entries_iff)

lemma wf_struct_member: "wf_struct s \<Longrightarrow> (k, Some (StructValue fs)) \<in> set s \<Longrightarrow> wf_struct fs"
  by (auto simp: wf_struct_def [of s] wf_entries_iff)

lemma wf_struct_Nil [simp]: "wf_struct []"
  by (simp add: wf_struct_def sorted_keys_def)

lemma wf_struct_sorted: "wf_struct s \<Longrightarrow> sorted_keys s"
  by (simp add: wf_struct_def)

lemma wf_struct_lookup: "wf_struct s \<Longrightarrow> wf_struct (struct_fields (map_of s k))"
proof (cases "map_of s k")
  case (Some v)
  assume "wf_struct s"
  with Some show ?thesis
    by (cases v rule: is_struct.cases) (auto intro: wf_struct_member dest: map_of_SomeD)
qed auto

lemma wf_struct_insert:
  assumes "wf_struct s" "\<And>fs. v = Some (StructValue fs) \<Longrightarrow> wf_struct fs"
  shows "wf_struct (bt_insert k v s)"
proof (rule wf_struct_intro)
  have s: "sorted_keys s" using assms(1) by (rule wf_struct_sorted)
  then show sorted: "sorted_keys (bt_insert k v s)" by (rule sorted_keys_bt_insert)
  fix k' fs assume "(k', Some (StructValue fs)) \<in> set (bt_insert k v s)"
  then have "map_of (bt_insert k v s) k' = Some (Some (StructValue fs))"
    using sorted by (simp add: bt.mem_iff_lookup)
  then show "wf_struct fs"
    using assms wf_struct_lookup [OF assms(1), of k'] by (auto split: if_splits)
qed

lemma wf_set_nested:
  "wf_struct s \<Longrightarrow> (\<And>fs. v = Some (StructValue fs) \<Longrightarrow> wf_struct fs) \<Longrightarrow> wf_struct (set_nested s p v)"
  by (induction s p v rule: set_nested.induct) (auto intro!: wf_struct_insert wf_struct_lookup)

section \<open>The merge\<close>

text \<open>One level of the merge: the managed value, merged with the request's when both are structs.\<close>

definition merge_value :: "gvalue \<Rightarrow> gvalue option \<Rightarrow> gvalue" where
  "merge_value mv old =
     (case mv of
        Some (StructValue ms) \<Rightarrow>
          (case old of Some (Some (StructValue rs)) \<Rightarrow> Some (StructValue (merge_structs ms rs)) | _ \<Rightarrow> mv)
      | _ \<Rightarrow> mv)"

lemma merge_structs_Cons:
  "merge_structs ((k, mv) # m) r = merge_structs m (bt_insert k (merge_value mv (map_of r k)) r)"
  by (simp add: merge_value_def)

lemma merge_value_scalar: "\<not> is_struct mv \<Longrightarrow> merge_value mv old = mv"
  by (cases mv rule: is_struct.cases) (auto simp: merge_value_def)

declare merge_structs.simps(2) [simp del]

lemma lookup_merge:
  "distinct (map fst m) \<Longrightarrow> map_of (merge_structs m r) k =
     (case map_of m k of None \<Rightarrow> map_of r k | Some mv \<Rightarrow> Some (merge_value mv (map_of r k)))"
proof (induction m arbitrary: r)
  case (Cons p m)
  obtain k' mv where p: "p = (k', mv)" by (cases p)
  from Cons.prems have "map_of m k' = None" by (simp add: p map_of_eq_None_iff)
  with Cons show ?case by (auto simp: p merge_structs_Cons split: option.splits)
qed simp

lemma wf_merge: "wf_struct m \<Longrightarrow> wf_struct r \<Longrightarrow> wf_struct (merge_structs m r)"
proof (induction m r rule: merge_structs.induct)
  case (2 key mv m r)
  have "wf_struct m"
    using "2.prems"(1) by (cases mv rule: is_struct.cases) (auto simp: wf_struct_def sorted_keys_def)
  moreover have "wf_struct (bt_insert key (merge_value mv (map_of r key)) r)"
  proof (rule wf_struct_insert [OF "2.prems"(2)])
    fix fs assume fs: "merge_value mv (map_of r key) = Some (StructValue fs)"
    show "wf_struct fs"
    proof (cases mv rule: is_struct.cases)
      case (1 ms)
      then have ms: "wf_struct ms" using "2.prems"(1) by (auto intro: wf_struct_member)
      show ?thesis
      proof (cases "\<exists>rs. map_of r key = Some (Some (StructValue rs))")
        case True
        then obtain rs where rs: "map_of r key = Some (Some (StructValue rs))" by blast
        then have "wf_struct rs" using wf_struct_lookup [OF "2.prems"(2), of key] by simp
        with "2.IH"(1) 1 rs ms have "wf_struct (merge_structs ms rs)" by blast
        with 1 rs fs show ?thesis by (simp add: merge_value_def)
      next
        case False
        with 1 fs have "fs = ms"
          by (auto simp: merge_value_def split: option.splits gkind.splits)
        with ms show ?thesis by simp
      qed
    qed (use fs "2.prems"(1) in \<open>auto simp: merge_value_scalar intro: wf_struct_member\<close>)
  qed
  ultimately show ?case using "2.IH"(2) by (simp add: merge_structs_Cons merge_value_def)
qed simp

lemma find_merge_managed:
  "wf_struct m \<Longrightarrow> find_path m p = Some v \<Longrightarrow> \<not> is_struct v \<Longrightarrow>
     find_path (merge_structs m r) p = Some v"
proof (induction m p arbitrary: r rule: find_path.induct)
  case (2 s k)
  then show ?case
    by (simp add: lookup_merge sorted_keys_distinct wf_struct_sorted merge_value_scalar)
next
  case (3 s k k' ks)
  then obtain fs where fs: "map_of s k = Some (Some (StructValue fs))"
    by (cases "map_of s k" rule: struct_fields.cases) auto
  with 3 show ?case
    using wf_struct_lookup [OF "3.prems"(1), of k]
    by (auto simp: lookup_merge sorted_keys_distinct wf_struct_sorted merge_value_def
        split: option.splits gkind.splits)
qed simp

text \<open>A path that the managed struct neither defines nor cuts off.\<close>

fun free_path :: "gstruct \<Rightarrow> string list \<Rightarrow> bool" where
  "free_path s [] = True"
| "free_path s [k] = (map_of s k = None)"
| "free_path s (k # k' # ks) =
     (case map_of s k of
        None \<Rightarrow> True
      | Some v \<Rightarrow> is_struct v \<and> free_path (struct_fields (Some v)) (k' # ks))"

lemma free_path_empty [simp]: "free_path [] p"
  by (cases "([] :: gstruct, p)" rule: free_path.cases) auto

lemma free_path_find: "free_path s p \<Longrightarrow> find_path s p = None"
  by (induction s p rule: free_path.induct) (auto split: option.splits)

lemma free_path_fields: "free_path s (k # k' # ks) \<Longrightarrow> free_path (struct_fields (map_of s k)) (k' # ks)"
  by (auto split: option.splits)

lemma free_set_nested:
  "apart p q \<Longrightarrow> free_path s q \<Longrightarrow> free_path (set_nested s p v) q"
proof (induction s p v arbitrary: q rule: set_nested.induct)
  case (2 current key val)
  then show ?case by (cases "(current, q)" rule: free_path.cases) (auto simp: apart_def)
next
  case (3 current key nxt parts val)
  show ?case
  proof (cases "(current, q)" rule: free_path.cases)
    case (2 s k)
    with "3.prems" show ?thesis by (auto simp: apart_def)
  next
    case (3 s k k' ks)
    show ?thesis
    proof (cases "k = key")
      case True
      with 3 "3.prems" have "apart (nxt # parts) (k' # ks)"
        "free_path (struct_fields (map_of current key)) (k' # ks)"
        by (auto simp: apart_Cons intro: free_path_fields)
      with "3.IH" 3 True show ?thesis by simp
    next
      case False
      with 3 "3.prems" show ?thesis by simp
    qed
  qed (use "3.prems" in simp)
qed (simp add: apart_def)

lemma find_merge_free:
  "wf_struct m \<Longrightarrow> free_path m p \<Longrightarrow> find_path (merge_structs m r) p = find_path r p"
proof (induction m p arbitrary: r rule: free_path.induct)
  case (2 s k)
  then show ?case by (simp add: lookup_merge sorted_keys_distinct wf_struct_sorted)
next
  case (3 s k k' ks)
  note lm = lookup_merge [OF sorted_keys_distinct [OF wf_struct_sorted [OF "3.prems"(1)]]]
  show ?case
  proof (cases "map_of s k")
    case None
    then show ?thesis by (simp add: lm)
  next
    case (Some v)
    with "3.prems"(2) obtain ms where v: "v = Some (StructValue ms)"
      by (cases v rule: is_struct.cases) auto
    have ms: "wf_struct ms" using wf_struct_lookup [OF "3.prems"(1), of k] Some v by simp
    have free: "free_path ms (k' # ks)" using "3.prems"(2) Some v by simp
    show ?thesis
    proof (cases "\<exists>rs. map_of r k = Some (Some (StructValue rs))")
      case True
      then obtain rs where rs: "map_of r k = Some (Some (StructValue rs))" by blast
      have "find_path (merge_structs ms rs) (k' # ks) = find_path rs (k' # ks)"
        using "3.IH" [OF Some] v ms free by simp
      then show ?thesis using Some v rs by (simp add: lm merge_value_def)
    next
      case False
      then have "struct_fields (map_of r k) = []"
        by (cases "map_of r k" rule: struct_fields.cases) auto
      moreover have "merge_value v (map_of r k) = v"
        using False v by (auto simp: merge_value_def split: option.splits gkind.splits)
      ultimately show ?thesis using Some v free by (simp add: lm free_path_find)
    qed
  qed
qed simp

section \<open>The managed context as a whole\<close>

abbreviation path_of :: "string \<Rightarrow> string list" where
  "path_of \<equiv> split_on CHR ''.''"

definition add_flat :: "string \<times> gvalue \<Rightarrow> gstruct \<Rightarrow> gstruct" where
  "add_flat = (\<lambda>(path, val) root. set_nested root (path_of path) val)"

lemma unflatten_alt: "unflatten flat = fold add_flat flat []"
  by (simp add: unflatten_def add_flat_def)

lemma wf_fold_flat:
  "wf_entries flat \<Longrightarrow> wf_struct root \<Longrightarrow> wf_struct (fold add_flat flat root)"
proof (induction flat arbitrary: root)
  case (Cons e flat)
  obtain p v where e: "e = (p, v)" by (cases e)
  with Cons.prems have "wf_entries flat" "\<And>fs. v = Some (StructValue fs) \<Longrightarrow> wf_struct fs"
    by (auto simp: wf_entries_iff)
  with Cons show ?case by (simp add: e add_flat_def wf_set_nested)
qed simp

lemma wf_unflatten: "wf_entries flat \<Longrightarrow> wf_struct (unflatten flat)"
  by (simp add: unflatten_alt wf_fold_flat)

lemma find_fold_apart:
  "\<forall>e \<in> set flat. apart (path_of (fst e)) q \<Longrightarrow>
     find_path (fold add_flat flat root) q = find_path root q"
  by (induction flat arbitrary: root) (auto simp: add_flat_def find_set_nested_apart)

lemma free_fold_apart:
  "\<forall>e \<in> set flat. apart (path_of (fst e)) q \<Longrightarrow> free_path root q \<Longrightarrow>
     free_path (fold add_flat flat root) q"
  by (induction flat arbitrary: root) (auto simp: add_flat_def free_set_nested)

lemma find_unflatten:
  assumes "(path, v) \<in> set flat" "distinct (map fst flat)"
    and "\<forall>e \<in> set flat. fst e = path \<or> apart (path_of (fst e)) (path_of path)"
  shows "find_path (unflatten flat) (path_of path) = Some v"
proof -
  obtain xs ys where flat: "flat = xs @ (path, v) # ys"
    using assms(1) by (auto dest: split_list)
  have "path \<notin> fst ` set ys" using assms(2) by (simp add: flat)
  then have "\<forall>e \<in> set ys. fst e \<noteq> path" by blast
  moreover have "\<forall>e \<in> set ys. fst e = path \<or> apart (path_of (fst e)) (path_of path)"
    using assms(3) by (simp add: flat)
  ultimately have "\<forall>e \<in> set ys. apart (path_of (fst e)) (path_of path)" by blast
  then show ?thesis
    by (simp add: unflatten_alt flat find_fold_apart)
       (simp add: add_flat_def find_set_nested_same)
qed

lemma merge_context_unfold: "merge_context managed r = merge_structs (unflatten managed) r"
  by (simp add: merge_context_def unflatten_alt)

text \<open>C10: A scalar of a client's managed context overrides whatever the request context says
  at that path: attribute lookup in the effective context returns the managed value, provided
  no other managed path runs through the same path.\<close>

theorem managed_value_wins:
  assumes "wf_struct managed" "(path, v) \<in> set managed" "\<not> is_struct v"
    and "\<forall>e \<in> set managed. fst e = path \<or> apart (path_of (fst e)) (path_of path)"
  shows "get_attribute_value (merge_context managed request) path = v"
proof -
  have "distinct (map fst managed)" "wf_entries managed"
    using assms(1) by (simp_all add: sorted_keys_distinct wf_struct_def)
  then have "find_path (merge_context managed request) (path_of path) = Some v"
    using assms by (simp add: merge_context_unfold find_merge_managed wf_unflatten find_unflatten)
  then show ?thesis by (simp add: get_attribute_value_def get_path_find)
qed

definition managed_example :: gstruct where
  "managed_example = [(''app.name'', Some (StringValue ''checkout'')), (''tier'', Some (BoolValue True))]"

definition request_example :: gstruct where
  "request_example =
     [(''app'', Some (StructValue [(''name'', Some (StringValue ''x'')), (''version'', Some (StringValue ''1.2''))])),
      (''tier'', Some (BoolValue False))]"

theorem managed_value_wins_witness:
  "get_attribute_value (merge_context managed_example request_example) ''app.name''
     = Some (StringValue ''checkout'')"
  by (rule managed_value_wins)
     (auto simp: managed_example_def wf_struct_def sorted_keys_def apart_def)

text \<open>The merge keeps the request's siblings: a path that no managed path starts with or
  extends has in the effective context the value it has in the request.\<close>

lemma request_siblings_preserved:
  assumes "wf_struct managed"
    and "\<forall>e \<in> set managed. apart (path_of (fst e)) (path_of path)"
  shows "get_attribute_value (merge_context managed request) path = get_attribute_value request path"
proof -
  have "wf_struct (unflatten managed)" using assms(1) by (simp add: wf_unflatten wf_struct_def [of managed])
  moreover have "free_path (unflatten managed) (path_of path)"
    using assms(2) by (simp add: unflatten_alt free_fold_apart)
  ultimately show ?thesis
    by (simp add: get_attribute_value_def get_path_find merge_context_unfold find_merge_free)
qed

theorem request_siblings_preserved_witness:
  "get_attribute_value (merge_context managed_example request_example) ''app.version''
     = Some (StringValue ''1.2'')"
  by (subst request_siblings_preserved)
     (auto simp: managed_example_def wf_struct_def sorted_keys_def apart_def
        request_example_def get_attribute_value_def)

text \<open>The effective context is again a well-formed \<open>Struct\<close> (every level sorted by key) when
  the managed and the request context are.\<close>

lemma merge_context_wf:
  assumes "wf_struct managed" "wf_struct request"
  shows "wf_struct (merge_context managed request)"
proof -
  have "wf_entries managed" using assms(1) by (simp add: wf_struct_def)
  then show ?thesis using assms(2) by (simp add: merge_context_unfold wf_merge wf_unflatten)
qed

theorem merge_context_wf_witness: "wf_struct (merge_context managed_example request_example)"
  by (rule merge_context_wf)
     (auto simp: managed_example_def request_example_def wf_struct_def sorted_keys_def)

lemma targeting_key_bound: "get_targeting_key context key = Inr (Some u) \<Longrightarrow> length u \<le> 100"
  by (auto simp: get_targeting_key_def Let_def split: option.splits gkind.splits if_splits)

lemma targeting_key_absent:
  "get_targeting_key context key = Inr None \<longleftrightarrow>
     (case get_attribute_value context key of None \<Rightarrow> True | Some (NullValue _) \<Rightarrow> True | _ \<Rightarrow> False)"
  by (auto simp: get_targeting_key_def Let_def split: option.splits gkind.splits)

end
