(* ===== verification/Libraries.thy ===== *)
theory Libraries
  imports Error_Codes
begin

text \<open>
  The third-party functions the resolver core calls, as parameters of the model: Guava's
  128-bit Murmur3 (\<open>fastmurmur3\<close>, seed 0), the date functions of \<open>chrono\<close>, the inflate of
  \<open>miniz_oxide\<close> and the checksum of \<open>crc32fast\<close>. A
  \<open>DateTime<Utc>\<close> is seen only through \<open>timestamp()\<close> and \<open>timestamp_subsec_nanos()\<close>, so it is
  the pair of them; a duration is its number of nanoseconds. A \<open>Naive\<close> date or time that was
  parsed is the instant it denotes in UTC.
\<close>

record timestamp =
  seconds :: int
  nanos :: int

type_synonym datetime = "int \<times> nat"

record libs =
  murmur3_x64_128 :: "string \<Rightarrow> u128"
  from_timestamp :: "int \<Rightarrow> nat \<Rightarrow> datetime option"
  from_timestamp_millis :: "int \<Rightarrow> datetime option"
  parse_from_rfc3339 :: "string \<Rightarrow> datetime option"
  parse_naive_datetime :: "string \<Rightarrow> string \<Rightarrow> datetime option"
  parse_naive_date :: "string \<Rightarrow> string \<Rightarrow> datetime option"
  signed_duration_since :: "datetime \<Rightarrow> datetime \<Rightarrow> int"
  checked_sub_signed :: "datetime \<Rightarrow> int \<Rightarrow> datetime option"
  decompress_to_vec :: "bytes \<Rightarrow> bytes option"
  crc32 :: "bytes \<Rightarrow> u32"

definition u32_of_i32 :: "int \<Rightarrow> nat" where
  [model_defs]: "u32_of_i32 n = nat (n mod 2 ^ 32)"

text \<open>
  \<open>datetime_to_timestamp\<close>, and \<open>timestamp_to_datetime\<close> / \<open>to_date_time_utc\<close> of
  \<open>confidence-resolver/src/lib.rs\<close>, which differ in how they fail.
\<close>

definition datetime_to_timestamp :: "datetime \<Rightarrow> timestamp" where
  [model_defs]: "datetime_to_timestamp dt = \<lparr>seconds = fst dt, nanos = int (snd dt)\<rparr>"

definition to_date_time_utc :: "libs \<Rightarrow> timestamp \<Rightarrow> datetime option" where
  [model_defs]: "to_date_time_utc L ts = from_timestamp L (seconds ts) (u32_of_i32 (nanos ts))"

definition timestamp_to_datetime :: "libs \<Rightarrow> timestamp \<Rightarrow> error_code + datetime" where
  [model_defs]: "timestamp_to_datetime L ts =
     or_fail (from_location ''confidence-resolver/src/lib.rs'' 99 59)
       (from_timestamp L (seconds ts) (u32_of_i32 (nanos ts)))"

text \<open>The order of instants: seconds, then the nanoseconds within the second.\<close>

definition timestamp_lt :: "timestamp \<Rightarrow> timestamp \<Rightarrow> bool" where
  [model_defs]: "timestamp_lt a b =
     (if seconds a < seconds b then True
      else if seconds a = seconds b then nanos a < nanos b
      else False)"

definition timestamp_lte :: "timestamp \<Rightarrow> timestamp \<Rightarrow> bool" where
  [model_defs]: "timestamp_lte a b =
     (if seconds a < seconds b then True
      else if seconds a = seconds b then nanos a \<le> nanos b
      else False)"

text \<open>It is a linear order, so that the library's automation for orders applies to timestamps.\<close>

instantiation timestamp_ext :: (linorder) linorder
begin

definition less_timestamp_ext :: "'a timestamp_scheme \<Rightarrow> 'a timestamp_scheme \<Rightarrow> bool" where
  "less_timestamp_ext a b \<longleftrightarrow> seconds a < seconds b
     \<or> seconds a = seconds b \<and> (nanos a < nanos b \<or> nanos a = nanos b \<and> timestamp.more a < timestamp.more b)"

definition less_eq_timestamp_ext :: "'a timestamp_scheme \<Rightarrow> 'a timestamp_scheme \<Rightarrow> bool" where
  "less_eq_timestamp_ext a b \<longleftrightarrow> seconds a < seconds b
     \<or> seconds a = seconds b \<and> (nanos a < nanos b \<or> nanos a = nanos b \<and> timestamp.more a \<le> timestamp.more b)"

instance
  by standard (auto simp: less_timestamp_ext_def less_eq_timestamp_ext_def)

end

lemma timestamp_order: "timestamp_lt a b \<longleftrightarrow> a < b" "timestamp_lte a b \<longleftrightarrow> a \<le> b"
  by (auto simp: timestamp_lt_def timestamp_lte_def less_timestamp_ext_def less_eq_timestamp_ext_def)

text \<open>
  A concrete instance of the parameters, for the closed instances of the theorems: the hash is
  the length of the key shifted left, an instant is accepted when its nanoseconds are less
  than a second, nothing is parsed, durations are differences of nanoseconds, inflating is
  the identity and the checksum is the length.
\<close>

definition example_libs :: libs where
  "example_libs = \<lparr>
     murmur3_x64_128 = (\<lambda>key. of_nat (16 * length key)),
     from_timestamp = (\<lambda>s n. if n < 1000000000 then Some (s, n) else None),
     from_timestamp_millis = (\<lambda>ms. Some (ms div 1000, nat (ms mod 1000) * 1000000)),
     parse_from_rfc3339 = (\<lambda>s. None),
     parse_naive_datetime = (\<lambda>s fmt. None),
     parse_naive_date = (\<lambda>s fmt. None),
     signed_duration_since = (\<lambda>a b. (fst a * 1000000000 + int (snd a)) - (fst b * 1000000000 + int (snd b))),
     checked_sub_signed = (\<lambda>a d. let t = fst a * 1000000000 + int (snd a) - d in
        Some (t div 1000000000, nat (t mod 1000000000))),
     decompress_to_vec = (\<lambda>data. Some data),
     crc32 = (\<lambda>data. of_nat (length data))\<rparr>"

end
