(* ===== verification/Targeting_Values.thy ===== *)
theory Targeting_Values
  imports Evaluation_Context Libraries
begin

text \<open>
  \<open>confidence-resolver/src/value.rs\<close>: the conversion of a context attribute to the type a
  targeting rule expects, and the rules themselves (equality, sets, ranges, prefix, suffix,
  substring, and the any/all rules over lists). The targeting messages
  (\<open>targeting.proto\<close>) are datatypes with an \<open>option\<close> wherever the wire format has an unset
  oneof or submessage.
\<close>

section \<open>The targeting messages\<close>

datatype tkind =
    TBool bool
  | TNumber f64
  | TString string
  | TTimestamp timestamp
  | TVersion string
  | TList "tkind option list"

type_synonym tvalue = "tkind option"

datatype bound = Inclusive tvalue | Exclusive tvalue

record range_rule =
  range_start :: "bound option"
  range_end :: "bound option"

datatype inner_rule =
    IEqRule "tvalue option"
  | ISetRule "tvalue list"
  | IRangeRule range_rule
  | IStartsWithRule string
  | IEndsWithRule string
  | IContainsRule string

datatype attr_rule =
    EqRule "tvalue option"
  | SetRule "tvalue list"
  | RangeRule range_rule
  | AnyRule "inner_rule option option"
  | AllRule "inner_rule option option"
  | StartsWithRule string
  | EndsWithRule string
  | ContainsRule string

record attribute_criterion =
  attribute_name :: string
  attribute_rule :: "attr_rule option"

text \<open>The derived \<open>PartialEq\<close> of \<open>targeting::Value\<close>: numbers compare as \<open>f64\<close>s.\<close>

fun tkind_eq :: "tkind \<Rightarrow> tkind \<Rightarrow> bool" and tvalues_eq :: "tvalue list \<Rightarrow> tvalue list \<Rightarrow> bool" where
  "tkind_eq (TBool a) (TBool b) = (a = b)"
| "tkind_eq (TNumber a) (TNumber b) = f64_eq a b"
| "tkind_eq (TString a) (TString b) = (a = b)"
| "tkind_eq (TTimestamp a) (TTimestamp b) = (a = b)"
| "tkind_eq (TVersion a) (TVersion b) = (a = b)"
| "tkind_eq (TList a) (TList b) = tvalues_eq a b"
| "tkind_eq _ _ = False"
| "tvalues_eq [] [] = True"
| "tvalues_eq (None # a) (None # b) = tvalues_eq a b"
| "tvalues_eq (Some x # a) (Some y # b) = (tkind_eq x y \<and> tvalues_eq a b)"
| "tvalues_eq _ _ = False"

fun tvalue_eq :: "tvalue \<Rightarrow> tvalue \<Rightarrow> bool" where
  "tvalue_eq None None = True"
| "tvalue_eq (Some a) (Some b) = tkind_eq a b"
| "tvalue_eq _ _ = False"

definition tvalues_contain :: "tvalue list \<Rightarrow> tvalue \<Rightarrow> bool" where
  [model_defs]: "tvalues_contain xs v \<longleftrightarrow> list_ex (\<lambda>x. tvalue_eq x v) xs"

section \<open>Null equality\<close>

fun is_null :: "gvalue \<Rightarrow> bool" where
  "is_null None = True"
| "is_null (Some (NullValue _)) = True"
| "is_null _ = False"

definition evaluate_null_equality :: "attribute_criterion \<Rightarrow> gvalue \<Rightarrow> bool option" where
  [model_defs]: "evaluate_null_equality attribute_criterion attribute_value =
     (case attribute_rule attribute_criterion of
        Some (EqRule (Some None)) \<Rightarrow>
          Some (case attribute_value of
                  Some (ListValue values) \<Rightarrow> list_ex is_null values
                | _ \<Rightarrow> is_null attribute_value)
      | _ \<Rightarrow> None)"

section \<open>Timestamps\<close>

text \<open>\<open>i64::abs\<close> as a release build computes it: the least value wraps to itself.\<close>

definition i64_abs :: "int \<Rightarrow> int" where
  [model_defs]: "i64_abs v = (if v = - (2 ^ 63) then v else \<bar>v\<bar>)"

definition number_to_timestamp :: "libs \<Rightarrow> f64 \<Rightarrow> timestamp option" where
  [model_defs]: "number_to_timestamp L value =
     (if \<not> f64_is_finite value then None
      else
        let long_value = f64_as_i64 value in
        map_option datetime_to_timestamp
          (if 1000000000000 \<le> i64_abs long_value then from_timestamp_millis L long_value
           else from_timestamp L long_value 0))"

fun or_else :: "'a option \<Rightarrow> 'a option \<Rightarrow> 'a option" where
  "or_else (Some x) y = Some x"
| "or_else None y = y"

definition timestamp_from_str :: "libs \<Rightarrow> string \<Rightarrow> error_code + timestamp" where
  [model_defs]: "timestamp_from_str L s =
     map_ok datetime_to_timestamp
      (if list_ex (\<lambda>c. c \<in> set ''T '') s then
         bind_ok (or_fail (from_location ''confidence-resolver/src/value.rs'' 486 52)
                (nth_opt (split_on_any ''T '' s) 1))
           (\<lambda>time_part.
             if list_ex (\<lambda>c. c \<in> set ''Z+-'') time_part then
               or_fail (from_location ''confidence-resolver/src/value.rs'' 489 18)
                 (parse_from_rfc3339 L s)
             else
               or_fail (from_location ''confidence-resolver/src/value.rs'' 500 18)
                 (or_else (parse_naive_datetime L s ''%Y-%m-%dT%H:%M:%S'')
                 (or_else (parse_naive_datetime L s ''%Y-%m-%dT%H:%M:%S%.f'')
                 (or_else (parse_naive_datetime L s ''%Y-%m-%d %H:%M:%S'')
                          (parse_naive_datetime L s ''%Y-%m-%d %H:%M:%S%.f'')))))
       else
         or_fail (from_location ''confidence-resolver/src/value.rs'' 512 14)
           (parse_naive_date L s ''%Y-%m-%d''))"

section \<open>Conversion\<close>

text \<open>\<open>str_value.parse().unwrap_or_else(|_| str_value == "TRUE")\<close>\<close>

definition parse_bool_lenient :: "string \<Rightarrow> bool" where
  [model_defs]: "parse_bool_lenient s =
     (if s = ''true'' then True else if s = ''false'' then False else s = ''TRUE'')"

definition null_sentinel :: tkind where
  [model_defs]: "null_sentinel = TString ''null''"

fun convert_to_targeting_value :: "libs \<Rightarrow> gvalue \<Rightarrow> tkind option \<Rightarrow> error_code + tkind"
and convert_list :: "libs \<Rightarrow> gvalue list \<Rightarrow> tkind option \<Rightarrow> error_code + tvalue list" where
  "convert_to_targeting_value L None expected = Inr null_sentinel"
| "convert_to_targeting_value L (Some (NullValue n)) expected = Inr null_sentinel"
| "convert_to_targeting_value L (Some (NumberValue num_value)) expected =
     Inr (case expected of
            Some (TNumber _) \<Rightarrow> TNumber num_value
          | Some (TString _) \<Rightarrow> TString (f64_to_string num_value)
          | Some (TTimestamp _) \<Rightarrow>
              (case number_to_timestamp L num_value of
                 Some ts \<Rightarrow> TTimestamp ts
               | None \<Rightarrow> null_sentinel)
          | _ \<Rightarrow> null_sentinel)"
| "convert_to_targeting_value L (Some (StringValue str_value)) expected =
     (case expected of
        Some (TBool _) \<Rightarrow> Inr (TBool (parse_bool_lenient str_value))
      | Some (TNumber _) \<Rightarrow>
          map_ok TNumber
            (or_fail (from_location ''confidence-resolver/src/value.rs'' 72 72) (parse_f64 str_value))
      | Some (TString _) \<Rightarrow> Inr (TString str_value)
      | Some (TTimestamp _) \<Rightarrow>
          Inr (case timestamp_from_str L str_value of
                 Inr ts \<Rightarrow> TTimestamp ts
               | Inl _ \<Rightarrow> null_sentinel)
      | Some (TVersion _) \<Rightarrow> Inr (TVersion str_value)
      | _ \<Rightarrow> Inr null_sentinel)"
| "convert_to_targeting_value L (Some (BoolValue bool_value)) expected =
     Inr (case expected of Some (TBool _) \<Rightarrow> TBool bool_value | _ \<Rightarrow> null_sentinel)"
| "convert_to_targeting_value L (Some (ListValue values)) expected =
     map_ok TList (convert_list L values expected)"
| "convert_to_targeting_value L (Some (StructValue fs)) expected = Inr null_sentinel"
| "convert_list L [] expected = Inr []"
| "convert_list L (value # values) expected =
     bind_ok (convert_to_targeting_value L value expected)
       (\<lambda>v. bind_ok (convert_list L values expected) (\<lambda>vs. Inr (Some v # vs)))"

definition uses_strict_string_inner_operator :: "inner_rule option \<Rightarrow> bool" where
  [model_defs]: "uses_strict_string_inner_operator inner =
     (case inner of
        Some (IStartsWithRule _) \<Rightarrow> True
      | Some (IEndsWithRule _) \<Rightarrow> True
      | Some (IContainsRule _) \<Rightarrow> True
      | _ \<Rightarrow> False)"

definition uses_strict_string_operator :: "attribute_criterion \<Rightarrow> bool" where
  [model_defs]: "uses_strict_string_operator attribute_criterion =
     (case attribute_rule attribute_criterion of
        Some (StartsWithRule _) \<Rightarrow> True
      | Some (EndsWithRule _) \<Rightarrow> True
      | Some (ContainsRule _) \<Rightarrow> True
      | Some (AnyRule (Some inner)) \<Rightarrow> uses_strict_string_inner_operator inner
      | Some (AllRule (Some inner)) \<Rightarrow> uses_strict_string_inner_operator inner
      | _ \<Rightarrow> False)"

fun convert_to_strict_string_operator_list_item :: "gvalue \<Rightarrow> tvalue" where
  "convert_to_strict_string_operator_list_item (Some (StringValue s)) = Some (TString s)"
| "convert_to_strict_string_operator_list_item (Some (ListValue values)) =
     Some (TList (map convert_to_strict_string_operator_list_item values))"
| "convert_to_strict_string_operator_list_item _ = None"

fun convert_to_strict_string_operator_value :: "gvalue \<Rightarrow> tkind" where
  "convert_to_strict_string_operator_value (Some (StringValue s)) = TString s"
| "convert_to_strict_string_operator_value (Some (ListValue values)) =
     TList (map convert_to_strict_string_operator_list_item values)"
| "convert_to_strict_string_operator_value _ = TList [None]"

text \<open>The expected type of a rule, given by the value it compares with.\<close>

definition eq_expected :: "tvalue option \<Rightarrow> tkind option" where
  [model_defs]: "eq_expected v = (case v of None \<Rightarrow> None | Some w \<Rightarrow> w)"

definition set_expected :: "tvalue list \<Rightarrow> tkind option" where
  [model_defs]: "set_expected vs = (case first_opt vs of None \<Rightarrow> None | Some w \<Rightarrow> w)"

fun bound_value :: "bound \<Rightarrow> tvalue" where
  "bound_value (Inclusive v) = v"
| "bound_value (Exclusive v) = v"

definition range_expected :: "range_rule \<Rightarrow> tkind option" where
  [model_defs]: "range_expected r =
     (case (range_start r, range_end r) of
        (Some b, _) \<Rightarrow> bound_value b
      | (None, Some b) \<Rightarrow> bound_value b
      | (None, None) \<Rightarrow> None)"

definition STRING_VALUE_TYPE :: tkind where
  [model_defs]: "STRING_VALUE_TYPE = TString []"

fun inner_expected :: "inner_rule option \<Rightarrow> tkind option" where
  "inner_expected None = None"
| "inner_expected (Some (IEqRule v)) = eq_expected v"
| "inner_expected (Some (ISetRule vs)) = set_expected vs"
| "inner_expected (Some (IRangeRule r)) = range_expected r"
| "inner_expected (Some _) = Some STRING_VALUE_TYPE"

definition expected_value_type :: "attribute_criterion \<Rightarrow> tkind option" where
  [model_defs]: "expected_value_type attribute_criterion =
     (case attribute_rule attribute_criterion of
        None \<Rightarrow> None
      | Some (EqRule v) \<Rightarrow> eq_expected v
      | Some (SetRule vs) \<Rightarrow> set_expected vs
      | Some (RangeRule r) \<Rightarrow> range_expected r
      | Some (AnyRule inner) \<Rightarrow> (case inner of None \<Rightarrow> None | Some r \<Rightarrow> inner_expected r)
      | Some (AllRule inner) \<Rightarrow> (case inner of None \<Rightarrow> None | Some r \<Rightarrow> inner_expected r)
      | Some _ \<Rightarrow> Some STRING_VALUE_TYPE)"

definition convert_for_criterion :: "libs \<Rightarrow> gvalue \<Rightarrow> attribute_criterion \<Rightarrow> error_code + tkind" where
  [model_defs]: "convert_for_criterion L attribute_value attribute_criterion =
     (if uses_strict_string_operator attribute_criterion
      then Inr (convert_to_strict_string_operator_value attribute_value)
      else convert_to_targeting_value L attribute_value (expected_value_type attribute_criterion))"

fun list_wrapper :: "tkind \<Rightarrow> tvalue list" where
  "list_wrapper (TList list_value) = list_value"
| "list_wrapper value = [Some value]"

section \<open>Versions\<close>

type_synonym version = "nat \<times> nat \<times> nat \<times> nat"

definition parse_u64 :: "string \<Rightarrow> nat option" where
  [model_defs]: "parse_u64 s = (if dec_val 0 s < 2 ^ 64 then Some (dec_val 0 s) else None)"

definition parse_version :: "string \<Rightarrow> version option" where
  [model_defs]: "parse_version version =
     (if version = [] then None
      else
        let parts = split_on CHR ''.'' (hd (split_on CHR ''-'' version)) in
        if \<not> list_all (\<lambda>part. part \<noteq> [] \<and> list_all ascii_digit part) parts then None
        else (case parts of
          [major_s, minor_s] \<Rightarrow>
            if 10 < length major_s \<or> 10 < length minor_s then None
            else (case (parse_u64 major_s, parse_u64 minor_s) of
                    (Some major, Some minor) \<Rightarrow> Some (major, minor, 0, 0) | _ \<Rightarrow> None)
        | [major_s, minor_s, third_s] \<Rightarrow>
            if 10 < length major_s \<or> 10 < length minor_s \<or> 10 < length third_s then None
            else (case (parse_u64 major_s, parse_u64 minor_s, parse_u64 third_s) of
                    (Some major, Some minor, Some val) \<Rightarrow>
                      if 3 < length third_s then Some (major, minor, 0, val)
                      else Some (major, minor, val, 0)
                  | _ \<Rightarrow> None)
        | [major_s, minor_s, patch_s, tag_s] \<Rightarrow>
            if 10 < length major_s \<or> 10 < length minor_s \<or> 10 < length patch_s \<or> 10 < length tag_s
            then None
            else (case (parse_u64 major_s, parse_u64 minor_s, parse_u64 patch_s, parse_u64 tag_s) of
                    (Some major, Some minor, Some patch, Some tag) \<Rightarrow> Some (major, minor, patch, tag)
                  | _ \<Rightarrow> None)
        | _ \<Rightarrow> None))"

text \<open>The derived lexicographic order on tuples.\<close>

fun version_less :: "version \<Rightarrow> version \<Rightarrow> bool" where
  "version_less (a, b, c, d) (a', b', c', d') =
     (a < a' \<or> a = a' \<and> (b < b' \<or> b = b' \<and> (c < c' \<or> c = c' \<and> d < d')))"

definition version_or_zero :: "string \<Rightarrow> version" where
  [model_defs]: "version_or_zero v = (case parse_version v of Some t \<Rightarrow> t | None \<Rightarrow> (0, 0, 0, 0))"

definition version_lt :: "string \<Rightarrow> string \<Rightarrow> bool" where
  [model_defs]: "version_lt a b \<longleftrightarrow> version_less (version_or_zero a) (version_or_zero b)"

definition version_lte :: "string \<Rightarrow> string \<Rightarrow> bool" where
  [model_defs]: "version_lte a b \<longleftrightarrow>
     version_less (version_or_zero a) (version_or_zero b) \<or> version_or_zero a = version_or_zero b"

section \<open>Comparison and rules\<close>

fun tvalue_lt :: "tvalue \<Rightarrow> tvalue \<Rightarrow> bool" where
  "tvalue_lt (Some (TNumber a)) (Some (TNumber b)) = f64_lt a b"
| "tvalue_lt (Some (TString a)) (Some (TString b)) = (a < b)"
| "tvalue_lt (Some (TTimestamp a)) (Some (TTimestamp b)) = timestamp_lt a b"
| "tvalue_lt (Some (TVersion a)) (Some (TVersion b)) = version_lt a b"
| "tvalue_lt _ _ = False"

fun tvalue_lte :: "tvalue \<Rightarrow> tvalue \<Rightarrow> bool" where
  "tvalue_lte (Some (TNumber a)) (Some (TNumber b)) = f64_le a b"
| "tvalue_lte (Some (TString a)) (Some (TString b)) = (a \<le> b)"
| "tvalue_lte (Some (TTimestamp a)) (Some (TTimestamp b)) = timestamp_lte a b"
| "tvalue_lte (Some (TVersion a)) (Some (TVersion b)) = version_lte a b"
| "tvalue_lte _ _ = False"

definition evaluate_range_rule :: "range_rule \<Rightarrow> tvalue \<Rightarrow> bool" where
  [model_defs]: "evaluate_range_rule range_rule context_value =
     (if range_start range_rule = None \<and> range_end range_rule = None then False
      else
        let after_start = (case range_start range_rule of
                Some (Inclusive start) \<Rightarrow> tvalue_lte start context_value
              | Some (Exclusive start) \<Rightarrow> tvalue_lt start context_value
              | None \<Rightarrow> False);
            before_end = (case range_end range_rule of
                Some (Inclusive stop) \<Rightarrow> tvalue_lte context_value stop
              | Some (Exclusive stop) \<Rightarrow> tvalue_lt context_value stop
              | None \<Rightarrow> False)
        in (range_start range_rule = None \<or> after_start) \<and> (range_end range_rule = None \<or> before_end))"

fun starts_with :: "tvalue \<Rightarrow> string \<Rightarrow> bool" where
  "starts_with (Some (TString s)) prefix = str_starts_with s prefix"
| "starts_with _ prefix = False"

fun ends_with :: "tvalue \<Rightarrow> string \<Rightarrow> bool" where
  "ends_with (Some (TString s)) suffix = str_ends_with s suffix"
| "ends_with _ suffix = False"

fun contains_str :: "tvalue \<Rightarrow> string \<Rightarrow> bool" where
  "contains_str (Some (TString s)) substring = str_contains s substring"
| "contains_str _ substring = False"

fun evaluate_inner_rule :: "inner_rule option \<Rightarrow> tvalue \<Rightarrow> resolve_error + bool" where
  "evaluate_inner_rule None context_value = Inl UnrecognizedRule"
| "evaluate_inner_rule (Some (IEqRule (Some value))) context_value = Inr (tvalue_eq context_value value)"
| "evaluate_inner_rule (Some (ISetRule values)) context_value = Inr (tvalues_contain values context_value)"
| "evaluate_inner_rule (Some (IRangeRule r)) context_value = Inr (evaluate_range_rule r context_value)"
| "evaluate_inner_rule (Some (IStartsWithRule value)) context_value = Inr (starts_with context_value value)"
| "evaluate_inner_rule (Some (IEndsWithRule value)) context_value = Inr (ends_with context_value value)"
| "evaluate_inner_rule (Some (IContainsRule value)) context_value = Inr (contains_str context_value value)"
| "evaluate_inner_rule _ context_value = Inl UnrecognizedRule"

text \<open>The two loops with early return.\<close>

fun any_inner :: "inner_rule option \<Rightarrow> tvalue list \<Rightarrow> resolve_error + bool" where
  "any_inner r [] = Inr False"
| "any_inner r (v # vs) =
     (case evaluate_inner_rule r v of
        Inl e \<Rightarrow> Inl e
      | Inr b \<Rightarrow> if b then Inr True else any_inner r vs)"

fun all_inner :: "inner_rule option \<Rightarrow> tvalue list \<Rightarrow> resolve_error + bool" where
  "all_inner r [] = Inr True"
| "all_inner r (v # vs) =
     (case evaluate_inner_rule r v of
        Inl e \<Rightarrow> Inl e
      | Inr b \<Rightarrow> if \<not> b then Inr False else all_inner r vs)"

definition evaluate_criterion :: "attribute_criterion \<Rightarrow> tvalue list \<Rightarrow> resolve_error + bool" where
  [model_defs]: "evaluate_criterion attribute_criterion context_values =
     (case attribute_rule attribute_criterion of
        None \<Rightarrow> Inl UnrecognizedRule
      | Some (EqRule (Some value)) \<Rightarrow> Inr (list_ex (\<lambda>x. tvalue_eq x value) context_values)
      | Some (SetRule values) \<Rightarrow> Inr (list_ex (tvalues_contain values) context_values)
      | Some (RangeRule r) \<Rightarrow> Inr (list_ex (evaluate_range_rule r) context_values)
      | Some (AnyRule (Some inner)) \<Rightarrow> any_inner inner context_values
      | Some (AllRule (Some inner)) \<Rightarrow> all_inner inner context_values
      | Some (StartsWithRule value) \<Rightarrow> Inr (list_ex (\<lambda>v. starts_with v value) context_values)
      | Some (EndsWithRule value) \<Rightarrow> Inr (list_ex (\<lambda>v. ends_with v value) context_values)
      | Some (ContainsRule value) \<Rightarrow> Inr (list_ex (\<lambda>v. contains_str v value) context_values)
      | _ \<Rightarrow> Inl UnrecognizedRule)"

section \<open>Equality and order\<close>

lemma tkind_eq_sym: "tkind_eq a b = tkind_eq b a"
  and tvalues_eq_sym: "tvalues_eq xs ys = tvalues_eq ys xs"
  by (induction a b and xs ys rule: tkind_eq_tvalues_eq.induct) (auto simp: f64_eq_def)

lemma tvalue_eq_sym: "tvalue_eq a b = tvalue_eq b a"
  by (cases "(a, b)" rule: tvalue_eq.cases) (auto simp: tkind_eq_sym)

lemma version_less_trans: "version_less a b \<Longrightarrow> version_less b c \<Longrightarrow> version_less a c"
  by (cases a; cases b; cases c) auto

lemma version_less_irrefl [simp]: "\<not> version_less a a"
  by (cases a) simp

lemma version_less_linear: "version_less a b \<or> a = b \<or> version_less b a"
  by (cases a; cases b) auto

text \<open>Kinds that the comparison orders, and the values on which it is total.\<close>

fun comparable :: "tvalue \<Rightarrow> tvalue \<Rightarrow> bool" where
  "comparable (Some (TNumber a)) (Some (TNumber b)) = (\<not> f64_is_nan a \<and> \<not> f64_is_nan b)"
| "comparable (Some (TString a)) (Some (TString b)) = True"
| "comparable (Some (TTimestamp a)) (Some (TTimestamp b)) = True"
| "comparable (Some (TVersion a)) (Some (TVersion b)) = True"
| "comparable _ _ = False"

lemma version_lte_iff: "version_lte a b \<longleftrightarrow> \<not> version_lt b a"
  unfolding version_lte_def version_lt_def
  by (metis version_less_irrefl version_less_linear version_less_trans)

lemma tvalue_lte_total: "comparable a b \<Longrightarrow> tvalue_lte a b \<longleftrightarrow> \<not> tvalue_lt b a"
  by (cases "(a, b)" rule: comparable.cases)
     (auto simp: f64_le_def f64_lt_def timestamp_lte_def timestamp_lt_def version_lte_iff)

lemma tvalue_lt_comparable: "tvalue_lt a b \<Longrightarrow> comparable a b"
  by (cases "(a, b)" rule: comparable.cases) (auto simp: f64_lt_def)

lemma tvalue_lte_comparable: "tvalue_lte a b \<Longrightarrow> comparable a b"
  by (cases "(a, b)" rule: comparable.cases) (auto simp: f64_le_def)

text \<open>What the trait \<open>Ord\<close> promises of its two comparisons, and the types that implement it.\<close>

locale comparison =
  fixes lt :: "'a \<Rightarrow> 'a \<Rightarrow> bool" and lte :: "'a \<Rightarrow> 'a \<Rightarrow> bool"
  assumes lt_irrefl: "\<not> lt a a" and lt_lte: "lt a b \<Longrightarrow> lte a b" and lte_trans: "lte a b \<Longrightarrow> lte b c \<Longrightarrow> lte a c"
    and lte_lt_trans: "lte a b \<Longrightarrow> lt b c \<Longrightarrow> lt a c" and lt_lte_trans: "lt a b \<Longrightarrow> lte b c \<Longrightarrow> lt a c"
begin

lemma lt_trans: "lt a b \<Longrightarrow> lt b c \<Longrightarrow> lt a c"
  by (rule lt_lte_trans [OF _ lt_lte])

lemma lt_not_lte: "lt a b \<Longrightarrow> \<not> lte b a"
  using lt_lte_trans lt_irrefl by blast

lemmas order_trans = lte_trans lte_lt_trans lt_lte_trans

end

interpretation f64: comparison f64_lt f64_le
  by unfold_locales (auto simp: f64_lt_def f64_le_def)

interpretation ts: comparison timestamp_lt timestamp_lte
  by unfold_locales (auto simp: timestamp_order)

interpretation ver: comparison version_lt version_lte
  by unfold_locales (auto simp: version_lte_def version_lt_def intro: version_less_trans)

interpretation tv: comparison tvalue_lt tvalue_lte
proof
  show "\<not> tvalue_lt a a" for a
    by (cases "(a, a)" rule: tvalue_lt.cases) (auto simp: ts.lt_irrefl ver.lt_irrefl)
  show "tvalue_lt a b \<Longrightarrow> tvalue_lte a b" for a b
    by (cases "(a, b)" rule: tvalue_lt.cases) (auto intro: f64.lt_lte ts.lt_lte ver.lt_lte)
  show "tvalue_lte a b \<Longrightarrow> tvalue_lte b c \<Longrightarrow> tvalue_lte a c" for a b c
    by (cases "(a, b)" rule: tvalue_lte.cases; cases "(b, c)" rule: tvalue_lte.cases)
       (auto intro: f64.lte_trans ts.lte_trans ver.lte_trans)
  show "tvalue_lte a b \<Longrightarrow> tvalue_lt b c \<Longrightarrow> tvalue_lt a c" for a b c
    by (cases "(a, b)" rule: tvalue_lte.cases; cases "(b, c)" rule: tvalue_lt.cases)
       (auto intro: f64.lte_lt_trans ts.lte_lt_trans ver.lte_lt_trans)
  show "tvalue_lt a b \<Longrightarrow> tvalue_lte b c \<Longrightarrow> tvalue_lt a c" for a b c
    by (cases "(a, b)" rule: tvalue_lt.cases; cases "(b, c)" rule: tvalue_lte.cases)
       (auto intro: f64.lt_lte_trans ts.lt_lte_trans ver.lt_lte_trans)
qed

lemma tvalues_contain_single: "tvalues_contain [v] = tvalue_eq v"
  by (simp add: fun_eq_iff tvalues_contain_def)

section \<open>Properties of the rules\<close>

text \<open>An equality rule matches exactly the attributes that the set rule with that single value
  matches, for every value and every list of context values.\<close>

lemma eq_rule_is_singleton_set:
  "evaluate_criterion (c\<lparr>attribute_rule := Some (EqRule (Some v))\<rparr>) values
     = evaluate_criterion (c\<lparr>attribute_rule := Some (SetRule [v])\<rparr>) values"
  by (simp add: evaluate_criterion_def tvalues_contain_single tvalue_eq_sym [of _ v])

text \<open>A range rule accepts a convex set of values: whatever lies between two accepted values is
  accepted too, for inclusive, exclusive and missing bounds, on numbers, strings, timestamps and
  versions.\<close>

lemma range_rule_convex:
  assumes "evaluate_range_rule r x" "evaluate_range_rule r z"
    and "tvalue_lte x y" "tvalue_lte y z"
  shows "evaluate_range_rule r y"
  using assms unfolding evaluate_range_rule_def Let_def
  by (auto split: option.splits bound.splits if_splits intro: tv.order_trans)

theorem range_rule_convex_witness:
  "evaluate_range_rule \<lparr>range_start = Some (Inclusive (Some (TVersion ''1.0''))),
       range_end = Some (Exclusive (Some (TVersion ''2.0'')))\<rparr> (Some (TVersion ''1.5.2''))"
  by (rule range_rule_convex [of _ "Some (TVersion ''1.0'')" "Some (TVersion ''1.9'')"])
     (simp_all add: evaluate_range_rule_def version_lte_def version_lt_def version_or_zero_def
        parse_version_def parse_u64_def ascii_digit_def digit_val_def)

text \<open>Whether an inner rule is one the resolver knows, and what it matches.\<close>

fun inner_recognized :: "inner_rule option \<Rightarrow> bool" where
  "inner_recognized None = False"
| "inner_recognized (Some (IEqRule None)) = False"
| "inner_recognized (Some _) = True"

definition inner_matches :: "inner_rule option \<Rightarrow> tvalue \<Rightarrow> bool" where
  "inner_matches r v \<longleftrightarrow> evaluate_inner_rule r v = Inr True"

lemma evaluate_inner_rule_cases:
  "evaluate_inner_rule r v = (if inner_recognized r then Inr (inner_matches r v) else Inl UnrecognizedRule)"
  unfolding inner_matches_def
  by (cases "(r, v)" rule: evaluate_inner_rule.cases) auto

lemma any_inner_eq:
  "any_inner r vs = (if vs = [] then Inr False
     else if inner_recognized r then Inr (\<exists>v \<in> set vs. inner_matches r v) else Inl UnrecognizedRule)"
  by (induction vs) (auto simp: evaluate_inner_rule_cases)

lemma all_inner_eq:
  "all_inner r vs = (if vs = [] then Inr True
     else if inner_recognized r then Inr (\<forall>v \<in> set vs. inner_matches r v) else Inl UnrecognizedRule)"
  by (induction vs) (auto simp: evaluate_inner_rule_cases)

text \<open>The two list rules against their specification: the any rule matches when some element
  matches the inner rule and never on the empty list, the all rule when every element does and
  always on the empty list; an inner rule the resolver does not know is reported as an error on
  every list but the empty one, where the all rule still matches.\<close>

lemma any_all_rule_semantics:
  "evaluate_criterion (c\<lparr>attribute_rule := Some (AnyRule (Some r))\<rparr>) values =
     (if values = [] then Inr False
      else if inner_recognized r then Inr (list_ex (inner_matches r) values)
      else Inl UnrecognizedRule) \<and>
   evaluate_criterion (c\<lparr>attribute_rule := Some (AllRule (Some r))\<rparr>) values =
     (if values = [] then Inr True
      else if inner_recognized r then Inr (list_all (inner_matches r) values)
      else Inl UnrecognizedRule)"
  by (simp add: evaluate_criterion_def any_inner_eq all_inner_eq list_ex_iff list_all_iff)

text \<open>A context value that is neither a string nor a list.\<close>

fun non_string_scalar :: "gvalue \<Rightarrow> bool" where
  "non_string_scalar (Some (StringValue _)) = False"
| "non_string_scalar (Some (ListValue _)) = False"
| "non_string_scalar _ = True"

lemma strict_non_string: "non_string_scalar v \<Longrightarrow> convert_to_strict_string_operator_value v = TList [None]"
  by (cases v rule: convert_to_strict_string_operator_value.cases) auto

lemma strict_inner_None:
  "uses_strict_string_inner_operator r \<Longrightarrow> evaluate_inner_rule r None = Inr False"
  by (auto simp: uses_strict_string_inner_operator_def split: option.splits inner_rule.splits)

text \<open>A prefix, suffix or substring rule, alone or as the inner rule of an any or all rule, never
  matches an attribute that is not a string or a list: numbers and booleans are not converted to
  text for these rules, and the all rule is not satisfied vacuously.\<close>

lemma string_operators_reject_non_strings:
  assumes "uses_strict_string_operator c" "non_string_scalar attribute_value"
  shows "\<exists>converted. convert_for_criterion L attribute_value c = Inr converted \<and>
     evaluate_criterion c (list_wrapper converted) = Inr False"
  using assms
  by (auto simp: convert_for_criterion_def strict_non_string evaluate_criterion_def
      uses_strict_string_operator_def strict_inner_None
      split: option.splits attr_rule.splits)

definition all_prefix_criterion :: attribute_criterion where
  "all_prefix_criterion = \<lparr>attribute_name = ''tags'',
     attribute_rule = Some (AllRule (Some (Some (IStartsWithRule ''a''))))\<rparr>"

theorem string_operators_reject_non_strings_witness:
  "\<exists>converted. convert_for_criterion example_libs (Some (BoolValue True)) all_prefix_criterion = Inr converted \<and>
     evaluate_criterion all_prefix_criterion (list_wrapper converted) = Inr False"
  by (rule string_operators_reject_non_strings)
     (simp_all add: all_prefix_criterion_def uses_strict_string_operator_def
        uses_strict_string_inner_operator_def)

section \<open>Conversion and versions\<close>

text \<open>The type a converted value has when the rule expects the type of \<open>t\<close>.\<close>

fun same_type :: "tkind \<Rightarrow> tkind \<Rightarrow> bool" where
  "same_type (TBool _) (TBool _) = True"
| "same_type (TNumber _) (TNumber _) = True"
| "same_type (TString _) (TString _) = True"
| "same_type (TTimestamp _) (TTimestamp _) = True"
| "same_type (TVersion _) (TVersion _) = True"
| "same_type _ _ = False"

fun conforms :: "tkind option \<Rightarrow> tkind \<Rightarrow> bool" and conforms_all :: "tkind option \<Rightarrow> tvalue list \<Rightarrow> bool" where
  "conforms expected (TList vs) = conforms_all expected vs"
| "conforms expected v =
     (v = null_sentinel \<or> (case expected of None \<Rightarrow> False | Some t \<Rightarrow> same_type t v))"
| "conforms_all expected [] = True"
| "conforms_all expected (None # vs) = False"
| "conforms_all expected (Some v # vs) = (conforms expected v \<and> conforms_all expected vs)"

lemma conforms_null [simp]: "conforms expected null_sentinel"
  by (simp add: null_sentinel_def)

text \<open>C13: The conversion is type sound: whatever the context value, the converted value is of the
  type the rule expects, or the null sentinel, or a list of such values; it fails only where a
  number was expected and the text is not one.\<close>

theorem conversion_type_sound:
  "convert_to_targeting_value L v expected = Inr r \<Longrightarrow> conforms expected r"
proof -
  have "convert_to_targeting_value L v expected = Inr r \<Longrightarrow> conforms expected r"
    and "convert_list L vs expected = Inr rs \<Longrightarrow> conforms_all expected rs" for vs rs
  proof (induction L v expected and L vs expected arbitrary: r and rs
      rule: convert_to_targeting_value_convert_list.induct)
    case (3 L num_value expected)
    then show ?case by (cases expected) (auto split: tkind.splits option.splits)
  next
    case (4 L str_value expected)
    then show ?case
      by (cases expected) (auto simp: map_ok_def or_fail_def split: tkind.splits sum.splits option.splits)
  next
    case (5 L bool_value expected)
    then show ?case by (cases expected) (auto split: tkind.splits)
  qed (auto simp: map_ok_def bind_ok_def split: sum.splits)
  then show "convert_to_targeting_value L v expected = Inr r \<Longrightarrow> conforms expected r" by blast
qed

theorem conversion_type_sound_witness:
  "conforms (Some (TBool False)) (TList [Some (TBool True), Some null_sentinel])"
  by (rule conversion_type_sound [of example_libs "Some (ListValue [Some (StringValue ''TRUE''), Some (NumberValue 0)])"])
     (simp add: map_ok_def bind_ok_def parse_bool_lenient_def)

lemma digit_of_nat: "n < 10 \<Longrightarrow> digit_val (char_of (48 + n)) = n \<and> ascii_digit (char_of (48 + n))"
  by (simp add: digit_val_def ascii_digit_def of_char_of)

lemma dec_val_append: "dec_val acc (xs @ ys) = dec_val (dec_val acc xs) ys"
  by (induction xs arbitrary: acc) auto

lemma show_nat_digits: "list_all ascii_digit (show_nat n) \<and> show_nat n \<noteq> []"
proof (induction n rule: show_nat.induct)
  case (1 n)
  then show ?case
    by (subst (1 2) show_nat.simps) (auto simp: digit_of_nat)
qed

lemma dec_val_show: "dec_val 0 (show_nat n) = n"
proof (induction n rule: show_nat.induct)
  case (1 n)
  then show ?case
    by (subst show_nat.simps) (auto simp: digit_of_nat dec_val_append)
qed

lemma show_nat_length: "n < 10 ^ Suc k \<Longrightarrow> length (show_nat n) \<le> Suc k"
proof (induction k arbitrary: n)
  case 0
  then show ?case by (simp add: show_nat.simps [of n])
next
  case (Suc k)
  show ?case
  proof (cases "n < 10")
    case False
    from Suc.prems have "n div 10 < 10 ^ Suc k" by (simp add: less_mult_imp_div_less)
    with False Suc.IH show ?thesis by (simp add: show_nat.simps [of n])
  qed (simp add: show_nat.simps [of n])
qed

lemma digits_no_sep: "list_all ascii_digit s \<Longrightarrow> CHR ''.'' \<notin> set s \<and> CHR ''-'' \<notin> set s"
proof -
  have "\<not> ascii_digit CHR ''.''" "\<not> ascii_digit CHR ''-''" by (simp_all add: ascii_digit_def)
  then show "list_all ascii_digit s \<Longrightarrow> CHR ''.'' \<notin> set s \<and> CHR ''-'' \<notin> set s"
    by (auto simp: list_all_iff)
qed

definition show_version :: "version \<Rightarrow> string" where
  "show_version = (\<lambda>(a, b, c, d). join_with CHR ''.'' [show_nat a, show_nat b, show_nat c, show_nat d])"

lemma parse_u64_show: "n < 10 ^ 10 \<Longrightarrow> parse_u64 (show_nat n) = Some n \<and> length (show_nat n) \<le> 10"
  using show_nat_length [of n 9] by (simp add: parse_u64_def dec_val_show)

text \<open>Parsing a rendered four-part version gives the version back, for all components of up to
  ten digits, and a pre-release suffix after a dash does not change the result.\<close>

lemma version_roundtrip:
  assumes "a < 10 ^ 10" "b < 10 ^ 10" "c < 10 ^ 10" "d < 10 ^ 10"
  shows "parse_version (show_version (a, b, c, d)) = Some (a, b, c, d) \<and>
    parse_version (show_version (a, b, c, d) @ CHR ''-'' # suffix) = Some (a, b, c, d)"
proof -
  let ?ps = "[show_nat a, show_nat b, show_nat c, show_nat d]"
  let ?s = "join_with CHR ''.'' ?ps"
  have dash: "CHR ''-'' \<notin> set ?s" and parts: "split_on CHR ''.'' ?s = ?ps"
    using show_nat_digits digits_no_sep by (auto intro!: split_join simp del: join_with.simps)
       (auto simp: digits_no_sep show_nat_digits)
  have "parse_version v = Some (a, b, c, d)" if "v \<noteq> []" "hd (split_on CHR ''-'' v) = ?s" for v
    unfolding parse_version_def Let_def that(2) parts
    using that(1) assms by (simp add: show_nat_digits parse_u64_show not_less)
  moreover have "hd (split_on CHR ''-'' ?s) = ?s"
    by (simp only: split_on_no_sep_id [OF dash] list.sel)
  moreover have "hd (split_on CHR ''-'' (?s @ CHR ''-'' # suffix)) = ?s"
    by (simp only: split_on_append_sep [OF dash] list.sel)
  ultimately show ?thesis
    by (simp add: show_version_def show_nat_digits)
qed

theorem version_roundtrip_witness:
  "parse_version (show_version (1, 2, 0, 1000) @ ''-beta'') = Some (1, 2, 0, 1000)"
  using version_roundtrip [of 1 2 0 1000 "''beta''"] by simp

end
