(* ===== verification/Expressions.thy ===== *)
theory Expressions
  imports Error_Codes
begin

text \<open>
  \<open>evaluate_expression\<close> of \<open>confidence-resolver/src/lib.rs\<close>: the boolean expressions of a
  segment's targeting, evaluated over three values (\<open>None\<close> is \<open>Unknown\<close>) by a criterion
  evaluator that may fail and that mutates the materialization context. The specification is
  strong Kleene logic; the lemmas show that the loops with their early returns compute it,
  that knowing more can only turn an unknown result into a known one, and how a run is
  carried over to another state.
\<close>

type_synonym tribool = "bool option"

datatype expression =
    ExprUnset
  | ExprRef string
  | ExprNot expression
  | ExprAnd "expression list"
  | ExprOr "expression list"

type_synonym 's criterion_evaluator = "string \<Rightarrow> ('s, resolve_error, tribool) step"

fun evaluate_expression :: "'s criterion_evaluator \<Rightarrow> expression \<Rightarrow> ('s, resolve_error, tribool) step"
and evaluate_and :: "'s criterion_evaluator \<Rightarrow> expression list \<Rightarrow> bool \<Rightarrow> ('s, resolve_error, tribool) step"
and evaluate_or :: "'s criterion_evaluator \<Rightarrow> expression list \<Rightarrow> bool \<Rightarrow> ('s, resolve_error, tribool) step"
where
  "evaluate_expression ev ExprUnset s = (Inr (Some False), s)"
| "evaluate_expression ev (ExprRef ref) s = ev ref s"
| "evaluate_expression ev (ExprNot e) s =
     (case evaluate_expression ev e s of
        (Inl err, s') \<Rightarrow> (Inl err, s')
      | (Inr b, s') \<Rightarrow> (Inr (map_option Not b), s'))"
| "evaluate_expression ev (ExprAnd operands) s = evaluate_and ev operands False s"
| "evaluate_expression ev (ExprOr operands) s = evaluate_or ev operands False s"
| "evaluate_and ev [] has_unknown s = (Inr (if has_unknown then None else Some True), s)"
| "evaluate_and ev (op # ops) has_unknown s =
     (case evaluate_expression ev op s of
        (Inl err, s') \<Rightarrow> (Inl err, s')
      | (Inr None, s') \<Rightarrow> evaluate_and ev ops True s'
      | (Inr (Some b), s') \<Rightarrow>
          if b then evaluate_and ev ops has_unknown s' else (Inr (Some False), s'))"
| "evaluate_or ev [] has_unknown s = (Inr (if has_unknown then None else Some False), s)"
| "evaluate_or ev (op # ops) has_unknown s =
     (case evaluate_expression ev op s of
        (Inl err, s') \<Rightarrow> (Inl err, s')
      | (Inr None, s') \<Rightarrow> evaluate_or ev ops True s'
      | (Inr (Some b), s') \<Rightarrow>
          if b then (Inr (Some True), s') else evaluate_or ev ops has_unknown s')"

section \<open>Kleene logic\<close>

definition kleene_and :: "tribool list \<Rightarrow> tribool" where
  "kleene_and bs = (if Some False \<in> set bs then Some False else if None \<in> set bs then None else Some True)"

definition kleene_or :: "tribool list \<Rightarrow> tribool" where
  "kleene_or bs = (if Some True \<in> set bs then Some True else if None \<in> set bs then None else Some False)"

fun kleene :: "(string \<Rightarrow> tribool) \<Rightarrow> expression \<Rightarrow> tribool" where
  "kleene \<rho> ExprUnset = Some False"
| "kleene \<rho> (ExprRef r) = \<rho> r"
| "kleene \<rho> (ExprNot e) = map_option Not (kleene \<rho> e)"
| "kleene \<rho> (ExprAnd es) = kleene_and (map (kleene \<rho>) es)"
| "kleene \<rho> (ExprOr es) = kleene_or (map (kleene \<rho>) es)"

fun expr_refs :: "expression \<Rightarrow> string set" where
  "expr_refs ExprUnset = {}"
| "expr_refs (ExprRef r) = {r}"
| "expr_refs (ExprNot e) = expr_refs e"
| "expr_refs (ExprAnd es) = (\<Union>e \<in> set es. expr_refs e)"
| "expr_refs (ExprOr es) = (\<Union>e \<in> set es. expr_refs e)"

text \<open>A state in which every criterion of a set has its value, and keeps it whatever is asked.\<close>

definition answers :: "'s criterion_evaluator \<Rightarrow> (string \<Rightarrow> tribool) \<Rightarrow> string set \<Rightarrow> bool" where
  "answers ev \<rho> R \<longleftrightarrow> (\<forall>r \<in> R. \<forall>s. fst (ev r s) = Inr (\<rho> r))"

lemma answers_subset: "answers ev \<rho> R \<Longrightarrow> R' \<subseteq> R \<Longrightarrow> answers ev \<rho> R'"
  by (auto simp: answers_def)

lemma kleene_and_Cons:
  "kleene_and (b # bs) = (case b of Some False \<Rightarrow> Some False | Some True \<Rightarrow> kleene_and bs
     | None \<Rightarrow> if Some False \<in> set bs then Some False else None)"
  by (auto simp: kleene_and_def split: option.splits bool.splits)

lemma kleene_or_Cons:
  "kleene_or (b # bs) = (case b of Some True \<Rightarrow> Some True | Some False \<Rightarrow> kleene_or bs
     | None \<Rightarrow> if Some True \<in> set bs then Some True else None)"
  by (auto simp: kleene_or_def split: option.splits bool.splits)

lemma evaluate_kleene:
  "answers ev \<rho> (expr_refs e) \<Longrightarrow> fst (evaluate_expression ev e s) = Inr (kleene \<rho> e)"
  "answers ev \<rho> (\<Union>e \<in> set es. expr_refs e) \<Longrightarrow> fst (evaluate_and ev es u s) =
     Inr (if Some False \<in> kleene \<rho> ` set es then Some False
          else if u then None else kleene_and (map (kleene \<rho>) es))"
  "answers ev \<rho> (\<Union>e \<in> set es. expr_refs e) \<Longrightarrow> fst (evaluate_or ev es u s) =
     Inr (if Some True \<in> kleene \<rho> ` set es then Some True
          else if u then None else kleene_or (map (kleene \<rho>) es))"
proof (induction ev e s and ev es u s and ev es u s
    rule: evaluate_expression_evaluate_and_evaluate_or.induct)
  case (2 ev ref s)
  then show ?case by (simp add: answers_def)
next
  case (3 ev e s)
  then show ?case by (cases "evaluate_expression ev e s") auto
next
  case (4 ev operands s)
  then show ?case by (auto simp: kleene_and_def)
next
  case (5 ev operands s)
  then show ?case by (auto simp: kleene_or_def)
next
  case (7 ev op ops u s)
  from "7.prems" have a: "answers ev \<rho> (expr_refs op)" "answers ev \<rho> (\<Union>e \<in> set ops. expr_refs e)"
    by (auto intro: answers_subset)
  with "7.IH"(1) obtain s' where "evaluate_expression ev op s = (Inr (kleene \<rho> op), s')"
    by (metis prod.collapse)
  with "7.IH" a show ?case
    by (cases "kleene \<rho> op") (auto simp: kleene_and_Cons split: bool.splits)
next
  case (9 ev op ops u s)
  from "9.prems" have a: "answers ev \<rho> (expr_refs op)" "answers ev \<rho> (\<Union>e \<in> set ops. expr_refs e)"
    by (auto intro: answers_subset)
  with "9.IH"(1) obtain s' where "evaluate_expression ev op s = (Inr (kleene \<rho> op), s')"
    by (metis prod.collapse)
  with "9.IH" a show ?case
    by (cases "kleene \<rho> op") (auto simp: kleene_or_Cons split: bool.splits)
qed (auto simp: kleene_and_def kleene_or_def)

section \<open>Information order\<close>

definition info_le :: "tribool \<Rightarrow> tribool \<Rightarrow> bool" where
  "info_le a b \<longleftrightarrow> a = None \<or> a = b"

lemma kleene_and_mono: "list_all2 info_le as bs \<Longrightarrow> info_le (kleene_and as) (kleene_and bs)"
proof (induction rule: list_all2_induct)
  case (Cons a as b bs)
  have "Some False \<in> set as \<Longrightarrow> Some False \<in> set bs"
    using Cons.hyps(2) by (induction rule: list_all2_induct) (auto simp: info_le_def)
  with Cons show ?case
    by (cases a; cases b) (auto simp: kleene_and_Cons info_le_def kleene_and_def split: bool.splits if_splits)
qed (simp add: info_le_def)

lemma kleene_or_mono: "list_all2 info_le as bs \<Longrightarrow> info_le (kleene_or as) (kleene_or bs)"
proof (induction rule: list_all2_induct)
  case (Cons a as b bs)
  have "Some True \<in> set as \<Longrightarrow> Some True \<in> set bs"
    using Cons.hyps(2) by (induction rule: list_all2_induct) (auto simp: info_le_def)
  with Cons show ?case
    by (cases a; cases b) (auto simp: kleene_or_Cons info_le_def kleene_or_def split: bool.splits if_splits)
qed (simp add: info_le_def)

lemma kleene_mono:
  "\<forall>r \<in> expr_refs e. info_le (\<rho> r) (\<rho>' r) \<Longrightarrow> info_le (kleene \<rho> e) (kleene \<rho>' e)"
proof (induction e)
  case (ExprNot e)
  then show ?case by (auto simp: info_le_def)
next
  case (ExprAnd es)
  then show ?case by (auto intro!: kleene_and_mono simp: list_all2_conv_all_nth)
next
  case (ExprOr es)
  then show ?case by (auto intro!: kleene_or_mono simp: list_all2_conv_all_nth)
qed (auto simp: info_le_def)

text \<open>C11: Expression evaluation implements strong Kleene logic: if every criterion the expression
  refers to has a definite answer (true, false or unknown) whatever the state, the evaluation
  returns the Kleene value of the expression, although it stops at the first deciding operand.\<close>

theorem evaluate_expression_kleene:
  assumes "answers ev \<rho> (expr_refs e)"
  shows "fst (evaluate_expression ev e s) = Inr (kleene \<rho> e)"
  using assms by (rule evaluate_kleene(1))

theorem evaluate_expression_kleene_witness:
  "fst (evaluate_expression (\<lambda>r n. (Inr (if r = ''a'' then Some True else None), Suc n))
     (ExprAnd [ExprRef ''a'', ExprNot (ExprRef ''b'')]) 0) = Inr None"
  by (subst evaluate_expression_kleene [where \<rho> = "\<lambda>r. if r = ''a'' then Some True else None"])
     (auto simp: answers_def kleene_and_def)

text \<open>Discovery is sound: when an expression has a known value although some criteria are
  still unknown, it has the same value under every evaluator that answers more criteria and
  agrees on the known ones.\<close>

lemma known_result_stable:
  assumes "answers ev \<rho> (expr_refs e)" "answers ev' \<rho>' (expr_refs e)"
    and "\<forall>r \<in> expr_refs e. info_le (\<rho> r) (\<rho>' r)"
    and "fst (evaluate_expression ev e s) = Inr (Some b)"
  shows "fst (evaluate_expression ev' e s') = Inr (Some b)"
  using kleene_mono [OF assms(3)] assms(4)
  by (auto simp: evaluate_kleene(1) [OF assms(1)] evaluate_kleene(1) [OF assms(2)] info_le_def)

theorem known_result_stable_witness:
  "fst (evaluate_expression (\<lambda>r s. (Inr (Some (r = ''a'')), s))
     (ExprOr [ExprRef ''m'', ExprRef ''a'']) ()) = Inr (Some True)"
  by (rule known_result_stable [where ev = "\<lambda>r s. (Inr (if r = ''a'' then Some True else None), s)"
        and s = "()" and \<rho> = "\<lambda>r. if r = ''a'' then Some True else None"
        and \<rho>' = "\<lambda>r. Some (r = ''a'')"])
     (auto simp: answers_def info_le_def)

section \<open>Carrying a run over to another state\<close>

text \<open>
  If every run of one evaluator that ends in a state satisfying \<open>q\<close> started in one, and the
  other evaluator makes the same step between the images of the states, whole expressions do.
\<close>

definition simulates :: "('s \<Rightarrow> bool) \<Rightarrow> ('s \<Rightarrow> 't) \<Rightarrow> ('s \<Rightarrow> 'r \<times> 's) \<Rightarrow> ('t \<Rightarrow> 'r \<times> 't) \<Rightarrow> bool" where
  "simulates q f m m' \<longleftrightarrow> (\<forall>s r s'. m s = (r, s') \<longrightarrow> q s' \<longrightarrow> q s \<and> m' (f s) = (r, f s'))"

lemma simulatesI:
  "(\<And>s r s'. m s = (r, s') \<Longrightarrow> q s' \<Longrightarrow> q s \<and> m' (f s) = (r, f s')) \<Longrightarrow> simulates q f m m'"
  by (simp add: simulates_def)

lemma simulatesD: "simulates q f m m' \<Longrightarrow> m s = (r, s') \<Longrightarrow> q s' \<Longrightarrow> q s \<and> m' (f s) = (r, f s')"
  by (simp add: simulates_def)

lemma evaluate_simulates:
  "\<forall>r. simulates q f (ev r) (ev' r) \<Longrightarrow> evaluate_expression ev e s = (r, s') \<Longrightarrow> q s' \<Longrightarrow>
     q s \<and> evaluate_expression ev' e (f s) = (r, f s')"
  "\<forall>r. simulates q f (ev r) (ev' r) \<Longrightarrow> evaluate_and ev es u s = (r, s') \<Longrightarrow> q s' \<Longrightarrow>
     q s \<and> evaluate_and ev' es u (f s) = (r, f s')"
  "\<forall>r. simulates q f (ev r) (ev' r) \<Longrightarrow> evaluate_or ev es u s = (r, s') \<Longrightarrow> q s' \<Longrightarrow>
     q s \<and> evaluate_or ev' es u (f s) = (r, f s')"
proof (induction ev e s and ev es u s and ev es u s arbitrary: r s' and r s' and r s'
    rule: evaluate_expression_evaluate_and_evaluate_or.induct)
  case (2 ev ref s)
  then show ?case by (auto dest: simulatesD)
next
  case (3 ev e s)
  then show ?case
    by (cases "evaluate_expression ev e s") (auto split: sum.splits)
next
  case (7 ev op ops u s)
  then show ?case
    by (cases "evaluate_expression ev op s")
       (fastforce split: sum.splits option.splits if_splits)
next
  case (9 ev op ops u s)
  then show ?case
    by (cases "evaluate_expression ev op s")
       (fastforce split: sum.splits option.splits if_splits)
qed auto

section \<open>Steps that stay within a relation\<close>

text \<open>
  The contract between the criterion evaluator and the expression loops: whatever reflexive
  and transitive relation the criteria keep between the state before and after, expressions
  keep it too.
\<close>

definition within :: "('s \<Rightarrow> 's \<Rightarrow> bool) \<Rightarrow> ('s \<Rightarrow> 'r \<times> 's) \<Rightarrow> bool" where
  "within rel m \<longleftrightarrow> (\<forall>s r s'. m s = (r, s') \<longrightarrow> rel s s')"

lemma withinI: "(\<And>s r s'. m s = (r, s') \<Longrightarrow> rel s s') \<Longrightarrow> within rel m"
  by (simp add: within_def)

lemma withinD: "within rel m \<Longrightarrow> m s = (r, s') \<Longrightarrow> rel s s'"
  by (simp add: within_def)

locale state_relation =
  fixes rel :: "'s \<Rightarrow> 's \<Rightarrow> bool"
  assumes rel_refl: "rel s s"
    and rel_trans: "rel a b \<Longrightarrow> rel b c \<Longrightarrow> rel a c"
begin

lemma evaluate_rel:
  "\<forall>r. within rel (ev r) \<Longrightarrow> evaluate_expression ev e s = (r, s') \<Longrightarrow> rel s s'"
  "\<forall>r. within rel (ev r) \<Longrightarrow> evaluate_and ev es u s = (r, s') \<Longrightarrow> rel s s'"
  "\<forall>r. within rel (ev r) \<Longrightarrow> evaluate_or ev es u s = (r, s') \<Longrightarrow> rel s s'"
proof (induction ev e s and ev es u s and ev es u s arbitrary: r s' and r s' and r s'
    rule: evaluate_expression_evaluate_and_evaluate_or.induct)
  case (2 ev ref s)
  then show ?case by (auto dest: withinD)
next
  case (3 ev e s)
  then show ?case by (cases "evaluate_expression ev e s") (auto split: sum.splits)
next
  case (7 ev op ops u s)
  then show ?case
    by (cases "evaluate_expression ev op s")
       (auto intro: rel_trans split: sum.splits option.splits if_splits)
next
  case (9 ev op ops u s)
  then show ?case
    by (cases "evaluate_expression ev op s")
       (auto intro: rel_trans split: sum.splits option.splits if_splits)
qed (auto simp: rel_refl)

lemma within_evaluate: "\<forall>r. within rel (ev r) \<Longrightarrow> within rel (evaluate_expression ev e)"
  by (rule withinI) (rule evaluate_rel(1))

end

section \<open>Evaluators that decide\<close>

text \<open>In the states of \<open>q\<close> a deciding step changes nothing and never answers unknown.\<close>

definition decides :: "('s \<Rightarrow> bool) \<Rightarrow> ('s, 'e, tribool) step \<Rightarrow> bool" where
  "decides q m \<longleftrightarrow> (\<forall>s r s'. q s \<longrightarrow> m s = (r, s') \<longrightarrow> s' = s \<and> r \<noteq> Inr None)"

lemma decidesI: "(\<And>s r s'. q s \<Longrightarrow> m s = (r, s') \<Longrightarrow> s' = s \<and> r \<noteq> Inr None) \<Longrightarrow> decides q m"
  by (auto simp: decides_def)

lemma decidesD: "decides q m \<Longrightarrow> q s \<Longrightarrow> m s = (r, s') \<Longrightarrow> s' = s \<and> r \<noteq> Inr None"
  by (auto simp: decides_def)

lemma evaluate_decides:
  "\<forall>r. decides q (ev r) \<Longrightarrow> q s \<Longrightarrow> evaluate_expression ev e s = (r, s') \<Longrightarrow> s' = s \<and> r \<noteq> Inr None"
  "\<forall>r. decides q (ev r) \<Longrightarrow> q s \<Longrightarrow> evaluate_and ev es u s = (r, s') \<Longrightarrow> s' = s \<and> (u \<or> r \<noteq> Inr None)"
  "\<forall>r. decides q (ev r) \<Longrightarrow> q s \<Longrightarrow> evaluate_or ev es u s = (r, s') \<Longrightarrow> s' = s \<and> (u \<or> r \<noteq> Inr None)"
proof (induction ev e s and ev es u s and ev es u s arbitrary: r s' and r s' and r s'
    rule: evaluate_expression_evaluate_and_evaluate_or.induct)
  case (2 ev ref s)
  then show ?case by (auto dest: decidesD)
next
  case (3 ev e s)
  then show ?case by (cases "evaluate_expression ev e s") (fastforce split: sum.splits)
next
  case (7 ev op ops u s)
  then show ?case
    by (cases "evaluate_expression ev op s") (fastforce split: sum.splits option.splits if_splits)
next
  case (9 ev op ops u s)
  then show ?case
    by (cases "evaluate_expression ev op s") (fastforce split: sum.splits option.splits if_splits)
qed auto

section \<open>Evaluators that know more\<close>

text \<open>
  Wherever the first step succeeds, the second succeeds too, and its answer is the same or
  settles an unknown one. Expressions keep the relation: the second evaluation stops no later.
\<close>

definition settles :: "('s \<Rightarrow> bool) \<Rightarrow> ('s \<Rightarrow> bool) \<Rightarrow> ('s, 'e, tribool) step \<Rightarrow> bool" where
  "settles q q' m \<longleftrightarrow> (\<forall>s s' t s1. q s \<longrightarrow> q' s' \<longrightarrow> m s = (Inr t, s1) \<longrightarrow>
     q s1 \<and> (\<exists>b. m s' = (Inr b, s') \<and> info_le t b))"

lemma settlesI:
  "(\<And>s s' t s1. q s \<Longrightarrow> q' s' \<Longrightarrow> m s = (Inr t, s1) \<Longrightarrow> q s1 \<and> (\<exists>b. m s' = (Inr b, s') \<and> info_le t b))
    \<Longrightarrow> settles q q' m"
  by (simp add: settles_def)

lemma settlesD:
  "settles q q' m \<Longrightarrow> q s \<Longrightarrow> q' s' \<Longrightarrow> m s = (Inr t, s1) \<Longrightarrow> q s1 \<and> (\<exists>b. m s' = (Inr b, s') \<and> info_le t b)"
  by (simp add: settles_def)

lemma evaluate_and_unknown: "evaluate_and ev es u s = (Inr t, s1) \<Longrightarrow> u \<Longrightarrow> t \<noteq> Some True"
  by (induction es arbitrary: u s) (auto split: prod.splits sum.splits option.splits if_splits)

lemma evaluate_or_unknown: "evaluate_or ev es u s = (Inr t, s1) \<Longrightarrow> u \<Longrightarrow> t \<noteq> Some False"
  by (induction es arbitrary: u s) (auto split: prod.splits sum.splits option.splits if_splits)

lemma evaluate_settles:
  "\<forall>r. settles q q' (ev r) \<Longrightarrow> q s \<Longrightarrow> q' s' \<Longrightarrow> evaluate_expression ev e s = (Inr t, s1) \<Longrightarrow>
     q s1 \<and> (\<exists>b. evaluate_expression ev e s' = (Inr b, s') \<and> info_le t b)"
  "\<forall>r. settles q q' (ev r) \<Longrightarrow> q s \<Longrightarrow> q' s' \<Longrightarrow> u' \<longrightarrow> u \<Longrightarrow> evaluate_and ev es u s = (Inr t, s1) \<Longrightarrow>
     q s1 \<and> (\<exists>b. evaluate_and ev es u' s' = (Inr b, s') \<and> info_le t b)"
  "\<forall>r. settles q q' (ev r) \<Longrightarrow> q s \<Longrightarrow> q' s' \<Longrightarrow> u' \<longrightarrow> u \<Longrightarrow> evaluate_or ev es u s = (Inr t, s1) \<Longrightarrow>
     q s1 \<and> (\<exists>b. evaluate_or ev es u' s' = (Inr b, s') \<and> info_le t b)"
proof (induction ev e s and ev es u s and ev es u s arbitrary: t s1 and t s1 u' and t s1 u'
    rule: evaluate_expression_evaluate_and_evaluate_or.induct)
  case (2 ev ref s)
  then show ?case by (auto dest: settlesD)
next
  case (3 ev e s)
  then obtain t0 where "evaluate_expression ev e s = (Inr t0, s1)" "t = map_option Not t0"
    by (auto split: prod.splits sum.splits)
  with "3.IH" "3.prems"(1,2,3) obtain b
    where "q s1" "evaluate_expression ev e s' = (Inr b, s')" "info_le t0 b" by blast
  with \<open>t = _\<close> show ?case by (auto simp: info_le_def)
next
  case (7 ev op ops u s)
  from "7.prems"(5) obtain t0 s0 where op: "evaluate_expression ev op s = (Inr t0, s0)"
    by (cases "evaluate_expression ev op s") (auto split: sum.splits)
  with "7.IH"(1) "7.prems"(1,2,3) obtain b0
    where op': "q s0" "evaluate_expression ev op s' = (Inr b0, s')" "info_le t0 b0" by blast
  show ?case
  proof (cases t0)
    case None
    then have rest: "evaluate_and ev ops True s0 = (Inr t, s1)" using "7.prems"(5) op by simp
    note IH = "7.IH"(2) [OF op [symmetric] refl None "7.prems"(1) op'(1) "7.prems"(3) _ rest]
    have "t = None \<or> t = Some False" using evaluate_and_unknown [OF rest] by (cases t) auto
    then show ?thesis using IH [of True] IH [of u'] op'(2) by (cases b0) (auto simp: info_le_def)
  next
    case (Some c)
    with op' have "b0 = Some c" by (simp add: info_le_def)
    with op' have run': "evaluate_expression ev op s' = (Inr (Some c), s')" by simp
    show ?thesis
    proof (cases "c = True")
      case True
      then have rest: "evaluate_and ev ops u s0 = (Inr t, s1)" using "7.prems"(5) op Some by simp
      have "q s1 \<and> (\<exists>b. evaluate_and ev ops u' s' = (Inr b, s') \<and> info_le t b)"
        by (rule "7.IH"(3) [OF op [symmetric] refl Some])
           (use True "7.prems"(1,3,4) op'(1) rest in simp_all)
      then show ?thesis using run' True by simp
    next
      case False
      then show ?thesis using "7.prems"(5) op Some run' op'(1) by (auto simp: info_le_def)
    qed
  qed
next
  case (9 ev op ops u s)
  from "9.prems"(5) obtain t0 s0 where op: "evaluate_expression ev op s = (Inr t0, s0)"
    by (cases "evaluate_expression ev op s") (auto split: sum.splits)
  with "9.IH"(1) "9.prems"(1,2,3) obtain b0
    where op': "q s0" "evaluate_expression ev op s' = (Inr b0, s')" "info_le t0 b0" by blast
  show ?case
  proof (cases t0)
    case None
    then have rest: "evaluate_or ev ops True s0 = (Inr t, s1)" using "9.prems"(5) op by simp
    note IH = "9.IH"(2) [OF op [symmetric] refl None "9.prems"(1) op'(1) "9.prems"(3) _ rest]
    have "t = None \<or> t = Some True" using evaluate_or_unknown [OF rest] by (cases t) auto
    then show ?thesis using IH [of True] IH [of u'] op'(2) by (cases b0) (auto simp: info_le_def)
  next
    case (Some c)
    with op' have "b0 = Some c" by (simp add: info_le_def)
    with op' have run': "evaluate_expression ev op s' = (Inr (Some c), s')" by simp
    show ?thesis
    proof (cases "c = False")
      case True
      then have rest: "evaluate_or ev ops u s0 = (Inr t, s1)" using "9.prems"(5) op Some by simp
      have "q s1 \<and> (\<exists>b. evaluate_or ev ops u' s' = (Inr b, s') \<and> info_le t b)"
        by (rule "9.IH"(3) [OF op [symmetric] refl Some])
           (use True "9.prems"(1,3,4) op'(1) rest in simp_all)
      then show ?thesis using run' True by simp
    next
      case False
      then show ?thesis using "9.prems"(5) op Some run' op'(1) by (auto simp: info_le_def)
    qed
  qed
qed (auto simp: info_le_def split: if_splits)

section \<open>Errors\<close>

text \<open>The errors of an expression are errors of its criteria.\<close>

lemma evaluate_error:
  "\<forall>ref s err s'. ev ref s = (Inl err, s') \<longrightarrow> E err \<Longrightarrow> evaluate_expression ev e s = (Inl err, s') \<Longrightarrow> E err"
  "\<forall>ref s err s'. ev ref s = (Inl err, s') \<longrightarrow> E err \<Longrightarrow> evaluate_and ev es u s = (Inl err, s') \<Longrightarrow> E err"
  "\<forall>ref s err s'. ev ref s = (Inl err, s') \<longrightarrow> E err \<Longrightarrow> evaluate_or ev es u s = (Inl err, s') \<Longrightarrow> E err"
proof (induction ev e s and ev es u s and ev es u s
    rule: evaluate_expression_evaluate_and_evaluate_or.induct)
  case (2 ev ref s)
  then show ?case by auto
next
  case (3 ev e s)
  then show ?case by (auto split: prod.splits sum.splits)
next
  case (7 ev op ops u s)
  then show ?case
    by (cases "evaluate_expression ev op s") (auto split: sum.splits option.splits if_splits)
next
  case (9 ev op ops u s)
  then show ?case
    by (cases "evaluate_expression ev op s") (auto split: sum.splits option.splits if_splits)
qed (auto split: if_splits)

end
