(* ===== verification/Bucketing.thy ===== *)
theory Bucketing
  imports Libraries
begin

unbundle bit_operations_syntax

text \<open>
  Hash bucketing: \<open>hash\<close>, \<open>bucket\<close> and the account salt of \<open>confidence-resolver/src/lib.rs\<close>,
  the bitsets of segments (\<open>BitVec<u8, Lsb0>\<close>, the list of its bits) and the bloom filters of
  \<open>confidence-resolver/src/bloom_filter.rs\<close>. Machine integers are words of their width:
  \<open>usize\<close> is 64 bits wide, an \<open>i32\<close> compares signed.
\<close>

section \<open>Buckets\<close>

definition BUCKETS :: u64 where
  [model_defs]: "BUCKETS = 1000000"

definition hash :: "libs \<Rightarrow> string \<Rightarrow> u128" where
  [model_defs]: "hash L key = murmur3_x64_128 L key"

definition bucket :: "u128 \<Rightarrow> u64 \<Rightarrow> error_code + u64" where
  [model_defs]: "bucket h buckets =
     (if buckets = 0 then Inl (from_tag ''confidence_resolver:bucket.zero_buckets'')
      else Inr (drop_bit 4 (ucast h :: u64) mod buckets))"

text \<open>A record of the account: \<open>salt\<close> and \<open>salt_unit\<close>.\<close>

record account =
  account_name :: string

definition account_new :: "string \<Rightarrow> account" where
  [model_defs]: "account_new name = \<lparr>account_name = name\<rparr>"

definition salt :: "account \<Rightarrow> error_code + string" where
  [model_defs]: "salt a =
     map_ok (\<lambda>id. ''MegaSalt-'' @ id)
       (or_fail (from_location ''confidence-resolver/src/lib.rs'' 120 46)
         (nth_opt (split_on CHR ''/'' (account_name a)) 1))"

definition salt_unit :: "account \<Rightarrow> string \<Rightarrow> error_code + string" where
  [model_defs]: "salt_unit a unit = map_ok (\<lambda>s. s @ ''|'' @ unit) (salt a)"

lemma bucket_less: "bucket h n = Inr b \<Longrightarrow> b < n"
  by (auto simp: bucket_def word_less_nat_alt unat_mod split: if_splits intro!: mod_less_divisor)
     (simp add: unat_gt_0)

lemma bucket_zero: "bucket h 0 = Inl (from_tag ''confidence_resolver:bucket.zero_buckets'')"
  by (simp add: bucket_def)

lemma bucket_total: "n \<noteq> 0 \<Longrightarrow> \<exists>b. bucket h n = Inr b"
  by (simp add: bucket_def)

text \<open>
  The bucket of a rule: the count is an \<open>i32\<close> widened with its sign, the result is cut to an
  \<open>i32\<close>. For a positive count the bucket lies in \<open>[0, count)\<close> as a signed number.
\<close>

definition rule_bucket :: "libs \<Rightarrow> string \<Rightarrow> i32 \<Rightarrow> error_code + i32" where
  [model_defs]: "rule_bucket L key bucket_count = map_ok ucast (bucket (hash L key) (scast bucket_count))"

lemma uint_scast_pos:
  fixes n :: i32
  assumes "0 < sint n"
  shows "uint (scast n :: u64) = sint n"
proof -
  have n31: "sint n < 2 ^ 31" using sint_range_size [of n] by (simp add: word_size)
  have "uint (scast n :: u64) = take_bit 64 (sint n)"
    by (simp only: scast_eq uint_word_of_int_eq len_num0 len_bit0 len_num1) simp
  also have "\<dots> = sint n"
    using assms n31 by (intro take_bit_int_eq_self) simp_all
  finally show ?thesis .
qed

lemma rule_bucket_total:
  assumes "0 < sint n"
  shows "\<exists>b. rule_bucket L key n = Inr b"
proof -
  have "(scast n :: u64) \<noteq> 0" using uint_scast_pos [OF assms] assms by auto
  then show ?thesis by (simp add: rule_bucket_def map_ok_def bucket_def)
qed

lemma rule_bucket_range:
  assumes "0 < sint n" "rule_bucket L key n = Inr b"
  shows "0 \<le> sint b \<and> sint b < sint n"
proof -
  obtain w where w: "bucket (hash L key) (scast n) = Inr w" and b: "b = ucast w"
    using assms(2) by (auto simp: rule_bucket_def map_ok_def split: sum.splits)
  have n31: "sint n < 2 ^ 31" using sint_range_size [of n] by (simp add: word_size)
  have "uint w < uint (scast n :: u64)"
    using bucket_less [OF w] by (simp add: word_less_def)
  then have w: "uint w < sint n" "0 \<le> uint w" using uint_scast_pos [OF assms(1)] by simp_all
  then have u: "uint b = uint w" using n31 by (simp add: b unsigned_ucast_eq take_bit_int_eq_self)
  have "uint w < 2 ^ 31" using w n31 by linarith
  then have "signed_take_bit 31 (uint w) = uint w"
    by (intro signed_take_bit_int_eq_self) (use uint_ge_0 [of w] in linarith, simp)
  then have "sint b = uint w" by (simp add: sint_uint u)
  with w show ?thesis by simp
qed

section \<open>Bit vectors\<close>

text \<open>\<open>BitVec<u8, Lsb0>::from_slice\<close>: the bits of each byte, least significant first.\<close>

definition bits_of_byte :: "u8 \<Rightarrow> bool list" where
  [model_defs]: "bits_of_byte b = map (bit b) [0..<8]"

definition bits_of_bytes :: "bytes \<Rightarrow> bool list" where
  [model_defs]: "bits_of_bytes bs = concat (map bits_of_byte bs)"

lemma length_bits_of_bytes [simp]: "length (bits_of_bytes bs) = 8 * length bs"
  by (induction bs) (auto simp: bits_of_bytes_def bits_of_byte_def)

lemma nth_bits_of_bytes: "i < 8 * length bs \<Longrightarrow> bits_of_bytes bs ! i = bit (bs ! (i div 8)) (i mod 8)"
proof (induction bs arbitrary: i)
  case (Cons b bs)
  show ?case
  proof (cases "i < 8")
    case True
    then show ?thesis by (simp add: bits_of_bytes_def bits_of_byte_def nth_append)
  next
    case False
    then have "bits_of_bytes (b # bs) ! i = bits_of_bytes bs ! (i - 8)"
      by (simp add: bits_of_bytes_def bits_of_byte_def nth_append)
    also have "\<dots> = bit (bs ! ((i - 8) div 8)) ((i - 8) mod 8)"
      using Cons False by simp
    also have "(i - 8) mod 8 = i mod 8" "i div 8 = Suc ((i - 8) div 8)"
      using False by (simp_all add: le_mod_geq le_div_geq)
    ultimately show ?thesis by simp
  qed
qed simp

section \<open>Bloom filters\<close>

record bloom_filter_pb =
  bf_materialized_segment :: string
  bf_data :: bytes
  bf_hash_function_count :: i32
  bf_bit_count :: i64
  bf_strategy :: i32

record bloom_filter =
  bf_bits :: "bool list"
  num_hash_functions :: u32
  num_bits :: u64

definition STRATEGY_MURMUR128_MITZ_64 :: i32 where
  [model_defs]: "STRATEGY_MURMUR128_MITZ_64 = 1"

text \<open>\<open>chunks_exact_mut(8)\<close>, each chunk reversed; a shorter remainder stays as it is.\<close>

function reverse_chunks8 :: "'a list \<Rightarrow> 'a list" where
  "reverse_chunks8 data =
     (if length data < 8 then data else rev (take 8 data) @ reverse_chunks8 (drop 8 data))"
  by pat_completeness auto
termination
  by (relation "measure length") auto

declare reverse_chunks8.simps [simp del]

definition bloom_from_proto :: "bloom_filter_pb \<Rightarrow> error_code + bloom_filter" where
  [model_defs]: "bloom_from_proto packed =
     (if bf_strategy packed \<noteq> STRATEGY_MURMUR128_MITZ_64
      then Inl (from_tag ''bloom_filter.unsupported_strategy'')
      else Inr \<lparr>bf_bits = bits_of_bytes (reverse_chunks8 (bf_data packed)),
                num_hash_functions = bf_hash_function_count packed,
                num_bits = bf_bit_count packed\<rparr>)"

text \<open>
  The probe loop. \<open>wrapping_rem\<close> panics on a zero divisor; an index past the end of the bit
  vector counts as a clear bit.
\<close>

definition bloom_h1 :: "u128 \<Rightarrow> u64" where
  [model_defs]: "bloom_h1 hash128 = ucast hash128"

definition bloom_h2 :: "u128 \<Rightarrow> u64" where
  [model_defs]: "bloom_h2 hash128 = ucast (drop_bit 64 hash128)"

definition bloom_index :: "u64 \<Rightarrow> u64 \<Rightarrow> u64" where
  [model_defs]: "bloom_index combined bits = (combined AND 0x7FFFFFFFFFFFFFFF) mod bits"

fun bloom_probe :: "bool list \<Rightarrow> u64 \<Rightarrow> nat \<Rightarrow> u64 \<Rightarrow> u64 \<Rightarrow> resolve_error + bool" where
  "bloom_probe bits nbits 0 combined h2 = Inr True"
| "bloom_probe bits nbits (Suc k) combined h2 =
     (if nbits = 0 then Inl Panicked
      else case nth_opt bits (unat (bloom_index combined nbits)) of
             Some True \<Rightarrow> bloom_probe bits nbits k (combined + h2) h2
           | _ \<Rightarrow> Inr False)"

definition might_contain :: "libs \<Rightarrow> bloom_filter \<Rightarrow> string \<Rightarrow> resolve_error + bool" where
  [model_defs]: "might_contain L bf key =
     (let hash128 = murmur3_x64_128 L key in
      bloom_probe (bf_bits bf) (num_bits bf) (unat (num_hash_functions bf))
        (bloom_h1 hash128) (bloom_h2 hash128))"

text \<open>
  Guava's insertion as the conformance test of the source builds it: bit \<open>i\<close> of the filter is
  bit \<open>i mod 64\<close> of the big-endian long \<open>i div 64\<close>.
\<close>

definition be_offset :: "nat \<Rightarrow> nat" where
  [model_defs]: "be_offset bit_index = bit_index div 64 * 8 + (7 - bit_index mod 64 div 8)"

definition be_set_bit :: "nat \<Rightarrow> bytes \<Rightarrow> bytes" where
  [model_defs]: "be_set_bit bit_index data =
     data[be_offset bit_index := (data ! be_offset bit_index) OR push_bit (bit_index mod 64 mod 8) 1]"

fun bloom_insert_loop :: "u64 \<Rightarrow> nat \<Rightarrow> u64 \<Rightarrow> u64 \<Rightarrow> bytes \<Rightarrow> bytes" where
  "bloom_insert_loop nbits 0 combined h2 data = data"
| "bloom_insert_loop nbits (Suc k) combined h2 data =
     bloom_insert_loop nbits k (combined + h2) h2
       (be_set_bit (unat (bloom_index combined nbits)) data)"

definition insert_into_bloom_be :: "libs \<Rightarrow> u32 \<Rightarrow> u64 \<Rightarrow> string \<Rightarrow> bytes \<Rightarrow> bytes" where
  [model_defs]: "insert_into_bloom_be L k nbits key data =
     bloom_insert_loop nbits (unat k) (bloom_h1 (murmur3_x64_128 L key))
       (bloom_h2 (murmur3_x64_128 L key)) data"

lemma length_reverse_chunks8 [simp]: "length (reverse_chunks8 data) = length data"
proof (induction data rule: reverse_chunks8.induct)
  case (1 data)
  then show ?case by (cases "length data < 8") (simp_all add: reverse_chunks8.simps [of data])
qed

lemma nth_reverse_chunks8:
  "8 dvd length data \<Longrightarrow> j < length data \<Longrightarrow>
     reverse_chunks8 data ! j = data ! (j div 8 * 8 + (7 - j mod 8))"
proof (induction data arbitrary: j rule: reverse_chunks8.induct)
  case (1 data)
  then have len: "8 \<le> length data" by (auto dest: dvd_imp_le)
  then have rc: "reverse_chunks8 data = rev (take 8 data) @ reverse_chunks8 (drop 8 data)"
    by (subst reverse_chunks8.simps) simp
  show ?case
  proof (cases "j < 8")
    case True
    with len show ?thesis by (simp add: rc nth_append rev_nth)
  next
    case False
    then have j: "j div 8 = Suc ((j - 8) div 8)" "j mod 8 = (j - 8) mod 8"
      by (simp_all add: le_div_geq le_mod_geq)
    have "reverse_chunks8 data ! j = reverse_chunks8 (drop 8 data) ! (j - 8)"
      using False len by (simp add: rc nth_append)
    also have "\<dots> = drop 8 data ! ((j - 8) div 8 * 8 + (7 - (j - 8) mod 8))"
    proof (rule "1.IH")
      show "\<not> length data < 8" using len by simp
      show "8 dvd length (drop 8 data)" using "1.prems"(1) by (simp add: dvd_diff_nat)
      show "j - 8 < length (drop 8 data)" using "1.prems"(2) False by simp
    qed
    also have "\<dots> = data ! (j div 8 * 8 + (7 - j mod 8))"
      using len by (simp add: j add.assoc)
    finally show ?thesis .
  qed
qed

text \<open>Bit \<open>i\<close> of the data in Guava's layout.\<close>

definition be_bit :: "bytes \<Rightarrow> nat \<Rightarrow> bool" where
  "be_bit data i = bit (data ! be_offset i) (i mod 8)"

lemma be_offset_alt: "be_offset i = i div 8 div 8 * 8 + (7 - i div 8 mod 8)"
proof -
  have "i mod 64 div 8 = i div 8 mod 8" using mod_mult2_eq [of i 8 8] by simp
  then show ?thesis by (simp add: be_offset_def div_mult2_eq [symmetric])
qed

lemma be_offset_less:
  assumes "8 dvd n" "i < 8 * n"
  shows "be_offset i < n"
proof -
  obtain m where n: "n = 8 * m" using assms(1) by auto
  have "i div 8 < 8 * m" using assms(2) by (simp add: n)
  then have "i div 8 div 8 < m" by auto
  then have "i div 8 div 8 * 8 + 8 \<le> 8 * m" by simp
  then show ?thesis by (simp add: be_offset_alt n)
qed

lemma be_offset_inj: "be_offset i = be_offset j \<Longrightarrow> i mod 8 = j mod 8 \<Longrightarrow> i = j"
proof -
  assume *: "be_offset i = be_offset j" "i mod 8 = j mod 8"
  have "be_offset k div 8 = k div 8 div 8 \<and> be_offset k mod 8 = 7 - k div 8 mod 8" for k
  proof -
    have "(q * 8 + r) div 8 = q \<and> (q * 8 + r) mod 8 = r" if "r < 8" for q r :: nat
      using that by simp
    moreover have "7 - k div 8 mod 8 < 8" by simp
    ultimately show ?thesis unfolding be_offset_alt by blast
  qed
  then have d: "i div 8 div 8 = j div 8 div 8" and m: "7 - i div 8 mod 8 = 7 - j div 8 mod 8"
    using *(1) by metis+
  have "a = b" if "7 - a = 7 - b" "a < 8" "b < 8" for a b :: nat using that by simp
  from this [OF m] have "i div 8 mod 8 = j div 8 mod 8" by simp
  with d have "i div 8 div 8 = j div 8 div 8" "i div 8 mod 8 = j div 8 mod 8" by simp_all
  then have "i div 8 = j div 8" by (metis mod_div_mult_eq)
  with *(2) show "i = j" by (metis mod_div_mult_eq)
qed

lemma filter_bits_layout:
  assumes "8 dvd length data" "i < 8 * length data"
  shows "bits_of_bytes (reverse_chunks8 data) ! i = be_bit data i"
proof -
  have "i div 8 < length data" using assms(2) by (simp add: less_mult_imp_div_less mult.commute)
  then have "reverse_chunks8 data ! (i div 8) = data ! be_offset i"
    unfolding be_offset_alt by (rule nth_reverse_chunks8 [OF assms(1)])
  then show ?thesis using assms(2) by (simp only: nth_bits_of_bytes length_reverse_chunks8 be_bit_def)
qed

lemma length_be_set_bit [simp]: "length (be_set_bit i data) = length data"
  by (simp add: be_set_bit_def)

lemma be_bit_set:
  assumes "8 dvd length data" "i < 8 * length data"
  shows "be_bit (be_set_bit i data) j \<longleftrightarrow> be_bit data j \<or> i = j"
proof (cases "be_offset i = be_offset j")
  case True
  have "i mod 64 mod 8 = i mod 8" by (simp add: mod_mod_cancel)
  then have "be_bit (be_set_bit i data) j \<longleftrightarrow> be_bit data j \<or> i mod 8 = j mod 8"
    using be_offset_less [OF assms] True
    by (auto simp: be_bit_def be_set_bit_def bit_simps)
  then show ?thesis using be_offset_inj [OF True] by auto
next
  case False
  then show ?thesis by (auto simp: be_bit_def be_set_bit_def)
qed

lemma length_bloom_insert_loop [simp]: "length (bloom_insert_loop nb k c h2 data) = length data"
  by (induction nb k c h2 data rule: bloom_insert_loop.induct) auto

lemma bloom_index_less: "nb \<noteq> 0 \<Longrightarrow> unat (bloom_index c nb) < unat nb"
  by (simp add: bloom_index_def unat_mod unat_gt_0)

lemma bloom_insert_keeps:
  "8 dvd length data \<Longrightarrow> nb \<noteq> 0 \<Longrightarrow> unat nb \<le> 8 * length data \<Longrightarrow> be_bit data j \<Longrightarrow>
     be_bit (bloom_insert_loop nb k c h2 data) j"
proof (induction nb k c h2 data rule: bloom_insert_loop.induct)
  case (2 nb k c h2 data)
  have "unat (bloom_index c nb) < 8 * length data"
    using bloom_index_less [OF "2.prems"(2), of c] "2.prems"(3) by simp
  with 2 show ?case by (simp add: be_bit_set)
qed simp

text \<open>The probes of a key all hit: the state the insertion establishes and later ones keep.\<close>

fun probes_hit :: "(nat \<Rightarrow> bool) \<Rightarrow> u64 \<Rightarrow> nat \<Rightarrow> u64 \<Rightarrow> u64 \<Rightarrow> bool" where
  "probes_hit P nb 0 c h2 = True"
| "probes_hit P nb (Suc k) c h2 = (P (unat (bloom_index c nb)) \<and> probes_hit P nb k (c + h2) h2)"

lemma probes_hit_mono: "probes_hit P nb k c h2 \<Longrightarrow> (\<And>i. P i \<Longrightarrow> Q i) \<Longrightarrow> probes_hit Q nb k c h2"
  by (induction P nb k c h2 rule: probes_hit.induct) auto

lemma bloom_insert_hits:
  "8 dvd length data \<Longrightarrow> nb \<noteq> 0 \<Longrightarrow> unat nb \<le> 8 * length data \<Longrightarrow>
     probes_hit (be_bit (bloom_insert_loop nb k c h2 data)) nb k c h2"
proof (induction nb k c h2 data rule: bloom_insert_loop.induct)
  case (2 nb k c h2 data)
  have "unat (bloom_index c nb) < 8 * length data"
    using bloom_index_less [OF "2.prems"(2), of c] "2.prems"(3) by simp
  with 2 show ?case by (simp add: be_bit_set bloom_insert_keeps)
qed simp

lemma probe_hits:
  "8 dvd length data \<Longrightarrow> nb \<noteq> 0 \<Longrightarrow> unat nb \<le> 8 * length data \<Longrightarrow>
     probes_hit (be_bit data) nb k c h2 \<Longrightarrow>
     bloom_probe (bits_of_bytes (reverse_chunks8 data)) nb k c h2 = Inr True"
proof (induction "be_bit data" nb k c h2 rule: probes_hit.induct)
  case (2 nb k c h2)
  let ?i = "unat (bloom_index c nb)"
  have "?i < 8 * length data" using bloom_index_less [OF "2.prems"(2), of c] "2.prems"(3) by simp
  then have "nth_opt (bits_of_bytes (reverse_chunks8 data)) ?i = Some True"
    using 2 by (simp add: nth_opt_Some filter_bits_layout)
  with 2 show ?case by simp
qed simp

text \<open>The keys inserted one after another into data of a whole number of longs.\<close>

definition bloom_build :: "libs \<Rightarrow> u32 \<Rightarrow> u64 \<Rightarrow> string list \<Rightarrow> bytes \<Rightarrow> bytes" where
  "bloom_build L k nbits keys data = fold (insert_into_bloom_be L k nbits) keys data"

lemma length_bloom_build [simp]: "length (bloom_build L k nb keys data) = length data"
  by (induction keys arbitrary: data) (auto simp: bloom_build_def insert_into_bloom_be_def)

lemma bloom_build_hits:
  assumes "8 dvd length data" "nb \<noteq> 0" "unat nb \<le> 8 * length data" "key \<in> set keys"
  shows "probes_hit (be_bit (bloom_build L k nb keys data)) nb (unat k)
    (bloom_h1 (murmur3_x64_128 L key)) (bloom_h2 (murmur3_x64_128 L key))"
  using assms(4)
proof (induction keys rule: rev_induct)
  case (snoc x xs)
  let ?d = "bloom_build L k nb xs data"
  have d: "bloom_build L k nb (xs @ [x]) data = insert_into_bloom_be L k nb x ?d"
    by (simp add: bloom_build_def)
  show ?case
  proof (cases "key = x")
    case True
    then show ?thesis unfolding d insert_into_bloom_be_def
      using bloom_insert_hits [of ?d nb] assms by simp
  next
    case False
    with snoc have "probes_hit (be_bit ?d) nb (unat k)
      (bloom_h1 (murmur3_x64_128 L key)) (bloom_h2 (murmur3_x64_128 L key))" by simp
    then show ?thesis unfolding d insert_into_bloom_be_def
      by (rule probes_hit_mono) (simp add: bloom_insert_keeps assms)
  qed
qed simp

text \<open>C12: The bloom filter has no false negatives and reads Guava's byte layout: every key inserted
  into the big-endian long array is reported as possibly contained once the array has been
  converted and wrapped by \<open>from_proto\<close>, whatever other keys were inserted and whatever the
  array held before.\<close>

theorem bloom_no_false_negatives:
  assumes "8 dvd length data" "nbits \<noteq> 0" "unat nbits \<le> 8 * length data" "key \<in> set keys"
    and "bloom_from_proto \<lparr>bf_materialized_segment = name, bf_data = bloom_build L k nbits keys data,
      bf_hash_function_count = k, bf_bit_count = nbits, bf_strategy = 1\<rparr> = Inr bf"
  shows "might_contain L bf key = Inr True"
proof -
  from assms(5) have bf: "bf = \<lparr>bf_bits = bits_of_bytes (reverse_chunks8 (bloom_build L k nbits keys data)),
      num_hash_functions = k, num_bits = nbits\<rparr>"
    by (simp add: bloom_from_proto_def STRATEGY_MURMUR128_MITZ_64_def)
  show ?thesis unfolding bf might_contain_def Let_def
    using probe_hits [OF _ assms(2) _ bloom_build_hits [OF assms(1-4)]] assms(1,3) by simp
qed

theorem bloom_no_false_negatives_witness:
  "might_contain example_libs
     \<lparr>bf_bits = bits_of_bytes (reverse_chunks8
        (bloom_build example_libs 3 64 [''user1'', ''user22''] (replicate 8 0))),
      num_hash_functions = 3, num_bits = 64\<rparr> ''user1'' = Inr True"
  by (rule bloom_no_false_negatives [of "replicate 8 0" 64 "''user1''" "[''user1'', ''user22'']"
        "''segments/a''" example_libs 3])
     (simp_all add: bloom_from_proto_def STRATEGY_MURMUR128_MITZ_64_def)

text \<open>A bloom filter whose bit count is zero is accepted by \<open>from_proto\<close>, and the first lookup in
  it panics: the remainder by the bit count has no guard.\<close>

lemma bloom_zero_bits_panics:
  assumes "bloom_from_proto packed = Inr bf" "bf_bit_count packed = 0"
    and "bf_hash_function_count packed \<noteq> 0"
  shows "might_contain L bf key = Inl Panicked"
proof -
  have "num_bits bf = 0" "num_hash_functions bf \<noteq> 0"
    using assms by (auto simp: bloom_from_proto_def split: if_splits)
  then show ?thesis
    by (cases "unat (num_hash_functions bf)") (auto simp: might_contain_def Let_def unat_eq_zero)
qed

theorem bloom_zero_bits_panics_witness:
  "might_contain example_libs \<lparr>bf_bits = [], num_hash_functions = 3, num_bits = 0\<rparr> ''user1''
     = Inl Panicked"
  by (rule bloom_zero_bits_panics [of "\<lparr>bf_materialized_segment = ''segments/a'', bf_data = [],
        bf_hash_function_count = 3, bf_bit_count = 0, bf_strategy = 1\<rparr>"])
     (simp_all add: bloom_from_proto_def STRATEGY_MURMUR128_MITZ_64_def bits_of_bytes_def
        reverse_chunks8.simps)

end
