(* ===== verification/Resolver_Data.thy ===== *)
theory Resolver_Data
  imports Targeting_Values Expressions Bucketing
begin

text \<open>
  The messages the resolver works on (\<open>target.proto\<close>, \<open>types.proto\<close>, \<open>resolver.proto\<close>,
  \<open>internal_api.proto\<close>, \<open>wasm_api.proto\<close>) and the state built from them (\<open>Client\<close>,
  \<open>ResolverState\<close>, \<open>EvaluationContext\<close>, \<open>AccountResolver\<close> of
  \<open>confidence-resolver/src/lib.rs\<close>). Fields that no code of the resolver reads (display
  names, labels, audit times) are left out.
\<close>

section \<open>Segments\<close>

datatype criterion =
    AttributeCriterion attribute_criterion
  | SegmentCriterion string
  | MaterializedSegmentCriterion string

record targeting =
  criteria :: "criterion option fields"
  targeting_expression :: "expression option"

record segment =
  segment_name :: string
  segment_targeting :: "targeting option"

section \<open>Flags\<close>

datatype assignment_kind =
    VariantAssignment string
  | FallthroughAssignment
  | ClientDefaultAssignment

record bucket_range =
  lower :: i32
  upper :: i32

record assignment =
  assignment_id :: string
  assignment_of :: "assignment_kind option"
  bucket_ranges :: "bucket_range list"

record assignment_spec =
  bucket_count :: i32
  assignments :: "assignment list"

record materialization_read_mode =
  materialization_must_match :: bool
  segment_targeting_can_be_ignored :: bool

record materialization_spec =
  write_materialization :: string
  read_materialization :: string
  read_mode :: "materialization_read_mode option"

record flag_rule =
  rule_name :: string
  rule_segment :: string
  rule_assignment_spec :: "assignment_spec option"
  targeting_key_selector :: string
  rule_enabled :: bool
  rule_environments :: "string list"
  rule_materialization_spec :: "materialization_spec option"

text \<open>A schema is an optional oneof; a struct schema maps field names to schemas.\<close>

datatype schema_type =
    StructSchema "schema_type option fields"
  | ListSchema "schema_type option option"
  | IntSchema
  | DoubleSchema
  | StringSchema
  | BoolSchema

type_synonym flag_schema = "schema_type option"
type_synonym struct_schema = "flag_schema fields"

record variant =
  variant_name :: string
  variant_value :: "gstruct option"

record flag =
  flag_name :: string
  flag_schema_of :: "struct_schema option"
  flag_variants :: "variant list"
  flag_state :: int
  flag_clients :: "string list"
  flag_rules :: "flag_rule list"

definition FLAG_ACTIVE :: int where
  [model_defs]: "FLAG_ACTIVE = 1"

definition FLAG_ARCHIVED :: int where
  [model_defs]: "FLAG_ARCHIVED = 2"

section \<open>Results of a resolve\<close>

datatype resolve_reason =
    RUnspecified | RMatch | RNoSegmentMatch | RNoTreatmentMatch | RFlagArchived
  | RTargetingKeyError | RError | RUnrecognizedTargetingRule
  | RMaterializationNotSupported | RTypeMismatch | RFlagNotFound

text \<open>\<open>reason as i32\<close>, and the accessor of an open enum: an unknown number is the default.\<close>

fun reason_number :: "resolve_reason \<Rightarrow> int" where
  "reason_number RUnspecified = 0"
| "reason_number RMatch = 1"
| "reason_number RNoSegmentMatch = 2"
| "reason_number RNoTreatmentMatch = 3"
| "reason_number RFlagArchived = 4"
| "reason_number RTargetingKeyError = 5"
| "reason_number RError = 6"
| "reason_number RUnrecognizedTargetingRule = 7"
| "reason_number RMaterializationNotSupported = 8"
| "reason_number RTypeMismatch = 9"
| "reason_number RFlagNotFound = 10"

definition reasons :: "resolve_reason list" where
  [model_defs]: "reasons =
     [RUnspecified, RMatch, RNoSegmentMatch, RNoTreatmentMatch, RFlagArchived, RTargetingKeyError,
      RError, RUnrecognizedTargetingRule, RMaterializationNotSupported, RTypeMismatch, RFlagNotFound]"

definition reason_of_number :: "int \<Rightarrow> resolve_reason" where
  [model_defs]: "reason_of_number n =
     (if 0 \<le> n then case nth_opt reasons (nat n) of Some r \<Rightarrow> r | None \<Rightarrow> RUnspecified
      else RUnspecified)"

lemma reason_of_number_inverse [simp]: "reason_of_number (reason_number r) = r"
  by (cases r) (simp_all add: reason_of_number_def reasons_def eval_nat_numeral)

record fallthrough_assignment =
  fa_rule :: string
  fa_assignment_id :: string
  fa_targeting_key :: string
  fa_targeting_key_selector :: string

record assigned_flag =
  af_flag :: string
  af_targeting_key :: string
  af_targeting_key_selector :: string
  af_segment :: string
  af_variant :: string
  af_rule :: string
  af_reason :: int
  af_fallthrough_assignments :: "fallthrough_assignment list"
  af_assignment_id :: string

definition assigned_flag_default :: assigned_flag where
  [model_defs]: "assigned_flag_default = \<lparr>af_flag = [], af_targeting_key = [], af_targeting_key_selector = [],
     af_segment = [], af_variant = [], af_rule = [], af_reason = 0,
     af_fallthrough_assignments = [], af_assignment_id = []\<rparr>"

record materialization_record =
  mr_unit :: string
  mr_materialization :: string
  mr_rule :: string
  mr_variant :: string

section \<open>Resolver state\<close>

record sdk =
  sdk_id :: "(int + string) option"
  sdk_version :: string

record client =
  client_account :: account
  client_name :: string
  client_credential_name :: string
  client_environments :: "string list"
  client_managed_context :: gstruct

record resolver_state =
  rs_secrets :: "client fields"
  rs_flags :: "flag fields"
  rs_segments :: "segment fields"
  rs_bitsets :: "bool list fields"
  rs_bloom_filters :: "bloom_filter fields"
  rs_sdk :: "sdk option"

record account_resolver =
  ar_client :: client
  ar_state :: resolver_state
  evaluation_context :: gstruct
  encryption_key :: bytes
  disable_exposure_collection :: bool

end
