(* ===== verification/Materializations.thy ===== *)
theory Materializations
  imports Resolver_Data
begin

text \<open>
  \<open>MaterializationContext\<close> of \<open>confidence-resolver/src/lib.rs\<close>: what the resolver knows of the
  sticky assignments of a unit. In discovery it collects the reads it would need, with a
  complete set of records it answers from them, and without support every access is an
  error. The operations on the context take it and return it with their result.
\<close>

datatype materialization_records =
    Discovery
  | Unsupported
  | Complete "materialization_record list"

record materialization_context =
  to_read :: "materialization_record list"
  to_write :: "materialization_record list"
  records :: materialization_records

type_synonym 'a mc_step = "(materialization_context, resolve_error, 'a) step"

definition discovery :: materialization_context where
  [model_defs]: "discovery = \<lparr>to_read = [], to_write = [], records = Discovery\<rparr>"

definition complete :: "materialization_record list \<Rightarrow> materialization_context" where
  [model_defs]: "complete materializations = \<lparr>to_read = [], to_write = [], records = Complete materializations\<rparr>"

definition unsupported :: materialization_context where
  [model_defs]: "unsupported = \<lparr>to_read = [], to_write = [], records = Unsupported\<rparr>"

definition has_missing_reads :: "materialization_context \<Rightarrow> bool" where
  [model_defs]: "has_missing_reads mc \<longleftrightarrow> to_read mc \<noteq> []"

text \<open>The key of a record: unit, materialization and rule.\<close>

definition record_matches :: "string \<Rightarrow> string \<Rightarrow> string \<Rightarrow> materialization_record \<Rightarrow> bool" where
  [model_defs]: "record_matches unit materialization rule r \<longleftrightarrow>
     mr_unit r = unit \<and> mr_materialization r = materialization \<and> mr_rule r = rule"

definition record_missing :: "string \<Rightarrow> string \<Rightarrow> string \<Rightarrow> materialization_context \<Rightarrow> materialization_context" where
  [model_defs]: "record_missing unit materialization rule mc =
     (if list_ex (record_matches unit materialization rule) (to_read mc) then mc
      else mc\<lparr>to_read := to_read mc @
        [\<lparr>mr_unit = unit, mr_materialization = materialization, mr_rule = rule, mr_variant = []\<rparr>]\<rparr>)"

definition is_unit_in_materialization :: "string \<Rightarrow> string \<Rightarrow> tribool mc_step" where
  [model_defs]: "is_unit_in_materialization materialization unit mc =
     (case records mc of
        Complete rs \<Rightarrow>
          (Inr (Some (list_ex (\<lambda>r. mr_unit r = unit \<and> mr_materialization r = materialization) rs)), mc)
      | Discovery \<Rightarrow> (Inr None, record_missing unit materialization [] mc)
      | Unsupported \<Rightarrow> (Inl MaterializationsUnsupported, mc))"

definition has_rule_materialization :: "string \<Rightarrow> string \<Rightarrow> string \<Rightarrow> tribool mc_step" where
  [model_defs]: "has_rule_materialization materialization unit rule mc =
     (case records mc of
        Complete rs \<Rightarrow> (Inr (Some (list_ex (record_matches unit materialization rule) rs)), mc)
      | Discovery \<Rightarrow> (Inr None, record_missing unit materialization rule mc)
      | Unsupported \<Rightarrow> (Inl MaterializationsUnsupported, mc))"

definition in_range :: "i32 \<Rightarrow> bucket_range \<Rightarrow> bool" where
  [model_defs]: "in_range b rg \<longleftrightarrow> sint (lower rg) \<le> sint b \<and> sint b < sint (upper rg)"

definition covers_bucket :: "i32 \<Rightarrow> assignment \<Rightarrow> bool" where
  [model_defs]: "covers_bucket b a \<longleftrightarrow> list_ex (in_range b) (bucket_ranges a)"

text \<open>
  A stored variant picks its assignment; when several assignments of the rule carry it, the
  bucket of the unit decides among them, and a failure to compute the bucket selects none.
\<close>

definition select_assignment ::
  "libs \<Rightarrow> materialization_context \<Rightarrow> string \<Rightarrow> string \<Rightarrow> string \<Rightarrow> assignment list \<Rightarrow> string \<Rightarrow> i32 \<Rightarrow> assignment option" where
  [model_defs]: "select_assignment L mc materialization unit rule asgs segment_nm count =
     (case records mc of
        Complete rs \<Rightarrow>
          (case find (record_matches unit materialization rule) rs of
             None \<Rightarrow> None
           | Some r \<Rightarrow>
               if mr_variant r = [] then None
               else
                 let matching = filter (\<lambda>a. assignment_of a = Some (VariantAssignment (mr_variant r))) asgs in
                 if length matching \<le> 1 then first_opt matching
                 else
                   (case nth_opt (split_on CHR ''/'' segment_nm) 1 of
                      None \<Rightarrow> None
                    | Some variant_salt \<Rightarrow>
                        (case rule_bucket L (variant_salt @ ''|'' @ unit) count of
                           Inl e \<Rightarrow> None
                         | Inr b \<Rightarrow> find (covers_bucket b) matching)))
      | _ \<Rightarrow> None)"

definition add_to_write :: "string \<Rightarrow> string \<Rightarrow> string \<Rightarrow> string \<Rightarrow> unit mc_step" where
  [model_defs]: "add_to_write unit materialization rule variant mc =
     (if records mc = Unsupported then (Inl MaterializationsUnsupported, mc)
      else if list_ex (record_matches unit materialization rule) (to_write mc)
      then (Inl (Internal (from_location ''confidence-resolver/src/lib.rs'' 766 13)), mc)
      else (Inr (), mc\<lparr>to_write := to_write mc @
        [\<lparr>mr_unit = unit, mr_materialization = materialization, mr_rule = rule, mr_variant = variant\<rparr>]\<rparr>))"

section \<open>Invariants of the context\<close>

text \<open>
  Reads and writes hold one record per key, and only discovery collects reads.
\<close>

definition record_key :: "materialization_record \<Rightarrow> string \<times> string \<times> string" where
  "record_key r = (mr_unit r, mr_materialization r, mr_rule r)"

definition wf_context :: "materialization_context \<Rightarrow> bool" where
  "wf_context mc \<longleftrightarrow> distinct (map record_key (to_read mc)) \<and> distinct (map record_key (to_write mc))
     \<and> (records mc \<noteq> Discovery \<longrightarrow> to_read mc = [])"

lemma record_matches_key: "record_matches u m r x \<longleftrightarrow> record_key x = (u, m, r)"
  by (auto simp: record_matches_def record_key_def)

lemma list_ex_record_matches: "list_ex (record_matches u m r) xs \<longleftrightarrow> (u, m, r) \<in> record_key ` set xs"
  by (auto simp: list_ex_iff record_matches_key image_iff intro: rev_bexI)

lemma wf_fresh [simp]: "wf_context discovery" "wf_context (complete rs)" "wf_context unsupported"
  by (simp_all add: wf_context_def discovery_def complete_def unsupported_def)

lemma wf_record_missing: "wf_context mc \<Longrightarrow> records mc = Discovery \<Longrightarrow> wf_context (record_missing u m r mc)"
  by (auto simp: wf_context_def record_missing_def list_ex_record_matches record_key_def)

text \<open>
  How a step may change the context: it keeps the records, only extends reads and writes, and
  keeps the invariant. Every operation of the resolver core is such a step.
\<close>

definition extends_context :: "materialization_context \<Rightarrow> materialization_context \<Rightarrow> bool" where
  "extends_context mc mc' \<longleftrightarrow> records mc' = records mc
     \<and> (\<exists>rs. to_read mc' = to_read mc @ rs) \<and> (\<exists>ws. to_write mc' = to_write mc @ ws)
     \<and> (wf_context mc \<longrightarrow> wf_context mc') \<and> (records mc \<noteq> Discovery \<longrightarrow> to_read mc' = to_read mc)"

lemma extends_refl [simp]: "extends_context mc mc"
  by (simp add: extends_context_def)

lemma extends_trans: "extends_context a b \<Longrightarrow> extends_context b c \<Longrightarrow> extends_context a c"
  by (auto simp: extends_context_def)

lemma extends_record_missing: "records mc = Discovery \<Longrightarrow> extends_context mc (record_missing u m r mc)"
  using wf_record_missing [of mc u m r] by (auto simp: extends_context_def record_missing_def)

lemma extends_unit: "is_unit_in_materialization m u mc = (r, mc') \<Longrightarrow> extends_context mc mc'"
  by (auto simp: is_unit_in_materialization_def extends_record_missing split: materialization_records.splits)

lemma extends_rule: "has_rule_materialization m u rl mc = (r, mc') \<Longrightarrow> extends_context mc mc'"
  by (auto simp: has_rule_materialization_def extends_record_missing split: materialization_records.splits)

lemma extends_write: "add_to_write u m rl v mc = (r, mc') \<Longrightarrow> extends_context mc mc'"
  by (auto simp: add_to_write_def extends_context_def wf_context_def list_ex_record_matches record_key_def
      split: if_splits)

lemma to_read_nonempty_mono: "extends_context mc mc' \<Longrightarrow> to_read mc' = [] \<Longrightarrow> to_read mc = []"
  by (auto simp: extends_context_def)

section \<open>Discovery against a complete set of records\<close>

text \<open>The same context with the records \<open>rs\<close> at hand; a quiet context asked for nothing.\<close>

definition with_records :: "materialization_record list \<Rightarrow> materialization_context \<Rightarrow> materialization_context" where
  "with_records rs mc = mc\<lparr>records := Complete rs\<rparr>"

definition quiet :: "materialization_context \<Rightarrow> bool" where
  "quiet mc \<longleftrightarrow> records mc = Discovery \<and> to_read mc = []"

lemma with_records_simps [simp]:
  "records (with_records rs mc) = Complete rs" "to_read (with_records rs mc) = to_read mc"
  "to_write (with_records rs mc) = to_write mc" "with_records rs discovery = complete rs"
  by (simp_all add: with_records_def discovery_def complete_def)

lemma to_read_record_missing [simp]: "to_read (record_missing u m r mc) \<noteq> []"
  by (auto simp: record_missing_def)

lemma quiet_unit: "simulates quiet (with_records rs) (is_unit_in_materialization m u) (is_unit_in_materialization m u)"
  by (rule simulatesI)
     (auto simp: is_unit_in_materialization_def quiet_def
       split: materialization_records.splits)

lemma quiet_rule: "simulates quiet (with_records rs) (has_rule_materialization m u r) (has_rule_materialization m u r)"
  by (rule simulatesI)
     (auto simp: has_rule_materialization_def quiet_def
       split: materialization_records.splits)

lemma quiet_rule_never: "has_rule_materialization m u r mc = (x, mc') \<Longrightarrow> quiet mc' \<Longrightarrow> False"
  by (auto simp: has_rule_materialization_def quiet_def
      split: materialization_records.splits)

lemma quiet_write: "simulates quiet (with_records rs) (add_to_write u m r v) (add_to_write u m r v)"
  by (rule simulatesI)
     (auto simp: add_to_write_def quiet_def with_records_def split: if_splits)

interpretation ext: state_relation extends_context
  by unfold_locales (auto intro: extends_trans)

text \<open>Without discovery no access is unknown and nothing is recorded; with records at hand
  every access of discovery has an answer.\<close>

lemma decides_unit: "decides (\<lambda>mc. records mc \<noteq> Discovery) (is_unit_in_materialization m u)"
  by (rule decidesI) (auto simp: is_unit_in_materialization_def split: materialization_records.splits)

lemma settles_unit:
  "settles (\<lambda>mc. records mc = Discovery) (\<lambda>mc. records mc = Complete rs) (is_unit_in_materialization m u)"
  by (rule settlesI) (auto simp: is_unit_in_materialization_def info_le_def record_missing_def)

end
