(* ===== verification/Segments.thy ===== *)
theory Segments
  imports Materializations
begin

text \<open>
  Segment matching: \<open>segment_match\<close>, \<open>segment_match_internal\<close> and \<open>targeting_match\<close> of
  \<open>confidence-resolver/src/lib.rs\<close>. Segments refer to each other by name; the set of visited
  names, cloned for every criterion, cuts cycles and makes the mutual recursion terminate.
\<close>

section \<open>Attribute criteria\<close>

fun is_collection_rule :: "attr_rule option \<Rightarrow> bool" where
  "is_collection_rule (Some (AnyRule _)) = True"
| "is_collection_rule (Some (AllRule _)) = True"
| "is_collection_rule _ = False"

definition evaluate_attribute :: "libs \<Rightarrow> gstruct \<Rightarrow> attribute_criterion \<Rightarrow> resolve_error + tribool" where
  [model_defs]: "evaluate_attribute L context attribute_criterion =
     (let attribute_value = get_attribute_value context (attribute_name attribute_criterion) in
      case evaluate_null_equality attribute_criterion attribute_value of
        Some matches \<Rightarrow> Inr (Some matches)
      | None \<Rightarrow>
          map_ok Some
            (if is_collection_rule (attribute_rule attribute_criterion) \<and> is_null attribute_value
             then evaluate_criterion attribute_criterion []
             else
               bind_ok (map_err Internal (convert_for_criterion L attribute_value attribute_criterion))
                 (\<lambda>converted. evaluate_criterion attribute_criterion (list_wrapper converted))))"

section \<open>Bitsets\<close>

text \<open>
  A segment without a bitset holds every unit; a unit whose bucket is past the end of the
  bitset is outside; without a unit the bitset must be full.
\<close>

definition check_bitset :: "libs \<Rightarrow> account_resolver \<Rightarrow> segment \<Rightarrow> string option \<Rightarrow> tribool \<Rightarrow> resolve_error + tribool" where
  [model_defs]: "check_bitset L R seg unit targeting_result =
     (if targeting_result = Some False then Inr (Some False)
      else
        case map_of (rs_bitsets (ar_state R)) (segment_name seg) of
          None \<Rightarrow> Inr targeting_result
        | Some bitset \<Rightarrow>
            (case unit of
               Some unit_str \<Rightarrow>
                 bind_ok (map_err Internal (salt_unit (client_account (ar_client R)) unit_str))
                   (\<lambda>salted_unit.
                     bind_ok (map_err Internal (bucket (hash L salted_unit) BUCKETS))
                       (\<lambda>unit_hash.
                         (case nth_opt bitset (unat unit_hash) of
                            None \<Rightarrow> Inr (Some False)
                          | Some b \<Rightarrow> Inr (if b then targeting_result else Some False))))
             | None \<Rightarrow> Inr (if list_all (\<lambda>b. b) bitset then targeting_result else Some False)))"

section \<open>Matching\<close>

definition segment_names :: "account_resolver \<Rightarrow> string set" where
  "segment_names R = (segment_name \<circ> snd) ` set (rs_segments (ar_state R))"

text \<open>
  Each nested match enters a name that was not visited; the number of segments that are still
  open bounds the depth. A segment that is not in the state counts once more.
\<close>

definition open_segments :: "account_resolver \<Rightarrow> string set \<Rightarrow> nat" where
  "open_segments R visited = card (segment_names R - visited)"

lemma finite_segment_names [simp]: "finite (segment_names R)"
  by (simp add: segment_names_def)

lemma segment_names_mem: "map_of (rs_segments (ar_state R)) s = Some seg \<Longrightarrow> segment_name seg \<in> segment_names R"
  by (force simp: segment_names_def dest: map_of_SomeD)

lemma open_segments_insert:
  "open_segments R (insert n visited) =
     (if n \<in> segment_names R \<and> n \<notin> visited then open_segments R visited - 1 else open_segments R visited)"
proof -
  have "segment_names R - insert n visited = segment_names R - visited - {n}" by auto
  then show ?thesis by (simp add: open_segments_def)
qed

lemma open_segments_pos: "n \<in> segment_names R \<Longrightarrow> n \<notin> visited \<Longrightarrow> 0 < open_segments R visited"
  by (auto simp: open_segments_def card_gt_0_iff)

function (sequential)
  segment_match_internal :: "libs \<Rightarrow> account_resolver \<Rightarrow> segment \<Rightarrow> string option \<Rightarrow> string set \<Rightarrow> tribool mc_step"
and targeting_match :: "libs \<Rightarrow> account_resolver \<Rightarrow> segment \<Rightarrow> string option \<Rightarrow> string set \<Rightarrow> tribool mc_step"
where
  "segment_match_internal L R seg unit visited mc =
     (if segment_name seg \<in> visited then (Inr (Some False), mc)
      else
        case targeting_match L R seg unit (insert (segment_name seg) visited) mc of
          (Inl e, mc') \<Rightarrow> (Inl e, mc')
        | (Inr targeting_result, mc') \<Rightarrow> (check_bitset L R seg unit targeting_result, mc'))"
| "targeting_match L R seg unit visited mc =
     (case segment_targeting seg of
        None \<Rightarrow> (Inr (Some True), mc)
      | Some t \<Rightarrow>
          (case targeting_expression t of
             None \<Rightarrow> (Inr (Some True), mc)
           | Some e \<Rightarrow>
               evaluate_expression
                 (\<lambda>id mc'.
                   case map_of (criteria t) id of
                     Some (Some (AttributeCriterion c)) \<Rightarrow>
                       (evaluate_attribute L (evaluation_context R) c, mc')
                   | Some (Some (SegmentCriterion s)) \<Rightarrow>
                       (case map_of (rs_segments (ar_state R)) s of
                          None \<Rightarrow> (Inr (Some False), mc')
                        | Some ref_segment \<Rightarrow> segment_match_internal L R ref_segment unit visited mc')
                   | Some (Some (MaterializedSegmentCriterion m)) \<Rightarrow>
                       (case unit of
                          None \<Rightarrow> (Inr (Some False), mc')
                        | Some unit_str \<Rightarrow>
                            (case map_of (rs_bloom_filters (ar_state R)) m of
                               Some bf \<Rightarrow> (map_ok Some (might_contain L bf unit_str), mc')
                             | None \<Rightarrow> is_unit_in_materialization m unit_str mc'))
                   | _ \<Rightarrow> (Inr (Some False), mc'))
                 e mc))"
  by pat_completeness auto

termination
proof (relation "measure (\<lambda>p. case p of
      Inl (L, R, seg, unit, visited, mc) \<Rightarrow>
        2 * open_segments R visited + (if segment_name seg \<in> segment_names R then 0 else 2)
    | Inr (L, R, seg, unit, visited, mc) \<Rightarrow> 2 * open_segments R visited + 1)", goal_cases)
  case (2 L R seg unit visited mc)
  then show ?case
    using open_segments_pos [of "segment_name seg" R visited]
    by (auto simp: open_segments_insert)
next
  case (3 L R seg unit visited mc t e id mc' a b s ref)
  then show ?case by (auto dest: segment_names_mem)
qed simp

declare segment_match_internal.simps [simp del] targeting_match.simps [simp del]

definition segment_match :: "libs \<Rightarrow> account_resolver \<Rightarrow> segment \<Rightarrow> string option \<Rightarrow> tribool mc_step" where
  [model_defs]: "segment_match L R seg unit mc = segment_match_internal L R seg unit {} mc"

section \<open>How matching acts on the materialization context\<close>

text \<open>The evaluator of a targeting's criteria, and matching in terms of it.\<close>

definition criterion_step ::
  "libs \<Rightarrow> account_resolver \<Rightarrow> targeting \<Rightarrow> string option \<Rightarrow> string set \<Rightarrow> materialization_context criterion_evaluator" where
  "criterion_step L R t unit visited ref mc =
     (case map_of (criteria t) ref of
        Some (Some (AttributeCriterion c)) \<Rightarrow> (evaluate_attribute L (evaluation_context R) c, mc)
      | Some (Some (SegmentCriterion s)) \<Rightarrow>
          (case map_of (rs_segments (ar_state R)) s of
             None \<Rightarrow> (Inr (Some False), mc)
           | Some ref_segment \<Rightarrow> segment_match_internal L R ref_segment unit visited mc)
      | Some (Some (MaterializedSegmentCriterion m)) \<Rightarrow>
          (case unit of
             None \<Rightarrow> (Inr (Some False), mc)
           | Some unit_str \<Rightarrow>
               (case map_of (rs_bloom_filters (ar_state R)) m of
                  Some bf \<Rightarrow> (map_ok Some (might_contain L bf unit_str), mc)
                | None \<Rightarrow> is_unit_in_materialization m unit_str mc))
      | _ \<Rightarrow> (Inr (Some False), mc))"

lemma targeting_match_step:
  "targeting_match L R seg unit visited mc =
     (case segment_targeting seg of
        None \<Rightarrow> (Inr (Some True), mc)
      | Some t \<Rightarrow>
          (case targeting_expression t of
             None \<Rightarrow> (Inr (Some True), mc)
           | Some e \<Rightarrow> evaluate_expression (criterion_step L R t unit visited) e mc))"
  by (simp add: targeting_match.simps criterion_step_def [abs_def] cong: option.case_cong)

lemma evaluate_attribute_known: "evaluate_attribute L context c \<noteq> Inr None"
  by (auto simp: evaluate_attribute_def map_ok_def Let_def split: option.splits sum.splits)

lemma evaluate_criterion_error: "evaluate_criterion c vs = Inl e \<Longrightarrow> e = UnrecognizedRule"
proof -
  have inner: "evaluate_inner_rule r v = Inl e \<Longrightarrow> e = UnrecognizedRule" for r v
    by (cases "(r, v)" rule: evaluate_inner_rule.cases) (auto split: option.splits)
  have any: "any_inner r ws = Inl e \<Longrightarrow> e = UnrecognizedRule" for r ws
    by (induction ws) (auto split: sum.splits if_splits dest: inner)
  have all: "all_inner r ws = Inl e \<Longrightarrow> e = UnrecognizedRule" for r ws
    by (induction ws) (auto split: sum.splits if_splits dest: inner)
  assume "evaluate_criterion c vs = Inl e"
  then show ?thesis
    by (auto simp: evaluate_criterion_def split: option.splits attr_rule.splits dest: any all)
qed

lemma evaluate_attribute_error: "evaluate_attribute L context c \<noteq> Inl MissingMaterializations"
  by (auto simp: evaluate_attribute_def map_ok_def bind_ok_def map_err_def Let_def
      split: option.splits sum.splits dest: evaluate_criterion_error)

lemma might_contain_error: "might_contain L bf u \<noteq> Inl MissingMaterializations"
proof -
  have "bloom_probe bits nb k c h \<noteq> Inl MissingMaterializations" for bits nb k c h
    by (induction bits nb k c h rule: bloom_probe.induct) (auto split: option.splits bool.splits)
  then show ?thesis by (simp add: might_contain_def Let_def)
qed

lemma check_bitset_error: "check_bitset L R seg unit t \<noteq> Inl MissingMaterializations"
  by (auto simp: check_bitset_def bind_ok_def map_err_def split: option.splits sum.splits)

lemma check_bitset_None: "check_bitset L R seg unit (Some b) \<noteq> Inr None"
  by (auto simp: check_bitset_def bind_ok_def map_err_def split: option.splits sum.splits)

lemma check_bitset_settles:
  "check_bitset L R seg unit t = Inr t' \<Longrightarrow> info_le t b \<Longrightarrow> \<exists>b'. check_bitset L R seg unit b = Inr b' \<and> info_le t' b'"
  by (auto simp: check_bitset_def info_le_def bind_ok_def map_err_def
      split: option.splits sum.splits if_splits)

text \<open>
  A property of steps that pure answers and the materialization lookup have, that expressions
  inherit from their criteria and that the bitset check keeps, holds of every match.
\<close>

definition then_bitset :: "libs \<Rightarrow> account_resolver \<Rightarrow> segment \<Rightarrow> string option \<Rightarrow> tribool mc_step \<Rightarrow> tribool mc_step" where
  "then_bitset L R seg unit m mc =
     (case m mc of (Inl err, mc') \<Rightarrow> (Inl err, mc') | (Inr t, mc') \<Rightarrow> (check_bitset L R seg unit t, mc'))"

lemma then_bitset_split:
  "then_bitset L R seg unit m mc = (r, mc') \<longleftrightarrow>
     (\<exists>x. m mc = (x, mc') \<and> r = bind_ok x (check_bitset L R seg unit))"
  by (cases "m mc"; cases "fst (m mc)") (auto simp: then_bitset_def bind_ok_def)

lemma bind_bitset_known: "x \<noteq> Inr None \<Longrightarrow> bind_ok x (check_bitset L R seg unit) \<noteq> Inr None"
  using check_bitset_None [of L R seg unit] by (auto simp: bind_ok_def split: sum.splits)

locale match_property =
  fixes P :: "tribool mc_step \<Rightarrow> bool"
  assumes known: "x \<noteq> Inr None \<Longrightarrow> x \<noteq> Inl MissingMaterializations \<Longrightarrow> P (\<lambda>mc. (x, mc))"
    and lookup: "P (is_unit_in_materialization mat u)"
    and expression: "\<forall>r. P (ev r) \<Longrightarrow> P (evaluate_expression ev e)"
    and bitset: "P m \<Longrightarrow> P (then_bitset L R seg unit m)"
begin

lemma criterion:
  assumes "\<And>s seg. map_of (criteria t) ref = Some (Some (SegmentCriterion s)) \<Longrightarrow>
             map_of (rs_segments (ar_state R)) s = Some seg \<Longrightarrow>
             P (segment_match_internal L R seg unit visited)"
  shows "P (criterion_step L R t unit visited ref)"
proof -
  have bloom: "map_ok Some (might_contain L bf u) \<noteq> Inr None"
      "map_ok Some (might_contain L bf u) \<noteq> Inl MissingMaterializations" for bf u
    using might_contain_error [of L bf u] by (auto simp: map_ok_def split: sum.splits)
  note step = criterion_step_def [of L R t unit visited ref, abs_def]
  show ?thesis
  proof (cases "map_of (criteria t) ref")
    case None
    then show ?thesis using known [of "Inr (Some False)"] by (simp add: step)
  next
    case (Some c)
    show ?thesis
    proof (cases c)
      case None
      then show ?thesis using Some known [of "Inr (Some False)"] by (simp add: step)
    next
      case (Some k)
      with \<open>map_of (criteria t) ref = Some c\<close>
      have step: "criterion_step L R t unit visited ref = (\<lambda>mc. case k of
          AttributeCriterion c \<Rightarrow> (evaluate_attribute L (evaluation_context R) c, mc)
        | SegmentCriterion s \<Rightarrow>
            (case map_of (rs_segments (ar_state R)) s of None \<Rightarrow> (Inr (Some False), mc)
             | Some ref_segment \<Rightarrow> segment_match_internal L R ref_segment unit visited mc)
        | MaterializedSegmentCriterion m \<Rightarrow>
            (case unit of None \<Rightarrow> (Inr (Some False), mc)
             | Some u \<Rightarrow> (case map_of (rs_bloom_filters (ar_state R)) m of
                 Some bf \<Rightarrow> (map_ok Some (might_contain L bf u), mc)
               | None \<Rightarrow> is_unit_in_materialization m u mc)))"
        by (simp add: step cong: criterion.case_cong)
      show ?thesis
      proof (cases k)
        case (AttributeCriterion c)
        then show ?thesis by (simp add: step known evaluate_attribute_known evaluate_attribute_error)
      next
        case (SegmentCriterion s)
        then show ?thesis
          using assms [of s] Some \<open>map_of (criteria t) ref = Some c\<close> known [of "Inr (Some False)"]
          by (cases "map_of (rs_segments (ar_state R)) s") (simp_all add: step)
      next
        case (MaterializedSegmentCriterion m)
        then show ?thesis
          using lookup known [of "Inr (Some False)"] known [OF bloom]
          unfolding step by (cases unit; cases "map_of (rs_bloom_filters (ar_state R)) m") simp_all
      qed
    qed
  qed
qed

lemma matching:
  fixes mc :: materialization_context
  shows "P (segment_match_internal L R seg unit visited)"
  "P (targeting_match L R seg unit visited)"
proof (induction L R seg unit visited mc and L R seg unit visited mc
    rule: segment_match_internal_targeting_match.induct)
  case (1 L R seg unit visited mc)
  show ?case
  proof (cases "segment_name seg \<in> visited")
    case True
    then show ?thesis
      using known [of "Inr (Some False)"] by (simp add: segment_match_internal.simps [abs_def])
  next
    case False
    then show ?thesis
      using bitset [OF "1.IH" [OF False]]
      by (simp add: segment_match_internal.simps [abs_def] then_bitset_def [abs_def])
  qed
next
  case (2 L R seg unit visited mc)
  have "P (criterion_step L R t unit visited ref)"
    if "segment_targeting seg = Some t" "targeting_expression t = Some e" for t e ref
    by (rule criterion) (rule "2.IH" [OF that _ refl refl], assumption+)
  then have run: "P (evaluate_expression (criterion_step L R t unit visited) e)"
    if "segment_targeting seg = Some t" "targeting_expression t = Some e" for t e
    using that expression by simp
  note step = targeting_match_step [of L R seg unit visited, abs_def]
  show ?case
  proof (cases "segment_targeting seg")
    case None
    then show ?thesis using known [of "Inr (Some True)"] by (simp add: step)
  next
    case (Some t)
    then show ?thesis
      using known [of "Inr (Some True)"] run by (cases "targeting_expression t") (simp_all add: step)
  qed
qed

end

text \<open>
  The four instances: matching only extends the context; without discovery it decides and
  changes nothing; a discovery run that ends without any read runs the same with every set of
  records; and the records settle what discovery left unknown.
\<close>

interpretation m_ext: match_property "within extends_context"
proof unfold_locales
  fix m :: "tribool mc_step" and L R seg unit
  assume "within extends_context m"
  then show "within extends_context (then_bitset L R seg unit m)"
    by (auto simp: within_def then_bitset_split)
qed (auto simp: ext.within_evaluate intro: withinI extends_unit)

interpretation m_decided: match_property "decides (\<lambda>mc. records mc \<noteq> Discovery)"
proof unfold_locales
  fix m :: "tribool mc_step" and L R seg unit
  assume *: "decides (\<lambda>mc. records mc \<noteq> Discovery) m"
  show "decides (\<lambda>mc. records mc \<noteq> Discovery) (then_bitset L R seg unit m)"
  proof (rule decidesI)
    fix s r and s' :: materialization_context
    assume q: "records s \<noteq> Discovery" and "then_bitset L R seg unit m s = (r, s')"
    then obtain x where x: "m s = (x, s')" "r = bind_ok x (check_bitset L R seg unit)"
      by (auto simp: then_bitset_split)
    have "s' = s" "x \<noteq> Inr None" using decidesD [OF * q x(1)] by simp_all
    then show "s' = s \<and> r \<noteq> Inr None" using bind_bitset_known x(2) by simp
  qed
next
  fix ev :: "materialization_context criterion_evaluator" and e
  assume *: "\<forall>r. decides (\<lambda>mc. records mc \<noteq> Discovery) (ev r)"
  show "decides (\<lambda>mc. records mc \<noteq> Discovery) (evaluate_expression ev e)"
    by (rule decidesI) (rule evaluate_decides(1) [OF *], assumption+)
qed (rule decides_unit | simp add: decides_def)+

interpretation m_quiet: match_property "\<lambda>m. simulates quiet (with_records rs) m m"
  for rs
proof unfold_locales
  fix m :: "tribool mc_step" and L R seg unit
  assume *: "simulates quiet (with_records rs) m m"
  show "simulates quiet (with_records rs) (then_bitset L R seg unit m) (then_bitset L R seg unit m)"
  proof (rule simulatesI)
    fix s r and s' :: materialization_context
    assume "then_bitset L R seg unit m s = (r, s')" and q: "quiet s'"
    then obtain x where x: "m s = (x, s')" "r = bind_ok x (check_bitset L R seg unit)"
      by (auto simp: then_bitset_split)
    show "quiet s \<and> then_bitset L R seg unit m (with_records rs s) = (r, with_records rs s')"
      using simulatesD [OF * x(1) q] x(2) by (auto simp: then_bitset_split)
  qed
next
  fix ev :: "materialization_context criterion_evaluator" and e
  assume *: "\<forall>r. simulates quiet (with_records rs) (ev r) (ev r)"
  show "simulates quiet (with_records rs) (evaluate_expression ev e) (evaluate_expression ev e)"
    by (rule simulatesI) (rule evaluate_simulates(1) [OF *], assumption+)
qed (rule quiet_unit | simp add: simulates_def)+

interpretation m_settled:
  match_property "settles (\<lambda>mc. records mc = Discovery) (\<lambda>mc. records mc = Complete rs)"
  for rs
proof unfold_locales
  fix m :: "tribool mc_step" and L R seg unit
  assume *: "settles (\<lambda>mc. records mc = Discovery) (\<lambda>mc. records mc = Complete rs) m"
  show "settles (\<lambda>mc. records mc = Discovery) (\<lambda>mc. records mc = Complete rs) (then_bitset L R seg unit m)"
  proof (rule settlesI)
    fix s s' s1 :: materialization_context and t
    assume q: "records s = Discovery" "records s' = Complete rs"
      and "then_bitset L R seg unit m s = (Inr t, s1)"
    then obtain x where "m s = (x, s1)" "bind_ok x (check_bitset L R seg unit) = Inr t"
      by (auto simp: then_bitset_split)
    then obtain t0 where t0: "m s = (Inr t0, s1)" "check_bitset L R seg unit t0 = Inr t"
      by (cases x) (auto simp: bind_ok_def)
    then obtain b where b: "records s1 = Discovery" "m s' = (Inr b, s')" "info_le t0 b"
      using settlesD [OF * q] by blast
    obtain b' where "check_bitset L R seg unit b = Inr b'" "info_le t b'"
      using check_bitset_settles [OF t0(2) b(3)] by blast
    then have "then_bitset L R seg unit m s' = (Inr b', s')" "info_le t b'"
      using b(2) by (auto simp: then_bitset_split bind_ok_def)
    with b(1) show
      "records s1 = Discovery \<and> (\<exists>b. then_bitset L R seg unit m s' = (Inr b, s') \<and> info_le t b)"
      by blast
  qed
next
  fix ev :: "materialization_context criterion_evaluator" and e
  assume *: "\<forall>r. settles (\<lambda>mc. records mc = Discovery) (\<lambda>mc. records mc = Complete rs) (ev r)"
  show "settles (\<lambda>mc. records mc = Discovery) (\<lambda>mc. records mc = Complete rs) (evaluate_expression ev e)"
    by (rule settlesI) (rule evaluate_settles(1) [OF *], assumption+)
qed (simp_all add: settles_unit, auto simp: settles_def info_le_def)

text \<open>Only the rules of a flag report missing materializations; matching never does.\<close>

definition never_missing :: "tribool mc_step \<Rightarrow> bool" where
  "never_missing m \<longleftrightarrow> (\<forall>mc. fst (m mc) \<noteq> Inl MissingMaterializations)"

interpretation m_errors: match_property never_missing
proof unfold_locales
  fix m :: "tribool mc_step" and L R seg unit
  assume *: "never_missing m"
  show "never_missing (then_bitset L R seg unit m)"
    unfolding never_missing_def
  proof
    fix mc :: materialization_context
    obtain x mc' where x: "m mc = (x, mc')" by (cases "m mc")
    then have "x \<noteq> Inl MissingMaterializations" using * by (metis never_missing_def fst_conv)
    then show "fst (then_bitset L R seg unit m mc) \<noteq> Inl MissingMaterializations"
      using check_bitset_error [of L R seg unit] by (cases x) (simp_all add: then_bitset_def x)
  qed
next
  fix ev :: "materialization_context criterion_evaluator" and e
  assume *: "\<forall>r. never_missing (ev r)"
  show "never_missing (evaluate_expression ev e)"
    unfolding never_missing_def using evaluate_error(1) [where E = "\<lambda>err. err \<noteq> MissingMaterializations" and ev = ev and e = e] *
    by (metis never_missing_def prod.collapse fst_conv)
next
  fix mat u
  show "never_missing (is_unit_in_materialization mat u)"
    by (auto simp: never_missing_def is_unit_in_materialization_def split: materialization_records.splits)
qed (simp add: never_missing_def)

lemma segment_match_not_missing: "segment_match L R seg unit mc = (Inl e, mc') \<Longrightarrow> e \<noteq> MissingMaterializations"
  using m_errors.matching(1) [of L R seg unit "{}"] by (metis never_missing_def segment_match_def fst_conv)

lemma targeting_match_not_missing: "targeting_match L R seg unit vis mc = (Inl e, mc') \<Longrightarrow> e \<noteq> MissingMaterializations"
  using m_errors.matching(2) [of L R seg unit vis] by (metis never_missing_def fst_conv)

lemma segment_match_decides:
  "records mc \<noteq> Discovery \<Longrightarrow> segment_match L R seg unit mc = (r, mc') \<Longrightarrow> mc' = mc \<and> r \<noteq> Inr None"
  using decidesD [OF m_decided.matching(1)] by (simp add: segment_match_def)

lemma targeting_match_decides:
  "records mc \<noteq> Discovery \<Longrightarrow> targeting_match L R seg unit vis mc = (r, mc') \<Longrightarrow> mc' = mc \<and> r \<noteq> Inr None"
  using decidesD [OF m_decided.matching(2)] by simp

lemma segment_match_extends: "segment_match L R seg unit mc = (r, mc') \<Longrightarrow> extends_context mc mc'"
  using withinD [OF m_ext.matching(1)] by (simp add: segment_match_def)

lemma targeting_match_extends: "targeting_match L R seg unit vis mc = (r, mc') \<Longrightarrow> extends_context mc mc'"
  using withinD [OF m_ext.matching(2)] by simp

lemma segment_match_quiet:
  "simulates quiet (with_records rs) (segment_match L R seg unit) (segment_match L R seg unit)"
  using m_quiet.matching(1) by (simp add: segment_match_def [abs_def])

section \<open>Properties\<close>

text \<open>A small account for the closed instances: one segment whose targeting is \<open>sticky or (country is SE)\<close>.\<close>

definition country_criterion :: attribute_criterion where
  "country_criterion = \<lparr>attribute_name = ''country'',
     attribute_rule = Some (EqRule (Some (Some (TString ''SE''))))\<rparr>"

definition example_targeting :: targeting where
  "example_targeting = \<lparr>criteria = [(''m'', Some (MaterializedSegmentCriterion ''materializedSegments/m'')),
       (''c'', Some (AttributeCriterion country_criterion))],
     targeting_expression = Some (ExprOr [ExprRef ''m'', ExprRef ''c''])\<rparr>"

definition example_segment :: segment where
  "example_segment = \<lparr>segment_name = ''segments/s'', segment_targeting = Some example_targeting\<rparr>"

definition example_client :: client where
  "example_client = \<lparr>client_account = account_new ''accounts/a'', client_name = ''clients/c'',
     client_credential_name = ''clients/c/credentials/x'', client_environments = [],
     client_managed_context = []\<rparr>"

definition example_state :: resolver_state where
  "example_state = \<lparr>rs_secrets = [(''secret'', example_client)], rs_flags = [],
     rs_segments = [(''segments/s'', example_segment)], rs_bitsets = [], rs_bloom_filters = [],
     rs_sdk = None\<rparr>"

definition example_resolver :: "gstruct \<Rightarrow> account_resolver" where
  "example_resolver context = \<lparr>ar_client = example_client, ar_state = example_state,
     evaluation_context = context, encryption_key = replicate 16 0,
     disable_exposure_collection = False\<rparr>"

lemmas example_defs = country_criterion_def example_targeting_def example_segment_def example_client_def
  example_state_def example_resolver_def

text \<open>Outside discovery a segment match always decides: with the materialization records at
  hand, or with materializations unsupported, the result is an error or a definite yes or no,
  never unknown, and the materialization context is left untouched.\<close>

lemma match_decided:
  assumes "records mc \<noteq> Discovery"
    and "segment_match L R seg unit mc = (r, mc')"
  shows "mc' = mc \<and> r \<noteq> Inr None"
  using decidesD [OF m_decided.matching(1) assms(1)] assms(2) by (simp add: segment_match_def)

theorem match_decided_witness:
  "snd (segment_match example_libs (example_resolver []) example_segment (Some ''u'') unsupported) = unsupported"
  using match_decided [of unsupported example_libs "example_resolver []" example_segment "Some ''u''"]
  by (metis surjective_pairing materialization_context.select_convs(3) materialization_records.distinct(1) unsupported_def)

text \<open>C5: What discovery knows is final: if matching a segment in discovery succeeds with a known
  or unknown result, then with any complete set of records it succeeds too, decides, and agrees
  with discovery wherever discovery knew the answer, through nested segments and expressions
  that stop early.\<close>

theorem discovery_match_sound:
  assumes "records mc = Discovery"
    and "segment_match L R seg unit mc = (Inr t, mc1)"
  shows "\<exists>b. segment_match L R seg unit (complete rs) = (Inr (Some b), complete rs) \<and> (t = None \<or> t = Some b)"
proof -
  obtain x where x: "segment_match L R seg unit (complete rs) = (Inr x, complete rs)" "info_le t x"
    using settlesD [OF m_settled.matching(1) assms(1), of "complete rs" rs L R seg unit "{}" t mc1] assms(2)
    by (auto simp: segment_match_def complete_def)
  moreover have "x \<noteq> None"
    using decidesD [OF m_decided.matching(1), of "complete rs" L R seg unit "{}"] x(1)
    by (auto simp: segment_match_def complete_def)
  ultimately show ?thesis by (auto simp: info_le_def)
qed

theorem discovery_match_sound_witness:
  "\<exists>b. segment_match example_libs (example_resolver [(''country'', Some (StringValue ''SE''))])
        example_segment (Some ''u'') (complete []) = (Inr (Some b), complete []) \<and> b"
proof -
  let ?m = "segment_match example_libs (example_resolver [(''country'', Some (StringValue ''SE''))])
      example_segment (Some ''u'')"
  have "?m discovery = (Inr (Some True), record_missing ''u'' ''materializedSegments/m'' [] discovery)"
    by (simp add: segment_match_def segment_match_internal.simps targeting_match.simps example_defs model_defs)
  then show ?thesis
    using discovery_match_sound [of discovery example_libs
        "example_resolver [(''country'', Some (StringValue ''SE''))]" example_segment "Some ''u''" "Some True"]
    by (auto simp: discovery_def)
qed

end
