(* ===== verification/Flag_Resolution.thy ===== *)
theory Flag_Resolution
  imports Segments
begin

text \<open>
  The resolve of one flag: \<open>resolve_flag\<close>, \<open>resolve_flag_internal\<close>, the operations of
  \<open>ResolvedValue\<close> and their helpers in \<open>confidence-resolver/src/lib.rs\<close>. The body of the loop
  over the rules is split into its phases: the unit of the rule, the read of a materialized
  assignment, the segment match and the choice of an assignment. The loop carries the resolved
  value, whether materializations were missing, and the materialization context.
\<close>

section \<open>Resolved values\<close>

record resolved_value =
  rv_flag :: flag
  rv_inner :: assigned_flag

definition resolved_new :: "flag \<Rightarrow> resolved_value" where
  [model_defs]: "resolved_new flag = \<lparr>rv_flag = flag,
     rv_inner = assigned_flag_default\<lparr>af_flag := flag_name flag,
       af_reason := reason_number RNoSegmentMatch\<rparr>\<rparr>"

definition resolved_error :: "resolved_value \<Rightarrow> resolve_reason \<Rightarrow> resolved_value" where
  [model_defs]: "resolved_error rv reason = rv\<lparr>rv_inner := (rv_inner rv)\<lparr>
     af_reason := reason_number reason, af_variant := [], af_rule := [], af_segment := [],
     af_assignment_id := [], af_targeting_key := []\<rparr>\<rparr>"

definition attribute_fallthrough_rule :: "resolved_value \<Rightarrow> flag_rule \<Rightarrow> string \<Rightarrow> string \<Rightarrow> resolved_value" where
  [model_defs]: "attribute_fallthrough_rule rv rule asg_id unit = rv\<lparr>rv_inner := (rv_inner rv)\<lparr>
     af_fallthrough_assignments := af_fallthrough_assignments (rv_inner rv) @
       [\<lparr>fa_rule = rule_name rule, fa_assignment_id = asg_id, fa_targeting_key = unit,
         fa_targeting_key_selector = targeting_key_selector rule\<rparr>]\<rparr>\<rparr>"

definition with_client_default_match :: "resolved_value \<Rightarrow> flag_rule \<Rightarrow> segment \<Rightarrow> string \<Rightarrow> string \<Rightarrow> resolved_value" where
  [model_defs]: "with_client_default_match rv rule seg asg_id unit = rv\<lparr>rv_inner := (rv_inner rv)\<lparr>
     af_reason := reason_number RMatch, af_rule := rule_name rule, af_segment := segment_name seg,
     af_assignment_id := asg_id, af_targeting_key := unit,
     af_targeting_key_selector := targeting_key_selector rule\<rparr>\<rparr>"

definition with_variant_match :: "resolved_value \<Rightarrow> flag_rule \<Rightarrow> segment \<Rightarrow> variant \<Rightarrow> string \<Rightarrow> string \<Rightarrow> resolved_value" where
  [model_defs]: "with_variant_match rv rule seg variant asg_id unit = rv\<lparr>rv_inner := (rv_inner rv)\<lparr>
     af_reason := reason_number RMatch, af_rule := rule_name rule, af_segment := segment_name seg,
     af_variant := variant_name variant, af_assignment_id := asg_id, af_targeting_key := unit,
     af_targeting_key_selector := targeting_key_selector rule\<rparr>\<rparr>"

definition find_variant :: "flag \<Rightarrow> string \<Rightarrow> variant option" where
  [model_defs]: "find_variant flag name = find (\<lambda>v. variant_name v = name) (flag_variants flag)"

definition try_with_variant_match ::
  "resolved_value \<Rightarrow> flag_rule \<Rightarrow> segment \<Rightarrow> assignment \<Rightarrow> string \<Rightarrow> resolve_error + resolved_value" where
  [model_defs]: "try_with_variant_match rv rule seg asg unit =
     (case assignment_of asg of
        Some (VariantAssignment name) \<Rightarrow>
          (case find_variant (rv_flag rv) name of
             None \<Rightarrow> Inl (Internal (from_location ''confidence-resolver/src/lib.rs'' 1748 13))
           | Some v \<Rightarrow> Inr (with_variant_match rv rule seg v (assignment_id asg) unit))
      | _ \<Rightarrow> Inl (Internal (from_location ''confidence-resolver/src/lib.rs'' 1745 13)))"

definition rv_reason :: "resolved_value \<Rightarrow> resolve_reason" where
  [model_defs]: "rv_reason rv = reason_of_number (af_reason (rv_inner rv))"

definition should_apply :: "resolved_value \<Rightarrow> bool" where
  [model_defs]: "should_apply rv \<longleftrightarrow>
     rv_reason rv = RMatch \<or> af_fallthrough_assignments (rv_inner rv) \<noteq> []"

section \<open>The phases of a rule\<close>

definition enabled_for_environment :: "account_resolver \<Rightarrow> flag_rule \<Rightarrow> bool" where
  [model_defs]: "enabled_for_environment R rule \<longleftrightarrow>
     rule_environments rule = [] \<or>
     list_ex (\<lambda>env. env \<in> set (client_environments (ar_client R))) (rule_environments rule)"

definition has_only_one_full_variant :: "assignment_spec \<Rightarrow> bool" where
  [model_defs]: "has_only_one_full_variant spec =
     (case assignments spec of
        [asg] \<Rightarrow>
          (case bucket_ranges asg of
             [rg] \<Rightarrow> lower rg = 0 \<and> upper rg = bucket_count spec
           | _ \<Rightarrow> False)
      | _ \<Rightarrow> False)"

datatype rule_unit = UseUnit "string option" | SkipRule | KeyError

definition unit_of_rule :: "account_resolver \<Rightarrow> flag_rule \<Rightarrow> rule_unit" where
  [model_defs]: "unit_of_rule R rule =
     (let targeting_key =
        (if targeting_key_selector rule \<noteq> [] then targeting_key_selector rule else TARGETING_KEY) in
      case get_targeting_key (evaluation_context R) targeting_key of
        Inr (Some u) \<Rightarrow> UseUnit (Some u)
      | Inr None \<Rightarrow> if targeting_key_selector rule = [] then UseUnit None else SkipRule
      | Inl _ \<Rightarrow>
          let is_full_rollout =
            (case rule_assignment_spec rule of
               Some spec \<Rightarrow> has_only_one_full_variant spec
             | None \<Rightarrow> False) in
          if targeting_key_selector rule = [] \<and> is_full_rollout then UseUnit None else KeyError)"

definition default_read_mode :: materialization_read_mode where
  [model_defs]: "default_read_mode =
     \<lparr>materialization_must_match = False, segment_targeting_can_be_ignored = False\<rparr>"

text \<open>
  The outcome of a phase: go on with the match so far and whether materializations were
  missing, try the next rule, or return from the whole resolve.
\<close>

datatype read_outcome =
    ReadGo tribool bool
  | ReadSkip
  | ReadReturn "resolve_error + resolved_value"

definition read_phase ::
  "libs \<Rightarrow> account_resolver \<Rightarrow> flag_rule \<Rightarrow> segment \<Rightarrow> assignment_spec \<Rightarrow> string option \<Rightarrow>
   resolved_value \<Rightarrow> bool \<Rightarrow> materialization_context \<Rightarrow> read_outcome \<times> materialization_context" where
  [model_defs]: "read_phase L R rule seg spec unit rv missing mc =
     (case rule_materialization_spec rule of
        None \<Rightarrow> (ReadGo (Some False) missing, mc)
      | Some ms \<Rightarrow>
          if read_materialization ms = [] then (ReadGo (Some False) missing, mc)
          else
            (case unit of
               None \<Rightarrow> (ReadSkip, mc)
             | Some unit_str \<Rightarrow>
                 let mode = (case read_mode ms of Some m \<Rightarrow> m | None \<Rightarrow> default_read_mode) in
                 (case has_rule_materialization (read_materialization ms) unit_str (rule_name rule) mc of
                    (Inl e, mc1) \<Rightarrow> (ReadReturn (Inl e), mc1)
                  | (Inr None, mc1) \<Rightarrow> (ReadGo (Some False) True, mc1)
                  | (Inr (Some found), mc1) \<Rightarrow>
                      if \<not> found then
                        (if materialization_must_match mode then (ReadSkip, mc1)
                         else (ReadGo (Some False) missing, mc1))
                      else
                        (case (if segment_targeting_can_be_ignored mode then (Inr (Some True), mc1)
                               else targeting_match L R seg unit {} mc1) of
                           (Inl e, mc2) \<Rightarrow>
                             (if e = UnrecognizedRule then (ReadSkip, mc2) else (ReadReturn (Inl e), mc2))
                         | (Inr matched, mc2) \<Rightarrow>
                             if matched = Some True then
                               (case select_assignment L mc2 (read_materialization ms) unit_str
                                       (rule_name rule) (assignments spec) (rule_segment rule)
                                       (bucket_count spec) of
                                  Some asg \<Rightarrow>
                                    (ReadReturn (try_with_variant_match rv rule seg asg unit_str), mc2)
                                | None \<Rightarrow> (ReadGo matched missing, mc2))
                             else (ReadGo matched missing, mc2)))))"

text \<open>The assignment of a matched rule; \<open>None\<close> when there is no unit to hash.\<close>

definition choose_assignment ::
  "libs \<Rightarrow> flag_rule \<Rightarrow> assignment_spec \<Rightarrow> string option \<Rightarrow> (resolve_error + assignment option) option" where
  [model_defs]: "choose_assignment L rule spec unit =
     (if has_only_one_full_variant spec then Some (Inr (first_opt (assignments spec)))
      else
        case unit of
          None \<Rightarrow> None
        | Some unit_str \<Rightarrow>
            Some (bind_ok
              (map_err Internal (or_fail (from_location ''confidence-resolver/src/lib.rs'' 1271 67)
                 (nth_opt (split_on CHR ''/'' (rule_segment rule)) 1)))
              (\<lambda>variant_salt.
                map_ok (\<lambda>b. find (covers_bucket b) (assignments spec))
                  (map_err Internal (rule_bucket L (variant_salt @ ''|'' @ unit_str) (bucket_count spec))))))"

definition write_phase :: "flag_rule \<Rightarrow> string option \<Rightarrow> string \<Rightarrow> unit mc_step" where
  [model_defs]: "write_phase rule unit variant mc =
     (case unit of
        None \<Rightarrow> (Inr (), mc)
      | Some unit_str \<Rightarrow>
          (case rule_materialization_spec rule of
             None \<Rightarrow> (Inr (), mc)
           | Some ms \<Rightarrow> add_to_write unit_str (write_materialization ms) (rule_name rule) variant mc))"

datatype rule_outcome =
    NextRule resolved_value bool
  | Return "resolve_error + resolved_value"

definition assigned_name :: "assignment_kind \<Rightarrow> string" where
  [model_defs]: "assigned_name kind = (case kind of VariantAssignment v \<Rightarrow> v | _ \<Rightarrow> [])"

definition finish_assignment ::
  "flag \<Rightarrow> flag_rule \<Rightarrow> segment \<Rightarrow> string option \<Rightarrow> resolved_value \<Rightarrow> bool \<Rightarrow> assignment \<Rightarrow> assignment_kind \<Rightarrow> rule_outcome" where
  [model_defs]: "finish_assignment flag rule seg unit rv missing asg kind =
     (let unit_str = (case unit of Some u \<Rightarrow> u | None \<Rightarrow> []) in
      case kind of
        FallthroughAssignment \<Rightarrow>
          NextRule (attribute_fallthrough_rule rv rule (assignment_id asg) unit_str) missing
      | ClientDefaultAssignment \<Rightarrow>
          Return (Inr (with_client_default_match rv rule seg (assignment_id asg) unit_str))
      | VariantAssignment name \<Rightarrow>
          (case find_variant flag name of
             None \<Rightarrow> Return (Inl (Internal (from_location ''confidence-resolver/src/lib.rs'' 1336 30)))
           | Some variant \<Rightarrow>
               Return (Inr (with_variant_match rv rule seg variant (assignment_id asg) unit_str))))"

definition assign_phase ::
  "libs \<Rightarrow> flag \<Rightarrow> flag_rule \<Rightarrow> segment \<Rightarrow> assignment_spec \<Rightarrow> string option \<Rightarrow>
   resolved_value \<Rightarrow> bool \<Rightarrow> materialization_context \<Rightarrow> rule_outcome \<times> materialization_context" where
  [model_defs]: "assign_phase L flag rule seg spec unit rv missing mc =
     (case choose_assignment L rule spec unit of
        None \<Rightarrow> (NextRule rv missing, mc)
      | Some (Inl e) \<Rightarrow> (Return (Inl e), mc)
      | Some (Inr None) \<Rightarrow> (NextRule rv missing, mc)
      | Some (Inr (Some asg)) \<Rightarrow>
          (case assignment_of asg of
             None \<Rightarrow> (NextRule rv missing, mc)
           | Some kind \<Rightarrow>
               (case write_phase rule unit (assigned_name kind) mc of
                  (Inl e, mc1) \<Rightarrow> (Return (Inl e), mc1)
                | (Inr _, mc1) \<Rightarrow> (finish_assignment flag rule seg unit rv missing asg kind, mc1))))"

definition match_phase ::
  "libs \<Rightarrow> account_resolver \<Rightarrow> flag \<Rightarrow> flag_rule \<Rightarrow> segment \<Rightarrow> assignment_spec \<Rightarrow> string option \<Rightarrow>
   resolved_value \<Rightarrow> tribool \<Rightarrow> bool \<Rightarrow> materialization_context \<Rightarrow> rule_outcome \<times> materialization_context" where
  [model_defs]: "match_phase L R flag rule seg spec unit rv matched missing mc =
     (case (if matched \<noteq> Some True then segment_match L R seg unit mc else (Inr matched, mc)) of
        (Inl e, mc1) \<Rightarrow>
          (if e = UnrecognizedRule then (NextRule rv missing, mc1) else (Return (Inl e), mc1))
      | (Inr None, mc1) \<Rightarrow> (NextRule rv True, mc1)
      | (Inr (Some b), mc1) \<Rightarrow>
          if b \<and> \<not> missing then assign_phase L flag rule seg spec unit rv missing mc1
          else (NextRule rv missing, mc1))"

definition resolve_rule ::
  "libs \<Rightarrow> account_resolver \<Rightarrow> flag \<Rightarrow> flag_rule \<Rightarrow>
   resolved_value \<Rightarrow> bool \<Rightarrow> materialization_context \<Rightarrow> rule_outcome \<times> materialization_context" where
  [model_defs]: "resolve_rule L R flag rule rv missing mc =
     (if \<not> rule_enabled rule then (NextRule rv missing, mc)
      else if \<not> enabled_for_environment R rule then (NextRule rv missing, mc)
      else
        case map_of (rs_segments (ar_state R)) (rule_segment rule) of
          None \<Rightarrow> (NextRule rv missing, mc)
        | Some seg \<Rightarrow>
            (case unit_of_rule R rule of
               SkipRule \<Rightarrow> (NextRule rv missing, mc)
             | KeyError \<Rightarrow> (Return (Inr (resolved_error rv RTargetingKeyError)), mc)
             | UseUnit unit \<Rightarrow>
                 (case rule_assignment_spec rule of
                    None \<Rightarrow> (NextRule rv missing, mc)
                  | Some spec \<Rightarrow>
                      (case read_phase L R rule seg spec unit rv missing mc of
                         (ReadSkip, mc1) \<Rightarrow> (NextRule rv missing, mc1)
                       | (ReadReturn r, mc1) \<Rightarrow> (Return r, mc1)
                       | (ReadGo matched missing', mc1) \<Rightarrow>
                           match_phase L R flag rule seg spec unit rv matched missing' mc1))))"

section \<open>The resolve of a flag\<close>

fun resolve_rules ::
  "libs \<Rightarrow> account_resolver \<Rightarrow> flag \<Rightarrow> flag_rule list \<Rightarrow> resolved_value \<Rightarrow> bool \<Rightarrow> resolved_value mc_step" where
  "resolve_rules L R flag [] rv missing mc =
     (if missing then (Inl MissingMaterializations, mc) else (Inr rv, mc))"
| "resolve_rules L R flag (rule # rules) rv missing mc =
     (case resolve_rule L R flag rule rv missing mc of
        (NextRule rv' missing', mc') \<Rightarrow> resolve_rules L R flag rules rv' missing' mc'
      | (Return r, mc') \<Rightarrow> (r, mc'))"

definition resolve_flag_internal :: "libs \<Rightarrow> account_resolver \<Rightarrow> flag \<Rightarrow> resolved_value mc_step" where
  [model_defs]: "resolve_flag_internal L R flag mc =
     (if flag_state flag = FLAG_ARCHIVED
      then (Inr (resolved_error (resolved_new flag) RFlagArchived), mc)
      else resolve_rules L R flag (flag_rules flag) (resolved_new flag) False mc)"

definition resolve_flag :: "libs \<Rightarrow> account_resolver \<Rightarrow> flag \<Rightarrow> resolved_value mc_step" where
  [model_defs]: "resolve_flag L R flag mc =
     (case resolve_flag_internal L R flag mc of
        (Inl MaterializationsUnsupported, mc') \<Rightarrow>
          (Inr (resolved_error (resolved_new flag) RMaterializationNotSupported), mc')
      | (Inl UnrecognizedRule, mc') \<Rightarrow>
          (Inr (resolved_error (resolved_new flag) RUnrecognizedTargetingRule), mc')
      | other \<Rightarrow> other)"

section \<open>What a phase does to the context\<close>

lemma read_phase_extends: "read_phase L R rule seg spec unit rv missing mc = (x, mc') \<Longrightarrow> extends_context mc mc'"
  unfolding read_phase_def Let_def
  by (auto split: option.splits if_splits prod.splits sum.splits
      dest: extends_rule targeting_match_extends intro: extends_trans)

lemma write_phase_extends: "write_phase rule unit v mc = (x, mc') \<Longrightarrow> extends_context mc mc'"
  by (auto simp: write_phase_def split: option.splits dest: extends_write)

lemma assign_phase_extends: "assign_phase L flag rule seg spec unit rv missing mc = (x, mc') \<Longrightarrow> extends_context mc mc'"
  unfolding assign_phase_def
  by (auto split: option.splits prod.splits sum.splits dest: write_phase_extends)

lemma match_phase_extends:
  "match_phase L R flag rule seg spec unit rv matched missing mc = (x, mc') \<Longrightarrow> extends_context mc mc'"
  unfolding match_phase_def
  by (auto split: option.splits if_splits prod.splits sum.splits
      dest: segment_match_extends assign_phase_extends intro: extends_trans)

lemma resolve_rule_extends: "resolve_rule L R flag rule rv missing mc = (x, mc') \<Longrightarrow> extends_context mc mc'"
  unfolding resolve_rule_def
  by (auto split: option.splits if_splits prod.splits rule_unit.splits read_outcome.splits
      dest: read_phase_extends match_phase_extends intro: extends_trans)

lemma resolve_rules_extends: "resolve_rules L R flag rules rv missing mc = (x, mc') \<Longrightarrow> extends_context mc mc'"
proof (induction rules arbitrary: rv missing mc)
  case (Cons rule rules)
  then show ?case
    by (auto split: prod.splits rule_outcome.splits dest: resolve_rule_extends intro: extends_trans)
qed (simp split: if_splits)

lemma resolve_flag_internal_extends: "resolve_flag_internal L R flag mc = (x, mc') \<Longrightarrow> extends_context mc mc'"
  by (auto simp: resolve_flag_internal_def split: if_splits dest: resolve_rules_extends)

lemma resolve_flag_extends: "resolve_flag L R flag mc = (x, mc') \<Longrightarrow> extends_context mc mc'"
  by (auto simp: resolve_flag_def split: prod.splits sum.splits resolve_error.splits
      dest: resolve_flag_internal_extends)

section \<open>Discovery runs that ask for nothing\<close>

lemma quiet_extends: "extends_context mc mc' \<Longrightarrow> quiet mc' \<Longrightarrow> quiet mc"
  by (auto simp: quiet_def extends_context_def)

lemma read_phase_after_read:
  assumes "rule_materialization_spec rule = Some ms" "read_materialization ms \<noteq> []"
    and "has_rule_materialization (read_materialization ms) u (rule_name rule) mc = (y, mc1)"
    and "read_phase L R rule seg spec (Some u) rv missing mc = (x, mc')"
  shows "extends_context mc1 mc'"
  using assms unfolding read_phase_def Let_def
  by (auto split: option.splits if_splits prod.splits sum.splits dest: targeting_match_extends)

lemma read_phase_quiet:
  "simulates quiet (with_records rs) (read_phase L R rule seg spec unit rv missing)
     (read_phase L R rule seg spec unit rv missing)"
proof (rule simulatesI)
  fix mc x and mc' :: materialization_context
  assume run: "read_phase L R rule seg spec unit rv missing mc = (x, mc')" and q: "quiet mc'"
  have no_read: "read_materialization ms = [] \<or> unit = None" if ms: "rule_materialization_spec rule = Some ms" for ms
  proof (rule ccontr)
    assume "\<not> ?thesis"
    then obtain u where u: "read_materialization ms \<noteq> []" "unit = Some u" by auto
    obtain y mc1 where y: "has_rule_materialization (read_materialization ms) u (rule_name rule) mc = (y, mc1)"
      by (cases "has_rule_materialization (read_materialization ms) u (rule_name rule) mc")
    have "extends_context mc1 mc'" using read_phase_after_read [OF ms u(1) y] run u(2) by simp
    then show False using quiet_extends q quiet_rule_never [OF y] by blast
  qed
  then show "quiet mc \<and> read_phase L R rule seg spec unit rv missing (with_records rs mc) = (x, with_records rs mc')"
    using run q by (cases "rule_materialization_spec rule"; cases unit) (auto simp: read_phase_def split: if_splits)
qed

lemma write_phase_quiet:
  "simulates quiet (with_records rs) (write_phase rule unit v) (write_phase rule unit v)"
proof (rule simulatesI)
  fix mc x and mc' :: materialization_context
  assume "write_phase rule unit v mc = (x, mc')" "quiet mc'"
  then show "quiet mc \<and> write_phase rule unit v (with_records rs mc) = (x, with_records rs mc')"
    using simulatesD [OF quiet_write] by (auto simp: write_phase_def split: option.splits)
qed

lemma assign_phase_quiet:
  "simulates quiet (with_records rs) (assign_phase L flag rule seg spec unit rv missing)
     (assign_phase L flag rule seg spec unit rv missing)"
proof (rule simulatesI)
  fix mc x and mc' :: materialization_context
  assume run: "assign_phase L flag rule seg spec unit rv missing mc = (x, mc')" and q: "quiet mc'"
  show "quiet mc \<and> assign_phase L flag rule seg spec unit rv missing (with_records rs mc) = (x, with_records rs mc')"
  proof (cases "\<exists>asg kind. choose_assignment L rule spec unit = Some (Inr (Some asg)) \<and> assignment_of asg = Some kind")
    case True
    then obtain asg kind where c: "choose_assignment L rule spec unit = Some (Inr (Some asg))" "assignment_of asg = Some kind"
      by blast
    obtain y mc1 where w: "write_phase rule unit (assigned_name kind) mc = (y, mc1)"
      by (cases "write_phase rule unit (assigned_name kind) mc")
    have "mc1 = mc'"
      using run by (cases y) (auto simp: assign_phase_def c w)
    with simulatesD [OF write_phase_quiet w] q
    have "quiet mc" "write_phase rule unit (assigned_name kind) (with_records rs mc)
        = (y, with_records rs mc')" by auto
    then show ?thesis
      using run \<open>mc1 = mc'\<close> by (cases y) (auto simp: assign_phase_def c w)
  next
    case False
    then show ?thesis
      using run q by (auto simp: assign_phase_def split: option.splits sum.splits)
  qed
qed

lemma match_phase_quiet:
  "simulates quiet (with_records rs) (match_phase L R flag rule seg spec unit rv matched missing)
     (match_phase L R flag rule seg spec unit rv matched missing)"
proof (rule simulatesI)
  fix mc x and mc' :: materialization_context
  assume run: "match_phase L R flag rule seg spec unit rv matched missing mc = (x, mc')" and q: "quiet mc'"
  define m where "m mc = (if matched \<noteq> Some True then segment_match L R seg unit mc else (Inr matched, mc))" for mc
  have sim: "simulates quiet (with_records rs) m m"
    using segment_match_quiet [of rs L R seg unit] by (auto simp: m_def simulates_def)
  obtain y mc1 where y: "m mc = (y, mc1)" by (cases "m mc")
  have eq: "match_phase L R flag rule seg spec unit rv matched missing mc =
     (case m mc of
        (Inl e, mc1) \<Rightarrow> (if e = UnrecognizedRule then (NextRule rv missing, mc1) else (Return (Inl e), mc1))
      | (Inr None, mc1) \<Rightarrow> (NextRule rv True, mc1)
      | (Inr (Some b), mc1) \<Rightarrow>
          if b \<and> \<not> missing then assign_phase L flag rule seg spec unit rv missing mc1 else (NextRule rv missing, mc1))" for mc
    by (simp add: match_phase_def m_def)
  show "quiet mc \<and> match_phase L R flag rule seg spec unit rv matched missing (with_records rs mc) = (x, with_records rs mc')"
  proof (cases "y = Inr (Some True) \<and> \<not> missing")
    case True
    then have "assign_phase L flag rule seg spec unit rv missing mc1 = (x, mc')"
      using run y unfolding eq by simp
    then have a: "quiet mc1" "assign_phase L flag rule seg spec unit rv missing (with_records rs mc1) = (x, with_records rs mc')"
      using simulatesD [OF assign_phase_quiet _ q] by auto
    have "m (with_records rs mc) = (Inr (Some True), with_records rs mc1)" "quiet mc"
      using simulatesD [OF sim y a(1)] True by simp_all
    with a(2) True show ?thesis unfolding eq by simp
  next
    case False
    then have "mc1 = mc'" using run y by (auto simp: eq split: sum.splits option.splits if_splits)
    with simulatesD [OF sim y] q have "quiet mc" "m (with_records rs mc) = (y, with_records rs mc')" by auto
    then show ?thesis using run y False by (auto simp: eq split: sum.splits option.splits if_splits)
  qed
qed

lemma resolve_rule_quiet:
  "simulates quiet (with_records rs) (resolve_rule L R flag rule rv missing) (resolve_rule L R flag rule rv missing)"
proof (rule simulatesI)
  fix mc x and mc' :: materialization_context
  assume run: "resolve_rule L R flag rule rv missing mc = (x, mc')" and q: "quiet mc'"
  show "quiet mc \<and> resolve_rule L R flag rule rv missing (with_records rs mc) = (x, with_records rs mc')"
  proof (cases "\<exists>seg unit spec. rule_enabled rule \<and> enabled_for_environment R rule
      \<and> map_of (rs_segments (ar_state R)) (rule_segment rule) = Some seg
      \<and> unit_of_rule R rule = UseUnit unit \<and> rule_assignment_spec rule = Some spec")
    case True
    then obtain seg unit spec where *: "rule_enabled rule" "enabled_for_environment R rule"
      "map_of (rs_segments (ar_state R)) (rule_segment rule) = Some seg"
      "unit_of_rule R rule = UseUnit unit" "rule_assignment_spec rule = Some spec" by blast
    obtain y mc1 where y: "read_phase L R rule seg spec unit rv missing mc = (y, mc1)"
      by (cases "read_phase L R rule seg spec unit rv missing mc")
    note sim = simulatesD [OF read_phase_quiet y, where rs1 = rs]
    show ?thesis
    proof (cases y)
      case (ReadGo matched missing')
      then have m: "match_phase L R flag rule seg spec unit rv matched missing' mc1 = (x, mc')"
        using run by (simp add: resolve_rule_def * y)
      note m' = simulatesD [OF match_phase_quiet m q, where rs1 = rs]
      with sim ReadGo show ?thesis by (simp add: resolve_rule_def *)
    qed (use run q sim y in \<open>auto simp: resolve_rule_def *\<close>)
  next
    case False
    then show ?thesis
      using run q by (auto simp: resolve_rule_def split: option.splits rule_unit.splits if_splits)
  qed
qed

lemma resolve_rules_quiet:
  "simulates quiet (with_records rs) (resolve_rules L R flag rules rv missing) (resolve_rules L R flag rules rv missing)"
proof (rule simulatesI)
  show "resolve_rules L R flag rules rv missing mc = (x, mc') \<Longrightarrow> quiet mc' \<Longrightarrow>
      quiet mc \<and> resolve_rules L R flag rules rv missing (with_records rs mc) = (x, with_records rs mc')"
    for mc x and mc' :: materialization_context
  proof (induction rules arbitrary: rv missing mc)
    case (Cons rule rules)
    obtain y mc1 where y: "resolve_rule L R flag rule rv missing mc = (y, mc1)"
      by (cases "resolve_rule L R flag rule rv missing mc")
    note sim = simulatesD [OF resolve_rule_quiet y, where rs1 = rs]
    show ?case
    proof (cases y)
      case (NextRule rv' missing')
      then have "quiet mc1 \<and> resolve_rules L R flag rules rv' missing' (with_records rs mc1) = (x, with_records rs mc')"
        using Cons y by simp
      with sim NextRule show ?thesis by simp
    next
      case (Return r)
      then show ?thesis using Cons.prems sim y by simp
    qed
  qed (simp split: if_splits)
qed

definition recovered :: "flag \<Rightarrow> resolve_error + resolved_value \<Rightarrow> resolve_error + resolved_value" where
  "recovered flag r =
     (if r = Inl MaterializationsUnsupported
      then Inr (resolved_error (resolved_new flag) RMaterializationNotSupported)
      else if r = Inl UnrecognizedRule
      then Inr (resolved_error (resolved_new flag) RUnrecognizedTargetingRule)
      else r)"

lemma resolve_flag_recovered:
  "resolve_flag L R flag mc = (r, mc') \<longleftrightarrow>
     (\<exists>x. resolve_flag_internal L R flag mc = (x, mc') \<and> r = recovered flag x)"
proof -
  obtain x mc1 where x: "resolve_flag_internal L R flag mc = (x, mc1)"
    by (cases "resolve_flag_internal L R flag mc")
  show ?thesis
  proof (cases x)
    case (Inl e)
    with x show ?thesis by (cases e) (auto simp: resolve_flag_def recovered_def)
  next
    case (Inr rv)
    with x show ?thesis by (auto simp: resolve_flag_def recovered_def)
  qed
qed

lemma resolve_flag_quiet:
  "simulates quiet (with_records rs) (resolve_flag L R flag) (resolve_flag L R flag)"
proof (rule simulatesI)
  fix mc x and mc' :: materialization_context
  assume run: "resolve_flag L R flag mc = (x, mc')" and q: "quiet mc'"
  then obtain y where y: "resolve_flag_internal L R flag mc = (y, mc')" "x = recovered flag y"
    by (auto simp: resolve_flag_recovered)
  have "quiet mc \<and> resolve_flag_internal L R flag (with_records rs mc) = (y, with_records rs mc')"
    using y(1) q simulatesD [OF resolve_rules_quiet, where rs1 = rs]
    by (auto simp: resolve_flag_internal_def split: if_splits)
  then show "quiet mc \<and> resolve_flag L R flag (with_records rs mc) = (x, with_records rs mc')"
    using y(2) by (auto simp: resolve_flag_recovered)
qed

section \<open>Where a match comes from\<close>

text \<open>
  The evidence for a match: an enabled rule of the flag whose segment is in the state, and the
  assignment of that rule the resolved value names.
\<close>

definition assigned_by :: "account_resolver \<Rightarrow> flag \<Rightarrow> flag_rule \<Rightarrow> assigned_flag \<Rightarrow> bool" where
  "assigned_by R flag rule a \<longleftrightarrow>
     rule \<in> set (flag_rules flag) \<and> rule_enabled rule \<and> enabled_for_environment R rule
     \<and> af_rule a = rule_name rule \<and> af_targeting_key_selector a = targeting_key_selector rule
     \<and> (\<exists>seg. map_of (rs_segments (ar_state R)) (rule_segment rule) = Some seg \<and> af_segment a = segment_name seg)
     \<and> (\<exists>spec asg. rule_assignment_spec rule = Some spec \<and> asg \<in> set (assignments spec)
          \<and> af_assignment_id a = assignment_id asg
          \<and> (assignment_of asg = Some ClientDefaultAssignment \<and> af_variant a = []
             \<or> assignment_of asg = Some (VariantAssignment (af_variant a))
               \<and> (\<exists>v \<in> set (flag_variants flag). variant_name v = af_variant a)))"

definition fell_through :: "flag \<Rightarrow> fallthrough_assignment \<Rightarrow> bool" where
  "fell_through flag fa \<longleftrightarrow>
     (\<exists>rule \<in> set (flag_rules flag). \<exists>spec. rule_assignment_spec rule = Some spec
        \<and> fa_rule fa = rule_name rule \<and> fa_targeting_key_selector fa = targeting_key_selector rule
        \<and> (\<exists>asg \<in> set (assignments spec). assignment_of asg = Some FallthroughAssignment
             \<and> fa_assignment_id fa = assignment_id asg))"

text \<open>While rules are tried, only the fallthrough assignments of the value grow.\<close>

definition pending :: "flag \<Rightarrow> resolved_value \<Rightarrow> bool" where
  "pending flag rv \<longleftrightarrow>
     (\<exists>fas. rv = (resolved_new flag)\<lparr>rv_inner := (rv_inner (resolved_new flag))\<lparr>af_fallthrough_assignments := fas\<rparr>\<rparr>
        \<and> (\<forall>fa \<in> set fas. fell_through flag fa))"

definition justified :: "account_resolver \<Rightarrow> flag \<Rightarrow> resolved_value \<Rightarrow> bool" where
  "justified R flag rv \<longleftrightarrow> rv_flag rv = flag \<and> af_flag (rv_inner rv) = flag_name flag
     \<and> (\<forall>fa \<in> set (af_fallthrough_assignments (rv_inner rv)). fell_through flag fa)
     \<and> (rv_reason rv = RMatch \<longrightarrow> (\<exists>rule. assigned_by R flag rule (rv_inner rv)))
     \<and> (rv_reason rv \<noteq> RMatch \<longrightarrow> af_variant (rv_inner rv) = [] \<and> af_rule (rv_inner rv) = []
          \<and> af_segment (rv_inner rv) = [] \<and> af_assignment_id (rv_inner rv) = [])"

lemma pending_new: "pending flag (resolved_new flag)"
  by (simp add: pending_def resolved_new_def assigned_flag_default_def)

lemma pending_cases:
  assumes "pending flag rv"
  shows "rv_flag rv = flag" "af_flag (rv_inner rv) = flag_name flag" "af_variant (rv_inner rv) = []"
    "af_rule (rv_inner rv) = []" "af_segment (rv_inner rv) = []" "af_assignment_id (rv_inner rv) = []"
    "rv_reason rv = RNoSegmentMatch" "\<forall>fa \<in> set (af_fallthrough_assignments (rv_inner rv)). fell_through flag fa"
  using assms
  by (auto simp: pending_def resolved_new_def assigned_flag_default_def rv_reason_def simp del: reason_number.simps)

lemma justified_pending: "pending flag rv \<Longrightarrow> justified R flag rv"
  by (simp add: justified_def pending_cases)

lemma justified_error: "pending flag rv \<Longrightarrow> r \<noteq> RMatch \<Longrightarrow> justified R flag (resolved_error rv r)"
  using pending_cases [of flag rv] by (simp add: justified_def resolved_error_def rv_reason_def)

lemma pending_fallthrough:
  assumes "pending flag rv" "rule \<in> set (flag_rules flag)" "rule_assignment_spec rule = Some spec"
    and "asg \<in> set (assignments spec)" "assignment_of asg = Some FallthroughAssignment"
  shows "pending flag (attribute_fallthrough_rule rv rule (assignment_id asg) u)"
proof -
  have "fell_through flag \<lparr>fa_rule = rule_name rule, fa_assignment_id = assignment_id asg,
      fa_targeting_key = u, fa_targeting_key_selector = targeting_key_selector rule\<rparr>"
    using assms(2-5) by (auto simp: fell_through_def)
  then show ?thesis
    using assms(1) by (fastforce simp: pending_def attribute_fallthrough_rule_def)
qed

lemma find_variant_Some: "find_variant flag n = Some v \<Longrightarrow> v \<in> set (flag_variants flag) \<and> variant_name v = n"
  by (auto simp: find_variant_def dest: find_Some_mem)

lemma choose_assignment_mem: "choose_assignment L rule spec unit = Some (Inr (Some asg)) \<Longrightarrow> asg \<in> set (assignments spec)"
  by (auto simp: choose_assignment_def first_opt_def bind_ok_def map_ok_def
      split: option.splits sum.splits list.splits if_splits dest: find_Some_mem)

lemma select_assignment_mem:
  assumes "select_assignment L mc m u r asgs sn n = Some asg"
  shows "asg \<in> set asgs"
  using assms
  by (auto simp: select_assignment_def Let_def first_opt_def
      split: materialization_records.splits option.splits sum.splits list.splits if_splits
      dest!: find_Some_mem filter_eq_ConsD)

definition active_rule :: "account_resolver \<Rightarrow> flag \<Rightarrow> flag_rule \<Rightarrow> segment \<Rightarrow> assignment_spec \<Rightarrow> bool" where
  "active_rule R flag rule seg spec \<longleftrightarrow> rule \<in> set (flag_rules flag) \<and> rule_enabled rule
     \<and> enabled_for_environment R rule \<and> map_of (rs_segments (ar_state R)) (rule_segment rule) = Some seg
     \<and> rule_assignment_spec rule = Some spec"

lemma variant_match_justified:
  assumes "pending flag rv" "active_rule R flag rule seg spec" "asg \<in> set (assignments spec)"
    and "assignment_of asg = Some (VariantAssignment n)" "find_variant flag n = Some v"
  shows "justified R flag (with_variant_match rv rule seg v (assignment_id asg) u)"
proof -
  have "assigned_by R flag rule (rv_inner (with_variant_match rv rule seg v (assignment_id asg) u))"
    using assms(2-4) find_variant_Some [OF assms(5)]
    by (auto simp: assigned_by_def active_rule_def with_variant_match_def)
  then show ?thesis
    using pending_cases [OF assms(1)]
    by (auto simp: justified_def with_variant_match_def rv_reason_def simp del: reason_number.simps)
qed

lemma client_default_justified:
  assumes "pending flag rv" "active_rule R flag rule seg spec" "asg \<in> set (assignments spec)"
    and "assignment_of asg = Some ClientDefaultAssignment"
  shows "justified R flag (with_client_default_match rv rule seg (assignment_id asg) u)"
proof -
  have "assigned_by R flag rule (rv_inner (with_client_default_match rv rule seg (assignment_id asg) u))"
    using assms(2-4) pending_cases [OF assms(1)]
    by (auto simp: assigned_by_def active_rule_def with_client_default_match_def)
  then show ?thesis
    using pending_cases [OF assms(1)]
    by (auto simp: justified_def with_client_default_match_def rv_reason_def simp del: reason_number.simps)
qed

text \<open>A rule's outcome in order: the value stays pending, or what it returns is justified.\<close>

fun good_outcome :: "account_resolver \<Rightarrow> flag \<Rightarrow> rule_outcome \<Rightarrow> bool" where
  "good_outcome R flag (NextRule rv missing) = pending flag rv"
| "good_outcome R flag (Return (Inr rv)) = justified R flag rv"
| "good_outcome R flag (Return (Inl e)) = True"

lemma finish_assignment_good:
  assumes "pending flag rv" "active_rule R flag rule seg spec" "asg \<in> set (assignments spec)"
    and "assignment_of asg = Some kind"
  shows "good_outcome R flag (finish_assignment flag rule seg unit rv missing asg kind)"
proof -
  have "rule \<in> set (flag_rules flag)" "rule_assignment_spec rule = Some spec"
    using assms(2) by (simp_all add: active_rule_def)
  then show ?thesis
    using assms variant_match_justified client_default_justified pending_fallthrough
    by (auto simp: finish_assignment_def Let_def split: assignment_kind.splits option.splits)
qed

lemma assign_phase_good:
  assumes "pending flag rv" "active_rule R flag rule seg spec"
    and "assign_phase L flag rule seg spec unit rv missing mc = (x, mc')"
  shows "good_outcome R flag x"
  using assms(3) finish_assignment_good [OF assms(1,2) choose_assignment_mem] assms(1)
  unfolding assign_phase_def by (fastforce split: option.splits sum.splits prod.splits)

lemma read_phase_good:
  assumes "pending flag rv" "active_rule R flag rule seg spec"
    and "read_phase L R rule seg spec unit rv missing mc = (ReadReturn (Inr rv'), mc')"
  shows "justified R flag rv'"
proof -
  obtain asg u where asg: "asg \<in> set (assignments spec)" "try_with_variant_match rv rule seg asg u = Inr rv'"
    using assms(3) unfolding read_phase_def Let_def
    by (auto split: option.splits if_splits prod.splits sum.splits dest: select_assignment_mem)
  then show ?thesis
    using pending_cases(1) [OF assms(1)] variant_match_justified [OF assms(1,2)]
    by (auto simp: try_with_variant_match_def split: option.splits assignment_kind.splits)
qed

lemma match_phase_good:
  assumes "pending flag rv" "active_rule R flag rule seg spec"
    and "match_phase L R flag rule seg spec unit rv matched missing mc = (x, mc')"
  shows "good_outcome R flag x"
  using assms(3) assign_phase_good [OF assms(1,2)] assms(1)
  unfolding match_phase_def by (auto split: option.splits sum.splits prod.splits if_splits)

lemma resolve_rule_good:
  assumes "pending flag rv" "rule \<in> set (flag_rules flag)"
    and "resolve_rule L R flag rule rv missing mc = (x, mc')"
  shows "good_outcome R flag x"
proof -
  have "good_outcome R flag (Return r)" if "read_phase L R rule seg spec unit rv missing mc = (ReadReturn r, mc')"
    "active_rule R flag rule seg spec" for r seg spec unit mc'
    using read_phase_good [OF assms(1) that(2)] that(1) by (cases r) auto
  then show ?thesis
    using assms match_phase_good [OF assms(1)] justified_error [OF assms(1), of RTargetingKeyError R]
    unfolding resolve_rule_def
    by (auto simp: active_rule_def split: option.splits rule_unit.splits read_outcome.splits prod.splits if_splits)
qed

lemma resolve_rules_good:
  assumes "pending flag rv" "set rules \<subseteq> set (flag_rules flag)"
    and "resolve_rules L R flag rules rv missing mc = (Inr rv', mc')"
  shows "justified R flag rv'"
  using assms
proof (induction rules arbitrary: rv missing mc)
  case Nil
  then show ?case by (auto simp: justified_pending split: if_splits)
next
  case (Cons rule rules)
  obtain x mc1 where x: "resolve_rule L R flag rule rv missing mc = (x, mc1)"
    by (cases "resolve_rule L R flag rule rv missing mc")
  have "good_outcome R flag x" using resolve_rule_good [OF Cons.prems(1) _ x] Cons.prems(2) by simp
  with Cons x show ?case by (cases x) auto
qed

lemma resolve_flag_internal_good: "resolve_flag_internal L R flag mc = (Inr rv, mc') \<Longrightarrow> justified R flag rv"
  using resolve_rules_good [OF pending_new subset_refl]
  by (auto simp: resolve_flag_internal_def pending_new justified_error split: if_splits)

lemma resolve_flag_justified: "resolve_flag L R flag mc = (Inr rv, mc') \<Longrightarrow> justified R flag rv"
  by (auto simp: resolve_flag_recovered recovered_def pending_new justified_error
      split: if_splits dest: resolve_flag_internal_good)

section \<open>Errors outside discovery\<close>

text \<open>Outside discovery no rule reports missing materializations.\<close>

fun settled :: "rule_outcome \<Rightarrow> bool" where
  "settled (NextRule rv missing) = (\<not> missing)"
| "settled (Return r) = (r \<noteq> Inl MissingMaterializations)"

lemma write_phase_error: "write_phase rule unit v mc = (Inl e, mc') \<Longrightarrow> e \<noteq> MissingMaterializations"
  by (auto simp: write_phase_def add_to_write_def split: option.splits if_splits)

lemma choose_assignment_error: "choose_assignment L rule spec unit = Some (Inl e) \<Longrightarrow> e \<noteq> MissingMaterializations"
  by (auto simp: choose_assignment_def bind_ok_def map_ok_def map_err_def or_fail_def
      split: option.splits sum.splits if_splits)

lemma assign_phase_settled: "assign_phase L flag rule seg spec unit rv False mc = (x, mc') \<Longrightarrow> settled x"
  unfolding assign_phase_def
  by (auto simp: finish_assignment_def Let_def split: option.splits sum.splits prod.splits assignment_kind.splits
      dest: write_phase_error choose_assignment_error)

lemma match_phase_settled:
  assumes "records mc \<noteq> Discovery" "match_phase L R flag rule seg spec unit rv matched False mc = (x, mc')"
    and "matched \<noteq> None"
  shows "settled x"
proof -
  obtain r mc1 where m: "(if matched \<noteq> Some True then segment_match L R seg unit mc else (Inr matched, mc)) = (r, mc1)"
    by (cases "if matched \<noteq> Some True then segment_match L R seg unit mc else (Inr matched, mc)")
  then have "r \<noteq> Inr None" "\<And>e. r = Inl e \<Longrightarrow> e \<noteq> MissingMaterializations"
    using segment_match_decides [OF assms(1)] segment_match_not_missing by (auto split: if_splits)
  then show ?thesis
    using assms(2) assign_phase_settled unfolding match_phase_def m
    by (auto split: sum.splits option.splits if_splits)
qed

lemma read_phase_settled:
  assumes "records mc \<noteq> Discovery" "read_phase L R rule seg spec unit rv False mc = (x, mc')"
  shows "mc' = mc \<and> x \<noteq> ReadReturn (Inl MissingMaterializations) \<and>
    (\<forall>matched missing. x = ReadGo matched missing \<longrightarrow> matched \<noteq> None \<and> \<not> missing)"
proof -
  have h: "mc1 = mc \<and> r \<noteq> Inr None \<and> (\<forall>e. r = Inl e \<longrightarrow> e = MaterializationsUnsupported)"
    if "has_rule_materialization m u rl mc = (r, mc1)" for m u rl r mc1
    using that assms(1) by (auto simp: has_rule_materialization_def split: materialization_records.splits)
  have t: "mc1 = mc \<and> r \<noteq> Inr None \<and> (\<forall>e. r = Inl e \<longrightarrow> e \<noteq> MissingMaterializations)"
    if "targeting_match L R seg u {} mc = (r, mc1)" for u r mc1
    using targeting_match_decides [OF assms(1) that] targeting_match_not_missing that by blast
  have v: "try_with_variant_match rv rule seg asg u \<noteq> Inl MissingMaterializations" for asg u
    by (auto simp: try_with_variant_match_def split: option.splits assignment_kind.splits)
  show ?thesis
    using assms(2) unfolding read_phase_def Let_def
    by (auto split: option.splits if_splits prod.splits sum.splits dest!: h t simp: v)
qed

lemma resolve_rule_settled:
  assumes "records mc \<noteq> Discovery" "resolve_rule L R flag rule rv False mc = (x, mc')"
  shows "settled x"
proof -
  have "settled x" if "read_phase L R rule seg spec unit rv False mc = (ReadGo matched missing', mc1)"
    "match_phase L R flag rule seg spec unit rv matched missing' mc1 = (x, mc')" for seg spec unit matched missing' mc1
    using read_phase_settled [OF assms(1) that(1)] match_phase_settled [OF assms(1)] that(2) by auto
  moreover have "r \<noteq> Inl MissingMaterializations"
    if "read_phase L R rule seg spec unit rv False mc = (ReadReturn r, mc1)" for seg spec unit r mc1
    using read_phase_settled [OF assms(1) that] by auto
  ultimately show ?thesis
    using assms(2) unfolding resolve_rule_def
    by (auto split: option.splits rule_unit.splits read_outcome.splits prod.splits if_splits)
qed

lemma resolve_rules_settled:
  assumes "records mc \<noteq> Discovery" "resolve_rules L R flag rules rv False mc = (r, mc')"
  shows "r \<noteq> Inl MissingMaterializations"
  using assms
proof (induction rules arbitrary: rv mc)
  case (Cons rule rules)
  obtain x mc1 where x: "resolve_rule L R flag rule rv False mc = (x, mc1)"
    by (cases "resolve_rule L R flag rule rv False mc")
  have "settled x" "records mc1 \<noteq> Discovery"
    using resolve_rule_settled [OF Cons.prems(1) x] resolve_rule_extends [OF x] Cons.prems(1)
    by (auto simp: extends_context_def)
  with Cons x show ?case by (cases x) auto
qed auto

lemma resolve_rules_not_missing:
  "records mc \<noteq> Discovery \<Longrightarrow> resolve_rules L R flag rules rv False mc \<noteq> (Inl MissingMaterializations, mc')"
  using resolve_rules_settled by blast

section \<open>Sticky assignments and bucketing\<close>

lemma resolve_rules_skip:
  "\<forall>r \<in> set pre. \<not> rule_enabled r \<Longrightarrow>
     resolve_rules L R flag (pre @ rules) rv missing mc = resolve_rules L R flag rules rv missing mc"
  by (induction pre) (simp_all add: resolve_rule_def)

lemma select_assignment_unique:
  assumes "find (record_matches u m r) rs = Some x" "mr_variant x \<noteq> []"
    and "filter (\<lambda>a. assignment_of a = Some (VariantAssignment (mr_variant x))) asgs = [asg]"
  shows "select_assignment L (complete rs) m u r asgs sn n = Some asg"
  using assms by (simp add: select_assignment_def complete_def first_opt_def)

lemma find_matches_list_ex: "find P xs = Some x \<Longrightarrow> list_ex P xs"
  by (auto simp: list_ex_iff dest: find_Some_mem)

text \<open>A small account with two rules: a sticky one, and one whose key selector names a boolean.\<close>

definition all_segment :: segment where
  "all_segment = \<lparr>segment_name = ''segments/all'', segment_targeting = None\<rparr>"

definition variant_asg :: "string \<Rightarrow> string \<Rightarrow> bucket_range list \<Rightarrow> assignment" where
  "variant_asg i v rgs = \<lparr>assignment_id = i, assignment_of = Some (VariantAssignment v), bucket_ranges = rgs\<rparr>"

definition sticky_spec :: assignment_spec where
  "sticky_spec = \<lparr>bucket_count = 10, assignments =
     [variant_asg ''a1'' ''flags/f/variants/on'' [],
      variant_asg ''a2'' ''flags/f/variants/off'' [\<lparr>lower = 0, upper = 10\<rparr>]]\<rparr>"

definition sticky_rule :: flag_rule where
  "sticky_rule = \<lparr>rule_name = ''flags/f/rules/sticky'', rule_segment = ''segments/all'',
     rule_assignment_spec = Some sticky_spec, targeting_key_selector = [], rule_enabled = True,
     rule_environments = [],
     rule_materialization_spec = Some \<lparr>write_materialization = ''m'', read_materialization = ''m'',
       read_mode = Some \<lparr>materialization_must_match = False, segment_targeting_can_be_ignored = True\<rparr>\<rparr>\<rparr>"

definition keyed_rule :: flag_rule where
  "keyed_rule = sticky_rule\<lparr>rule_name := ''flags/f/rules/keyed'', targeting_key_selector := ''member'',
     rule_materialization_spec := None\<rparr>"

definition sticky_flag :: "flag_rule list \<Rightarrow> flag" where
  "sticky_flag rules = \<lparr>flag_name = ''flags/f'', flag_schema_of = None,
     flag_variants = [\<lparr>variant_name = ''flags/f/variants/on'', variant_value = Some []\<rparr>,
                      \<lparr>variant_name = ''flags/f/variants/off'', variant_value = Some []\<rparr>],
     flag_state = 1, flag_clients = [''clients/c''], flag_rules = rules\<rparr>"

definition sticky_resolver :: account_resolver where
  "sticky_resolver = \<lparr>ar_client = example_client,
     ar_state = \<lparr>rs_secrets = [], rs_flags = [(''flags/f'', sticky_flag [sticky_rule, keyed_rule])],
       rs_segments = [(''segments/all'', all_segment)], rs_bitsets = [], rs_bloom_filters = [], rs_sdk = None\<rparr>,
     evaluation_context = [(''member'', Some (BoolValue True)), (''targeting_key'', Some (StringValue ''user''))],
     encryption_key = [], disable_exposure_collection = False\<rparr>"

definition sticky_record :: materialization_record where
  "sticky_record = \<lparr>mr_unit = ''user'', mr_materialization = ''m'', mr_rule = ''flags/f/rules/sticky'',
     mr_variant = ''flags/f/variants/on''\<rparr>"

definition zero_bucket_rule :: flag_rule where
  "zero_bucket_rule = keyed_rule\<lparr>targeting_key_selector := [],
     rule_assignment_spec := Some \<lparr>bucket_count = 0, assignments = []\<rparr>\<rparr>"

definition open_rule :: flag_rule where
  "open_rule = keyed_rule\<lparr>targeting_key_selector := [],
     rule_assignment_spec := Some \<lparr>bucket_count = 10, assignments =
       [variant_asg ''a3'' ''flags/f/variants/on'' [\<lparr>lower = 0, upper = 10\<rparr>]]\<rparr>\<rparr>"

lemmas sticky_defs = all_segment_def variant_asg_def sticky_spec_def sticky_rule_def keyed_rule_def
  sticky_flag_def sticky_resolver_def sticky_record_def example_client_def
  zero_bucket_rule_def open_rule_def

lemmas resolve_defs = resolve_flag_def resolve_flag_internal_def resolve_rule_def unit_of_rule_def
  get_targeting_key_def segment_match_internal.simps targeting_match.simps sticky_defs model_defs
  eval_nat_numeral

lemma untargeted_match:
  "segment_targeting seg = None \<Longrightarrow> segment_match L R seg unit mc = (check_bitset L R seg unit (Some True), mc)"
  by (simp add: segment_match_def segment_match_internal.simps targeting_match.simps)
lemma open_rule_resolves:
  "resolve_flag L sticky_resolver (sticky_flag [open_rule]) mc =
     (Inr (with_variant_match (resolved_new (sticky_flag [open_rule])) open_rule all_segment
        \<lparr>variant_name = ''flags/f/variants/on'', variant_value = Some []\<rparr> ''a3'' ''user''), mc)"
proof -
  let ?spec = "\<lparr>bucket_count = 10, assignments =
       [variant_asg ''a3'' ''flags/f/variants/on'' [\<lparr>lower = 0, upper = 10\<rparr>]]\<rparr>"
  have "unit_of_rule sticky_resolver open_rule = UseUnit (Some ''user'')"
    by (simp add: unit_of_rule_def get_targeting_key_def sticky_defs model_defs)
  moreover have "choose_assignment L open_rule ?spec (Some ''user'') =
      Some (Inr (Some (variant_asg ''a3'' ''flags/f/variants/on'' [\<lparr>lower = 0, upper = 10\<rparr>])))"
    by (simp add: choose_assignment_def has_only_one_full_variant_def variant_asg_def first_opt_def)
  moreover have "segment_match L sticky_resolver all_segment (Some ''user'') mc = (Inr (Some True), mc)"
    by (simp add: untargeted_match all_segment_def check_bitset_def sticky_resolver_def)
  moreover have "map_of (rs_segments (ar_state sticky_resolver)) (rule_segment open_rule) = Some all_segment"
    "rule_assignment_spec open_rule = Some ?spec" "rule_materialization_spec open_rule = None"
    "rule_enabled open_rule" "enabled_for_environment R open_rule" for R
    by (simp_all add: sticky_defs enabled_for_environment_def)
  ultimately have "resolve_rule L sticky_resolver (sticky_flag [open_rule]) open_rule (resolved_new (sticky_flag [open_rule])) False mc =
     (Return (Inr (with_variant_match (resolved_new (sticky_flag [open_rule])) open_rule all_segment
        \<lparr>variant_name = ''flags/f/variants/on'', variant_value = Some []\<rparr> ''a3'' ''user'')), mc)"
    by (simp add: resolve_rule_def read_phase_def match_phase_def assign_phase_def write_phase_def
        variant_asg_def finish_assignment_def assigned_name_def find_variant_def sticky_flag_def)
  then show ?thesis
    by (simp add: resolve_flag_def resolve_flag_internal_def sticky_flag_def [of "[open_rule]"] FLAG_ARCHIVED_def)
qed

section \<open>Properties\<close>

text \<open>C3: Every match is justified: a resolved flag with reason MATCH names an enabled rule of the
  flag whose environments admit the client and whose segment exists, with an assignment of that
  rule's specification and, for a variant assignment, a variant the flag has; a resolve with any
  other reason names neither variant, rule, segment nor assignment; and each fallthrough
  assignment comes from a fallthrough assignment of one of the flag's rules.\<close>

theorem resolve_flag_match_justified:
  assumes "resolve_flag L R flag mc = (Inr rv, mc')"
  shows "justified R flag rv"
  using assms by (rule resolve_flag_justified)

theorem resolve_flag_match_justified_witness:
  "\<exists>rv. fst (resolve_flag example_libs sticky_resolver (sticky_flag [open_rule]) unsupported) = Inr rv
     \<and> rv_reason rv = RMatch \<and> justified sticky_resolver (sticky_flag [open_rule]) rv"
  using resolve_flag_match_justified [OF open_rule_resolves [of example_libs unsupported]]
  by (simp add: open_rule_resolves with_variant_match_def rv_reason_def del: reason_number.simps)

text \<open>Outside discovery a resolve never reports missing materializations, and the two conditions a
  caller can do nothing about, unsupported materializations and targeting rules this resolver
  does not know, come back as a resolved flag with a reason, never as an error.\<close>

lemma resolve_flag_errors:
  assumes "records mc \<noteq> Discovery"
    and "resolve_flag L R flag mc = (Inl e, mc')"
  shows "e \<noteq> MissingMaterializations \<and> e \<noteq> MaterializationsUnsupported \<and> e \<noteq> UnrecognizedRule"
  using assms resolve_rules_not_missing [OF assms(1)]
  by (auto simp: resolve_flag_recovered recovered_def resolve_flag_internal_def split: if_splits)

theorem resolve_flag_errors_witness:
  "\<exists>e. resolve_flag example_libs sticky_resolver (sticky_flag [zero_bucket_rule]) unsupported = (Inl e, unsupported)
     \<and> e \<noteq> MissingMaterializations \<and> e \<noteq> MaterializationsUnsupported \<and> e \<noteq> UnrecognizedRule"
proof -
  have "resolve_flag example_libs sticky_resolver (sticky_flag [zero_bucket_rule]) unsupported =
      (Inl (Internal (from_tag ''confidence_resolver:bucket.zero_buckets'')), unsupported)"
    by (simp add: resolve_defs)
  then show ?thesis using resolve_flag_errors [of unsupported] by (auto simp: unsupported_def)
qed

text \<open>The materialization context is an append-only log with one entry per unit, materialization
  and rule: a resolve keeps the records it was given, only appends to the reads and the writes,
  and keeps the keys of both lists distinct.\<close>

lemma resolve_flag_context:
  assumes "wf_context mc" "resolve_flag L R flag mc = (r, mc')"
  shows "wf_context mc' \<and> records mc' = records mc \<and>
    (\<exists>rs. to_read mc' = to_read mc @ rs) \<and> (\<exists>ws. to_write mc' = to_write mc @ ws)"
  using resolve_flag_extends [OF assms(2)] assms(1) by (auto simp: extends_context_def)

theorem resolve_flag_context_witness:
  "wf_context (snd (resolve_flag example_libs sticky_resolver (sticky_flag [sticky_rule, open_rule]) discovery))"
  using resolve_flag_context [of discovery, OF _ surjective_pairing] by simp

text \<open>A resolve in discovery that asked for no materialization needs none: with any complete set
  of records the flag resolves to the same value or error and writes the same materializations.\<close>

lemma quiet_discovery_is_final:
  assumes "resolve_flag L R flag discovery = (r, mc')" "to_read mc' = []"
  shows "resolve_flag L R flag (complete rs) = (r, mc'\<lparr>records := Complete rs\<rparr>)"
proof -
  have "records mc' = Discovery"
    using resolve_flag_extends [OF assms(1)] by (simp add: extends_context_def discovery_def)
  then have "quiet mc'" using assms(2) by (simp add: quiet_def)
  then show ?thesis
    using simulatesD [OF resolve_flag_quiet assms(1), of rs] by (simp add: with_records_def [of rs mc'])
qed

theorem quiet_discovery_is_final_witness:
  "fst (resolve_flag example_libs sticky_resolver (sticky_flag [open_rule]) (complete [sticky_record]))
     = fst (resolve_flag example_libs sticky_resolver (sticky_flag [open_rule]) discovery)"
  using quiet_discovery_is_final [OF open_rule_resolves [of example_libs discovery], of "[sticky_record]"]
  by (simp add: open_rule_resolves discovery_def)

text \<open>C4: Sticky assignments win over targeting and bucketing: if a rule may ignore its segment's
  targeting and the unit's record for the rule stores a variant that exactly one assignment of
  the rule and some variant of the flag carry, then the flag resolves to that variant through
  that rule, whatever the segment, the bucket ranges and the later rules say, and nothing is
  written.\<close>

theorem sticky_assignment_wins:
  assumes "flag_state flag \<noteq> FLAG_ARCHIVED"
    and "flag_rules flag = pre @ rule # post" "\<forall>r \<in> set pre. \<not> rule_enabled r"
    and "rule_enabled rule" "enabled_for_environment R rule"
    and "map_of (rs_segments (ar_state R)) (rule_segment rule) = Some seg"
    and "unit_of_rule R rule = UseUnit (Some u)"
    and "rule_assignment_spec rule = Some spec" "rule_materialization_spec rule = Some ms"
    and "read_materialization ms \<noteq> []" "read_mode ms = Some mode" "segment_targeting_can_be_ignored mode"
    and "find (record_matches u (read_materialization ms) (rule_name rule)) rs = Some r" "mr_variant r \<noteq> []"
    and "filter (\<lambda>a. assignment_of a = Some (VariantAssignment (mr_variant r))) (assignments spec) = [asg]"
    and "find_variant flag (mr_variant r) = Some v"
  shows "resolve_flag L R flag (complete rs) =
    (Inr (with_variant_match (resolved_new flag) rule seg v (assignment_id asg) u), complete rs)"
proof -
  have asg: "assignment_of asg = Some (VariantAssignment (mr_variant r))"
    using filter_eq_ConsD [OF assms(15)] by auto
  have "list_ex (record_matches u (read_materialization ms) (rule_name rule)) rs"
    using assms(13) by (rule find_matches_list_ex)
  then have h: "has_rule_materialization (read_materialization ms) u (rule_name rule) (complete rs)
      = (Inr (Some True), complete rs)"
    by (simp add: has_rule_materialization_def complete_def)
  have "try_with_variant_match (resolved_new flag) rule seg asg u =
      Inr (with_variant_match (resolved_new flag) rule seg v (assignment_id asg) u)"
    using asg assms(16) by (simp add: try_with_variant_match_def resolved_new_def)
  then have "read_phase L R rule seg spec (Some u) (resolved_new flag) False (complete rs) =
      (ReadReturn (Inr (with_variant_match (resolved_new flag) rule seg v (assignment_id asg) u)), complete rs)"
    using assms(9-12) h by (simp add: read_phase_def select_assignment_unique [OF assms(13-15)])
  then show ?thesis
    using assms(1-8) by (simp add: resolve_flag_def resolve_flag_internal_def resolve_rules_skip resolve_rule_def)
qed

theorem sticky_assignment_wins_witness:
  "resolve_flag example_libs sticky_resolver (sticky_flag [sticky_rule, keyed_rule]) (complete [sticky_record]) =
    (Inr (with_variant_match (resolved_new (sticky_flag [sticky_rule, keyed_rule])) sticky_rule all_segment
       \<lparr>variant_name = ''flags/f/variants/on'', variant_value = Some []\<rparr> ''a1'' ''user''), complete [sticky_record])"
  using sticky_assignment_wins [of "sticky_flag [sticky_rule, keyed_rule]" "[]" sticky_rule "[keyed_rule]"
      sticky_resolver all_segment "''user''" sticky_spec
      "\<lparr>write_materialization = ''m'', read_materialization = ''m'',
        read_mode = Some \<lparr>materialization_must_match = False, segment_targeting_can_be_ignored = True\<rparr>\<rparr>"
      "\<lparr>materialization_must_match = False, segment_targeting_can_be_ignored = True\<rparr>" "[sticky_record]"
      sticky_record "variant_asg ''a1'' ''flags/f/variants/on'' []"
      "\<lparr>variant_name = ''flags/f/variants/on'', variant_value = Some []\<rparr>" example_libs]
  by (simp add: resolve_defs)

text \<open>C6: No unit is left without an assignment: when the bucket count is positive and the ranges of a
  rule's assignments cover all buckets, the bucket of the unit exists and the assignment the
  resolver chooses covers it, also where the shortcut for full rollouts skips the hash.\<close>

theorem every_unit_assigned:
  assumes "0 < sint (bucket_count spec)"
    and "nth_opt (split_on CHR ''/'' (rule_segment rule)) 1 = Some variant_salt"
    and "\<forall>b. 0 \<le> sint b \<and> sint b < sint (bucket_count spec) \<longrightarrow> list_ex (covers_bucket b) (assignments spec)"
  shows "\<exists>b asg. rule_bucket L (variant_salt @ ''|'' @ u) (bucket_count spec) = Inr b
    \<and> choose_assignment L rule spec (Some u) = Some (Inr (Some asg))
    \<and> asg \<in> set (assignments spec) \<and> covers_bucket b asg"
proof -
  obtain b where b: "rule_bucket L (variant_salt @ ''|'' @ u) (bucket_count spec) = Inr b"
    using rule_bucket_total [OF assms(1)] by blast
  have range: "0 \<le> sint b" "sint b < sint (bucket_count spec)" using rule_bucket_range [OF assms(1) b] by auto
  then have ex: "list_ex (covers_bucket b) (assignments spec)" using assms(3) by blast
  show ?thesis
  proof (cases "has_only_one_full_variant spec")
    case True
    then obtain asg where "assignments spec = [asg]"
      by (auto simp: has_only_one_full_variant_def split: list.splits)
    with ex True b show ?thesis by (auto simp: choose_assignment_def first_opt_def)
  next
    case False
    obtain asg where "find (covers_bucket b) (assignments spec) = Some asg"
      using ex by (cases "find (covers_bucket b) (assignments spec)") (auto simp: find_None_iff list_ex_iff)
    moreover from this have "asg \<in> set (assignments spec)" "covers_bucket b asg" by (auto dest: find_Some_mem)
    ultimately show ?thesis
      using False b assms(2) by (auto simp: choose_assignment_def bind_ok_def map_ok_def map_err_def or_fail_def)
  qed
qed

theorem every_unit_assigned_witness:
  "\<exists>asg \<in> set (assignments sticky_spec).
     choose_assignment example_libs sticky_rule sticky_spec (Some ''user'') = Some (Inr (Some asg))"
proof -
  have "\<forall>b. 0 \<le> sint b \<and> sint b < sint (bucket_count sticky_spec) \<longrightarrow> list_ex (covers_bucket b) (assignments sticky_spec)"
    by (simp add: sticky_defs covers_bucket_def in_range_def)
  then show ?thesis
    using every_unit_assigned [of sticky_spec sticky_rule "''all''" example_libs "''user''"]
    by (auto simp: sticky_defs)
qed

text \<open>A resolve in discovery can be final although it is not quiet: for a flag whose first rule
  waits for a materialization and whose second rule has an invalid targeting key, discovery
  reports the targeting key error while it asks for the read, and with the record at hand the
  same flag matches through the first rule.\<close>

lemma discovery_key_error_differs:
  "(\<exists>rv mc'. resolve_flag example_libs sticky_resolver (sticky_flag [sticky_rule, keyed_rule]) discovery = (Inr rv, mc')
      \<and> rv_reason rv = RTargetingKeyError \<and> to_read mc' \<noteq> [])
   \<and> (\<exists>rv. resolve_flag example_libs sticky_resolver (sticky_flag [sticky_rule, keyed_rule]) (complete [sticky_record])
        = (Inr rv, complete [sticky_record]) \<and> rv_reason rv = RMatch)"
  by (simp add: resolve_defs)

end
