(* ===== verification/Resolver_State.thy ===== *)
theory Resolver_State
  imports Flag_Resolution
begin

unbundle bit_operations_syntax

text \<open>
  \<open>decompress_gz\<close> of \<open>confidence-resolver/src/gzip.rs\<close>, and the construction of the resolver
  state and of a client's resolver in \<open>confidence-resolver/src/lib.rs\<close>: \<open>from_proto\<close>,
  \<open>get_resolver\<close>, \<open>mask_secret\<close> and \<open>LogDestination\<close>.
\<close>

section \<open>Gzip members\<close>

definition FHCRC :: u8 where [model_defs]: "FHCRC = 0x02"
definition FEXTRA :: u8 where [model_defs]: "FEXTRA = 0x04"
definition FNAME :: u8 where [model_defs]: "FNAME = 0x08"
definition FCOMMENT :: u8 where [model_defs]: "FCOMMENT = 0x10"
definition FRESERVED :: u8 where [model_defs]: "FRESERVED = 0xE0"

definition gz_tag :: "string \<Rightarrow> error_code" where
  [model_defs]: "gz_tag msg = from_tag (''confidence_resolver::gzip'' @ msg)"

definition gz_at :: "u32 \<Rightarrow> u32 \<Rightarrow> error_code" where
  [model_defs]: "gz_at line column = from_location ''confidence-resolver/src/gzip.rs'' line column"

text \<open>\<open>u32::from_le_bytes\<close> and \<open>slice::get(a..b)\<close>.\<close>

fun u32_from_le :: "bytes \<Rightarrow> u32" where
  "u32_from_le [] = 0"
| "u32_from_le (b # bs) = ucast b OR push_bit 8 (u32_from_le bs)"

definition slice_get :: "'a list \<Rightarrow> nat \<Rightarrow> nat \<Rightarrow> 'a list option" where
  [model_defs]: "slice_get xs a b = (if a \<le> b \<and> b \<le> length xs then Some (take (b - a) (drop a xs)) else None)"

definition check_gz_header :: "bytes \<Rightarrow> error_code + unit" where
  [model_defs]: "check_gz_header buffer =
     (case buffer of
        m0 # m1 # cm # flags # _ \<Rightarrow>
          if m0 \<noteq> 0x1F \<or> m1 \<noteq> 0x8B then Inl (gz_tag ''invalid magic number'')
          else if cm \<noteq> 8 then Inl (gz_tag ''invalid compression method'')
          else if flags AND FRESERVED \<noteq> 0 then Inl (gz_tag ''invalid flags'')
          else if flags AND FEXTRA \<noteq> 0 then Inl (gz_tag ''extra data not supported'')
          else if flags AND FNAME \<noteq> 0 then Inl (gz_tag ''filename not supported'')
          else if flags AND FCOMMENT \<noteq> 0 then Inl (gz_tag ''comment not supported'')
          else if flags AND FHCRC \<noteq> 0 then Inl (gz_tag ''crc not supported'')
          else Inr ()
      | _ \<Rightarrow> Inl (gz_at 14 9))"

definition decompress_gz :: "libs \<Rightarrow> bytes \<Rightarrow> error_code + bytes" where
  [model_defs]: "decompress_gz L buffer =
     bind_ok (check_gz_header buffer) (\<lambda>_.
       if length buffer < 8 then Inl (gz_at 38 53)
       else
         let trailer_start = length buffer - 8;
             crc_end = trailer_start + 4;
             isize_end = trailer_start + 8 in
         bind_ok (or_fail (gz_at 42 56) (slice_get buffer trailer_start crc_end)) (\<lambda>crc_bytes.
         bind_ok (or_fail (gz_at 45 54) (slice_get buffer crc_end isize_end)) (\<lambda>isize_bytes.
         bind_ok (or_fail (gz_at 48 58) (slice_get buffer 10 trailer_start)) (\<lambda>compressed_bytes.
         bind_ok (or_fail (gz_at 49 52) (decompress_to_vec L compressed_bytes)) (\<lambda>data.
           if u32_from_le isize_bytes \<noteq> of_nat (length data) then Inl (gz_tag ''invalid data length'')
           else if crc32 L data \<noteq> u32_from_le crc_bytes then Inl (gz_tag ''crc mismatch'')
           else Inr data)))))"

section \<open>Client secrets\<close>

text \<open>\<open>&s[..3]\<close> on a string: the index must not fall inside a UTF-8 sequence.\<close>

definition is_char_boundary :: "string \<Rightarrow> nat \<Rightarrow> bool" where
  [model_defs]: "is_char_boundary s i \<longleftrightarrow>
     i = 0 \<or> i = length s \<or>
     (case nth_opt s i of None \<Rightarrow> False | Some c \<Rightarrow> (of_char c :: nat) < 128 \<or> 192 \<le> (of_char c :: nat))"

definition mask_secret :: "string \<Rightarrow> failure + string" where
  [model_defs]: "mask_secret s =
     (let len = length s in
      if len \<le> 6 then Inr ''***''
      else
        let suffix_start = len - 3 in
        if is_char_boundary s 3 \<and> is_char_boundary s suffix_start
        then Inr (take 3 s @ ''...'' @ drop suffix_start s)
        else Inl Panic)"

datatype log_destination = Edge | Cloudflare

definition log_destination_from :: "int \<Rightarrow> log_destination" where
  [model_defs]: "log_destination_from v = (if v = 2 then Cloudflare else Edge)"

section \<open>The state message\<close>

datatype packed_bits = GzippedBitset bytes | FullBitset bool

record packed_bitset =
  pb_segment :: string
  pb_bitset :: "packed_bits option"

record client_pb =
  cp_name :: string
  cp_managed_context :: gstruct

record client_credential_pb =
  cc_name :: string
  cc_secret :: "string option"
  cc_environments :: "string list"

record resolver_state_pb =
  sp_flags :: "flag list"
  sp_segments :: "segment list"
  sp_bitsets :: "packed_bitset list"
  sp_clients :: "client_pb list"
  sp_client_credentials :: "client_credential_pb list"
  sp_bloom_filters :: "bloom_filter_pb list"

fun load_bitsets :: "libs \<Rightarrow> packed_bitset list \<Rightarrow> bool list fields \<Rightarrow> error_code + bool list fields" where
  "load_bitsets L [] bitsets = Inr bitsets"
| "load_bitsets L (p # ps) bitsets =
     (case pb_bitset p of
        None \<Rightarrow> load_bitsets L ps bitsets
      | Some (GzippedBitset zipped_bytes) \<Rightarrow>
          (case decompress_gz L zipped_bytes of
             Inl e \<Rightarrow> Inl e
           | Inr buffer \<Rightarrow> load_bitsets L ps (hm_insert (pb_segment p) (bits_of_bytes buffer) bitsets))
      | Some (FullBitset full) \<Rightarrow>
          if full then load_bitsets L ps bitsets
          else Inl (from_location ''confidence-resolver/src/lib.rs'' 202 22))"

definition load_bloom_filters :: "bloom_filter_pb list \<Rightarrow> bloom_filter fields" where
  [model_defs]: "load_bloom_filters bfs =
     fold (\<lambda>bf_pb m. case bloom_from_proto bf_pb of
             Inl _ \<Rightarrow> m
           | Inr bf \<Rightarrow> hm_insert (bf_materialized_segment bf_pb) bf m) bfs []"

definition credential_client :: "string \<Rightarrow> client_pb \<Rightarrow> client_credential_pb \<Rightarrow> client" where
  [model_defs]: "credential_client account_id c cred =
     \<lparr>client_account = account_new (''accounts/'' @ account_id), client_name = cp_name c,
      client_credential_name = cc_name cred, client_environments = cc_environments cred,
      client_managed_context = cp_managed_context c\<rparr>"

definition load_credential :: "string \<Rightarrow> client_pb \<Rightarrow> client_credential_pb \<Rightarrow> client fields \<Rightarrow> client fields" where
  [model_defs]: "load_credential account_id c cred secrets =
     (if \<not> str_starts_with (cc_name cred) (cp_name c) then secrets
      else
        case cc_secret cred of
          None \<Rightarrow> secrets
        | Some secret \<Rightarrow> hm_insert secret (credential_client account_id c cred) secrets)"

definition load_secrets :: "string \<Rightarrow> client_pb list \<Rightarrow> client_credential_pb list \<Rightarrow> client fields" where
  [model_defs]: "load_secrets account_id clients credentials =
     fold (\<lambda>c. fold (load_credential account_id c) credentials) clients []"

definition from_proto :: "libs \<Rightarrow> resolver_state_pb \<Rightarrow> string \<Rightarrow> sdk option \<Rightarrow> error_code + resolver_state" where
  [model_defs]: "from_proto L state_pb account_id sdk =
     (case load_bitsets L (sp_bitsets state_pb) [] of
        Inl e \<Rightarrow> Inl e
      | Inr bitsets \<Rightarrow>
          Inr \<lparr>rs_secrets = load_secrets account_id (sp_clients state_pb) (sp_client_credentials state_pb),
               rs_flags = fold (\<lambda>f. hm_insert (flag_name f) f) (sp_flags state_pb) [],
               rs_segments = fold (\<lambda>s. hm_insert (segment_name s) s) (sp_segments state_pb) [],
               rs_bitsets = bitsets,
               rs_bloom_filters = load_bloom_filters (sp_bloom_filters state_pb),
               rs_sdk = sdk\<rparr>)"

section \<open>Resolvers\<close>

definition resolver_new :: "client \<Rightarrow> resolver_state \<Rightarrow> gstruct \<Rightarrow> bytes \<Rightarrow> account_resolver" where
  [model_defs]: "resolver_new client state context key =
     \<lparr>ar_client = client, ar_state = state, evaluation_context = context, encryption_key = key,
      disable_exposure_collection = False\<rparr>"

definition with_disable_exposure_collection :: "account_resolver \<Rightarrow> bool \<Rightarrow> account_resolver" where
  [model_defs]: "with_disable_exposure_collection R b = R\<lparr>disable_exposure_collection := b\<rparr>"

fun join_comma :: "string list \<Rightarrow> string" where
  "join_comma [] = []"
| "join_comma [x] = x"
| "join_comma (x # y # ys) = x @ '', '' @ join_comma (y # ys)"

definition secret_not_found :: "resolver_state \<Rightarrow> string \<Rightarrow> failure" where
  [model_defs]: "secret_not_found state client_secret =
     (case mask_secret client_secret of
        Inl f \<Rightarrow> f
      | Inr requested \<Rightarrow>
          (case try_map mask_secret (map fst (rs_secrets state)) of
             Inl f \<Rightarrow> f
           | Inr available \<Rightarrow>
               Failed (''client secret not found: requested='' @ requested @ '', available=['' @
                 join_comma available @ '']'')))"

definition get_resolver :: "resolver_state \<Rightarrow> string \<Rightarrow> gstruct \<Rightarrow> bytes \<Rightarrow> failure + account_resolver" where
  [model_defs]: "get_resolver state client_secret context key =
     (case map_of (rs_secrets state) client_secret of
        None \<Rightarrow> Inl (secret_not_found state client_secret)
      | Some client \<Rightarrow>
          Inr (resolver_new client state (merge_context (client_managed_context client) context) key))"

text \<open>With the feature \<open>json\<close> a context may come as text; its parser is an argument, as is the decoder of the state message.\<close>

definition get_resolver_with_json_context ::
  "(string \<Rightarrow> gstruct option) \<Rightarrow> resolver_state \<Rightarrow> string \<Rightarrow> string \<Rightarrow> bytes \<Rightarrow> failure + account_resolver" where
  [model_defs]: "get_resolver_with_json_context from_str state client_secret context key =
     (case from_str context of
        None \<Rightarrow> Inl (Failed ''failed to parse evaluation context'')
      | Some fs \<Rightarrow> get_resolver state client_secret fs key)"

definition state_pb_of_bytes :: "(bytes \<Rightarrow> resolver_state_pb option) \<Rightarrow> bytes \<Rightarrow> error_code + resolver_state_pb" where
  [model_defs]: "state_pb_of_bytes decode s = or_fail (from_location ''confidence-resolver/src/lib.rs'' 94 41) (decode s)"

section \<open>Properties of gzip members\<close>

lemma length_le_bytes32 [simp]: "length (le_bytes32 w) = 4"
  by (simp add: le_bytes32_def)

lemma u32_from_le_bit:
  "length bs \<le> 4 \<Longrightarrow> n < 32 \<Longrightarrow> bit (u32_from_le bs) n \<longleftrightarrow> n div 8 < length bs \<and> bit (bs ! (n div 8)) (n mod 8)"
proof (induction bs arbitrary: n)
  case (Cons b bs)
  show ?case
  proof (cases "n < 8")
    case True
    then show ?thesis using Cons.prems by (simp add: bit_simps)
  next
    case False
    then have n: "n div 8 = Suc ((n - 8) div 8)" "n mod 8 = (n - 8) mod 8"
      by (simp_all add: le_div_geq le_mod_geq)
    have "\<not> bit b n" using False bit_imp_le_length [of b n] by auto
    then show ?thesis using Cons.IH [of "n - 8"] Cons.prems False by (auto simp: bit_simps n)
  qed
qed simp

lemma u32_from_le_bytes [simp]: "u32_from_le (le_bytes32 w) = w"
proof (rule bit_word_eqI)
  fix n :: nat assume n: "n < LENGTH(32)"
  then have d: "n div 8 < 4" "8 * (n div 8) + n mod 8 = n" by auto
  have "le_bytes32 w ! (n div 8) = ucast (drop_bit (8 * (n div 8)) w)"
    using d(1) by (simp add: le_bytes32_def)
  then show "bit (u32_from_le (le_bytes32 w)) n = bit w n"
    using n d by (auto simp: u32_from_le_bit bit_simps)
qed

lemma le_bytes_u32_from [simp]: "length bs = 4 \<Longrightarrow> le_bytes32 (u32_from_le bs) = bs"
proof (rule nth_equalityI)
  fix i assume bs: "length bs = 4" and "i < length (le_bytes32 (u32_from_le bs))"
  then have i: "i < 4" by simp
  show "le_bytes32 (u32_from_le bs) ! i = bs ! i"
  proof (rule bit_word_eqI)
    fix j :: nat assume "j < LENGTH(8)"
    then have j: "j < 8" by simp
    then have "(8 * i + j) div 8 = i" "(8 * i + j) mod 8 = j" "8 * i + j < 32" using i by auto
    then show "bit (le_bytes32 (u32_from_le bs) ! i) j = bit (bs ! i) j"
      using i j bs by (simp add: le_bytes32_def bit_simps u32_from_le_bit)
  qed
qed simp

lemma check_gz_header_prefix: "length h = 10 \<Longrightarrow> check_gz_header (h @ rest) = check_gz_header h"
  by (auto simp: check_gz_header_def length_Suc_conv eval_nat_numeral)

definition gz_member :: "libs \<Rightarrow> bytes \<Rightarrow> bytes \<Rightarrow> bytes \<Rightarrow> bytes" where
  "gz_member L h c data = h @ c @ le_bytes32 (crc32 L data) @ le_bytes32 (of_nat (length data))"

lemma slices_of_member:
  assumes "length h = 10" "length t1 = 4" "length t2 = 4"
  shows "slice_get (h @ c @ t1 @ t2) (length (h @ c @ t1 @ t2) - 8) (length (h @ c @ t1 @ t2) - 8 + 4) = Some t1"
    "slice_get (h @ c @ t1 @ t2) (length (h @ c @ t1 @ t2) - 8 + 4) (length (h @ c @ t1 @ t2) - 8 + 8) = Some t2"
    "slice_get (h @ c @ t1 @ t2) 10 (length (h @ c @ t1 @ t2) - 8) = Some c"
  using assms by (simp_all add: slice_get_def)

lemma split_member:
  fixes b :: "'a list"
  assumes "18 \<le> length b"
  obtains h c t1 t2 where "b = h @ c @ t1 @ t2" "length h = 10" "length t1 = 4" "length t2 = 4"
proof -
  define d where "d = drop 10 b"
  define e where "e = drop (length d - 8) d"
  have "e = take 4 e @ drop 4 e" "d = take (length d - 8) d @ e" "b = take 10 b @ d"
    by (simp_all only: d_def e_def append_take_drop_id)
  then have "b = take 10 b @ take (length d - 8) d @ take 4 e @ drop 4 e" by metis
  moreover have "length (take 10 b) = 10" "length (take 4 e) = 4" "length (drop 4 e) = 4"
    using assms by (simp_all add: d_def e_def)
  ultimately show thesis by (rule that)
qed

lemma decompress_gz_member:
  assumes "length h = 10" "length t1 = 4" "length t2 = 4"
  shows "decompress_gz L (h @ c @ t1 @ t2) =
     bind_ok (check_gz_header h) (\<lambda>_. bind_ok (or_fail (gz_at 49 52) (decompress_to_vec L c)) (\<lambda>data.
       if u32_from_le t2 \<noteq> of_nat (length data) then Inl (gz_tag ''invalid data length'')
       else if crc32 L data \<noteq> u32_from_le t1 then Inl (gz_tag ''crc mismatch'')
       else Inr data))"
  using assms check_gz_header_prefix [OF assms(1)] slices_of_member [OF assms]
  by (simp add: decompress_gz_def Let_def or_fail_def bind_ok_def cong: sum.case_cong)

lemma decompress_gz_short: "length b < 18 \<Longrightarrow> decompress_gz L b \<noteq> Inr d"
  by (auto simp: decompress_gz_def bind_ok_def or_fail_def slice_get_def Let_def
      split: sum.splits option.splits if_splits)

text \<open>Unpacking a bitset accepts exactly the intact gzip members without optional header fields:
  the result is the inflated body, and the stored checksum and length are those of the result;
  every truncation or corruption of the trailer is an error.\<close>

lemma decompress_gz_spec:
  "decompress_gz L b = Inr data \<longleftrightarrow>
     (\<exists>h c. b = gz_member L h c data \<and> length h = 10 \<and> check_gz_header h = Inr ()
        \<and> decompress_to_vec L c = Some data)"
proof (cases "length b < 18")
  case True
  then show ?thesis by (auto simp: decompress_gz_short gz_member_def)
next
  case False
  then have "18 \<le> length b" by simp
  then obtain h c t1 t2 where b: "b = h @ c @ t1 @ t2" and l: "length h = 10" "length t1 = 4" "length t2 = 4"
    by (rule split_member)
  have "decompress_gz L b = Inr data \<longleftrightarrow> check_gz_header h = Inr () \<and> decompress_to_vec L c = Some data
      \<and> u32_from_le t2 = of_nat (length data) \<and> u32_from_le t1 = crc32 L data"
    by (auto simp: b decompress_gz_member [OF l] bind_ok_def or_fail_def split: sum.splits option.splits)
  also have "\<dots> \<longleftrightarrow> check_gz_header h = Inr () \<and> decompress_to_vec L c = Some data
      \<and> t2 = le_bytes32 (of_nat (length data)) \<and> t1 = le_bytes32 (crc32 L data)"
    using le_bytes_u32_from [OF l(2)] le_bytes_u32_from [OF l(3)] by (metis u32_from_le_bytes)
  also have "\<dots> \<longleftrightarrow> (\<exists>h c. b = gz_member L h c data \<and> length h = 10 \<and> check_gz_header h = Inr ()
        \<and> decompress_to_vec L c = Some data)"
  proof
    assume "\<exists>h c. b = gz_member L h c data \<and> length h = 10 \<and> check_gz_header h = Inr () \<and> decompress_to_vec L c = Some data"
    then obtain h' c' where m: "b = gz_member L h' c' data" "length h' = 10" "check_gz_header h' = Inr ()"
      "decompress_to_vec L c' = Some data" by blast
    then have "h @ c @ t1 @ t2 = h' @ c' @ le_bytes32 (crc32 L data) @ le_bytes32 (of_nat (length data))"
      using b by (simp add: gz_member_def)
    moreover from this have "length c = length c'" using l m(2) by (metis add_left_cancel add_right_cancel length_append length_le_bytes32)
    ultimately show "check_gz_header h = Inr () \<and> decompress_to_vec L c = Some data
      \<and> t2 = le_bytes32 (of_nat (length data)) \<and> t1 = le_bytes32 (crc32 L data)"
      using l m by auto
  qed (use b l in \<open>auto simp: gz_member_def\<close>)
  finally show ?thesis .
qed

section \<open>Properties of the state\<close>

text \<open>The maps of a state are keyed by the names of their entries.\<close>

definition wf_state :: "resolver_state \<Rightarrow> bool" where
  "wf_state st \<longleftrightarrow> distinct_keys (rs_flags st) \<and> distinct_keys (rs_segments st) \<and> distinct_keys (rs_secrets st)
     \<and> list_all (\<lambda>(k, f). k = flag_name f) (rs_flags st)
     \<and> list_all (\<lambda>(k, s). k = segment_name s) (rs_segments st)"

lemma keyed_fold:
  "list_all (\<lambda>(k, v). k = f v) m \<Longrightarrow> list_all (\<lambda>(k, v). k = f v) (fold (\<lambda>x. hm_insert (f x) x) xs m)"
proof -
  have ins: "list_all (\<lambda>(k, v). k = f v) m \<Longrightarrow> list_all (\<lambda>(k, v). k = f v) (hm_insert (f x) x m)" for x m
    by (induction m) auto
  show "list_all (\<lambda>(k, v). k = f v) m \<Longrightarrow> list_all (\<lambda>(k, v). k = f v) (fold (\<lambda>x. hm_insert (f x) x) xs m)"
    by (induction xs arbitrary: m) (simp_all add: ins)
qed

lemma distinct_load_credential: "distinct_keys m \<Longrightarrow> distinct_keys (load_credential a c cred m)"
  by (auto simp: load_credential_def intro: hm.inv_ins split: option.splits)

lemma distinct_load_credentials: "distinct_keys m \<Longrightarrow> distinct_keys (fold (load_credential a c) creds m)"
  by (induction creds arbitrary: m) (simp_all add: distinct_load_credential)

lemma distinct_load_secrets: "distinct_keys m \<Longrightarrow> distinct_keys (fold (\<lambda>c. fold (load_credential a c) creds) cs m)"
  by (induction cs arbitrary: m) (simp_all add: distinct_load_credentials)

text \<open>A state built from its message is well-formed and holds exactly the message's flags and
  segments: a lookup by name returns the last flag or segment of that name, every entry is
  stored under its own name, and no key occurs twice.\<close>

lemma from_proto_lookup:
  assumes "from_proto L pb account_id sdk = Inr st"
  shows "wf_state st
    \<and> map_of (rs_flags st) = map_of (rev (map (\<lambda>f. (flag_name f, f)) (sp_flags pb)))
    \<and> map_of (rs_segments st) = map_of (rev (map (\<lambda>s. (segment_name s, s)) (sp_segments pb)))"
proof -
  have st: "rs_flags st = fold (\<lambda>f. hm_insert (flag_name f) f) (sp_flags pb) []"
    "rs_segments st = fold (\<lambda>s. hm_insert (segment_name s) s) (sp_segments pb) []"
    "rs_secrets st = load_secrets account_id (sp_clients pb) (sp_client_credentials pb)"
    using assms by (auto simp: from_proto_def split: sum.splits)
  have "wf_state st"
    by (simp add: wf_state_def st hm.inv_fold hm.inv_empty keyed_fold load_secrets_def distinct_load_secrets)
  moreover have "map_of (rs_flags st) = map_of (rev (map (\<lambda>f. (flag_name f, f)) (sp_flags pb)))"
    using hm.lookup_fold [of flag_name "\<lambda>f. f" "sp_flags pb" "[]"] by (simp add: st)
  moreover have "map_of (rs_segments st) = map_of (rev (map (\<lambda>s. (segment_name s, s)) (sp_segments pb)))"
    using hm.lookup_fold [of segment_name "\<lambda>s. s" "sp_segments pb" "[]"] by (simp add: st)
  ultimately show ?thesis by simp
qed

theorem from_proto_lookup_witness:
  "\<exists>st. from_proto example_libs \<lparr>sp_flags = [sticky_flag [], sticky_flag [open_rule]], sp_segments = [all_segment],
       sp_bitsets = [], sp_clients = [], sp_client_credentials = [], sp_bloom_filters = []\<rparr> ''a'' None = Inr st
     \<and> map_of (rs_flags st) ''flags/f'' = Some (sticky_flag [open_rule])"
proof -
  let ?pb = "\<lparr>sp_flags = [sticky_flag [], sticky_flag [open_rule]], sp_segments = [all_segment],
       sp_bitsets = [], sp_clients = [], sp_client_credentials = [], sp_bloom_filters = []\<rparr>"
  obtain st where st: "from_proto example_libs ?pb ''a'' None = Inr st"
    by (simp add: from_proto_def)
  then show ?thesis using from_proto_lookup [OF st] by (auto simp: sticky_flag_def)
qed

text \<open>The two loops over clients and credentials as one loop over their pairs.\<close>

definition client_credentials :: "client_pb list \<Rightarrow> client_credential_pb list \<Rightarrow> (client_pb \<times> client_credential_pb) list" where
  "client_credentials cs creds = concat (map (\<lambda>c. map (Pair c) creds) cs)"

definition grants :: "string \<Rightarrow> client_pb \<times> client_credential_pb \<Rightarrow> bool" where
  "grants s p \<longleftrightarrow> str_starts_with (cc_name (snd p)) (cp_name (fst p)) \<and> cc_secret (snd p) = Some s"

lemma load_secrets_pairs:
  "fold (\<lambda>c. fold (load_credential a c) creds) cs m =
     fold (\<lambda>p. load_credential a (fst p) (snd p)) (client_credentials cs creds) m"
proof -
  have "fold (load_credential a c) creds m = fold (\<lambda>p. load_credential a (fst p) (snd p)) (map (Pair c) creds) m" for c m
    by (induction creds arbitrary: m) auto
  then show ?thesis by (induction cs arbitrary: m) (simp_all add: client_credentials_def)
qed

lemma load_credential_lookup:
  "map_of (load_credential a (fst p) (snd p) m) s =
     (if grants s p then Some (credential_client a (fst p) (snd p)) else map_of m s)"
  by (auto simp: load_credential_def grants_def split: option.splits)

lemma load_pairs_lookup:
  "\<forall>p \<in> set ps. grants s p \<longrightarrow> credential_client a (fst p) (snd p) = v \<Longrightarrow>
     map_of (fold (\<lambda>p. load_credential a (fst p) (snd p)) ps m) s = (if \<exists>p \<in> set ps. grants s p then Some v else map_of m s)"
proof (induction ps arbitrary: m)
  case (Cons p ps)
  then show ?case by (cases "grants s p") (auto simp: load_credential_lookup)
qed simp

text \<open>A client secret opens the resolver of its client: if only one client and credential of the
  message grant a secret, the resolver obtained with it acts for that client and credential in
  the given account, over the whole state, with the client's managed context merged into the
  request's.\<close>

lemma secret_opens_its_client:
  assumes "from_proto L pb account_id sdk = Inr st"
    and "c \<in> set (sp_clients pb)" "cred \<in> set (sp_client_credentials pb)" "grants s (c, cred)"
    and "\<forall>p \<in> set (client_credentials (sp_clients pb) (sp_client_credentials pb)). grants s p \<longrightarrow> p = (c, cred)"
  shows "\<exists>R. get_resolver st s context key = Inr R \<and> ar_client R = credential_client account_id c cred
    \<and> ar_state R = st \<and> evaluation_context R = merge_context (cp_managed_context c) context"
proof -
  let ?ps = "client_credentials (sp_clients pb) (sp_client_credentials pb)"
  have "(c, cred) \<in> set ?ps" using assms(2,3) by (auto simp: client_credentials_def)
  then have granted: "\<exists>p \<in> set ?ps. grants s p" using assms(4) by blast
  have same: "\<forall>p \<in> set ?ps. grants s p \<longrightarrow> credential_client account_id (fst p) (snd p) = credential_client account_id c cred"
    using assms(5) by auto
  have "map_of (load_secrets account_id (sp_clients pb) (sp_client_credentials pb)) s
      = Some (credential_client account_id c cred)"
    unfolding load_secrets_def load_secrets_pairs load_pairs_lookup [OF same] using granted by (rule if_P)
  moreover have "rs_secrets st = load_secrets account_id (sp_clients pb) (sp_client_credentials pb)"
    using assms(1) by (auto simp: from_proto_def split: sum.splits)
  ultimately show ?thesis by (simp add: get_resolver_def resolver_new_def credential_client_def)
qed

definition clients_message :: resolver_state_pb where
  "clients_message = \<lparr>sp_flags = [], sp_segments = [], sp_bitsets = [],
     sp_clients = [\<lparr>cp_name = ''clients/ab'', cp_managed_context = []\<rparr>, \<lparr>cp_name = ''clients/a'', cp_managed_context = []\<rparr>],
     sp_client_credentials = [\<lparr>cc_name = ''clients/ab/credentials/k'', cc_secret = Some ''s1'', cc_environments = []\<rparr>,
       \<lparr>cc_name = ''clients/a/credentials/k'', cc_secret = Some ''s2'', cc_environments = []\<rparr>],
     sp_bloom_filters = []\<rparr>"

theorem secret_opens_its_client_witness:
  "\<exists>st R. from_proto example_libs clients_message ''acc'' None = Inr st \<and> get_resolver st ''s2'' [] [] = Inr R
     \<and> client_name (ar_client R) = ''clients/a''"
proof -
  obtain st where st: "from_proto example_libs clients_message ''acc'' None = Inr st"
    by (simp add: from_proto_def clients_message_def)
  let ?c = "\<lparr>cp_name = ''clients/a'', cp_managed_context = []\<rparr>"
  let ?cred = "\<lparr>cc_name = ''clients/a/credentials/k'', cc_secret = Some ''s2'', cc_environments = []\<rparr>"
  have "\<exists>R. get_resolver st ''s2'' [] [] = Inr R \<and> ar_client R = credential_client ''acc'' ?c ?cred
    \<and> ar_state R = st \<and> evaluation_context R = merge_context (cp_managed_context ?c) []"
    by (rule secret_opens_its_client [OF st])
      (simp_all add: clients_message_def client_credentials_def grants_def str_starts_with_def)
  then show ?thesis using st by (auto simp: credential_client_def)
qed

text \<open>Credentials are attached to clients by a bare name prefix: a client whose name is a proper
  prefix of another client's name, listed after it, takes over the other client's secret.\<close>

lemma client_prefix_takes_secret:
  "\<exists>st R. from_proto L clients_message account_id sdk = Inr st \<and> get_resolver st ''s1'' context key = Inr R
     \<and> client_credential_name (ar_client R) = ''clients/ab/credentials/k'' \<and> client_name (ar_client R) = ''clients/a''"
  by (simp add: from_proto_def clients_message_def get_resolver_def load_secrets_def load_credential_def
      str_starts_with_def credential_client_def resolver_new_def)

text \<open>An unknown client secret can crash the resolver: when the fourth byte of an unknown secret of
  more than six bytes is inside a UTF-8 sequence, masking it for the error message slices
  through the sequence and panics.\<close>

lemma unknown_secret_panics:
  assumes "map_of (rs_secrets st) s = None" "6 < length s"
    and "128 \<le> (of_char (s ! 3) :: nat)" "(of_char (s ! 3) :: nat) < 192"
  shows "get_resolver st s context key = Inl Panic"
proof -
  have "nth_opt s 3 = Some (s ! 3)" using assms(2) by (simp add: nth_opt_Some)
  then have "\<not> is_char_boundary s 3" using assms(2-4) by (simp add: is_char_boundary_def)
  then show ?thesis
    using assms(1,2) by (simp add: get_resolver_def secret_not_found_def mask_secret_def Let_def)
qed

theorem unknown_secret_panics_witness:
  "get_resolver example_state [CHR ''a'', CHR ''b'', CHR 0xC3, CHR 0xA9, CHR ''c'', CHR ''d'', CHR ''e''] [] [] = Inl Panic"
  by (rule unknown_secret_panics) (simp_all add: example_state_def)

text \<open>Masking an ASCII secret never panics and shows at most its first and last three characters.\<close>

lemma mask_secret_ascii:
  assumes "list_all (\<lambda>c. (of_char c :: nat) < 128) s"
  shows "mask_secret s = Inr (if length s \<le> 6 then ''***'' else take 3 s @ ''...'' @ drop (length s - 3) s)"
proof -
  have "is_char_boundary s i" if "i < length s" for i
  proof -
    have "nth_opt s i = Some (s ! i)" using that by (simp add: nth_opt_Some)
    then show ?thesis using assms that by (simp add: is_char_boundary_def list_all_length)
  qed
  then show ?thesis by (simp add: mask_secret_def Let_def)
qed

end
