(* ===== verification/Resolve_Process.thy ===== *)
theory Resolve_Process
  imports Resolver_State "HOL-Library.Sublist" "HOL-Library.Multiset"
begin

text \<open>
  The public operations of a client's resolver in \<open>confidence-resolver/src/lib.rs\<close>: \<open>resolve_flags\<close>
  with its suspend and resume protocol, \<open>apply_flags\<close>, the conversion of resolved values into
  the response, and the token sealing of the \<open>no_std\<close> build. What a host is asked to log is
  returned as a list of events beside the result. The protobuf encodings of the token and of
  the continuation state are parameters, as are the clock, the resolve id drawn from the random
  generator and the host's sealing functions.
\<close>

section \<open>Messages\<close>

record resolve_request =
  rq_flags :: "string list"
  rq_evaluation_context :: "gstruct option"
  rq_client_secret :: string
  rq_apply :: bool
  rq_sdk :: "sdk option"

record process_state =
  ps_resolve_request :: "resolve_request option"
  ps_resolved_flags :: "assigned_flag list"
  ps_materializations_to_write :: "materialization_record list"

datatype process_request =
    DeferredMaterializations resolve_request
  | StaticMaterializations "resolve_request option" "materialization_record list"
  | WithoutMaterializations resolve_request
  | Resume "materialization_record list" bytes

record resolved_flag =
  rf_flag :: string
  rf_variant :: string
  rf_value :: "gstruct option"
  rf_flag_schema :: "struct_schema option"
  rf_reason :: int
  rf_should_apply :: bool
  rf_assignment_origin :: string

record resolve_response =
  rr_resolved_flags :: "resolved_flag list"
  rr_resolve_token :: bytes
  rr_resolve_id :: string

datatype process_response =
    Resolved "resolve_response option" "materialization_record list"
  | Suspended "materialization_record list" bytes

record token_v1 =
  tk_evaluation_context :: "gstruct option"
  tk_assignments :: "assigned_flag fields"
  tk_resolve_id :: string
  tk_account :: string

record resolve_token =
  token_of :: "token_v1 option"

record applied_flag =
  ap_flag :: string
  ap_apply_time :: "timestamp option"

record apply_request =
  aq_flags :: "applied_flag list"
  aq_client_secret :: string
  aq_resolve_token :: bytes
  aq_send_time :: "timestamp option"
  aq_sdk :: "sdk option"

definition deferred_materializations :: "resolve_request \<Rightarrow> process_request option" where
  [model_defs]: "deferred_materializations request = Some (DeferredMaterializations request)"

definition static_materializations :: "resolve_request \<Rightarrow> materialization_record list \<Rightarrow> process_request option" where
  [model_defs]: "static_materializations request materializations =
     Some (StaticMaterializations (Some request) materializations)"

definition without_materializations :: "resolve_request \<Rightarrow> process_request option" where
  [model_defs]: "without_materializations request = Some (WithoutMaterializations request)"

definition resume :: "materialization_record list \<Rightarrow> bytes \<Rightarrow> process_request option" where
  [model_defs]: "resume materializations state = Some (Resume materializations state)"

definition resolved :: "resolve_response \<Rightarrow> materialization_record list \<Rightarrow> process_response option" where
  [model_defs]: "resolved response writes = Some (Resolved (Some response) writes)"

definition into_resolved :: "process_response option \<Rightarrow> (resolve_response \<times> materialization_record list) option" where
  [model_defs]: "into_resolved result =
     (case result of
        Some (Resolved (Some response) writes) \<Rightarrow> Some (response, writes)
      | _ \<Rightarrow> None)"

definition into_suspended :: "process_response option \<Rightarrow> (materialization_record list \<times> bytes) option" where
  [model_defs]: "into_suspended result =
     (case result of
        Some (Suspended reads state) \<Rightarrow> Some (reads, state)
      | _ \<Rightarrow> None)"

section \<open>The host\<close>

text \<open>
  A flag to apply is an assignment with its time. The sealing functions are those a \<open>Host\<close>
  may override; \<open>null_encrypt\<close> and \<open>null_decrypt\<close> are the defaults without the standard library, those of the standard
  build are in \<open>Token_Sealing\<close>.
\<close>

record flag_to_apply =
  fta_assigned_flag :: assigned_flag
  fta_applied_time :: timestamp

datatype host_event =
    LogResolve string gstruct "resolved_value list" client
  | LogAssign string "flag_to_apply list" client "sdk option"

record host =
  current_time :: timestamp
  host_encrypt :: "bytes \<Rightarrow> bytes \<Rightarrow> string + bytes"
  host_decrypt :: "bytes \<Rightarrow> bytes \<Rightarrow> string + bytes"
  encode_token :: "resolve_token \<Rightarrow> bytes option"
  decode_token :: "bytes \<Rightarrow> resolve_token option"
  encode_state :: "process_state \<Rightarrow> bytes"
  decode_state :: "bytes \<Rightarrow> string + process_state"

definition null_encrypt :: "bytes \<Rightarrow> bytes \<Rightarrow> string + bytes" where
  [model_defs]: "null_encrypt token_data key =
     (if list_all (\<lambda>b. b = 0) key then Inr token_data else Inl ''Encryption not available in no_std mode'')"

definition null_decrypt :: "bytes \<Rightarrow> bytes \<Rightarrow> string + bytes" where
  [model_defs]: "null_decrypt encrypted_data key =
     (if list_all (\<lambda>b. b = 0) key then Inr encrypted_data else Inl ''decryption not available in no_std mode'')"

definition lib_at :: "u32 \<Rightarrow> u32 \<Rightarrow> error_code" where
  [model_defs]: "lib_at line column = from_location ''confidence-resolver/src/lib.rs'' line column"

definition encrypt_resolve_token :: "host \<Rightarrow> account_resolver \<Rightarrow> resolve_token \<Rightarrow> failure + bytes" where
  [model_defs]: "encrypt_resolve_token H R token =
     bind_ok (map_err code_failure (or_fail (lib_at 1541 46) (encode_token H token))) (\<lambda>token_buf.
       map_err Failed (host_encrypt H token_buf (encryption_key R)))"

definition decrypt_resolve_token :: "host \<Rightarrow> account_resolver \<Rightarrow> bytes \<Rightarrow> failure + resolve_token" where
  [model_defs]: "decrypt_resolve_token H R encrypted_token =
     bind_ok (map_err Failed (host_decrypt H encrypted_token (encryption_key R))) (\<lambda>decrypted_data.
       map_err code_failure (or_fail (lib_at 1552 75) (decode_token H decrypted_data)))"

definition suspended :: "host \<Rightarrow> materialization_record list \<Rightarrow> process_state \<Rightarrow> process_response option" where
  [model_defs]: "suspended H reads continuation = Some (Suspended reads (encode_state H continuation))"

section \<open>The response\<close>

definition from_assigned :: "resolver_state \<Rightarrow> assigned_flag \<Rightarrow> error_code + resolved_value" where
  [model_defs]: "from_assigned state assigned =
     bind_ok (or_fail (lib_at 1644 52) (map_of (rs_flags state) (af_flag assigned))) (\<lambda>flag.
       Inr \<lparr>rv_flag = flag, rv_inner = assigned\<rparr>)"

fun fill_fields :: "struct_schema \<Rightarrow> gstruct \<Rightarrow> gstruct" where
  "fill_fields [] result = result"
| "fill_fields ((field_name, field_schema) # schema) result =
     fill_fields schema
       (case map_of result field_name of
          None \<Rightarrow> bt_insert field_name (Some (NullValue 0)) result
        | Some val \<Rightarrow>
            (case val of
               Some (StructValue sub_struct) \<Rightarrow>
                 (case field_schema of
                    Some (StructSchema sub_schema) \<Rightarrow>
                      bt_insert field_name (Some (StructValue (fill_fields sub_schema sub_struct))) result
                  | _ \<Rightarrow> result)
             | _ \<Rightarrow> result))"

definition fill_schema_nulls :: "gstruct option \<Rightarrow> struct_schema \<Rightarrow> gstruct" where
  [model_defs]: "fill_schema_nulls value schema =
     fill_fields schema (case value of Some v \<Rightarrow> v | None \<Rightarrow> [])"

definition resolved_flag_of :: "resolved_value \<Rightarrow> error_code + resolved_flag" where
  [model_defs]: "resolved_flag_of rv =
     (let inner = rv_inner rv;
          base = \<lparr>rf_flag = flag_name (rv_flag rv), rf_variant = [], rf_value = None, rf_flag_schema = None,
                  rf_reason = af_reason inner, rf_should_apply = should_apply rv,
                  rf_assignment_origin = af_rule inner\<rparr> in
      if af_rule inner \<noteq> [] \<or> af_segment inner \<noteq> [] then
        (if af_variant inner \<noteq> [] then
           bind_ok (or_fail (lib_at 1783 22) (find_variant (rv_flag rv) (af_variant inner))) (\<lambda>variant.
             let schema = (case flag_schema_of (rv_flag rv) of Some s \<Rightarrow> s | None \<Rightarrow> []) in
             Inr (base\<lparr>rf_variant := variant_name variant,
                       rf_value := Some (fill_schema_nulls (variant_value variant) schema),
                       rf_flag_schema := flag_schema_of (rv_flag rv)\<rparr>))
         else Inr (base\<lparr>rf_variant := [], rf_value := Some [], rf_flag_schema := Some []\<rparr>))
      else Inr base)"

section \<open>resolve_flags\<close>

definition MAX_NO_OF_FLAGS_TO_BATCH_RESOLVE :: nat where
  "MAX_NO_OF_FLAGS_TO_BATCH_RESOLVE = 5000"

definition fresh_state :: "resolve_request \<Rightarrow> process_state" where
  [model_defs]: "fresh_state req =
     \<lparr>ps_resolve_request = Some req, ps_resolved_flags = [], ps_materializations_to_write = []\<rparr>"

definition open_request ::
  "host \<Rightarrow> process_request option \<Rightarrow> failure + process_state \<times> materialization_context" where
  [model_defs]: "open_request H request =
     (case request of
        Some (DeferredMaterializations req) \<Rightarrow> Inr (fresh_state req, discovery)
      | Some (StaticMaterializations req materializations) \<Rightarrow>
          bind_ok (map_err code_failure (or_fail (lib_at 837 65) req)) (\<lambda>req.
            Inr (fresh_state req, complete materializations))
      | Some (WithoutMaterializations req) \<Rightarrow> Inr (fresh_state req, unsupported)
      | Some (Resume materializations state_bytes) \<Rightarrow>
          (case decode_state H state_bytes of
             Inl e \<Rightarrow> Inl (Failed (''Failed to decode continuation state: '' @ e))
           | Inr state \<Rightarrow>
               let mc = complete materializations in
               Inr (state\<lparr>ps_materializations_to_write := []\<rparr>,
                    mc\<lparr>to_write := to_write mc @ ps_materializations_to_write state\<rparr>))
      | None \<Rightarrow> Inl (code_failure (lib_at 866 21)))"

definition flags_to_resolve :: "account_resolver \<Rightarrow> resolve_request \<Rightarrow> assigned_flag list \<Rightarrow> flag list" where
  [model_defs]: "flags_to_resolve R req already =
     filter (\<lambda>f. \<not> list_ex (\<lambda>rf. af_flag rf = flag_name f) already)
       (filter (\<lambda>f. rq_flags req = [] \<or> flag_name f \<in> set (rq_flags req))
         (filter (\<lambda>f. client_name (ar_client R) \<in> set (flag_clients f))
           (filter (\<lambda>f. flag_state f = FLAG_ACTIVE) (map snd (rs_flags (ar_state R))))))"

fun resolve_each ::
  "libs \<Rightarrow> account_resolver \<Rightarrow> flag list \<Rightarrow> assigned_flag list \<Rightarrow> materialization_context \<Rightarrow>
   failure + assigned_flag list \<times> materialization_context" where
  "resolve_each L R [] already mc = Inr (already, mc)"
| "resolve_each L R (flag # flags) already mc =
     (case resolve_flag L R flag mc of
        (Inr rv, mc') \<Rightarrow> resolve_each L R flags (already @ [rv_inner rv]) mc'
      | (Inl MissingMaterializations, mc') \<Rightarrow> resolve_each L R flags already mc'
      | (Inl other, mc') \<Rightarrow> Inl (resolve_error_to_string other))"

definition too_many_flags :: "nat \<Rightarrow> failure" where
  [model_defs]: "too_many_flags n =
     Failed (''max '' @ show_nat MAX_NO_OF_FLAGS_TO_BATCH_RESOLVE @
       '' flags allowed in a single resolve request, this request would return '' @ show_nat n @ '' flags.'')"

definition token_for :: "string \<Rightarrow> resolved_value list \<Rightarrow> resolve_token" where
  [model_defs]: "token_for resolve_id values = \<lparr>token_of = Some
     \<lparr>tk_evaluation_context = Some [],
      tk_assignments = fold (\<lambda>rv. bt_insert (af_flag (rv_inner rv)) (rv_inner rv)) (filter should_apply values) [],
      tk_resolve_id = resolve_id, tk_account = []\<rparr>\<rparr>"

definition expose ::
  "host \<Rightarrow> account_resolver \<Rightarrow> resolve_request \<Rightarrow> string \<Rightarrow> timestamp \<Rightarrow> resolved_value list \<Rightarrow>
   failure + bytes \<times> host_event list" where
  [model_defs]: "expose H R req resolve_id timestamp values =
     (if disable_exposure_collection R then Inr ([], [])
      else if rq_apply req then
        Inr ([], [LogAssign resolve_id
          (map (\<lambda>rv. \<lparr>fta_assigned_flag = rv_inner rv, fta_applied_time = timestamp\<rparr>) (filter should_apply values))
          (ar_client R) (rs_sdk (ar_state R))])
      else
        (case encrypt_resolve_token H R (token_for resolve_id values) of
           Inl Panic \<Rightarrow> Inl Panic
         | Inl (Failed _) \<Rightarrow> Inl (Failed ''Failed to encrypt resolve token'')
         | Inr encrypted_token \<Rightarrow> Inr (encrypted_token, [])))"

definition respond ::
  "host \<Rightarrow> account_resolver \<Rightarrow> resolve_request \<Rightarrow> string \<Rightarrow> timestamp \<Rightarrow> assigned_flag list \<Rightarrow>
   materialization_record list \<Rightarrow> (failure + process_response option) \<times> host_event list" where
  [model_defs]: "respond H R req resolve_id timestamp assigned writes =
     (case bind_ok (map_err code_failure (try_map (from_assigned (ar_state R)) assigned)) (\<lambda>values.
             bind_ok (map_err code_failure (try_map resolved_flag_of values)) (\<lambda>resolved_flags.
               bind_ok (expose H R req resolve_id timestamp values) (\<lambda>(token, events).
                 Inr (values, \<lparr>rr_resolved_flags = resolved_flags, rr_resolve_token = token,
                        rr_resolve_id = resolve_id\<rparr>, events)))) of
        Inl e \<Rightarrow> (Inl e, [])
      | Inr (values, response, events) \<Rightarrow>
          (Inr (resolved response writes),
           events @ [LogResolve resolve_id (evaluation_context R) values (ar_client R)]))"

definition resolve_flags ::
  "libs \<Rightarrow> host \<Rightarrow> string \<Rightarrow> account_resolver \<Rightarrow> process_request option \<Rightarrow>
   (failure + process_response option) \<times> host_event list" where
  [model_defs]: "resolve_flags L H resolve_id R request =
     (case open_request H request of
        Inl e \<Rightarrow> (Inl e, [])
      | Inr (state, mc) \<Rightarrow>
          (case ps_resolve_request state of
             None \<Rightarrow> (Inl (code_failure (lib_at 869 62)), [])
           | Some req \<Rightarrow>
               let flags = flags_to_resolve R req (ps_resolved_flags state) in
               if MAX_NO_OF_FLAGS_TO_BATCH_RESOLVE < length flags
               then (Inl (too_many_flags (length flags)), [])
               else
                 (case resolve_each L R flags (ps_resolved_flags state) mc of
                    Inl e \<Rightarrow> (Inl e, [])
                  | Inr (assigned, mc') \<Rightarrow>
                      if to_read mc' \<noteq> [] then
                        (Inr (suspended H (to_read mc')
                           (state\<lparr>ps_resolved_flags := assigned,
                                  ps_materializations_to_write := to_write mc'\<rparr>)), [])
                      else respond H R req resolve_id (current_time H) assigned (to_write mc'))))"

section \<open>apply_flags\<close>

fun flags_to_apply ::
  "libs \<Rightarrow> datetime \<Rightarrow> datetime \<Rightarrow> assigned_flag fields \<Rightarrow> applied_flag list \<Rightarrow> failure + flag_to_apply list" where
  "flags_to_apply L send_time receive_time asgs [] = Inr []"
| "flags_to_apply L send_time receive_time asgs (applied # flags) =
     (case map_of asgs (ap_flag applied) of
        None \<Rightarrow> Inl (Failed ''Flag in resolve token does not match flag in request'')
      | Some assigned \<Rightarrow>
          (case ap_apply_time applied of
             None \<Rightarrow> Inl (Failed (''Missing apply time for flag '' @ ap_flag applied))
           | Some apply_ts \<Rightarrow>
               (case to_date_time_utc L apply_ts of
                  None \<Rightarrow> Inl (code_failure (lib_at 1037 59))
                | Some apply_time \<Rightarrow>
                    (case checked_sub_signed L receive_time (signed_duration_since L send_time apply_time) of
                       None \<Rightarrow> Inl (code_failure (lib_at 1039 71))
                     | Some adjusted_time \<Rightarrow>
                         map_ok (\<lambda>rest. \<lparr>fta_assigned_flag = assigned,
                                  fta_applied_time = datetime_to_timestamp adjusted_time\<rparr> # rest)
                           (flags_to_apply L send_time receive_time asgs flags)))))"

definition apply_flags ::
  "libs \<Rightarrow> host \<Rightarrow> account_resolver \<Rightarrow> apply_request \<Rightarrow> (failure + unit) \<times> host_event list" where
  [model_defs]: "apply_flags L H R request =
     (if disable_exposure_collection R then (Inr (), [])
      else
        (case bind_ok (or_fail (Failed ''send_time is required'') (aq_send_time request)) (\<lambda>send_time_ts.
              bind_ok (or_fail (Failed ''invalid send_time'') (to_date_time_utc L send_time_ts)) (\<lambda>send_time.
              bind_ok (map_err code_failure (timestamp_to_datetime L (current_time H))) (\<lambda>receive_time.
              bind_ok (decrypt_resolve_token H R (aq_resolve_token request)) (\<lambda>outer.
              bind_ok (or_fail (Failed ''resolve token is not a V1 token'') (token_of outer)) (\<lambda>token.
              map_ok (Pair token)
                (flags_to_apply L send_time receive_time (tk_assignments token) (aq_flags request))))))) of
           Inl e \<Rightarrow> (Inl e, [])
         | Inr (token, assigned_flags) \<Rightarrow>
             (Inr (), [LogAssign (tk_resolve_id token) assigned_flags (ar_client R) (rs_sdk (ar_state R))])))"

section \<open>Filling the schema\<close>

definition filled :: "flag_schema option \<Rightarrow> gvalue option \<Rightarrow> gvalue option" where
  "filled field_schema val =
     (case field_schema of
        None \<Rightarrow> val
      | Some fs \<Rightarrow>
          (case val of
             None \<Rightarrow> Some (Some (NullValue 0))
           | Some (Some (StructValue sub)) \<Rightarrow>
               (case fs of Some (StructSchema sub_schema) \<Rightarrow> Some (Some (StructValue (fill_fields sub_schema sub)))
                | _ \<Rightarrow> val)
           | Some v \<Rightarrow> Some v))"

lemma fill_fields_Cons:
  obtains r where "fill_fields ((k, fs) # schema) result = fill_fields schema r"
    "map_of r = (map_of result)(k := filled (Some fs) (map_of result k))"
proof
  let ?r = "case map_of result k of
          None \<Rightarrow> bt_insert k (Some (NullValue 0)) result
        | Some val \<Rightarrow>
            (case val of
               Some (StructValue sub_struct) \<Rightarrow>
                 (case fs of
                    Some (StructSchema sub_schema) \<Rightarrow>
                      bt_insert k (Some (StructValue (fill_fields sub_schema sub_struct))) result
                  | _ \<Rightarrow> result)
             | _ \<Rightarrow> result)"
  show "fill_fields ((k, fs) # schema) result = fill_fields schema ?r" by (rule fill_fields.simps(2))
  show "map_of ?r = (map_of result)(k := filled (Some fs) (map_of result k))"
    unfolding filled_def
    by (cases "map_of result k"; simp) (auto split: option.splits gkind.splits schema_type.splits)
qed

lemma fill_fields_lookup:
  "distinct (map fst schema) \<Longrightarrow> map_of (fill_fields schema result) k = filled (map_of schema k) (map_of result k)"
proof (induction schema arbitrary: result)
  case (Cons p schema)
  obtain k' fs where p: "p = (k', fs)" by (cases p)
  obtain r where r: "fill_fields (p # schema) result = fill_fields schema r"
    "map_of r = (map_of result)(k' := filled (Some fs) (map_of result k'))"
    unfolding p by (rule fill_fields_Cons)
  have IH: "map_of (fill_fields schema r) k = filled (map_of schema k) (map_of r k)"
    using Cons by simp
  show ?case unfolding r(1) IH
  proof (cases "k = k'")
    case True
    then have "map_of schema k = None" using Cons.prems by (simp add: p map_of_eq_None_iff)
    then show "filled (map_of schema k) (map_of r k) = filled (map_of (p # schema) k) (map_of result k)"
      using True by (simp add: r p filled_def [of None])
  next
    case False
    then show "filled (map_of schema k) (map_of r k) = filled (map_of (p # schema) k) (map_of result k)"
      by (simp add: r p)
  qed
qed (simp add: filled_def)

text \<open>The value of a resolved flag has every field of its schema: a field the variant leaves out is
  null, a nested struct is filled by the nested schema, and every other value, and every value
  of a field the schema does not name, is the variant's.\<close>

lemma fill_schema_nulls_lookup:
  assumes "distinct (map fst schema)"
  shows "map_of (fill_schema_nulls value schema) k =
    filled (map_of schema k) (map_of (case value of Some v \<Rightarrow> v | None \<Rightarrow> []) k)"
  unfolding fill_schema_nulls_def using assms by (rule fill_fields_lookup)

theorem fill_schema_nulls_lookup_witness:
  "map_of (fill_schema_nulls (Some [(''b'', Some (StructValue []))])
      [(''a'', Some IntSchema), (''b'', Some (StructSchema [(''c'', None)]))]) ''b''
    = Some (Some (StructValue [(''c'', Some (NullValue 0))]))"
  by (subst fill_schema_nulls_lookup) (simp_all add: filled_def)

section \<open>What a run of the resolver answers\<close>

lemma resolve_flag_missing_reads:
  assumes "resolve_flag L R flag mc = (Inl MissingMaterializations, mc')" shows "to_read mc' \<noteq> []"
proof
  assume empty: "to_read mc' = []"
  have not_missing: "resolve_flag L R flag m \<noteq> (Inl MissingMaterializations, m')" if "records m \<noteq> Discovery" for m m'
    using resolve_rules_not_missing [OF that]
    by (auto simp: resolve_flag_recovered recovered_def resolve_flag_internal_def split: if_splits)
  then have "records mc = Discovery" using assms by blast
  moreover have "records mc' = records mc" using resolve_flag_extends [OF assms] by (simp add: extends_context_def)
  ultimately have "quiet mc'" using empty by (simp add: quiet_def)
  then have "resolve_flag L R flag (with_records [] mc) = (Inl MissingMaterializations, with_records [] mc')"
    using simulatesD [OF resolve_flag_quiet assms] by blast
  then show False using not_missing by (simp add: with_records_def)
qed

lemma resolve_each_extends: "resolve_each L R fs already mc = Inr (a, mc') \<Longrightarrow> extends_context mc mc'"
  by (induction L R fs already mc rule: resolve_each.induct)
     (auto split: prod.splits sum.splits resolve_error.splits dest!: resolve_flag_extends intro: extends_trans)

text \<open>The values a run adds belong to some of the flags it was given, in their order.\<close>

definition answers_of :: "account_resolver \<Rightarrow> flag list \<Rightarrow> assigned_flag list \<Rightarrow> bool" where
  "answers_of R fs new \<longleftrightarrow>
     list_all2 (\<lambda>f a. justified R f \<lparr>rv_flag = f, rv_inner = a\<rparr>) fs new"

lemma resolve_flag_answer:
  assumes "resolve_flag L R f mc = (Inr rv, mc')"
  shows "justified R f \<lparr>rv_flag = f, rv_inner = rv_inner rv\<rparr>"
proof -
  have "justified R f rv" using assms by (rule resolve_flag_justified)
  moreover from this have "rv = \<lparr>rv_flag = f, rv_inner = rv_inner rv\<rparr>" by (simp add: justified_def)
  ultimately show ?thesis by simp
qed

lemma resolve_each_answers:
  "resolve_each L R fs already mc = Inr (assigned, mc') \<Longrightarrow>
     \<exists>fs' new. assigned = already @ new \<and> answers_of R fs' new \<and> subseq fs' fs \<and> (to_read mc' = [] \<longrightarrow> fs' = fs)"
proof (induction L R fs already mc rule: resolve_each.induct)
  case (1 L R already mc)
  then show ?case by (auto simp: answers_of_def)
next
  case (2 L R f fs already mc)
  obtain r mc1 where r: "resolve_flag L R f mc = (r, mc1)" by (cases "resolve_flag L R f mc")
  show ?case
  proof (cases r)
    case (Inr rv)
    then have run: "resolve_each L R fs (already @ [rv_inner rv]) mc1 = Inr (assigned, mc')" using "2.prems" r by simp
    from "2.IH"(2) [OF r [symmetric] Inr run] obtain fs' new where
      IH: "assigned = already @ rv_inner rv # new" "answers_of R fs' new" "subseq fs' fs" "to_read mc' = [] \<longrightarrow> fs' = fs"
      by auto
    have "answers_of R (f # fs') (rv_inner rv # new)"
      using IH(2) resolve_flag_answer [OF r [unfolded Inr]] by (simp add: answers_of_def)
    then show ?thesis using IH by (intro exI [of _ "f # fs'"] exI [of _ "rv_inner rv # new"]) auto
  next
    case (Inl e)
    then have e: "e = MissingMaterializations" using "2.prems" r by (cases e) auto
    then have run: "resolve_each L R fs already mc1 = Inr (assigned, mc')" using "2.prems" r Inl by simp
    have "to_read mc1 \<noteq> []" using resolve_flag_missing_reads r Inl e by blast
    then have "to_read mc' \<noteq> []" using to_read_nonempty_mono [OF resolve_each_extends [OF run]] by blast
    moreover obtain fs' new where "assigned = already @ new" "answers_of R fs' new" "subseq fs' fs"
      using "2.IH"(1) [OF r [symmetric] Inl e run] by blast
    ultimately show ?thesis by (intro exI [of _ fs'] exI [of _ new]) auto
  qed
qed

section \<open>What a response holds\<close>

lemma wf_state_name: "wf_state st \<Longrightarrow> map_of (rs_flags st) k = Some f \<Longrightarrow> flag_name f = k"
  by (auto simp: wf_state_def list_all_iff dest: map_of_SomeD)

lemma wf_state_names: "wf_state st \<Longrightarrow> distinct (map flag_name (map snd (rs_flags st)))"
proof -
  assume wf: "wf_state st"
  then have "map flag_name (map snd (rs_flags st)) = map fst (rs_flags st)"
    by (auto simp: wf_state_def list_all_iff)
  then show ?thesis using wf unfolding wf_state_def distinct_keys_def by presburger
qed

lemma distinct_flags_to_resolve:
  "wf_state (ar_state R) \<Longrightarrow> distinct (map flag_name (flags_to_resolve R req already))"
  unfolding flags_to_resolve_def by (intro distinct_map_filter wf_state_names)

lemma from_assigned_Inr:
  "from_assigned st a = Inr rv \<longleftrightarrow> map_of (rs_flags st) (af_flag a) = Some (rv_flag rv) \<and> rv_inner rv = a"
  by (auto simp: from_assigned_def bind_ok_def or_fail_def split: option.splits sum.splits)

lemma from_assigned_names:
  assumes "wf_state st" "try_map (from_assigned st) assigned = Inr vals"
  shows "map rv_inner vals = assigned" "map (flag_name \<circ> rv_flag) vals = map af_flag assigned"
proof -
  have "list_all2 (\<lambda>a rv. rv_inner rv = a \<and> flag_name (rv_flag rv) = af_flag a) assigned vals"
    using assms(2) unfolding try_map_Inr from_assigned_Inr
    by (rule list_all2_mono) (use wf_state_name [OF assms(1)] in auto)
  then show "map rv_inner vals = assigned" "map (flag_name \<circ> rv_flag) vals = map af_flag assigned"
    by (induction rule: list_all2_induct) auto
qed

lemma resolved_flag_of_Inr:
  assumes "resolved_flag_of rv = Inr rf"
  shows "rf_flag rf = flag_name (rv_flag rv)" "rf_should_apply rf = should_apply rv" "rf_reason rf = af_reason (rv_inner rv)"
  using assms by (auto simp: resolved_flag_of_def Let_def bind_ok_def split: if_splits sum.splits)

lemma resolved_flags_names:
  assumes "try_map resolved_flag_of vals = Inr rfs"
  shows "map rf_flag rfs = map (flag_name \<circ> rv_flag) vals"
proof -
  have "list_all2 (\<lambda>rv rf. rf_flag rf = flag_name (rv_flag rv)) vals rfs"
    using assms unfolding try_map_Inr by (rule list_all2_mono) (rule resolved_flag_of_Inr)
  then show ?thesis by (induction rule: list_all2_induct) auto
qed

lemma respond_cases:
  assumes "respond H R req i t assigned ws = (Inr res, ev)"
  obtains vals rfs token events where
    "try_map (from_assigned (ar_state R)) assigned = Inr vals" "try_map resolved_flag_of vals = Inr rfs"
    "expose H R req i t vals = Inr (token, events)"
    "res = resolved \<lparr>rr_resolved_flags = rfs, rr_resolve_token = token, rr_resolve_id = i\<rparr> ws"
    "ev = events @ [LogResolve i (evaluation_context R) vals (ar_client R)]"
  using assms
  by (auto simp: respond_def bind_ok_def map_err_def split: sum.splits prod.splits)

lemma resolve_flags_cases:
  assumes "resolve_flags L H i R request = (Inr res, ev)"
  obtains state mc req assigned mc' where
    "open_request H request = Inr (state, mc)" "ps_resolve_request state = Some req"
    "resolve_each L R (flags_to_resolve R req (ps_resolved_flags state)) (ps_resolved_flags state) mc = Inr (assigned, mc')"
    "to_read mc' \<noteq> [] \<Longrightarrow> ev = [] \<and> res = suspended H (to_read mc') (state\<lparr>ps_resolved_flags := assigned,
         ps_materializations_to_write := to_write mc'\<rparr>)"
    "to_read mc' = [] \<Longrightarrow> respond H R req i (current_time H) assigned (to_write mc') = (Inr res, ev)"
  using assms
  by (auto simp: resolve_flags_def Let_def split: sum.splits prod.splits option.splits if_splits)

lemma into_resolved_simps [simp]:
  "into_resolved (resolved response ws) = Some (response, ws)"
  "into_resolved (suspended H reads st) = None"
  "into_suspended (suspended H reads st) = Some (reads, encode_state H st)"
  "into_suspended (resolved response ws) = None"
  by (simp_all add: into_resolved_def resolved_def suspended_def into_suspended_def)

lemma answers_names: "answers_of R fs new \<Longrightarrow> map af_flag new = map flag_name fs"
  unfolding answers_of_def by (induction rule: list_all2_induct) (auto simp: justified_def)

lemma response_names:
  assumes "wf_state (ar_state R)" "respond H R req i t assigned ws = (Inr res, ev)" "into_resolved res = Some (response, ws')"
  shows "map rf_flag (rr_resolved_flags response) = map af_flag assigned"
  using assms(2)
proof (rule respond_cases)
  fix vals rfs token events
  assume v: "try_map (from_assigned (ar_state R)) assigned = Inr vals" "try_map resolved_flag_of vals = Inr rfs"
    and res: "res = resolved \<lparr>rr_resolved_flags = rfs, rr_resolve_token = token, rr_resolve_id = i\<rparr> ws"
  have "rr_resolved_flags response = rfs" using assms(3) by (auto simp: res)
  then show ?thesis using resolved_flags_names [OF v(2)] from_assigned_names(2) [OF assms(1) v(1)] by simp
qed

lemma response_answers:
  assumes "wf_state (ar_state R)"
    and "open_request H request = Inr (state, mc)" "ps_resolve_request state = Some req"
    and "resolve_flags L H i R request = (Inr res, ev)" "into_resolved res = Some (response, ws)"
  shows "map rf_flag (rr_resolved_flags response) =
    map af_flag (ps_resolved_flags state) @ map flag_name (flags_to_resolve R req (ps_resolved_flags state))"
  using assms(4)
proof (rule resolve_flags_cases)
  fix state' mc1 req' assigned mc'
  assume o: "open_request H request = Inr (state', mc1)" "ps_resolve_request state' = Some req'"
    and each: "resolve_each L R (flags_to_resolve R req' (ps_resolved_flags state')) (ps_resolved_flags state') mc1 = Inr (assigned, mc')"
    and susp: "to_read mc' \<noteq> [] \<Longrightarrow> ev = [] \<and> res = suspended H (to_read mc') (state'\<lparr>ps_resolved_flags := assigned,
         ps_materializations_to_write := to_write mc'\<rparr>)"
    and resp: "to_read mc' = [] \<Longrightarrow> respond H R req' i (current_time H) assigned (to_write mc') = (Inr res, ev)"
  have st: "state' = state" "req' = req" using o assms(2,3) by auto
  have quiet: "to_read mc' = []" using susp assms(5) by fastforce
  obtain new where new: "assigned = ps_resolved_flags state @ new"
    "answers_of R (flags_to_resolve R req (ps_resolved_flags state)) new"
    using resolve_each_answers [OF each] quiet by (auto simp: st)
  then show ?thesis using response_names [OF assms(1) resp [OF quiet] assms(5)] by (simp add: answers_names)
qed

section \<open>Instances\<close>

definition example_host :: "resolve_token \<Rightarrow> process_state \<Rightarrow> host" where
  "example_host t st = \<lparr>current_time = \<lparr>seconds = 100, nanos = 0\<rparr>, host_encrypt = null_encrypt,
     host_decrypt = null_decrypt, encode_token = (\<lambda>_. Some []), decode_token = (\<lambda>_. Some t),
     encode_state = (\<lambda>_. []), decode_state = (\<lambda>_. Inr st)\<rparr>"

definition resolver_with :: "flag list \<Rightarrow> account_resolver" where
  "resolver_with fs = sticky_resolver\<lparr>ar_state := (ar_state sticky_resolver)\<lparr>rs_flags := map (\<lambda>f. (flag_name f, f)) fs\<rparr>\<rparr>"

definition example_request :: "bool \<Rightarrow> resolve_request" where
  "example_request apply = \<lparr>rq_flags = [], rq_evaluation_context = None, rq_client_secret = [], rq_apply = apply, rq_sdk = None\<rparr>"

lemmas process_defs = resolve_flags_def respond_def expose_def open_request_def flags_to_resolve_def
  encrypt_resolve_token_def from_assigned_def resolved_flag_of_def example_host_def resolver_with_def
  example_request_def MAX_NO_OF_FLAGS_TO_BATCH_RESOLVE_def without_materializations_def deferred_materializations_def
  resume_def into_resolved_def into_suspended_def suspended_def resolved_def fresh_state_def FLAG_ACTIVE_def

definition example_resolver_open :: account_resolver where
  "example_resolver_open = resolver_with [sticky_flag [open_rule]]"

definition example_value :: resolved_value where
  "example_value = with_variant_match (resolved_new (sticky_flag [open_rule])) open_rule all_segment
     \<lparr>variant_name = ''flags/f/variants/on'', variant_value = Some []\<rparr> ''a3'' ''user''"

definition example_host_open :: host where
  "example_host_open = example_host (token_for ''id'' [example_value]) (fresh_state (example_request True))"

lemma wf_resolver_with [simp]: "wf_state (ar_state (resolver_with [sticky_flag rs]))"
  by (simp add: wf_state_def resolver_with_def sticky_resolver_def distinct_keys_def all_segment_def)

lemma open_answer:
  "\<exists>response. resolve_flags example_libs example_host_open ''id'' example_resolver_open
      (without_materializations (example_request True)) =
    (Inr (resolved response []),
     [LogAssign ''id'' [\<lparr>fta_assigned_flag = rv_inner example_value, fta_applied_time = \<lparr>seconds = 100, nanos = 0\<rparr>\<rparr>] example_client None,
      LogResolve ''id'' (evaluation_context sticky_resolver) [example_value] example_client])"
  by (simp add: example_value_def example_host_open_def example_resolver_open_def process_defs resolve_defs)

lemma sticky_suspends:
  "resolve_flags example_libs (example_host t st) ''id'' (resolver_with [sticky_flag [sticky_rule]])
      (deferred_materializations (example_request True)) =
    (Inr (suspended (example_host t st) [sticky_record\<lparr>mr_variant := []\<rparr>] (fresh_state (example_request True))), [])"
  by (simp add: process_defs resolve_defs)

lemma example_value_applies:
  "filter should_apply [example_value] = [example_value]" "af_flag (rv_inner example_value) = ''flags/f''"
  "should_apply example_value"
  by (simp_all add: example_value_def should_apply_def with_variant_match_def resolved_new_def rv_reason_def
      sticky_defs model_defs eval_nat_numeral)

lemma open_request_without: "open_request H (without_materializations req) = Inr (fresh_state req, unsupported)"
  by (simp add: open_request_def without_materializations_def)



section \<open>Suspending and resuming\<close>

lemma open_request_modes:
  assumes "open_request H request = Inr (state, mc)"
  shows "to_read mc = []" "records mc = Discovery \<Longrightarrow> \<exists>req. request = deferred_materializations req"
  using assms
  by (auto simp: open_request_def discovery_def complete_def unsupported_def deferred_materializations_def
      bind_ok_def map_err_def or_fail_def split: option.splits process_request.splits sum.splits)

text \<open>Only a request with deferred materializations is ever suspended: static, unsupported and
  resumed requests are answered or fail, so a resume needs no second one.\<close>

lemma only_deferred_suspends:
  assumes "resolve_flags L H i R request = (Inr res, ev)" "into_suspended res = Some (reads, bytes)"
  shows "\<exists>req. request = deferred_materializations req"
  using assms(1)
proof (rule resolve_flags_cases)
  fix state mc req assigned mc'
  assume o: "open_request H request = Inr (state, mc)"
    and each: "resolve_each L R (flags_to_resolve R req (ps_resolved_flags state)) (ps_resolved_flags state) mc = Inr (assigned, mc')"
    and resp: "to_read mc' = [] \<Longrightarrow> respond H R req i (current_time H) assigned (to_write mc') = (Inr res, ev)"
  have "to_read mc' \<noteq> []"
  proof
    assume "to_read mc' = []"
    from resp [OF this] show False
      by (rule respond_cases) (use assms(2) in auto)
  qed
  then have "records mc = Discovery"
    using resolve_each_extends [OF each] open_request_modes(1) [OF o] by (auto simp: extends_context_def)
  then show ?thesis using open_request_modes(2) [OF o] by blast
qed

theorem only_deferred_suspends_witness:
  "\<exists>reads bytes ev. resolve_flags example_libs example_host_open ''id'' (resolver_with [sticky_flag [sticky_rule]])
      (deferred_materializations (example_request True)) = (Inr (Some (Suspended reads bytes)), ev)
    \<and> (\<exists>req. deferred_materializations (example_request True) = deferred_materializations req)"
proof -
  note run = sticky_suspends [of "token_for ''id'' [example_value]" "fresh_state (example_request True)",
      folded example_host_open_def]
  have "\<exists>req. deferred_materializations (example_request True) = deferred_materializations req"
    using only_deferred_suspends [OF run] by (simp add: suspended_def into_suspended_def)
  then show ?thesis using run by (simp add: suspended_def)
qed

lemma mset_subseq_rest:
  "subseq xs ys \<Longrightarrow> distinct (map g ys) \<Longrightarrow>
     mset xs + mset (filter (\<lambda>y. g y \<notin> g ` set xs) ys) = mset ys"
proof (induction rule: list_emb.induct)
  case (list_emb_Cons xs ys y)
  have "g y \<notin> g ` set xs" using list_emb_Cons.prems subseq_order.dual_order.trans list_emb_Cons.hyps
    by (auto dest: list_emb_set)
  then show ?case using list_emb_Cons by simp
next
  case (list_emb_Cons2 x y xs ys)
  have "z \<in> set ys \<Longrightarrow> g z \<noteq> g x" for z
    using list_emb_Cons2.prems list_emb_Cons2.hyps(1) by (metis distinct.simps(2) imageI list.simps(9) list.set_map)
  then have "filter (\<lambda>z. g z \<notin> insert (g x) (g ` set xs)) ys = filter (\<lambda>z. g z \<notin> g ` set xs) ys"
    by (intro filter_cong) auto
  then show ?case using list_emb_Cons2 by simp
qed simp

text \<open>C1: Suspending and resuming loses no flag: when the flags of a deferred run leave reads open, the
  run is suspended with the flags it could resolve, and if that state survives the round trip
  through the caller, a resume that is answered names exactly the flags the request is for, each
  once, with the flags of the suspended run first.\<close>

theorem suspend_resume_completes:
  fixes L H i R req assigned mc
  defines "st \<equiv> \<lparr>ps_resolve_request = Some req, ps_resolved_flags = assigned, ps_materializations_to_write = to_write mc\<rparr>"
  assumes wf: "wf_state (ar_state R)"
    and few: "length (flags_to_resolve R req []) \<le> MAX_NO_OF_FLAGS_TO_BATCH_RESOLVE"
    and run: "resolve_each L R (flags_to_resolve R req []) [] discovery = Inr (assigned, mc)" "to_read mc \<noteq> []"
    and codec: "decode_state H (encode_state H st) = Inr st"
    and resumed: "resolve_flags L H i' R (resume rs (encode_state H st)) = (Inr (resolved response ws), ev)"
  shows "resolve_flags L H i R (deferred_materializations req) = (Inr (suspended H (to_read mc) st), [])
    \<and> (\<exists>rest. map rf_flag (rr_resolved_flags response) = map af_flag assigned @ rest)
    \<and> mset (map rf_flag (rr_resolved_flags response)) = mset (map flag_name (flags_to_resolve R req []))"
proof -
  let ?fs = "flags_to_resolve R req []"
  have "resolve_flags L H i R (deferred_materializations req) = (Inr (suspended H (to_read mc) st), [])"
    using few run by (simp add: resolve_flags_def open_request_def deferred_materializations_def fresh_state_def Let_def st_def)
  moreover obtain fs' where fs': "subseq fs' ?fs" "map af_flag assigned = map flag_name fs'"
    using resolve_each_answers [OF run(1)] by (auto dest: answers_names)
  moreover have rest: "flags_to_resolve R req assigned = filter (\<lambda>f. flag_name f \<notin> flag_name ` set fs') ?fs"
  proof -
    have "af_flag ` set assigned = flag_name ` set fs'" using arg_cong [OF fs'(2), of set] by simp
    moreover have "list_ex (\<lambda>rf. af_flag rf = flag_name f) assigned \<longleftrightarrow> flag_name f \<in> af_flag ` set assigned" for f :: flag
      by (auto simp: list_ex_iff image_iff intro: rev_bexI)
    ultimately have "list_ex (\<lambda>rf. af_flag rf = flag_name f) assigned \<longleftrightarrow> flag_name f \<in> flag_name ` set fs'" for f :: flag
      by simp
    then show ?thesis by (simp add: flags_to_resolve_def)
  qed
  moreover have names: "map rf_flag (rr_resolved_flags response) = map flag_name fs' @ map flag_name (flags_to_resolve R req assigned)"
  proof -
    obtain mc1 where "open_request H (resume rs (encode_state H st)) = Inr (st\<lparr>ps_materializations_to_write := []\<rparr>, mc1)"
      using codec by (simp add: open_request_def resume_def Let_def)
    from response_answers [OF wf this _ resumed] show ?thesis using fs'(2) by (simp add: st_def)
  qed
  moreover have "mset (map rf_flag (rr_resolved_flags response)) = mset (map flag_name ?fs)"
  proof -
    have "mset (map rf_flag (rr_resolved_flags response)) =
        image_mset flag_name (mset fs' + mset (flags_to_resolve R req assigned))" by (simp add: names)
    also have "\<dots> = image_mset flag_name (mset ?fs)"
      unfolding rest by (simp only: mset_subseq_rest [OF fs'(1) distinct_flags_to_resolve [OF wf]])
    finally show ?thesis by simp
  qed
  ultimately show ?thesis by simp
qed

theorem suspend_resume_completes_witness:
  "\<exists>response ws ev. resolve_flags example_libs example_host_open ''id'' (resolver_with [sticky_flag [sticky_rule]])
      (resume [sticky_record] []) = (Inr (resolved response ws), ev)
    \<and> mset (map rf_flag (rr_resolved_flags response)) = {#''flags/f''#}"
proof -
  let ?R = "resolver_with [sticky_flag [sticky_rule]]"
  let ?st = "fresh_state (example_request True)"
  have enc: "encode_state example_host_open s = []" for s by (simp add: example_host_open_def example_host_def)
  have fs: "flags_to_resolve ?R (example_request True) [] = [sticky_flag [sticky_rule]]"
    by (simp add: process_defs resolve_defs)
  have each: "resolve_each example_libs ?R [sticky_flag [sticky_rule]] [] discovery =
      Inr ([], discovery\<lparr>to_read := [sticky_record\<lparr>mr_variant := []\<rparr>]\<rparr>)"
    by (simp add: process_defs resolve_defs)
  obtain response ws ev where resumed: "resolve_flags example_libs example_host_open ''id'' ?R (resume [sticky_record] [])
      = (Inr (resolved response ws), ev)"
    by (simp add: example_host_open_def process_defs resolve_defs)
  have "mset (map rf_flag (rr_resolved_flags response)) = mset (map flag_name [sticky_flag [sticky_rule]])"
    using suspend_resume_completes [of ?R "example_request True" example_libs "[]"
        "discovery\<lparr>to_read := [sticky_record\<lparr>mr_variant := []\<rparr>]\<rparr>" example_host_open, unfolded fs enc, OF _ _ each _ _ resumed]
    by (simp add: MAX_NO_OF_FLAGS_TO_BATCH_RESOLVE_def discovery_def example_host_open_def example_host_def fresh_state_def)
  then show ?thesis using resumed by (auto simp: sticky_flag_def)
qed

section \<open>Tokens\<close>

text \<open>
  What a host promises of its sealing functions: opening a sealed token with the same key
  gives the token back. Together with a faithful message encoding, a resolve token survives
  its way through the client.
\<close>

locale token_sealing =
  fixes seal :: "bytes \<Rightarrow> bytes \<Rightarrow> string + bytes"
    and unseal :: "bytes \<Rightarrow> bytes \<Rightarrow> string + bytes"
  assumes unseal_seal: "seal data key = Inr sealed \<Longrightarrow> unseal sealed key = Inr data"
begin

lemma token_survives:
  assumes "host_encrypt H = seal" "host_decrypt H = unseal"
    and "\<And>b. encode_token H t = Some b \<Longrightarrow> decode_token H b = Some t"
    and "encrypt_resolve_token H R t = Inr sealed"
  shows "decrypt_resolve_token H R sealed = Inr t"
proof -
  obtain b where b: "encode_token H t = Some b" "seal b (encryption_key R) = Inr sealed"
    using assms(4) by (auto simp: encrypt_resolve_token_def assms(1) bind_ok_def map_err_def or_fail_def
        split: option.splits sum.splits)
  show ?thesis
    using assms(3) [OF b(1)] unseal_seal [OF b(2)]
    by (simp add: decrypt_resolve_token_def assms(2) bind_ok_def map_err_def or_fail_def)
qed

end

interpretation null: token_sealing null_encrypt null_decrypt
  by unfold_locales (simp add: null_encrypt_def null_decrypt_def split: if_splits)

lemma token_for_lookup:
  assumes "distinct (map (af_flag \<circ> rv_inner) (filter should_apply vals))" "rv \<in> set (filter should_apply vals)"
    and "token_of (token_for i vals) = Some token"
  shows "map_of (tk_assignments token) (af_flag (rv_inner rv)) = Some (rv_inner rv)"
proof -
  let ?xs = "filter should_apply vals"
  have "tk_assignments token = fold (\<lambda>rv. bt_insert (af_flag (rv_inner rv)) (rv_inner rv)) ?xs []"
    using assms(3) by (auto simp: token_for_def)
  then have "map_of (tk_assignments token) = map_of (rev (map (\<lambda>rv. (af_flag (rv_inner rv), rv_inner rv)) ?xs))"
    using bt.lookup_fold [of "af_flag \<circ> rv_inner" rv_inner ?xs "[]"] by simp
  moreover have "distinct (map fst (rev (map (\<lambda>rv. (af_flag (rv_inner rv), rv_inner rv)) ?xs)))"
    using assms(1) by (simp add: rev_map [symmetric] o_def)
  ultimately show ?thesis using assms(2) by (auto intro!: map_of_is_SomeI)
qed

lemma flags_to_apply_map:
  assumes "\<And>x. x \<in> set xs \<Longrightarrow> map_of asgs (ap_flag (f x)) = Some (g x)"
    and "\<And>x. x \<in> set xs \<Longrightarrow> ap_apply_time (f x) = Some ts" "to_date_time_utc L ts = Some d"
    and "checked_sub_signed L now (signed_duration_since L send d) = Some adj"
  shows "flags_to_apply L send now asgs (map f xs) =
    Inr (map (\<lambda>x. \<lparr>fta_assigned_flag = g x, fta_applied_time = datetime_to_timestamp adj\<rparr>) xs)"
  using assms(1,2) by (induction xs) (simp_all add: assms(3,4) map_ok_def)

lemma apply_of_opened_token:
  assumes opened: "decrypt_resolve_token H R token = Inr (token_for i vals)"
    and "distinct (map (af_flag \<circ> rv_inner) (filter should_apply vals))" "\<not> disable_exposure_collection R"
    and times: "to_date_time_utc L ts = Some d" "timestamp_to_datetime L (current_time H) = Inr now"
      "datetime_to_timestamp now = current_time H" "checked_sub_signed L now (signed_duration_since L d d) = Some now"
  shows "\<exists>ev'. expose H R (req\<lparr>rq_apply := True\<rparr>) i (current_time H) vals = Inr ([], ev')
    \<and> apply_flags L H R \<lparr>aq_flags = map (\<lambda>rv. \<lparr>ap_flag = af_flag (rv_inner rv), ap_apply_time = Some ts\<rparr>) (filter should_apply vals),
        aq_client_secret = secret, aq_resolve_token = token, aq_send_time = Some ts, aq_sdk = sdk\<rparr> = (Inr (), ev')"
proof -
  obtain tk where tk: "token_of (token_for i vals) = Some tk" "tk_resolve_id tk = i" by (simp add: token_for_def)
  have "flags_to_apply L d now (tk_assignments tk)
      (map (\<lambda>rv. \<lparr>ap_flag = af_flag (rv_inner rv), ap_apply_time = Some ts\<rparr>) (filter should_apply vals)) =
    Inr (map (\<lambda>rv. \<lparr>fta_assigned_flag = rv_inner rv, fta_applied_time = datetime_to_timestamp now\<rparr>) (filter should_apply vals))"
    by (rule flags_to_apply_map [of _ _ _ _ ts L d])
       (use times(1,4) token_for_lookup [OF assms(2) _ tk(1)] in auto)
  then show ?thesis
    using assms(3) times opened tk
    by (simp add: expose_def apply_flags_def bind_ok_def or_fail_def map_err_def map_ok_def)
qed

text \<open>C2: Applying later is applying now: the token of a resolve without immediate apply, sent back at
  once for every flag that is to be applied, makes the host log the very assignments, under the
  same resolve id, client and time, that an immediate apply would have logged.\<close>

theorem deferred_apply_equals_immediate:
  assumes "host_encrypt H = null_encrypt" "host_decrypt H = null_decrypt"
    and codec: "\<And>b. encode_token H (token_for i vals) = Some b \<Longrightarrow> decode_token H b = Some (token_for i vals)"
    and "distinct (map (af_flag \<circ> rv_inner) (filter should_apply vals))" "\<not> disable_exposure_collection R"
    and deferred: "expose H R (req\<lparr>rq_apply := False\<rparr>) i t vals = Inr (token, ev)"
    and times: "to_date_time_utc L ts = Some d" "timestamp_to_datetime L (current_time H) = Inr now"
      "datetime_to_timestamp now = current_time H" "checked_sub_signed L now (signed_duration_since L d d) = Some now"
  shows "\<exists>ev'. expose H R (req\<lparr>rq_apply := True\<rparr>) i (current_time H) vals = Inr ([], ev')
    \<and> apply_flags L H R \<lparr>aq_flags = map (\<lambda>rv. \<lparr>ap_flag = af_flag (rv_inner rv), ap_apply_time = Some ts\<rparr>) (filter should_apply vals),
        aq_client_secret = secret, aq_resolve_token = token, aq_send_time = Some ts, aq_sdk = sdk\<rparr> = (Inr (), ev')"
proof -
  have "encrypt_resolve_token H R (token_for i vals) = Inr token"
    using deferred assms(5) by (auto simp: expose_def split: sum.splits failure.splits)
  then have "decrypt_resolve_token H R token = Inr (token_for i vals)"
    using null.token_survives [OF assms(1,2) codec] by blast
  then show ?thesis by (rule apply_of_opened_token [OF _ assms(4,5) times])
qed

text \<open>What an applied flag of a request is logged as.\<close>

definition logged_as :: "libs \<Rightarrow> datetime \<Rightarrow> datetime \<Rightarrow> assigned_flag fields \<Rightarrow> applied_flag \<Rightarrow> flag_to_apply \<Rightarrow> bool" where
  "logged_as L send now asgs a f \<longleftrightarrow>
     map_of asgs (ap_flag a) = Some (fta_assigned_flag f)
     \<and> (\<exists>ts t adj. ap_apply_time a = Some ts \<and> to_date_time_utc L ts = Some t
          \<and> checked_sub_signed L now (signed_duration_since L send t) = Some adj
          \<and> fta_applied_time f = datetime_to_timestamp adj)"

lemma flags_to_apply_logged:
  "flags_to_apply L send now asgs as = Inr fas \<Longrightarrow> list_all2 (logged_as L send now asgs) as fas"
  by (induction as arbitrary: fas) (auto simp: map_ok_def logged_as_def split: option.splits sum.splits)

text \<open>C8: An apply is all or nothing: it either fails and logs nothing, or, unless exposure collection is
  off, logs one event under the token's resolve id that holds one assignment per applied flag, in
  order, taken from the token under that flag's name and dated at the receive time minus the
  client's delay between applying and sending.\<close>

theorem apply_flags_effect:
  assumes "apply_flags L H R request = (r, ev)" "\<not> disable_exposure_collection R"
  shows "case r of
      Inl e \<Rightarrow> ev = []
    | Inr _ \<Rightarrow> \<exists>token send_ts send now fas.
        decrypt_resolve_token H R (aq_resolve_token request) = Inr \<lparr>token_of = Some token\<rparr>
        \<and> aq_send_time request = Some send_ts \<and> to_date_time_utc L send_ts = Some send
        \<and> timestamp_to_datetime L (current_time H) = Inr now
        \<and> ev = [LogAssign (tk_resolve_id token) fas (ar_client R) (rs_sdk (ar_state R))]
        \<and> list_all2 (logged_as L send now (tk_assignments token)) (aq_flags request) fas"
proof -
  have eta: "outer = \<lparr>token_of = token_of outer\<rparr>" for outer :: resolve_token by simp
  show ?thesis
  proof (cases r)
    case (Inl e)
    then show ?thesis using assms by (auto simp: apply_flags_def split: sum.splits)
  next
    case (Inr u)
    then obtain token fas where go: "bind_ok (or_fail (Failed ''send_time is required'') (aq_send_time request)) (\<lambda>send_time_ts.
              bind_ok (or_fail (Failed ''invalid send_time'') (to_date_time_utc L send_time_ts)) (\<lambda>send_time.
              bind_ok (map_err code_failure (timestamp_to_datetime L (current_time H))) (\<lambda>receive_time.
              bind_ok (decrypt_resolve_token H R (aq_resolve_token request)) (\<lambda>outer.
              bind_ok (or_fail (Failed ''resolve token is not a V1 token'') (token_of outer)) (\<lambda>token.
              map_ok (Pair token)
                (flags_to_apply L send_time receive_time (tk_assignments token) (aq_flags request))))))) = Inr (token, fas)"
      and ev: "ev = [LogAssign (tk_resolve_id token) fas (ar_client R) (rs_sdk (ar_state R))]"
      using assms by (auto simp: apply_flags_def split: sum.splits)
    from go obtain send_ts send now outer where
      "aq_send_time request = Some send_ts" "to_date_time_utc L send_ts = Some send"
      "timestamp_to_datetime L (current_time H) = Inr now"
      "decrypt_resolve_token H R (aq_resolve_token request) = Inr outer" "token_of outer = Some token"
      "flags_to_apply L send now (tk_assignments token) (aq_flags request) = Inr fas"
      by (auto simp: bind_ok_def or_fail_def map_err_def map_ok_def split: option.splits sum.splits)
    moreover from this have "outer = \<lparr>token_of = Some token\<rparr>" using eta by metis
    ultimately show ?thesis unfolding Inr sum.case using ev flags_to_apply_logged by blast
  qed
qed

text \<open>C9: What a resolve reports: an answered resolve logs itself once, preceded by one assign event
  exactly when it is to apply immediately and exposure collection is on, and that event holds
  the assignments to apply at the current time; without exposure collection there is no
  token either.\<close>

theorem resolve_flags_events:
  assumes "resolve_flags L H i R request = (Inr res, ev)" "into_resolved res = Some (response, ws)"
    and "open_request H request = Inr (state, mc)" "ps_resolve_request state = Some req"
  shows "\<exists>vals. try_map resolved_flag_of vals = Inr (rr_resolved_flags response)
    \<and> ev = (if disable_exposure_collection R \<or> \<not> rq_apply req then []
            else [LogAssign i (map (\<lambda>rv. \<lparr>fta_assigned_flag = rv_inner rv, fta_applied_time = current_time H\<rparr>)
                    (filter should_apply vals)) (ar_client R) (rs_sdk (ar_state R))])
           @ [LogResolve i (evaluation_context R) vals (ar_client R)]
    \<and> (disable_exposure_collection R \<or> rq_apply req \<longrightarrow> rr_resolve_token response = [])"
  using assms(1)
proof (rule resolve_flags_cases)
  fix state' mc1 req' assigned mc'
  assume o: "open_request H request = Inr (state', mc1)" "ps_resolve_request state' = Some req'"
    and susp: "to_read mc' \<noteq> [] \<Longrightarrow> ev = [] \<and> res = suspended H (to_read mc') (state'\<lparr>ps_resolved_flags := assigned,
         ps_materializations_to_write := to_write mc'\<rparr>)"
    and resp: "to_read mc' = [] \<Longrightarrow> respond H R req' i (current_time H) assigned (to_write mc') = (Inr res, ev)"
  have "req' = req" using o assms(3,4) by simp
  moreover have "to_read mc' = []" using susp assms(2) by fastforce
  ultimately have "respond H R req i (current_time H) assigned (to_write mc') = (Inr res, ev)" using resp by simp
  then show ?thesis
  proof (rule respond_cases)
    fix vals rfs token events
    assume v: "try_map resolved_flag_of vals = Inr rfs" "expose H R req i (current_time H) vals = Inr (token, events)"
      "res = resolved \<lparr>rr_resolved_flags = rfs, rr_resolve_token = token, rr_resolve_id = i\<rparr> (to_write mc')"
      "ev = events @ [LogResolve i (evaluation_context R) vals (ar_client R)]"
    have "response = \<lparr>rr_resolved_flags = rfs, rr_resolve_token = token, rr_resolve_id = i\<rparr>"
      using assms(2) v(3) by simp
    then show ?thesis
      using v(1,2,4)
      by (intro exI [of _ vals]) (auto simp: expose_def split: if_splits sum.splits failure.splits)
  qed
qed


theorem resolve_flags_events_witness:
  "\<exists>response ev. resolve_flags example_libs example_host_open ''id'' example_resolver_open
      (without_materializations (example_request True)) = (Inr (resolved response []), ev) \<and> length ev = 2"
proof -
  obtain response ev where run: "resolve_flags example_libs example_host_open ''id'' example_resolver_open
      (without_materializations (example_request True)) = (Inr (resolved response []), ev)"
    using open_answer by blast
  have "length ev = 2"
    using resolve_flags_events [OF run into_resolved_simps(1) open_request_without, of "example_request True"]
    by (auto simp: fresh_state_def example_resolver_open_def resolver_with_def sticky_resolver_def example_request_def)
  then show ?thesis using run by blast
qed

theorem deferred_apply_equals_immediate_witness:
  "\<exists>token ev ev'. expose example_host_open example_resolver_open (example_request False) ''id'' \<lparr>seconds = 100, nanos = 0\<rparr> [example_value]
      = Inr (token, ev)
    \<and> apply_flags example_libs example_host_open example_resolver_open
        \<lparr>aq_flags = [\<lparr>ap_flag = ''flags/f'', ap_apply_time = Some \<lparr>seconds = 7, nanos = 5\<rparr>\<rparr>],
         aq_client_secret = [], aq_resolve_token = token, aq_send_time = Some \<lparr>seconds = 7, nanos = 5\<rparr>, aq_sdk = None\<rparr> = (Inr (), ev')
    \<and> expose example_host_open example_resolver_open (example_request True) ''id'' \<lparr>seconds = 100, nanos = 0\<rparr> [example_value]
      = Inr ([], ev')"
proof -
  note sel = example_value_applies
  have req: "(example_request False)\<lparr>rq_apply := False\<rparr> = example_request False"
    "(example_request False)\<lparr>rq_apply := True\<rparr> = example_request True" by (simp_all add: example_request_def)
  obtain token ev where run: "expose example_host_open example_resolver_open ((example_request False)\<lparr>rq_apply := False\<rparr>)
      ''id'' \<lparr>seconds = 100, nanos = 0\<rparr> [example_value] = Inr (token, ev)"
    by (simp add: example_host_open_def example_resolver_open_def process_defs sticky_resolver_def null_encrypt_def model_defs)
  have now: "current_time example_host_open = \<lparr>seconds = 100, nanos = 0\<rparr>" by (simp add: example_host_open_def example_host_def)
  have "\<exists>ev'. expose example_host_open example_resolver_open ((example_request False)\<lparr>rq_apply := True\<rparr>) ''id''
      (current_time example_host_open) [example_value] = Inr ([], ev')
    \<and> apply_flags example_libs example_host_open example_resolver_open
      \<lparr>aq_flags = map (\<lambda>rv. \<lparr>ap_flag = af_flag (rv_inner rv), ap_apply_time = Some \<lparr>seconds = 7, nanos = 5\<rparr>\<rparr>) (filter should_apply [example_value]),
       aq_client_secret = [], aq_resolve_token = token, aq_send_time = Some \<lparr>seconds = 7, nanos = 5\<rparr>, aq_sdk = None\<rparr> = (Inr (), ev')"
    by (rule deferred_apply_equals_immediate [OF _ _ _ _ _ run, where d = "(7, 5)" and now = "(100, 0)"])
      (simp_all add: sel now example_libs_def to_date_time_utc_def timestamp_to_datetime_def datetime_to_timestamp_def
        u32_of_i32_def or_fail_def, simp_all add: example_host_open_def example_host_def example_resolver_open_def resolver_with_def sticky_resolver_def)
  then show ?thesis using run unfolding req sel now by (auto simp: sel)
qed

theorem apply_flags_effect_witness:
  "\<exists>fas. apply_flags example_libs example_host_open example_resolver_open
      \<lparr>aq_flags = [\<lparr>ap_flag = ''flags/f'', ap_apply_time = Some \<lparr>seconds = 4, nanos = 5\<rparr>\<rparr>], aq_client_secret = [], aq_resolve_token = [],
       aq_send_time = Some \<lparr>seconds = 7, nanos = 5\<rparr>, aq_sdk = None\<rparr> = (Inr (), [LogAssign ''id'' fas example_client None])
    \<and> map fta_applied_time fas = [\<lparr>seconds = 97, nanos = 0\<rparr>]"
proof -
  let ?rq = "\<lparr>aq_flags = [\<lparr>ap_flag = ''flags/f'', ap_apply_time = Some \<lparr>seconds = 4, nanos = 5\<rparr>\<rparr>], aq_client_secret = [],
       aq_resolve_token = [], aq_send_time = Some \<lparr>seconds = 7, nanos = 5\<rparr>, aq_sdk = None\<rparr>"
  note defs = example_libs_def to_date_time_utc_def timestamp_to_datetime_def datetime_to_timestamp_def u32_of_i32_def
    or_fail_def bind_ok_def map_err_def map_ok_def decrypt_resolve_token_def null_decrypt_def
    example_host_open_def example_host_def example_resolver_open_def resolver_with_def sticky_resolver_def token_for_def
  obtain ev where run: "apply_flags example_libs example_host_open example_resolver_open ?rq = (Inr (), ev)"
    by (simp add: apply_flags_def example_value_applies defs)
  then show ?thesis
    using apply_flags_effect [OF run]
    by (auto simp: defs example_value_applies logged_as_def list_all2_Cons1)
qed

end
