(* ===== verification/Token_Sealing.thy ===== *)
theory Token_Sealing
  imports Resolve_Process
begin

text \<open>
  How the build with the standard library seals a resolve token: the default \<open>encrypt_resolve_token\<close> and
  \<open>decrypt_resolve_token\<close> of the trait \<open>Host\<close> in \<open>confidence-resolver/src/lib.rs\<close>, which the worker and the native provider use. AES in CBC
  mode is a parameter: for a key, an initialisation vector and an input it gives what each call leaves in the write buffer up to the one
  that answers \<open>BufferUnderflow\<close>, or \<open>None\<close> if a call fails. The drawn vector is an argument.
\<close>

type_synonym cipher = "bytes \<Rightarrow> bytes \<Rightarrow> bytes \<Rightarrow> bytes list option"

definition std_encrypt :: "cipher \<Rightarrow> bytes \<Rightarrow> bytes \<Rightarrow> bytes \<Rightarrow> string + bytes" where
  [model_defs]: "std_encrypt cbc_encryptor iv token_data key =
     (case cbc_encryptor key iv token_data of
        None \<Rightarrow> Inl ''Failed to encrypt resolve token''
      | Some chunks \<Rightarrow> Inr (fold (\<lambda>chunk final_token. final_token @ chunk) chunks iv))"

text \<open>The question marks of the inner block leave the function, not the block, so its \<open>map_err\<close> sees no error.\<close>

definition std_decrypt :: "cipher \<Rightarrow> bytes \<Rightarrow> bytes \<Rightarrow> string + bytes" where
  [model_defs]: "std_decrypt cbc_decryptor encrypted_data key =
     (if length encrypted_data < 16 then Inl (error_code_display (lib_at 412 62))
      else
        (case cbc_decryptor key (take 16 encrypted_data) (drop 16 encrypted_data) of
           None \<Rightarrow> Inl (error_code_display (lib_at 437 26))
         | Some chunks \<Rightarrow> Inr (fold (\<lambda>chunk final_token. final_token @ chunk) chunks [])))"

lemma fold_chunks: "fold (\<lambda>chunk out. out @ chunk) chunks out = out @ concat chunks"
  by (induction chunks arbitrary: out) simp_all

text \<open>If decrypting inverts encrypting, the sealing keeps its contract, and applying later is applying now for these hosts too.\<close>

lemma std_sealing:
  assumes "length iv = 16"
    and "\<And>key data chunks. enc key iv data = Some chunks \<Longrightarrow> map_option concat (dec key iv (concat chunks)) = Some data"
  shows "token_sealing (std_encrypt enc iv) (std_decrypt dec)"
proof
  fix data key sealed
  assume "std_encrypt enc iv data key = Inr sealed"
  then obtain chunks where c: "enc key iv data = Some chunks" "sealed = iv @ concat chunks"
    by (auto simp: std_encrypt_def fold_chunks split: option.splits)
  with assms(2) [OF c(1)] assms(1) show "std_decrypt dec sealed key = Inr data"
    by (auto simp: std_decrypt_def fold_chunks)
qed

lemma std_deferred_apply:
  assumes "host_encrypt H = std_encrypt enc iv" "host_decrypt H = std_decrypt dec" "length iv = 16"
    and inverse: "\<And>key data chunks. enc key iv data = Some chunks \<Longrightarrow> map_option concat (dec key iv (concat chunks)) = Some data"
    and codec: "\<And>b. encode_token H (token_for i vals) = Some b \<Longrightarrow> decode_token H b = Some (token_for i vals)"
    and "distinct (map (af_flag \<circ> rv_inner) (filter should_apply vals))" "\<not> disable_exposure_collection R"
    and deferred: "expose H R (req\<lparr>rq_apply := False\<rparr>) i t vals = Inr (token, ev)"
    and times: "to_date_time_utc L ts = Some d" "timestamp_to_datetime L (current_time H) = Inr now"
      "datetime_to_timestamp now = current_time H" "checked_sub_signed L now (signed_duration_since L d d) = Some now"
  shows "\<exists>ev'. expose H R (req\<lparr>rq_apply := True\<rparr>) i (current_time H) vals = Inr ([], ev')
    \<and> apply_flags L H R \<lparr>aq_flags = map (\<lambda>rv. \<lparr>ap_flag = af_flag (rv_inner rv), ap_apply_time = Some ts\<rparr>) (filter should_apply vals),
        aq_client_secret = secret, aq_resolve_token = token, aq_send_time = Some ts, aq_sdk = sdk\<rparr> = (Inr (), ev')"
proof -
  have sealing: "token_sealing (std_encrypt enc iv) (std_decrypt dec)" by (rule std_sealing [OF assms(3)]) (rule inverse)
  have "encrypt_resolve_token H R (token_for i vals) = Inr token"
    using deferred assms(7) by (auto simp: expose_def split: sum.splits failure.splits)
  then have "decrypt_resolve_token H R token = Inr (token_for i vals)"
    using token_sealing.token_survives [OF sealing assms(1,2) codec] by blast
  then show ?thesis by (rule apply_of_opened_token [OF _ assms(6,7) times])
qed

text \<open>The message \<open>failed to decrypt resolve token\<close> is never given: every failure is an internal error.\<close>

lemma decrypt_failure_is_internal:
  "std_decrypt dec data key = Inl e \<Longrightarrow> \<exists>c. e = error_code_display c \<and> take 6 e \<noteq> ''failed''"
  by (auto simp: std_decrypt_def error_code_display_def split: if_splits option.splits)

end
