(* ===== verification/Log_Messages.thy ===== *)
theory Log_Messages
  imports Resolve_Process
begin

text \<open>
  The messages of the log pipeline: assignment events (\<open>events.proto\<close>), schema and counter
  reports (\<open>admin/v1/types.proto\<close>) and telemetry deltas (\<open>internal_api.proto\<close>). An
  open enum is its number; \<open>int64\<close> counters are \<open>int\<close> with the saturating addition the
  aggregation uses, the unsigned counters are words. A \<open>double\<close> is its bit pattern.
\<close>

section \<open>Assignment events\<close>

datatype event_assignment =
    AssignmentInfo string string
  | DefaultAssignment int

record client_info =
  ci_client :: string
  ci_client_credential :: string
  ci_sdk :: "sdk option"

record applied_event =
  ae_flag :: string
  ae_targeting_key :: string
  ae_targeting_key_selector :: string
  ae_assignment :: "event_assignment option"
  ae_assignment_id :: string
  ae_rule :: string
  ae_fallthrough_assignments :: "fallthrough_assignment list"
  ae_apply_time :: "timestamp option"

record flag_assigned =
  fg_resolve_id :: string
  fg_client_info :: "client_info option"
  fg_flags :: "applied_event list"

section \<open>Schemas and counters\<close>

record variant_count =
  vc_variant :: string
  vc_count :: int

record assignment_count =
  ac_assignment_id :: string
  ac_count :: int

record rule_count =
  rc_rule :: string
  rc_count :: int
  rc_assignments :: "assignment_count list"

record flag_resolve_info =
  fi_flag :: string
  fi_variants :: "variant_count list"
  fi_rules :: "rule_count list"

datatype schema_kind = UnspecifiedKind | NullKind | NumberKind | StringKind | BoolKind

datatype semantic_type = Country int | VersionType | DateType | TimestampType

record schema_instance =
  si_schema :: "int fields"
  si_semantic_types :: "semantic_type option fields"

record client_resolve_info =
  cr_client :: string
  cr_client_credential :: string
  cr_schema :: "schema_instance list"

section \<open>Telemetry\<close>

record bucket_span =
  bs_offset :: int
  bs_counts :: "u32 list"

record resolve_latency =
  rl_sum :: u32
  rl_count :: u32
  rl_buckets :: "bucket_span list"
  rl_ln_ratio :: f64

record resolve_rate =
  rr_count :: u32
  rr_reason :: int

record provider_init =
  pi_count :: u32
  pi_labels :: "string fields"

record dedup_telemetry =
  dt_applies_total :: u32
  dt_applies_deduped :: u32
  dt_overflow :: u32
  dt_sweeps :: u32
  dt_map_size :: u32
  dt_map_capacity :: u32

record flush_telemetry =
  ft_succeeded :: u32
  ft_failed :: u32

record events_telemetry =
  et_published :: u32
  et_batches_succeeded :: u32
  et_batches_failed :: u32
  et_events_rejected :: u32

record telemetry_data =
  td_sdk :: "sdk option"
  td_resolve_latency :: "resolve_latency option"
  td_resolve_rate :: "resolve_rate list"
  td_state_age :: "u64 option"
  td_memory_bytes :: u64
  td_resolver_version :: string
  td_provider_init_rate :: "provider_init list"
  td_apply_dedup :: "dedup_telemetry option"
  td_flush :: "flush_telemetry option"
  td_events :: "events_telemetry option"

definition telemetry_default :: telemetry_data where
  [model_defs]: "telemetry_default = \<lparr>td_sdk = None, td_resolve_latency = None, td_resolve_rate = [],
     td_state_age = None, td_memory_bytes = 0, td_resolver_version = [], td_provider_init_rate = [],
     td_apply_dedup = None, td_flush = None, td_events = None\<rparr>"

section \<open>The log request\<close>

record log_request =
  lr_flag_assigned :: "flag_assigned list"
  lr_telemetry_data :: "telemetry_data option"
  lr_client_resolve_info :: "client_resolve_info list"
  lr_flag_resolve_info :: "flag_resolve_info list"

definition log_request_default :: log_request where
  [model_defs]: "log_request_default = \<lparr>lr_flag_assigned = [], lr_telemetry_data = None,
     lr_client_resolve_info = [], lr_flag_resolve_info = []\<rparr>"

section \<open>Machine arithmetic of the counters\<close>

text \<open>\<open>i64\<close> addition and subtraction that saturate, and \<open>u32::try_from(x).unwrap_or(u32::MAX)\<close>.\<close>

definition clamp_i64 :: "int \<Rightarrow> int" where
  [model_defs]: "clamp_i64 x = max (- (2 ^ 63)) (min (2 ^ 63 - 1) x)"

definition i64_saturating_add :: "int \<Rightarrow> int \<Rightarrow> int" where
  [model_defs]: "i64_saturating_add x y = clamp_i64 (x + y)"

definition i64_saturating_sub :: "int \<Rightarrow> int \<Rightarrow> int" where
  [model_defs]: "i64_saturating_sub x y = clamp_i64 (x - y)"

definition i64_value :: "int \<Rightarrow> bool" where
  "i64_value x \<longleftrightarrow> - (2 ^ 63) \<le> x \<and> x \<le> 2 ^ 63 - 1"

definition narrow :: "u64 \<Rightarrow> u32" where
  [model_defs]: "narrow delta = (if unat delta < 2 ^ 32 then ucast delta else 0xFFFFFFFF)"

lemma clamp_i64_value [simp]: "i64_value (clamp_i64 x)"
  by (simp add: i64_value_def clamp_i64_def)

lemma clamp_i64_id: "i64_value x \<Longrightarrow> clamp_i64 x = x"
  by (simp add: i64_value_def clamp_i64_def)

text \<open>Saturating sums of non-negative counts: the order and grouping of the additions does not matter.\<close>

lemma saturating_add_nonneg:
  assumes "0 \<le> x" "0 \<le> y" "0 \<le> z"
  shows "i64_saturating_add (i64_saturating_add x y) z = clamp_i64 (x + y + z)"
  using assms by (simp add: i64_saturating_add_def clamp_i64_def)

lemma unat_narrow: "unat (narrow d) = min (unat d) (2 ^ 32 - 1)"
proof (cases "unat d < 2 ^ 32")
  case True
  then show ?thesis by (simp add: narrow_def unsigned_ucast_eq unsigned_take_bit_eq take_bit_nat_eq_self)
next
  case False
  then show ?thesis by (simp add: narrow_def)
qed

end
