(* ===== verification/Apply_Dedup.thy ===== *)
theory Apply_Dedup
  imports Log_Messages
begin

unbundle bit_operations_syntax

text \<open>
  The deduplication of apply events (\<open>confidence-resolver/src/apply_dedup.rs\<close>): the streaming
  hash of an apply's identity, the table of the hashes seen with its expiry, the mask of the
  flags that survive, and the telemetry of the component. The table is a \<open>HashMap\<close> keyed by
  the hash itself, so the identity hasher does not show.
\<close>

section \<open>The hash\<close>

definition HASH_INIT :: u64 where [model_defs]: "HASH_INIT = 0xCBF29CE484222325"
definition HASH_PRIME :: u64 where [model_defs]: "HASH_PRIME = 0x1000000001B3"
definition MIX_C1 :: u64 where [model_defs]: "MIX_C1 = 0xFF51AFD7ED558CCD"
definition MIX_C2 :: u64 where [model_defs]: "MIX_C2 = 0xC4CEB9FE1A85EC53"

definition rotate_left :: "nat \<Rightarrow> u64 \<Rightarrow> u64" where
  [model_defs]: "rotate_left n w = word_rotl n w"

definition mix :: "u64 \<Rightarrow> u64 \<Rightarrow> u64" where
  [model_defs]: "mix h word =
     (let k = word * MIX_C1;
          k = k XOR drop_bit 33 k;
          k = k * MIX_C2 in
      rotate_left 27 (h XOR k) * HASH_PRIME)"

text \<open>\<open>chunks_exact(8)\<close> with its zero-padded remainder.\<close>

function mix_chunks :: "u64 \<Rightarrow> bytes \<Rightarrow> u64" where
  "mix_chunks h bytes =
     (if 8 \<le> length bytes then mix_chunks (mix h (from_le_bytes (take 8 bytes))) (drop 8 bytes)
      else if bytes \<noteq> [] then mix h (from_le_bytes (bytes @ replicate (8 - length bytes) 0))
      else h)"
  by auto
termination by (relation "measure (length \<circ> snd)") auto

definition hash_write :: "u64 \<Rightarrow> bytes \<Rightarrow> u64" where
  [model_defs]: "hash_write h bytes = mix_chunks (mix h (of_nat (length bytes))) bytes"

definition hash_finish :: "u64 \<Rightarrow> u64" where
  [model_defs]: "hash_finish h =
     (let h = h XOR drop_bit 33 h;
          h = h * MIX_C1 in
      h XOR drop_bit 33 h)"

section \<open>The identity of an apply\<close>

record applied_flag_ref =
  ar_flag :: string
  ar_targeting_key :: string
  ar_targeting_key_selector :: string
  ar_assignment_id :: string
  ar_rule :: string
  ar_variant :: string
  ar_segment :: string
  ar_reason :: int
  ar_fallthrough_assignments :: "fallthrough_assignment list"

definition ref_of_assigned :: "assigned_flag \<Rightarrow> applied_flag_ref" where
  [model_defs]: "ref_of_assigned a =
     \<lparr>ar_flag = af_flag a, ar_targeting_key = af_targeting_key a,
      ar_targeting_key_selector = af_targeting_key_selector a, ar_assignment_id = af_assignment_id a,
      ar_rule = af_rule a, ar_variant = af_variant a, ar_segment = af_segment a, ar_reason = af_reason a,
      ar_fallthrough_assignments = af_fallthrough_assignments a\<rparr>"

definition default_assignment_reason_to_resolve_reason :: "int \<Rightarrow> int" where
  [model_defs]: "default_assignment_reason_to_resolve_reason dar =
     (if dar = 1 then reason_number RNoSegmentMatch
      else if dar = 2 then reason_number RNoTreatmentMatch
      else if dar = 3 then reason_number RFlagArchived
      else reason_number RUnspecified)"

definition ref_of_event :: "applied_event \<Rightarrow> applied_flag_ref" where
  [model_defs]: "ref_of_event a =
     (let (variant, segment, reason) =
        (case ae_assignment a of
           Some (AssignmentInfo segment variant) \<Rightarrow> (variant, segment, reason_number RMatch)
         | Some (DefaultAssignment reason) \<Rightarrow> ([], [], default_assignment_reason_to_resolve_reason reason)
         | None \<Rightarrow> ([], [], reason_number RUnspecified)) in
      \<lparr>ar_flag = ae_flag a, ar_targeting_key = ae_targeting_key a,
       ar_targeting_key_selector = ae_targeting_key_selector a, ar_assignment_id = ae_assignment_id a,
       ar_rule = ae_rule a, ar_variant = variant, ar_segment = segment, ar_reason = reason,
       ar_fallthrough_assignments = ae_fallthrough_assignments a\<rparr>)"

definition hash_str :: "string \<Rightarrow> u64 \<Rightarrow> u64" where
  [model_defs]: "hash_str s h = hash_write h (bytes_of_string s)"

definition hash_fallthrough :: "fallthrough_assignment \<Rightarrow> u64 \<Rightarrow> u64" where
  [model_defs]: "hash_fallthrough ft h =
     hash_str (fa_targeting_key_selector ft) (hash_str (fa_targeting_key ft)
       (hash_str (fa_assignment_id ft) (hash_str (fa_rule ft) h)))"

definition compute_applied_flag_dedup_hash :: "applied_flag_ref \<Rightarrow> u64" where
  [model_defs]: "compute_applied_flag_dedup_hash applied =
     (let h = fold hash_str
            [ar_flag applied, ar_targeting_key applied, ar_targeting_key_selector applied,
             ar_assignment_id applied, ar_variant applied, ar_segment applied, ar_rule applied] HASH_INIT;
          h = hash_write h (le_bytes32 (of_int (ar_reason applied)));
          h = mix h (of_nat (length (ar_fallthrough_assignments applied)));
          h = fold hash_fallthrough (ar_fallthrough_assignments applied) h in
      hash_finish h)"

definition compute_dedup_hash :: "assigned_flag \<Rightarrow> u64" where
  [model_defs]: "compute_dedup_hash assigned = compute_applied_flag_dedup_hash (ref_of_assigned assigned)"

section \<open>The mask of kept flags\<close>

record dedup_result =
  dr_small :: u64
  dr_large :: "u64 list"
  dr_count :: nat

definition dedup_result_new :: "nat \<Rightarrow> dedup_result" where
  [model_defs]: "dedup_result_new len =
     \<lparr>dr_small = 0, dr_large = (if 64 < len then replicate (drop_bit 6 len + 1) 0 else []), dr_count = 0\<rparr>"

definition mark :: "nat \<Rightarrow> dedup_result \<Rightarrow> dedup_result" where
  [model_defs]: "mark idx r =
     (let r =
        (if dr_large r = [] then
           (if idx < 64 then r\<lparr>dr_small := dr_small r OR push_bit (idx AND 63) 1\<rparr> else r)
         else
           (case nth_opt (dr_large r) (drop_bit 6 idx) of
              Some word \<Rightarrow> r\<lparr>dr_large := (dr_large r)[drop_bit 6 idx := word OR push_bit (idx AND 63) 1]\<rparr>
            | None \<Rightarrow> r)) in
      r\<lparr>dr_count := dr_count r + 1\<rparr>)"

definition dedup_is_empty :: "dedup_result \<Rightarrow> bool" where
  [model_defs]: "dedup_is_empty r \<longleftrightarrow> dr_count r = 0"

definition kept_count :: "dedup_result \<Rightarrow> nat" where
  [model_defs]: "kept_count r = dr_count r"

definition is_kept :: "dedup_result \<Rightarrow> nat \<Rightarrow> bool" where
  [model_defs]: "is_kept r idx \<longleftrightarrow>
     (if dr_large r = [] then idx < 64 \<and> dr_small r AND push_bit (idx AND 63) 1 \<noteq> 0
      else
        (case nth_opt (dr_large r) (drop_bit 6 idx) of
           Some word \<Rightarrow> word AND push_bit (idx AND 63) 1 \<noteq> 0
         | None \<Rightarrow> False))"

definition dedup_collect :: "dedup_result \<Rightarrow> 'a list \<Rightarrow> 'a list" where
  [model_defs]: "dedup_collect r flags =
     (if dr_count r = length flags then flags
      else map snd (filter (\<lambda>(i, f). is_kept r i) (enumerate 0 flags)))"

section \<open>The table\<close>

definition SWEEP_MIN_INTERVAL_SECONDS :: int where [model_defs]: "SWEEP_MIN_INTERVAL_SECONDS = 10"

record apply_dedup =
  ad_seen :: "(u64 \<times> int) list"
  ad_ttl_seconds :: int
  ad_max_entries :: nat
  ad_last_sweep_seconds :: int
  ad_applies_total :: u64
  ad_applies_deduped :: u64
  ad_overflow :: u64
  ad_sweeps :: u64

definition apply_dedup_new :: "int \<Rightarrow> nat \<Rightarrow> apply_dedup" where
  [model_defs]: "apply_dedup_new ttl_seconds max_entries =
     \<lparr>ad_seen = [], ad_ttl_seconds = ttl_seconds, ad_max_entries = max_entries, ad_last_sweep_seconds = 0,
      ad_applies_total = 0, ad_applies_deduped = 0, ad_overflow = 0, ad_sweeps = 0\<rparr>"

text \<open>The probe both entry points run: is the hash new, and the table after it.\<close>

definition probe :: "u64 \<Rightarrow> int \<Rightarrow> apply_dedup \<Rightarrow> bool \<times> apply_dedup" where
  [model_defs]: "probe h now_seconds D =
     (let D = D\<lparr>ad_applies_total := ad_applies_total D + 1\<rparr> in
      if map_of (ad_seen D) h \<noteq> None then
        (False, D\<lparr>ad_applies_deduped := ad_applies_deduped D + 1\<rparr>)
      else if length (ad_seen D) < ad_max_entries D then
        (True, D\<lparr>ad_seen := hm_insert h now_seconds (ad_seen D)\<rparr>)
      else (True, D\<lparr>ad_overflow := ad_overflow D + 1\<rparr>))"

definition check_hash :: "u64 \<Rightarrow> int \<Rightarrow> apply_dedup \<Rightarrow> bool \<times> apply_dedup" where
  [model_defs]: "check_hash h now_seconds D =
     probe h (max now_seconds (ad_last_sweep_seconds D)) D"

fun filter_loop :: "nat \<Rightarrow> flag_to_apply list \<Rightarrow> int \<Rightarrow> dedup_result \<Rightarrow> apply_dedup \<Rightarrow> dedup_result \<times> apply_dedup" where
  "filter_loop i [] now_seconds keep D = (keep, D)"
| "filter_loop i (fta # flags) now_seconds keep D =
     (let (new, D) = probe (compute_dedup_hash (fta_assigned_flag fta)) now_seconds D in
      filter_loop (Suc i) flags now_seconds (if new then mark i keep else keep) D)"

definition filter_duplicates :: "flag_to_apply list \<Rightarrow> int \<Rightarrow> apply_dedup \<Rightarrow> dedup_result \<times> apply_dedup" where
  [model_defs]: "filter_duplicates flags now_seconds D =
     filter_loop 0 flags (max now_seconds (ad_last_sweep_seconds D)) (dedup_result_new (length flags)) D"

definition sweep :: "int \<Rightarrow> apply_dedup \<Rightarrow> apply_dedup" where
  [model_defs]: "sweep now_seconds D =
     (if i64_saturating_sub now_seconds (ad_last_sweep_seconds D) < SWEEP_MIN_INTERVAL_SECONDS then D
      else D\<lparr>ad_last_sweep_seconds := now_seconds, ad_sweeps := ad_sweeps D + 1,
             ad_seen := filter (\<lambda>(_, ts). i64_saturating_sub now_seconds ts < ad_ttl_seconds D) (ad_seen D)\<rparr>)"

section \<open>Telemetry\<close>

record dedup_snapshot =
  ds_applies_total :: u64
  ds_applies_deduped :: u64
  ds_overflow :: u64
  ds_sweeps :: u64
  ds_map_size :: u32
  ds_map_capacity :: u32

definition dedup_snapshot_default :: dedup_snapshot where
  [model_defs]: "dedup_snapshot_default = \<lparr>ds_applies_total = 0, ds_applies_deduped = 0, ds_overflow = 0,
     ds_sweeps = 0, ds_map_size = 0, ds_map_capacity = 0\<rparr>"

definition telemetry_snapshot :: "apply_dedup \<Rightarrow> dedup_snapshot" where
  [model_defs]: "telemetry_snapshot D =
     \<lparr>ds_applies_total = ad_applies_total D, ds_applies_deduped = ad_applies_deduped D,
      ds_overflow = ad_overflow D, ds_sweeps = ad_sweeps D,
      ds_map_size = of_nat (length (ad_seen D)), ds_map_capacity = of_nat (ad_max_entries D)\<rparr>"

definition to_proto_delta :: "dedup_snapshot \<Rightarrow> dedup_snapshot \<Rightarrow> dedup_telemetry" where
  [model_defs]: "to_proto_delta current previous =
     \<lparr>dt_applies_total = narrow (ds_applies_total current - ds_applies_total previous),
      dt_applies_deduped = narrow (ds_applies_deduped current - ds_applies_deduped previous),
      dt_overflow = narrow (ds_overflow current - ds_overflow previous),
      dt_sweeps = narrow (ds_sweeps current - ds_sweeps previous),
      dt_map_size = ds_map_size current, dt_map_capacity = ds_map_capacity current\<rparr>"

definition has_activity :: "dedup_snapshot \<Rightarrow> bool" where
  [model_defs]: "has_activity s \<longleftrightarrow> 0 < ds_applies_total s"

definition delta_to_report :: "dedup_snapshot \<Rightarrow> dedup_snapshot \<Rightarrow> dedup_telemetry option" where
  [model_defs]: "delta_to_report current previous =
     (let delta = to_proto_delta current previous;
          counters_moved = 0 < dt_applies_total delta \<or> 0 < dt_applies_deduped delta
            \<or> 0 < dt_overflow delta \<or> 0 < dt_sweeps delta;
          gauges_changed = ds_map_size current \<noteq> ds_map_size previous
            \<or> ds_map_capacity current \<noteq> ds_map_capacity previous in
      if counters_moved \<or> gauges_changed then Some delta else None)"

section \<open>Properties of the mask\<close>

lemma nth_opt_eq: "nth_opt xs n = (if n < length xs then Some (xs ! n) else None)"
  by (induction xs n rule: nth_opt.induct) auto

lemma and_63: "(n::nat) AND 63 = n mod 64"
  using take_bit_eq_mask [of 6 n] by (simp add: take_bit_eq_mod mask_eq_exp_minus_1)

lemma drop_6: "drop_bit 6 (n::nat) = n div 64"
  by (simp add: drop_bit_eq_div)

lemma mask_word: "(w :: u64) AND 2 ^ k = 0 \<longleftrightarrow> \<not> bit w k"
  by (simp add: bit_iff_and_push_bit_not_eq_0)

definition mask_for :: "nat \<Rightarrow> dedup_result \<Rightarrow> bool" where
  "mask_for n r \<longleftrightarrow> (if 64 < n then length (dr_large r) = n div 64 + 1 else dr_large r = [])"

lemma mask_for_new: "mask_for n (dedup_result_new n)"
  by (simp add: mask_for_def dedup_result_new_def drop_6)

lemma not_kept_new: "i < n \<Longrightarrow> \<not> is_kept (dedup_result_new n) i"
  by (auto simp: is_kept_def dedup_result_new_def nth_opt_eq mask_word and_63 drop_6 nth_Cons split: option.splits nat.splits)

lemma kept_mark:
  assumes "mask_for n r" "idx < n" "i < n"
  shows "is_kept (mark idx r) i \<longleftrightarrow> i = idx \<or> is_kept r i" "mask_for n (mark idx r)"
    "dr_count (mark idx r) = dr_count r + 1"
proof -
  have divs: "idx div 64 \<le> n div 64" "i div 64 \<le> n div 64" using assms by (simp_all add: div_le_mono)
  have eq: "i = idx \<longleftrightarrow> i div 64 = idx div 64 \<and> i mod 64 = idx mod 64" by (metis div_mult_mod_eq)
  show "is_kept (mark idx r) i \<longleftrightarrow> i = idx \<or> is_kept r i"
  proof (cases "64 < n")
    case True
    then have l: "length (dr_large r) = n div 64 + 1" "dr_large r \<noteq> []" using assms(1) by (auto simp: mask_for_def)
    have "is_kept (mark idx r) i \<longleftrightarrow>
        bit ((dr_large r)[idx div 64 := dr_large r ! (idx div 64) OR push_bit (idx mod 64) 1] ! (i div 64)) (i mod 64)"
      using l divs by (simp add: is_kept_def mark_def Let_def nth_opt_eq drop_6 and_63 mask_word)
    also have "\<dots> \<longleftrightarrow> i = idx \<or> bit (dr_large r ! (i div 64)) (i mod 64)"
      using l divs unfolding eq by (cases "i div 64 = idx div 64") (auto simp: nth_list_update bit_simps)
    also have "bit (dr_large r ! (i div 64)) (i mod 64) \<longleftrightarrow> is_kept r i"
      using l divs by (simp add: is_kept_def nth_opt_eq drop_6 and_63 mask_word)
    finally show ?thesis .
  next
    case False
    then have l: "dr_large r = []" "i < 64" "idx < 64" using assms by (auto simp: mask_for_def)
    then show ?thesis by (auto simp: is_kept_def mark_def Let_def and_63 mask_word bit_simps)
  qed
  show "mask_for n (mark idx r)" using assms(1)
    by (auto simp: mask_for_def mark_def Let_def split: option.splits)
  show "dr_count (mark idx r) = dr_count r + 1" by (simp add: mark_def Let_def split: option.splits)
qed

text \<open>The flags a run of the filter keeps, as a list instead of a mask.\<close>

fun survivors :: "flag_to_apply list \<Rightarrow> int \<Rightarrow> apply_dedup \<Rightarrow> bool list \<times> apply_dedup" where
  "survivors [] now D = ([], D)"
| "survivors (fta # flags) now D =
     (let (new, D) = probe (compute_dedup_hash (fta_assigned_flag fta)) now D;
          (rest, D) = survivors flags now D in
      (new # rest, D))"

lemma survivors_length: "length (fst (survivors flags now D)) = length flags"
  by (induction flags arbitrary: D) (simp_all add: split_beta Let_def)

lemma filter_loop_survivors:
  "mask_for n r \<Longrightarrow> i + length flags \<le> n \<Longrightarrow> \<forall>j. i \<le> j \<and> j < n \<longrightarrow> \<not> is_kept r j \<Longrightarrow>
     filter_loop i flags now r D = (r', D') \<Longrightarrow>
     snd (survivors flags now D) = D'
     \<and> dr_count r' = dr_count r + length (filter (\<lambda>b. b) (fst (survivors flags now D)))
     \<and> (\<forall>j < n. is_kept r' j \<longleftrightarrow> (if j < i then is_kept r j
          else j < i + length flags \<and> fst (survivors flags now D) ! (j - i)))"
proof (induction flags arbitrary: i r D)
  case Nil
  then show ?case by auto
next
  case (Cons f flags)
  obtain new D1 where p: "probe (compute_dedup_hash (fta_assigned_flag f)) now D = (new, D1)"
    by (cases "probe (compute_dedup_hash (fta_assigned_flag f)) now D")
  obtain rest D2 where s: "survivors flags now D1 = (rest, D2)" by (cases "survivors flags now D1")
  have len: "length rest = length flags" using survivors_length [of flags now D1] s by simp
  define r1 where "r1 = (if new then mark i r else r)"
  have i: "i < n" using Cons.prems(2) by simp
  have kept1: "is_kept r1 j \<longleftrightarrow> j = i \<and> new \<or> is_kept r j" if "j < n" for j
    using kept_mark(1) [OF Cons.prems(1) i that] by (auto simp: r1_def)
  have m1: "mask_for n r1" "dr_count r1 = dr_count r + (if new then 1 else 0)"
    using kept_mark(2,3) [OF Cons.prems(1) i i] Cons.prems(1) by (auto simp: r1_def)
  have free: "\<forall>j. Suc i \<le> j \<and> j < n \<longrightarrow> \<not> is_kept r1 j"
    using Cons.prems(3) kept1 by auto
  have run: "filter_loop (Suc i) flags now r1 D1 = (r', D')"
    using Cons.prems(4) by (simp add: p r1_def)
  have IH: "D2 = D'" "dr_count r' = dr_count r1 + length (filter (\<lambda>b. b) rest)"
    "\<And>j. j < n \<Longrightarrow> is_kept r' j \<longleftrightarrow> (if j < Suc i then is_kept r1 j
          else j < Suc i + length flags \<and> rest ! (j - Suc i))"
    using Cons.IH [OF m1(1) _ free run] Cons.prems(2) s by auto
  have surv: "survivors (f # flags) now D = (new # rest, D2)" by (simp add: p s)
  show ?case unfolding surv fst_conv snd_conv
  proof (intro conjI allI impI)
    show "D2 = D'" by (rule IH)
    show "dr_count r' = dr_count r + length (filter (\<lambda>b. b) (new # rest))" using IH(2) m1(2) by simp
    fix j assume j: "j < n"
    consider "j < i" | "j = i" | "i < j" by linarith
    then show "is_kept r' j \<longleftrightarrow> (if j < i then is_kept r j else j < i + length (f # flags) \<and> (new # rest) ! (j - i))"
    proof cases
      case 3
      then obtain d where "j = Suc i + d" using less_iff_Suc_add by auto
      then show ?thesis using IH(3) [OF j] 3 by simp
    qed (use IH(3) [OF j] kept1 [OF j] Cons.prems(3) j in auto)
  qed
qed

lemma filter_duplicates_survivors:
  assumes "filter_duplicates flags now D = (r, D')"
  shows "snd (survivors flags (max now (ad_last_sweep_seconds D)) D) = D'"
    "kept_count r = length (filter (\<lambda>b. b) (fst (survivors flags (max now (ad_last_sweep_seconds D)) D)))"
    "i < length flags \<Longrightarrow> is_kept r i \<longleftrightarrow> fst (survivors flags (max now (ad_last_sweep_seconds D)) D) ! i"
  using filter_loop_survivors [OF mask_for_new, of 0 flags "length flags"] assms not_kept_new
  by (auto simp: filter_duplicates_def kept_count_def dedup_result_new_def)

section \<open>Properties of the table\<close>

definition wf_dedup :: "apply_dedup \<Rightarrow> bool" where
  "wf_dedup D \<longleftrightarrow> distinct_keys (ad_seen D) \<and> length (ad_seen D) \<le> ad_max_entries D"

definition seen_hashes :: "apply_dedup \<Rightarrow> u64 set" where
  "seen_hashes D = fst ` set (ad_seen D)"

lemma length_hm_insert: "map_of m k = None \<Longrightarrow> length (hm_insert k v m) = Suc (length m)"
  by (induction m) (auto split: if_splits)

lemma seen_lookup: "map_of (ad_seen D) h \<noteq> None \<longleftrightarrow> h \<in> seen_hashes D"
  using map_of_eq_None_iff [of "ad_seen D" h] by (auto simp: seen_hashes_def)

text \<open>What one probe does, on each of its three branches.\<close>

lemma probe_result:
  assumes "probe h now D = (new, D')"
  shows "new \<longleftrightarrow> h \<notin> seen_hashes D" "seen_hashes D \<subseteq> seen_hashes D'" "seen_hashes D' \<subseteq> insert h (seen_hashes D)"
    "length (ad_seen D) < ad_max_entries D \<Longrightarrow> seen_hashes D' = insert h (seen_hashes D)"
    "length (ad_seen D') \<le> Suc (length (ad_seen D))" "wf_dedup D \<Longrightarrow> wf_dedup D'"
    "ad_max_entries D' = ad_max_entries D" "ad_ttl_seconds D' = ad_ttl_seconds D"
    "ad_last_sweep_seconds D' = ad_last_sweep_seconds D"
    "ad_applies_total D' = ad_applies_total D + 1"
    "ad_applies_deduped D' = ad_applies_deduped D + (if new then 0 else 1)"
proof -
  consider "h \<in> seen_hashes D" "new = False" "D' = D\<lparr>ad_applies_total := ad_applies_total D + 1, ad_applies_deduped := ad_applies_deduped D + 1\<rparr>"
    | "h \<notin> seen_hashes D" "new = True" "length (ad_seen D) < ad_max_entries D"
      "D' = D\<lparr>ad_applies_total := ad_applies_total D + 1, ad_seen := hm_insert h now (ad_seen D)\<rparr>"
    | "h \<notin> seen_hashes D" "new = True" "\<not> length (ad_seen D) < ad_max_entries D"
      "D' = D\<lparr>ad_applies_total := ad_applies_total D + 1, ad_overflow := ad_overflow D + 1\<rparr>"
    using assms seen_lookup [of D h] by (auto simp: probe_def Let_def split: if_splits)
  note cases = this
  have len: "h \<notin> seen_hashes D \<Longrightarrow> length (hm_insert h now (ad_seen D)) = Suc (length (ad_seen D))"
    using seen_lookup [of D h] length_hm_insert by fastforce
  show "new \<longleftrightarrow> h \<notin> seen_hashes D" "seen_hashes D \<subseteq> seen_hashes D'" "seen_hashes D' \<subseteq> insert h (seen_hashes D)"
    "length (ad_seen D) < ad_max_entries D \<Longrightarrow> seen_hashes D' = insert h (seen_hashes D)"
    "length (ad_seen D') \<le> Suc (length (ad_seen D))" "wf_dedup D \<Longrightarrow> wf_dedup D'"
    "ad_max_entries D' = ad_max_entries D" "ad_ttl_seconds D' = ad_ttl_seconds D"
    "ad_last_sweep_seconds D' = ad_last_sweep_seconds D"
    "ad_applies_total D' = ad_applies_total D + 1"
    "ad_applies_deduped D' = ad_applies_deduped D + (if new then 0 else 1)"
    using cases by (cases; simp add: seen_hashes_def set_keys_hm_insert len wf_dedup_def hm.inv_ins insert_absorb; blast?)+
qed

abbreviation hash_of :: "flag_to_apply \<Rightarrow> u64" where
  "hash_of f \<equiv> compute_dedup_hash (fta_assigned_flag f)"

lemma survivors_ConsE:
  assumes "survivors (f # flags) now D = (keeps, D')"
  obtains new D1 rest where "probe (hash_of f) now D = (new, D1)" "survivors flags now D1 = (rest, D')" "keeps = new # rest"
  using assms by (auto simp: Let_def split: prod.splits)

lemma survivors_dropped:
  "survivors flags now D = (keeps, D') \<Longrightarrow> i < length flags \<Longrightarrow> \<not> keeps ! i \<Longrightarrow>
     hash_of (flags ! i) \<in> seen_hashes D \<or> hash_of (flags ! i) \<in> hash_of ` set (take i flags)"
proof (induction flags arbitrary: i D keeps)
  case (Cons f flags)
  from Cons.prems(1) obtain new D1 rest where k: "probe (hash_of f) now D = (new, D1)"
    "survivors flags now D1 = (rest, D')" "keeps = new # rest" by (rule survivors_ConsE)
  show ?case
  proof (cases i)
    case 0
    then show ?thesis using Cons.prems k probe_result(1) [OF k(1)] by simp
  next
    case (Suc j)
    then have "hash_of (flags ! j) \<in> seen_hashes D1 \<or> hash_of (flags ! j) \<in> hash_of ` set (take j flags)"
      using Cons.IH [OF k(2)] Cons.prems k(3) by simp
    then show ?thesis using probe_result(3) [OF k(1)] Suc by auto
  qed
qed simp

lemma survivors_seen:
  "survivors flags now D = (keeps, D') \<Longrightarrow> i < length flags \<Longrightarrow> hash_of (flags ! i) \<in> seen_hashes D \<Longrightarrow> \<not> keeps ! i"
proof (induction flags arbitrary: i D keeps)
  case (Cons f flags)
  from Cons.prems(1) obtain new D1 rest where k: "probe (hash_of f) now D = (new, D1)"
    "survivors flags now D1 = (rest, D')" "keeps = new # rest" by (rule survivors_ConsE)
  show ?case
  proof (cases i)
    case 0
    then show ?thesis using Cons.prems k probe_result(1) [OF k(1)] by simp
  next
    case (Suc j)
    then show ?thesis using Cons.IH [OF k(2), of j] Cons.prems k(3) probe_result(2) [OF k(1)] by auto
  qed
qed simp

lemma survivors_room:
  "survivors flags now D = (keeps, D') \<Longrightarrow> i < length flags \<Longrightarrow> length (ad_seen D) + length flags \<le> ad_max_entries D \<Longrightarrow>
     keeps ! i \<longleftrightarrow> hash_of (flags ! i) \<notin> seen_hashes D \<and> hash_of (flags ! i) \<notin> hash_of ` set (take i flags)"
proof (induction flags arbitrary: i D keeps)
  case (Cons f flags)
  from Cons.prems(1) obtain new D1 rest where k: "probe (hash_of f) now D = (new, D1)"
    "survivors flags now D1 = (rest, D')" "keeps = new # rest" by (rule survivors_ConsE)
  note pr = probe_result [OF k(1)]
  show ?case
  proof (cases i)
    case 0
    then show ?thesis using k pr(1) by simp
  next
    case (Suc j)
    have "length (ad_seen D1) + length flags \<le> ad_max_entries D1" using Cons.prems(3) pr(5,7) by simp
    then have "rest ! j \<longleftrightarrow> hash_of (flags ! j) \<notin> seen_hashes D1 \<and> hash_of (flags ! j) \<notin> hash_of ` set (take j flags)"
      using Cons.IH [OF k(2)] Cons.prems Suc by simp
    then show ?thesis using pr(4) Cons.prems(3) Suc k by auto
  qed
qed simp

lemma survivors_state:
  "survivors flags now D = (keeps, D') \<Longrightarrow>
     (wf_dedup D \<longrightarrow> wf_dedup D') \<and> ad_last_sweep_seconds D' = ad_last_sweep_seconds D
     \<and> ad_applies_total D' = ad_applies_total D + of_nat (length flags)
     \<and> ad_applies_deduped D' = ad_applies_deduped D + of_nat (length (filter Not keeps))"
proof (induction flags arbitrary: D keeps)
  case (Cons f flags)
  from Cons.prems obtain new D1 rest where k: "probe (hash_of f) now D = (new, D1)"
    "survivors flags now D1 = (rest, D')" "keeps = new # rest" by (rule survivors_ConsE)
  show ?case using Cons.IH [OF k(2)] probe_result(6,9-11) [OF k(1)] k(3) by (auto split: if_splits)
qed simp

lemma collect_filter:
  assumes "length keeps = length flags" "\<And>j. j < length flags \<Longrightarrow> is_kept r (k + j) \<longleftrightarrow> keeps ! j"
  shows "map snd (filter (\<lambda>(i, f). is_kept r i) (enumerate k flags)) = map fst (filter snd (zip flags keeps))"
  using assms
proof (induction flags arbitrary: k keeps)
  case (Cons f flags)
  obtain b bs where b: "keeps = b # bs" using Cons.prems(1) by (cases keeps) auto
  have "is_kept r (Suc k + j) \<longleftrightarrow> bs ! j" if "j < length flags" for j
    using Cons.prems(2) [of "Suc j"] that b by simp
  then have "map snd (filter (\<lambda>(i, f). is_kept r i) (enumerate (Suc k) flags)) = map fst (filter snd (zip flags bs))"
    using Cons.IH [of bs "Suc k"] Cons.prems(1) b by simp
  moreover have "is_kept r k \<longleftrightarrow> b" using Cons.prems(2) [of 0] b by simp
  ultimately show ?case by (simp add: b)
qed simp

lemma all_kept_zip: "length (filter (\<lambda>b. b) keeps) = length keeps \<Longrightarrow> length keeps = length flags \<Longrightarrow>
     map fst (filter snd (zip flags keeps)) = flags"
proof (induction flags arbitrary: keeps)
  case (Cons f flags)
  obtain b bs where b: "keeps = b # bs" using Cons.prems(2) by (cases keeps) auto
  have "length (filter (\<lambda>b. b) bs) \<le> length bs" by simp
  with Cons show ?case by (auto simp: b split: if_splits)
qed simp

text \<open>C14: Deduplication loses no event and repeats none: a flag is dropped only if its hash is in the table
  or belongs to an earlier flag of the batch, a flag whose hash is in the table is always dropped,
  and while the table has room the kept flags are exactly the first occurrences of new hashes.
  The mask handed to the caller selects those flags in order, whatever the size of the batch.\<close>

theorem filter_duplicates_exact:
  assumes "filter_duplicates flags now D = (r, D')" "i < length flags"
  shows "(\<not> is_kept r i \<longrightarrow> hash_of (flags ! i) \<in> seen_hashes D \<or> hash_of (flags ! i) \<in> hash_of ` set (take i flags))
    \<and> (hash_of (flags ! i) \<in> seen_hashes D \<longrightarrow> \<not> is_kept r i)
    \<and> (length (ad_seen D) + length flags \<le> ad_max_entries D \<longrightarrow>
        (is_kept r i \<longleftrightarrow> hash_of (flags ! i) \<notin> seen_hashes D \<and> hash_of (flags ! i) \<notin> hash_of ` set (take i flags)))
    \<and> dedup_collect r flags = map fst (filter snd (zip flags (map (is_kept r) [0..<length flags])))"
proof -
  obtain keeps where s: "survivors flags (max now (ad_last_sweep_seconds D)) D = (keeps, D')"
    using filter_duplicates_survivors(1) [OF assms(1)] by (metis prod.collapse)
  have len: "length keeps = length flags" using survivors_length s by (metis fst_conv)
  have kept: "is_kept r j \<longleftrightarrow> keeps ! j" if "j < length flags" for j
    using filter_duplicates_survivors(3) [OF assms(1) that] s by simp
  have "keeps = map (is_kept r) [0..<length flags]"
    using len kept by (intro nth_equalityI) simp_all
  moreover have "dedup_collect r flags = map fst (filter snd (zip flags keeps))"
    using collect_filter [OF len, of r 0] kept filter_duplicates_survivors(2) [OF assms(1)] s
      all_kept_zip [OF _ len] len
    by (auto simp: dedup_collect_def kept_count_def)
  ultimately show ?thesis
    using survivors_dropped [OF s assms(2)] survivors_seen [OF s assms(2)] survivors_room [OF s assms(2)] kept [OF assms(2)]
    by simp
qed

section \<open>Reachable tables\<close>

inductive dedup_step :: "apply_dedup \<Rightarrow> apply_dedup \<Rightarrow> bool" where
  Step_check: "check_hash h now D = (new, D') \<Longrightarrow> dedup_step D D'"
| Step_filter: "filter_duplicates flags now D = (r, D') \<Longrightarrow> dedup_step D D'"
| Step_sweep: "dedup_step D (sweep now D)"

inductive_cases dedup_stepE: "dedup_step D D'"

inductive dedup_reachable :: "int \<Rightarrow> nat \<Rightarrow> apply_dedup \<Rightarrow> bool" where
  Reach_new: "dedup_reachable ttl cap (apply_dedup_new ttl cap)"
| Reach_step: "dedup_reachable ttl cap D \<Longrightarrow> dedup_step D D' \<Longrightarrow> dedup_reachable ttl cap D'"

lemma filter_keys_distinct: "distinct (map fst m) \<Longrightarrow> distinct (map fst (filter P m))"
  by (simp add: distinct_map_filter)

lemma probe_config: "probe h now D = (new, D') \<Longrightarrow> ad_ttl_seconds D' = ad_ttl_seconds D \<and> ad_max_entries D' = ad_max_entries D"
  by (auto simp: probe_def Let_def split: if_splits)

lemma survivors_config:
  "survivors flags now D = (keeps, D') \<Longrightarrow> ad_ttl_seconds D' = ad_ttl_seconds D \<and> ad_max_entries D' = ad_max_entries D"
proof (induction flags arbitrary: D keeps)
  case (Cons f flags)
  from Cons.prems obtain new D1 rest where k: "probe (hash_of f) now D = (new, D1)"
    "survivors flags now D1 = (rest, D')" by (rule survivors_ConsE)
  then show ?case using Cons.IH [OF k(2)] probe_config [OF k(1)] by simp
qed simp

lemma step_invariant:
  assumes "dedup_step D D'" "wf_dedup D"
  shows "wf_dedup D'" "ad_ttl_seconds D' = ad_ttl_seconds D" "ad_max_entries D' = ad_max_entries D"
proof -
  have "wf_dedup D' \<and> ad_ttl_seconds D' = ad_ttl_seconds D \<and> ad_max_entries D' = ad_max_entries D"
    using assms(1)
  proof (rule dedup_stepE)
    fix h now new assume "check_hash h now D = (new, D')"
    then show ?thesis using probe_result(6) probe_config assms(2) by (auto simp: check_hash_def)
  next
    fix flags now r assume f: "filter_duplicates flags now D = (r, D')"
    then obtain keeps where s: "survivors flags (max now (ad_last_sweep_seconds D)) D = (keeps, D')"
      using filter_duplicates_survivors(1) by (metis prod.collapse)
    show ?thesis using survivors_state [OF s] survivors_config [OF s] assms(2) by simp
  next
    fix now assume "D' = sweep now D"
    then show ?thesis using assms(2)
      by (auto simp: sweep_def wf_dedup_def distinct_keys_def filter_keys_distinct intro: le_trans [OF length_filter_le])
  qed
  then show "wf_dedup D'" "ad_ttl_seconds D' = ad_ttl_seconds D" "ad_max_entries D' = ad_max_entries D" by auto
qed

text \<open>The table is bounded: in every state the operations can reach, it holds at most the configured
  number of hashes, each once.\<close>

lemma dedup_bounded:
  assumes "dedup_reachable ttl cap D"
  shows "length (ad_seen D) \<le> cap \<and> distinct (map fst (ad_seen D)) \<and> card (seen_hashes D) = length (ad_seen D)"
proof -
  have "wf_dedup D \<and> ad_ttl_seconds D = ttl \<and> ad_max_entries D = cap"
    using assms
  proof induction
    case (Reach_new ttl cap)
    then show ?case by (simp add: apply_dedup_new_def wf_dedup_def distinct_keys_def)
  next
    case (Reach_step ttl cap D D')
    then show ?case using step_invariant [of D D'] by auto
  qed
  then show ?thesis
    by (auto simp: wf_dedup_def distinct_keys_def seen_hashes_def card_image distinct_map distinct_card)
qed

theorem dedup_bounded_witness:
  "length (ad_seen (snd (check_hash 5 7 (snd (check_hash 4 7 (apply_dedup_new 120 1)))))) \<le> 1"
proof -
  have step: "dedup_step D (snd (check_hash h now D))" for D h now by (rule Step_check [OF surjective_pairing])
  have "dedup_reachable 120 1 (snd (check_hash 5 7 (snd (check_hash 4 7 (apply_dedup_new 120 1)))))"
    by (rule Reach_step [OF Reach_step [OF Reach_new step] step])
  from dedup_bounded [OF this] show ?thesis by simp
qed

section \<open>Expiry\<close>

lemma map_of_filter_value:
  "distinct (map fst m) \<Longrightarrow> map_of (filter (\<lambda>(_, v). P v) m) k = (case map_of m k of Some v \<Rightarrow> if P v then Some v else None | None \<Rightarrow> None)"
proof (induction m)
  case (Cons p m)
  obtain k' v where p: "p = (k', v)" by (cases p)
  have "k' = k \<Longrightarrow> map_of m k = None" using Cons.prems by (auto simp: p map_of_eq_None_iff)
  then show ?case using Cons by (auto simp: p)
qed simp

text \<open>The deduplication window: a hash that was new when it was checked, while the table had room, is a
  duplicate at any later check until a sweep that is not throttled finds it at least the time to
  live old, counted from the check or, for a check dated before the last sweep, from that sweep.\<close>

lemma dedup_window:
  assumes "wf_dedup D" "check_hash h t D = (True, D')" "length (ad_seen D) < ad_max_entries D"
    and "SWEEP_MIN_INTERVAL_SECONDS \<le> i64_saturating_sub now (ad_last_sweep_seconds D)"
  shows "\<not> fst (check_hash h t' D')
    \<and> (fst (check_hash h t' (sweep now D')) \<longleftrightarrow>
         ad_ttl_seconds D \<le> i64_saturating_sub now (max t (ad_last_sweep_seconds D)))"
proof -
  let ?t = "max t (ad_last_sweep_seconds D)"
  have D': "D' = D\<lparr>ad_applies_total := ad_applies_total D + 1, ad_seen := hm_insert h ?t (ad_seen D)\<rparr>"
    using assms(2,3) by (auto simp: check_hash_def probe_def Let_def split: if_splits)
  have distinct: "distinct (map fst (hm_insert h ?t (ad_seen D)))"
    using assms(1) by (auto simp: wf_dedup_def intro: hm.inv_distinct hm.inv_ins)
  have "map_of (ad_seen D') h = Some ?t" by (simp add: D')
  moreover have "map_of (ad_seen (sweep now D')) h = (if i64_saturating_sub now ?t < ad_ttl_seconds D then Some ?t else None)"
    using assms(4) map_of_filter_value [OF distinct, of "\<lambda>ts. i64_saturating_sub now ts < ad_ttl_seconds D" h]
    by (simp add: sweep_def D')
  ultimately show ?thesis
    by (auto simp: check_hash_def probe_def Let_def)
qed

theorem dedup_window_witness:
  "fst (check_hash 4 200 (sweep 127 (snd (check_hash 4 7 (apply_dedup_new 120 10)))))
   \<and> \<not> fst (check_hash 4 200 (sweep 126 (snd (check_hash 4 7 (apply_dedup_new 120 10)))))"
proof -
  have c: "check_hash 4 7 (apply_dedup_new 120 10) = (True, snd (check_hash 4 7 (apply_dedup_new 120 10)))"
    by (simp add: check_hash_def probe_def apply_dedup_new_def)
  have wf: "wf_dedup (apply_dedup_new 120 10)" by (simp add: wf_dedup_def apply_dedup_new_def distinct_keys_def)
  show ?thesis
    using dedup_window [OF wf c, of 127 200] dedup_window [OF wf c, of 126 200]
    by (simp add: apply_dedup_new_def SWEEP_MIN_INTERVAL_SECONDS_def i64_saturating_sub_def clamp_i64_def)
qed

text \<open>Telemetry deltas lose nothing: no delta is reported only when nothing changed since the snapshot
  the last report was taken from, so a host that keeps that snapshot until it reports again
  accounts for every apply, duplicate, overflow and sweep.\<close>

lemma delta_to_report_None: "delta_to_report current previous = None \<longleftrightarrow> current = previous"
proof -
  have zero: "narrow (x - y) = 0 \<longleftrightarrow> x = y" for x y
  proof
    assume "narrow (x - y) = 0"
    then have "unat (narrow (x - y)) = 0" by simp
    then have "unat (x - y) = 0" unfolding unat_narrow by simp
    then show "x = y" by (simp add: unat_eq_zero)
  qed (simp add: narrow_def)
  show ?thesis
    by (cases current; cases previous)
       (auto simp: delta_to_report_def to_proto_delta_def Let_def zero word_neq_0_conv [symmetric])
qed

section \<open>The words of a key\<close>

text \<open>The words a field feeds to the hash: its length, then its bytes in zero-padded chunks.\<close>

function chunk_words :: "bytes \<Rightarrow> u64 list" where
  "chunk_words bytes =
     (if 8 \<le> length bytes then from_le_bytes (take 8 bytes) # chunk_words (drop 8 bytes)
      else if bytes \<noteq> [] then [from_le_bytes (bytes @ replicate (8 - length bytes) 0)]
      else [])"
  by auto
termination by (relation "measure length") auto

declare chunk_words.simps [simp del] mix_chunks.simps [simp del]

definition field_words :: "bytes \<Rightarrow> u64 list" where
  "field_words bytes = of_nat (length bytes) # chunk_words bytes"

definition mix_all :: "u64 list \<Rightarrow> u64 \<Rightarrow> u64" where
  "mix_all ws h = fold (\<lambda>w h. mix h w) ws h"

lemma mix_all_simps [simp]:
  "mix_all [] h = h" "mix_all (w # ws) h = mix_all ws (mix h w)" "mix_all (ws @ vs) h = mix_all vs (mix_all ws h)"
  by (simp_all add: mix_all_def)

lemma mix_chunks_words: "mix_chunks h bs = mix_all (chunk_words bs) h"
proof (induction h bs rule: mix_chunks.induct)
  case (1 h bs)
  then show ?case by (simp add: mix_chunks.simps [of h bs] chunk_words.simps [of bs])
qed

lemma hash_write_words: "hash_write h bs = mix_all (field_words bs) h"
  by (simp add: hash_write_def mix_chunks_words field_words_def)

definition string_words :: "string \<Rightarrow> u64 list" where
  "string_words s = field_words (bytes_of_string s)"

definition fallthrough_words :: "fallthrough_assignment \<Rightarrow> u64 list" where
  "fallthrough_words ft = concat (map string_words
     [fa_rule ft, fa_assignment_id ft, fa_targeting_key ft, fa_targeting_key_selector ft])"

definition key_words :: "applied_flag_ref \<Rightarrow> u64 list" where
  "key_words r = concat (map string_words
       [ar_flag r, ar_targeting_key r, ar_targeting_key_selector r, ar_assignment_id r, ar_variant r, ar_segment r, ar_rule r])
     @ field_words (le_bytes32 (of_int (ar_reason r)))
     @ of_nat (length (ar_fallthrough_assignments r))
       # concat (map fallthrough_words (ar_fallthrough_assignments r))"

lemma fold_fallthrough_words: "fold hash_fallthrough fts h = mix_all (concat (map fallthrough_words fts)) h"
  by (induction fts arbitrary: h) (simp_all add: hash_fallthrough_def hash_str_def hash_write_words fallthrough_words_def string_words_def)

lemma hash_of_words: "compute_applied_flag_dedup_hash r = hash_finish (mix_all (key_words r) HASH_INIT)"
  by (simp add: compute_applied_flag_dedup_hash_def key_words_def hash_str_def hash_write_words fold_fallthrough_words string_words_def Let_def)

lemma from_le_bytes_bit:
  "length bs \<le> 8 \<Longrightarrow> n < 64 \<Longrightarrow> bit (from_le_bytes bs) n \<longleftrightarrow> n div 8 < length bs \<and> bit (bs ! (n div 8)) (n mod 8)"
proof (induction bs arbitrary: n)
  case (Cons b bs)
  show ?case
  proof (cases "n < 8")
    case True
    then show ?thesis using Cons.prems by (simp add: bit_simps)
  next
    case False
    then have n: "n div 8 = Suc ((n - 8) div 8)" "n mod 8 = (n - 8) mod 8"
      by (simp_all add: le_div_geq le_mod_geq)
    have "\<not> bit b n" using False bit_imp_le_length [of b n] by auto
    then show ?thesis using Cons.IH [of "n - 8"] Cons.prems False by (auto simp: bit_simps n)
  qed
qed simp

lemma from_le_bytes_inj:
  assumes "from_le_bytes a = from_le_bytes b" "length a = length b" "length a \<le> 8"
  shows "a = b"
proof (rule nth_equalityI)
  fix i assume i: "i < length a"
  show "a ! i = b ! i"
  proof (rule bit_word_eqI)
    fix j :: nat assume "j < LENGTH(8)"
    then have j: "(8 * i + j) div 8 = i" "(8 * i + j) mod 8 = j" "8 * i + j < 64" using i assms(3) by auto
    have "bit (from_le_bytes a) (8 * i + j) \<longleftrightarrow> bit (from_le_bytes b) (8 * i + j)" by (simp add: assms(1))
    then show "bit (a ! i) j = bit (b ! i) j"
      using assms(2,3) i j by (simp add: from_le_bytes_bit)
  qed
qed (rule assms(2))

lemma chunk_words_prefix:
  "length a = length b \<Longrightarrow> chunk_words a @ x = chunk_words b @ y \<Longrightarrow> a = b \<and> x = y"
proof (induction a arbitrary: b rule: chunk_words.induct)
  case (1 a)
  show ?case
  proof (cases "8 \<le> length a")
    case True
    then have w: "from_le_bytes (take 8 a) = from_le_bytes (take 8 b)"
      "chunk_words (drop 8 a) @ x = chunk_words (drop 8 b) @ y"
      using 1(3) by (simp_all add: chunk_words.simps [of a] chunk_words.simps [of b] 1(2))
    have "take 8 a = take 8 b" by (rule from_le_bytes_inj [OF w(1)]) (use True 1(2) in auto)
    moreover have "drop 8 a = drop 8 b \<and> x = y" using 1(1) [OF True _ w(2)] 1(2) by simp
    ultimately show ?thesis by (metis append_take_drop_id)
  next
    case False
    show ?thesis
    proof (cases "a = []")
      case True
      then have "b = []" using 1(2) by simp
      then show ?thesis using 1(3) True by (simp add: chunk_words.simps)
    next
      case a: False
      then have b: "b \<noteq> []" using 1(2) by auto
      have w: "from_le_bytes (a @ replicate (8 - length a) 0) = from_le_bytes (b @ replicate (8 - length b) 0)" "x = y"
        using 1(3) False a b by (simp_all add: chunk_words.simps [of a] chunk_words.simps [of b] 1(2) [symmetric])
      have "a @ replicate (8 - length a) 0 = b @ replicate (8 - length b) 0"
        by (rule from_le_bytes_inj [OF w(1)]) (use False 1(2) in auto)
      then show ?thesis using w(2) 1(2) by simp
    qed
  qed
qed

definition short :: "'a list \<Rightarrow> bool" where
  "short xs \<longleftrightarrow> length xs < 2 ^ 64"

lemma of_nat_64_inj: "n < 2 ^ 64 \<Longrightarrow> m < 2 ^ 64 \<Longrightarrow> (of_nat n :: u64) = of_nat m \<Longrightarrow> n = m"
  by (simp add: word_of_nat_eq_iff take_bit_nat_eq_self)

lemma field_words_prefix:
  assumes "field_words a @ x = field_words b @ y" "short a" "short b"
  shows "a = b \<and> x = y"
proof -
  have "length a = length b"
    using assms by (intro of_nat_64_inj) (simp_all add: field_words_def short_def)
  moreover have "chunk_words a @ x = chunk_words b @ y" using assms(1) by (simp add: field_words_def)
  ultimately show ?thesis by (rule chunk_words_prefix)
qed

lemma of_char_u8_inj: "(of_char x :: u8) = of_char y \<Longrightarrow> x = y"
proof -
  assume "(of_char x :: u8) = of_char y"
  then have "(of_nat (of_char x) :: u8) = of_nat (of_char y)" by (simp only: of_nat_of_char)
  then have "(of_char x :: nat) = of_char y"
    by (simp add: word_of_nat_eq_iff take_bit_nat_eq_self)
  then show "x = y" by simp
qed

lemma bytes_of_string_inj: "bytes_of_string a = bytes_of_string b \<Longrightarrow> a = b"
  unfolding bytes_of_string_def
  by (rule map_injective [of of_char]) (auto intro!: injI of_char_u8_inj)

lemma string_words_prefix:
  assumes "string_words a @ x = string_words b @ y" "short a" "short b"
  shows "a = b \<and> x = y"
  using field_words_prefix [of "bytes_of_string a" x "bytes_of_string b" y] assms bytes_of_string_inj
  by (simp add: short_def string_words_def) (simp add: bytes_of_string_def)

lemma strings_words_prefix:
  "length ss = length ts \<Longrightarrow> list_all short ss \<Longrightarrow> list_all short ts \<Longrightarrow>
     concat (map string_words ss) @ x = concat (map string_words ts) @ y \<Longrightarrow>
     ss = ts \<and> x = y"
proof (induction ss ts rule: list_induct2)
  case (Cons s ss t ts)
  have "string_words s @ (concat (map string_words ss) @ x) =
      string_words t @ (concat (map string_words ts) @ y)"
    using Cons.prems(3) by simp
  from string_words_prefix [OF this] Cons show ?case by simp
qed simp

definition fa_strings :: "fallthrough_assignment \<Rightarrow> string list" where
  "fa_strings ft = [fa_rule ft, fa_assignment_id ft, fa_targeting_key ft, fa_targeting_key_selector ft]"

definition ref_strings :: "applied_flag_ref \<Rightarrow> string list" where
  "ref_strings r = [ar_flag r, ar_targeting_key r, ar_targeting_key_selector r, ar_assignment_id r,
     ar_variant r, ar_segment r, ar_rule r]"

text \<open>The sizes of a reference that a program can hold: lengths fit 64 bits and the reason fits 32.\<close>

definition representable :: "applied_flag_ref \<Rightarrow> bool" where
  "representable r \<longleftrightarrow> list_all short (ref_strings r) \<and> short (ar_fallthrough_assignments r)
     \<and> list_all (\<lambda>ft. list_all short (fa_strings ft)) (ar_fallthrough_assignments r)
     \<and> - (2 ^ 31) \<le> ar_reason r \<and> ar_reason r < 2 ^ 31"

lemma fallthrough_words_strings: "fallthrough_words ft = concat (map string_words (fa_strings ft))"
  by (simp add: fallthrough_words_def fa_strings_def)

lemma fallthroughs_words_inj:
  "length fs = length gs \<Longrightarrow> list_all (\<lambda>ft. list_all short (fa_strings ft)) fs \<Longrightarrow>
     list_all (\<lambda>ft. list_all short (fa_strings ft)) gs \<Longrightarrow>
     concat (map fallthrough_words fs) = concat (map fallthrough_words gs) \<Longrightarrow> fs = gs"
proof (induction fs gs rule: list_induct2)
  case (Cons f fs g gs)
  have "length (fa_strings f) = length (fa_strings g)" by (simp add: fa_strings_def)
  moreover have "concat (map string_words (fa_strings f)) @ concat (map fallthrough_words fs) =
      concat (map string_words (fa_strings g)) @ concat (map fallthrough_words gs)"
    using Cons.prems(3) by (simp flip: fallthrough_words_strings)
  ultimately have "fa_strings f = fa_strings g \<and> concat (map fallthrough_words fs) = concat (map fallthrough_words gs)"
    using Cons.prems(1,2) by (intro strings_words_prefix) auto
  then show ?case using Cons by (auto simp: fa_strings_def intro: fallthrough_assignment.equality)
qed simp

lemma le_bytes32_inj: "le_bytes32 v = le_bytes32 w \<Longrightarrow> v = w"
  by (metis u32_from_le_bytes)

lemma of_int_32_inj: "- (2 ^ 31) \<le> a \<Longrightarrow> a < 2 ^ 31 \<Longrightarrow> - (2 ^ 31) \<le> b \<Longrightarrow> b < 2 ^ 31 \<Longrightarrow> (of_int a :: u32) = of_int b \<Longrightarrow> a = b"
proof -
  assume a: "- (2 ^ 31) \<le> a" "a < 2 ^ 31" "- (2 ^ 31) \<le> b" "b < 2 ^ 31" and "(of_int a :: u32) = of_int b"
  then have "sint (of_int a :: u32) = sint (of_int b :: u32)" by simp
  then show "a = b" using a by (simp add: int_word_sint)
qed

text \<open>The deduplication key is the whole identity of an apply: the hash is the finished mix of a word
  sequence that two applies share only if they agree in the flag, the targeting key and its
  selector, the assignment, the variant, the segment, the rule, the reason and every fallthrough
  assignment; no padding or field boundary makes two identities look alike.\<close>

lemma dedup_key_injective:
  assumes "representable r" "representable r'"
  shows "compute_applied_flag_dedup_hash r = hash_finish (mix_all (key_words r) HASH_INIT)
    \<and> (key_words r = key_words r' \<longleftrightarrow> r = r')"
proof -
  have "r = r'" if eq: "key_words r = key_words r'"
  proof -
    let ?rest = "\<lambda>r. field_words (le_bytes32 (of_int (ar_reason r))) @ of_nat (length (ar_fallthrough_assignments r))
       # concat (map fallthrough_words (ar_fallthrough_assignments r))"
    have "length (ref_strings r) = length (ref_strings r')" by (simp add: ref_strings_def)
    moreover have "concat (map string_words (ref_strings r)) @ ?rest r =
      concat (map string_words (ref_strings r')) @ ?rest r'"
      using eq by (simp add: key_words_def ref_strings_def)
    ultimately have strings: "ref_strings r = ref_strings r'" and rest: "?rest r = ?rest r'"
      using strings_words_prefix assms unfolding representable_def by blast+
    have "le_bytes32 (of_int (ar_reason r)) = le_bytes32 (of_int (ar_reason r'))"
      and fts: "(of_nat (length (ar_fallthrough_assignments r)) :: u64) # concat (map fallthrough_words (ar_fallthrough_assignments r))
        = of_nat (length (ar_fallthrough_assignments r')) # concat (map fallthrough_words (ar_fallthrough_assignments r'))"
      using field_words_prefix [OF rest] by (simp_all add: short_def)
    then have reason: "ar_reason r = ar_reason r'"
      using assms of_int_32_inj by (auto simp: representable_def dest: le_bytes32_inj)
    have "length (ar_fallthrough_assignments r) = length (ar_fallthrough_assignments r')"
      using fts assms by (intro of_nat_64_inj) (auto simp: representable_def short_def)
    then have "ar_fallthrough_assignments r = ar_fallthrough_assignments r'"
      using fallthroughs_words_inj fts assms by (auto simp: representable_def)
    then show ?thesis using strings reason by (auto simp: ref_strings_def intro: applied_flag_ref.equality)
  qed
  then show ?thesis by (auto simp: hash_of_words)
qed

definition example_ref :: "string \<Rightarrow> applied_flag_ref" where
  "example_ref f = \<lparr>ar_flag = f, ar_targeting_key = ''u'', ar_targeting_key_selector = [], ar_assignment_id = [],
     ar_rule = [], ar_variant = [], ar_segment = [], ar_reason = 1, ar_fallthrough_assignments = []\<rparr>"

theorem dedup_key_injective_witness:
  "key_words (example_ref ''a'') \<noteq> key_words (example_ref (char_of (1::nat) # ''a'' @ replicate 6 (char_of (0::nat))))"
proof -
  have "representable (example_ref ''a'')" "representable (example_ref (char_of (1::nat) # ''a'' @ replicate 6 (char_of (0::nat))))"
    by (simp_all add: representable_def example_ref_def ref_strings_def short_def)
  from dedup_key_injective [OF this] show ?thesis by (simp add: example_ref_def)
qed

text \<open>A concrete batch: the second apply repeats the first.\<close>

definition example_apply :: "string \<Rightarrow> flag_to_apply" where
  "example_apply f = \<lparr>fta_assigned_flag = assigned_flag_default\<lparr>af_flag := f\<rparr>, fta_applied_time = \<lparr>seconds = 50, nanos = 0\<rparr>\<rparr>"

theorem filter_duplicates_exact_witness:
  "\<exists>r D. filter_duplicates [example_apply ''a'', example_apply ''a''] 50 (apply_dedup_new 120 100) = (r, D)
     \<and> is_kept r 0 \<and> \<not> is_kept r 1"
proof -
  obtain r D where run: "filter_duplicates [example_apply ''a'', example_apply ''a''] 50 (apply_dedup_new 120 100) = (r, D)"
    by (cases "filter_duplicates [example_apply ''a'', example_apply ''a''] 50 (apply_dedup_new 120 100)")
  show ?thesis
    using run filter_duplicates_exact [OF run, of 0] filter_duplicates_exact [OF run, of 1]
    by (auto simp: apply_dedup_new_def seen_hashes_def)
qed

end
