(* ===== verification/Bounded_Set.thy ===== *)
theory Bounded_Set
  imports Prelude
begin

text \<open>
  The concurrent reservoir sample of \<open>confidence-resolver/src/bounded_set.rs\<close>. A slot holds the
  value its raw pointer stands for, the counter is the 32-bit \<open>usize\<close> of the WebAssembly
  build, and the draw of the random generator is an argument. \<open>bset_insert\<close> is an insert that
  runs alone; the step relation below it interleaves the atomic actions of any number of
  threads.
\<close>

record 'a bounded_set =
  bset_items :: "'a list"
  bset_slots :: "'a option list"
  bset_counter :: u32

definition bset_new :: "nat \<Rightarrow> 'a bounded_set" where
  [model_defs]: "bset_new n = \<lparr>bset_items = [], bset_slots = replicate n None, bset_counter = 0\<rparr>"

text \<open>The slot of a new item: the next one while they fill up, then a draw from \<open>0..N+1\<close>.\<close>

definition pick_slot :: "nat \<Rightarrow> nat \<Rightarrow> 'a bounded_set \<Rightarrow> nat" where
  [model_defs]: "pick_slot n draw B = (let count = unat (bset_counter B) in if count < n then count else draw)"

definition bset_insert :: "nat \<Rightarrow> nat \<Rightarrow> 'a \<Rightarrow> 'a bounded_set \<Rightarrow> 'a bounded_set" where
  [model_defs]: "bset_insert n draw item B =
     (if n = 0 then B
      else if item \<in> set (bset_items B) then B
      else
        let idx = pick_slot n draw B;
            B = B\<lparr>bset_items := bset_items B @ [item], bset_counter := bset_counter B + 1\<rparr> in
        case nth_opt (bset_slots B) idx of
          None \<Rightarrow> B\<lparr>bset_items := remove1 item (bset_items B)\<rparr>
        | Some old \<Rightarrow>
            (let B = B\<lparr>bset_slots := (bset_slots B)[idx := Some item]\<rparr> in
             case old of
               None \<Rightarrow> B
             | Some evicted \<Rightarrow> B\<lparr>bset_items := remove1 evicted (bset_items B)\<rparr>))"

definition bset_len :: "nat \<Rightarrow> 'a bounded_set \<Rightarrow> nat" where
  [model_defs]: "bset_len n B = min (unat (bset_counter B)) n"

text \<open>The iterator stops at the first empty slot.\<close>

fun iter_slots :: "'a option list \<Rightarrow> 'a list" where
  "iter_slots [] = []"
| "iter_slots (None # slots) = []"
| "iter_slots (Some x # slots) = x # iter_slots slots"

definition bset_iter :: "'a bounded_set \<Rightarrow> 'a list" where
  [model_defs]: "bset_iter B = iter_slots (bset_slots B)"

section \<open>Interleaved inserts\<close>

text \<open>
  What a thread owns between two atomic actions: nothing, an item it entered into the set, the
  item with the slot it claimed for it, or an item it has to take out of the set again.
\<close>

datatype 'a phase = Idle | Entered 'a | Claimed 'a nat | Leaving 'a

inductive bset_step :: "nat \<Rightarrow> 'a bounded_set \<times> (nat \<Rightarrow> 'a phase) \<Rightarrow> 'a bounded_set \<times> (nat \<Rightarrow> 'a phase) \<Rightarrow> bool" for n where
  Enter: "0 < n \<Longrightarrow> ph t = Idle \<Longrightarrow> item \<notin> set (bset_items B) \<Longrightarrow>
     bset_step n (B, ph) (B\<lparr>bset_items := bset_items B @ [item]\<rparr>, ph(t := Entered item))"
| Claim: "ph t = Entered item \<Longrightarrow> draw \<le> n \<Longrightarrow>
     bset_step n (B, ph) (B\<lparr>bset_counter := bset_counter B + 1\<rparr>, ph(t := Claimed item (pick_slot n draw B)))"
| Store: "ph t = Claimed item idx \<Longrightarrow> nth_opt (bset_slots B) idx = Some None \<Longrightarrow>
     bset_step n (B, ph) (B\<lparr>bset_slots := (bset_slots B)[idx := Some item]\<rparr>, ph(t := Idle))"
| Evict: "ph t = Claimed item idx \<Longrightarrow> nth_opt (bset_slots B) idx = Some (Some old) \<Longrightarrow>
     bset_step n (B, ph) (B\<lparr>bset_slots := (bset_slots B)[idx := Some item]\<rparr>, ph(t := Leaving old))"
| Discard: "ph t = Claimed item idx \<Longrightarrow> nth_opt (bset_slots B) idx = None \<Longrightarrow>
     bset_step n (B, ph) (B, ph(t := Leaving item))"
| Remove: "ph t = Leaving item \<Longrightarrow>
     bset_step n (B, ph) (B\<lparr>bset_items := remove1 item (bset_items B)\<rparr>, ph(t := Idle))"

inductive bset_reachable :: "nat \<Rightarrow> 'a bounded_set \<times> (nat \<Rightarrow> 'a phase) \<Rightarrow> bool" for n where
  Start: "bset_reachable n (bset_new n, \<lambda>_. Idle)"
| Step: "bset_reachable n s \<Longrightarrow> bset_step n s s' \<Longrightarrow> bset_reachable n s'"

text \<open>
  Ownership: the owner of an item is a slot or a thread. In every reachable state the items of
  the set are exactly the owned ones and each has one owner. The pointer of an item is freed
  by its owner, so nothing is freed twice and nothing is left behind.
\<close>

fun holds :: "'a phase \<Rightarrow> 'a option" where
  "holds Idle = None"
| "holds (Entered x) = Some x"
| "holds (Claimed x _) = Some x"
| "holds (Leaving x) = Some x"

definition owns :: "'a bounded_set \<times> (nat \<Rightarrow> 'a phase) \<Rightarrow> nat + nat \<Rightarrow> 'a option" where
  "owns s o1 = (case o1 of
      Inl i \<Rightarrow> (case nth_opt (bset_slots (fst s)) i of Some v \<Rightarrow> v | None \<Rightarrow> None)
    | Inr t \<Rightarrow> holds (snd s t))"

definition single_owner :: "('o \<Rightarrow> 'a option) \<Rightarrow> bool" where
  "single_owner f \<longleftrightarrow> (\<forall>o1 o2 x. f o1 = Some x \<longrightarrow> f o2 = Some x \<longrightarrow> o1 = o2)"

definition owned_once :: "nat \<Rightarrow> 'a bounded_set \<times> (nat \<Rightarrow> 'a phase) \<Rightarrow> bool" where
  "owned_once n s \<longleftrightarrow> distinct (bset_items (fst s)) \<and> length (bset_slots (fst s)) = n
     \<and> set (bset_items (fst s)) = ran (owns s) \<and> single_owner (owns s)"

lemma nth_opt_update: "nth_opt (xs[i := v]) j = (if i = j \<and> i < length xs then Some v else nth_opt xs j)"
  by (induction xs j arbitrary: i rule: nth_opt.induct) (auto split: nat.splits simp: nth_opt.simps)

lemma nth_opt_replicate: "nth_opt (replicate n x) i = (if i < n then Some x else None)"
proof (induction n arbitrary: i)
  case (Suc n)
  then show ?case by (cases i) auto
qed simp

lemma nth_opt_less: "nth_opt xs i = Some v \<Longrightarrow> i < length xs"
  by (simp add: nth_opt_Some)

lemma swap_single: "single_owner f \<Longrightarrow> single_owner (f(a := f b, b := f a))"
  unfolding single_owner_def by (metis fun_upd_other fun_upd_same)

lemma swap_ran: "ran (f(a := f b, b := f a)) = ran f"
  unfolding ran_def by (auto simp: fun_upd_def) metis+

lemma enter_single: "single_owner f \<Longrightarrow> x \<notin> ran f \<Longrightarrow> single_owner (f(a := Some x))"
  unfolding single_owner_def by (auto simp: ran_def)

lemma leave_ran: "single_owner f \<Longrightarrow> f a = Some x \<Longrightarrow> ran (f(a := None)) = ran f - {x}"
  unfolding single_owner_def ran_def by auto (metis option.inject)

lemma leave_single: "single_owner f \<Longrightarrow> single_owner (f(a := None))"
  unfolding single_owner_def by auto

text \<open>Every step moves at most one item between two owners.\<close>

lemma step_owns:
  assumes "bset_step n s s'"
  shows "(\<exists>t item. owns s' = (owns s)(Inr t := Some item) \<and> owns s (Inr t) = None \<and> item \<notin> set (bset_items (fst s))
        \<and> bset_items (fst s') = bset_items (fst s) @ [item])
    \<or> (\<exists>a b. owns s' = (owns s)(a := owns s b, b := owns s a) \<and> bset_items (fst s') = bset_items (fst s))
    \<or> (\<exists>t item. owns s' = (owns s)(Inr t := None) \<and> owns s (Inr t) = Some item
        \<and> bset_items (fst s') = remove1 item (bset_items (fst s)))"
    (is "?enter \<or> ?swap \<or> ?leave")
  using assms
proof cases
  case (Enter ph t item B)
  then have ?enter by (intro exI [of _ t] exI [of _ item]) (auto simp: owns_def fun_eq_iff split: sum.splits)
  then show ?thesis by blast
next
  case (Claim ph t item draw B)
  then have "owns s' = (owns s)(Inl 0 := owns s (Inl 0), Inl 0 := owns s (Inl 0))"
    by (auto simp: owns_def fun_eq_iff split: sum.splits)
  then have ?swap using Claim by (intro exI [of _ "Inl 0"]) simp
  then show ?thesis by blast
next
  case (Store ph t item idx B)
  then have ?swap
    by (intro exI [of _ "Inl idx"] exI [of _ "Inr t"])
      (auto simp: owns_def fun_eq_iff nth_opt_update dest: nth_opt_less split: sum.splits)
  then show ?thesis by blast
next
  case (Evict ph t item idx B old)
  then have ?swap
    by (intro exI [of _ "Inl idx"] exI [of _ "Inr t"])
      (auto simp: owns_def fun_eq_iff nth_opt_update dest: nth_opt_less split: sum.splits)
  then show ?thesis by blast
next
  case (Discard ph t item idx B)
  then have "owns s' = (owns s)(Inl 0 := owns s (Inl 0), Inl 0 := owns s (Inl 0))"
    by (auto simp: owns_def fun_eq_iff split: sum.splits)
  then have ?swap using Discard by (intro exI [of _ "Inl 0"]) simp
  then show ?thesis by blast
next
  case (Remove ph t item B)
  then have ?leave by (intro exI [of _ t] exI [of _ item]) (auto simp: owns_def fun_eq_iff split: sum.splits)
  then show ?thesis by blast
qed

lemma step_slots: "bset_step n s s' \<Longrightarrow> length (bset_slots (fst s')) = length (bset_slots (fst s))"
  by (induction rule: bset_step.induct) auto

lemma step_owned:
  assumes "bset_step n s s'" "owned_once n s"
  shows "owned_once n s'"
proof -
  have s: "distinct (bset_items (fst s))" "set (bset_items (fst s)) = ran (owns s)" "single_owner (owns s)"
    using assms(2) by (auto simp: owned_once_def)
  have "length (bset_slots (fst s')) = n" using step_slots [OF assms(1)] assms(2) by (simp add: owned_once_def)
  moreover have "distinct (bset_items (fst s')) \<and> set (bset_items (fst s')) = ran (owns s') \<and> single_owner (owns s')"
    using step_owns [OF assms(1)]
  proof (elim disjE exE conjE)
    fix t item assume e: "owns s' = (owns s)(Inr t := Some item)" "owns s (Inr t) = None"
      "item \<notin> set (bset_items (fst s))" "bset_items (fst s') = bset_items (fst s) @ [item]"
    then show ?thesis using s enter_single [OF s(3)] by (simp add: ran_map_upd)
  next
    fix a b assume e: "owns s' = (owns s)(a := owns s b, b := owns s a)" "bset_items (fst s') = bset_items (fst s)"
    show ?thesis unfolding e swap_ran using s swap_single [OF s(3)] by blast
  next
    fix t item assume e: "owns s' = (owns s)(Inr t := None)" "owns s (Inr t) = Some item"
      "bset_items (fst s') = remove1 item (bset_items (fst s))"
    then show ?thesis using s leave_ran [OF s(3)] leave_single [OF s(3)] by (simp add: set_remove1_eq)
  qed
  ultimately show ?thesis by (simp add: owned_once_def)
qed

lemma owns_start: "owns (bset_new n, \<lambda>_. Idle) = (\<lambda>_. None)"
  by (auto simp: owns_def bset_new_def nth_opt_replicate fun_eq_iff split: sum.splits)

lemma start_owned: "owned_once n (bset_new n, \<lambda>_. Idle)"
  unfolding owned_once_def owns_start by (simp add: bset_new_def single_owner_def)

lemma reachable_owned: "bset_reachable n s \<Longrightarrow> owned_once n s"
  by (induction rule: bset_reachable.induct) (auto intro: start_owned step_owned)

lemma card_slot_values: "card {x. Some x \<in> set xs} \<le> length xs"
proof (induction xs)
  case (Cons v xs)
  show ?case
  proof (cases v)
    case (Some y)
    then have "{x. Some x \<in> set (v # xs)} = insert y {x. Some x \<in> set xs}" by auto
    then show ?thesis using Cons card_insert_le_m1 [of "Suc (length xs)" "{x. Some x \<in> set xs}" y] by simp
  qed (use Cons in simp)
qed simp

text \<open>C15: The bounded set is memory safe under any interleaving of inserts: in every state that any number of
  threads can reach, each item of the set is owned by exactly one slot or one thread, and
  whenever no insert is under way the set holds at most \<open>n\<close> items, those of the slots.\<close>

theorem bounded_set_ownership:
  assumes "bset_reachable n s"
  shows "distinct (bset_items (fst s)) \<and> set (bset_items (fst s)) = ran (owns s) \<and> single_owner (owns s)
    \<and> ((\<forall>t. snd s t = Idle) \<longrightarrow>
         set (bset_items (fst s)) = {x. Some x \<in> set (bset_slots (fst s))} \<and> length (bset_items (fst s)) \<le> n)"
proof -
  have o1: "owned_once n s" using assms by (rule reachable_owned)
  have "set (bset_items (fst s)) = {x. Some x \<in> set (bset_slots (fst s))} \<and> length (bset_items (fst s)) \<le> n"
    if idle: "\<forall>t. snd s t = Idle"
  proof -
    have "x \<in> ran (owns s) \<longleftrightarrow> Some x \<in> set (bset_slots (fst s))" for x
    proof
      assume "x \<in> ran (owns s)"
      then obtain o1 where "owns s o1 = Some x" by (auto simp: ran_def)
      then obtain i where "o1 = Inl i" "nth_opt (bset_slots (fst s)) i = Some (Some x)"
        using idle by (auto simp: owns_def split: sum.splits option.splits)
      then show "Some x \<in> set (bset_slots (fst s))" by (auto simp: nth_opt_Some in_set_conv_nth)
    next
      assume "Some x \<in> set (bset_slots (fst s))"
      then obtain i where "nth_opt (bset_slots (fst s)) i = Some (Some x)" by (auto simp: nth_opt_Some in_set_conv_nth)
      then have "owns s (Inl i) = Some x" by (simp add: owns_def)
      then show "x \<in> ran (owns s)" by (auto simp: ran_def)
    qed
    then have "ran (owns s) = {x. Some x \<in> set (bset_slots (fst s))}" by blast
    then show ?thesis using o1 card_slot_values [of "bset_slots (fst s)"]
      by (simp add: owned_once_def flip: distinct_card)
  qed
  then show ?thesis using o1 by (auto simp: owned_once_def)
qed

theorem bounded_set_ownership_witness:
  "single_owner (owns (bset_new 1\<lparr>bset_items := [''a'']\<rparr>, (\<lambda>_. Idle)(0 := Entered ''a'')))"
proof -
  have "bset_reachable 1 (bset_new 1\<lparr>bset_items := [''a'']\<rparr>, (\<lambda>_. Idle)(0 := Entered ''a''))"
    using Step [OF Start, OF Enter [of 1 "\<lambda>_. Idle" 0 "''a''" "bset_new 1"]] by (simp add: bset_new_def)
  from bounded_set_ownership [OF this] show ?thesis by simp
qed

section \<open>Sequential inserts\<close>

text \<open>While no other thread runs, the slots are filled from the front and the set is what the iterator sees.\<close>

definition sample_of :: "nat \<Rightarrow> 'a set \<Rightarrow> 'a bounded_set \<Rightarrow> 'a list \<Rightarrow> bool" where
  "sample_of n S B vs \<longleftrightarrow>
     bset_slots B = map Some vs @ replicate (n - length vs) None \<and> length vs \<le> n \<and> distinct vs
     \<and> distinct (bset_items B) \<and> set (bset_items B) = set vs \<and> set vs \<subseteq> S
     \<and> (length vs < n \<longrightarrow> unat (bset_counter B) = length vs \<and> set vs = S)"

lemma iter_slots_filled: "iter_slots (map Some vs @ replicate m None) = vs"
  by (induction vs) (cases m, simp_all)

lemma nth_opt_filled: "nth_opt (map Some vs @ replicate m None) i =
    (if i < length vs then Some (Some (vs ! i)) else if i < length vs + m then Some None else None)"
proof (induction vs arbitrary: i)
  case (Cons v vs)
  then show ?case by (cases i) auto
qed (simp add: nth_opt_replicate)

lemma sample_insert:
  assumes "sample_of n S B vs" "draw \<le> n" "0 < n" "n < 2 ^ 32"
  shows "\<exists>vs'. sample_of n (insert item S) (bset_insert n draw item B) vs'"
proof (cases "item \<in> set (bset_items B)")
  case True
  then have "sample_of n (insert item S) (bset_insert n draw item B) vs"
    using assms(1) by (auto simp: bset_insert_def sample_of_def insert_absorb)
  then show ?thesis by blast
next
  case new: False
  have slots: "bset_slots B = map Some vs @ replicate (n - length vs) None" "length vs \<le> n" "distinct vs"
    "distinct (bset_items B)" "set (bset_items B) = set vs" "set vs \<subseteq> S" using assms(1) by (auto simp: sample_of_def)
  show ?thesis
  proof (cases "length vs < n")
    case True
    then have count: "unat (bset_counter B) = length vs" "set vs = S" using assms(1) by (auto simp: sample_of_def)
    have count': "unat (bset_counter B + 1) = Suc (length vs)"
      using count(1) True assms(4) by (simp add: unat_add_lem [THEN iffD1])
    have split: "replicate (n - length vs) None = None # replicate (n - Suc (length vs)) None" for x
      using True by (simp add: Suc_diff_Suc flip: replicate_Suc)
    have "(bset_slots B)[length vs := Some item] = map Some (vs @ [item]) @ replicate (n - Suc (length vs)) None"
      by (simp add: slots(1) split list_update_append)
    then have "sample_of n (insert item S) (bset_insert n draw item B) (vs @ [item])"
      using True new assms(3) slots count count'
      by (auto simp: bset_insert_def sample_of_def pick_slot_def Let_def nth_opt_filled)
    then show ?thesis by blast
  next
    case False
    then have full: "length vs = n" "bset_slots B = map Some vs" using slots by simp_all
    define idx where "idx = pick_slot n draw B"
    have idx: "idx \<le> n" using assms(2) by (simp add: idx_def pick_slot_def Let_def)
    show ?thesis
    proof (cases "idx < n")
      case True
      have "distinct (vs[idx := item])" using slots(3,5) new by (simp add: distinct_list_update)
      moreover have "set (vs[idx := item]) = insert item (set vs - {vs ! idx})"
        using True full(1) slots(3) by (simp add: set_update_distinct)
      ultimately have "sample_of n (insert item S) (bset_insert n draw item B) (vs[idx := item])"
        using True new assms(3) slots full nth_opt_filled [of vs 0 idx]
        by (auto simp: bset_insert_def sample_of_def Let_def idx_def [symmetric] map_update set_remove1_eq)
      then show ?thesis by blast
    next
      case False
      then have "nth_opt (bset_slots B) idx = None" using idx full nth_opt_filled [of vs 0 idx] by simp
      then have "sample_of n (insert item S) (bset_insert n draw item B) vs"
        using new assms(3) slots full
        by (auto simp: bset_insert_def sample_of_def Let_def idx_def [symmetric] set_remove1_eq remove1_append)
      then show ?thesis by blast
    qed
  qed
qed

text \<open>The bounded set is a sample: after any inserts, one after another and with any draws, the iterator
  yields at most \<open>n\<close> different items, all of them inserted before, and every inserted item as long
  as no more than \<open>n\<close> different ones were.\<close>

lemma bounded_set_sample:
  fixes inserts :: "(nat \<times> 'a) list" and n :: nat
  defines "S \<equiv> snd ` set inserts"
    and "vs \<equiv> bset_iter (fold (\<lambda>(draw, item). bset_insert n draw item) inserts (bset_new n))"
  assumes "list_all (\<lambda>(draw, _). draw \<le> n) inserts" "0 < n" "n < 2 ^ 32"
  shows "distinct vs \<and> length vs \<le> n \<and> set vs \<subseteq> S \<and> (card S \<le> n \<longrightarrow> set vs = S)"
proof -
  have run: "sample_of n S0 B us \<Longrightarrow> list_all (\<lambda>(draw, _). draw \<le> n) ins \<Longrightarrow>
      \<exists>ws. sample_of n (S0 \<union> snd ` set ins) (fold (\<lambda>(draw, item). bset_insert n draw item) ins B) ws"
    for S0 B us and ins :: "(nat \<times> 'a) list"
  proof (induction ins arbitrary: S0 B us)
    case (Cons p ins)
    obtain draw item where p: "p = (draw, item)" by (cases p)
    obtain us' where "sample_of n (insert item S0) (bset_insert n draw item B) us'"
      using sample_insert [OF Cons.prems(1) _ assms(4,5)] Cons.prems(2) by (auto simp: p)
    from Cons.IH [OF this] Cons.prems(2) show ?case by (simp add: p)
  qed auto
  have "sample_of n {} (bset_new n) ([] :: 'a list)" by (simp add: sample_of_def bset_new_def)
  from run [OF this assms(3)] obtain ws
    where ws: "sample_of n S (fold (\<lambda>(draw, item). bset_insert n draw item) inserts (bset_new n)) ws"
    by (auto simp: S_def)
  then have "vs = ws" by (simp add: vs_def bset_iter_def sample_of_def iter_slots_filled)
  moreover have "set ws = S" if "card S \<le> n"
  proof (cases "length ws < n")
    case False
    then have "card (set ws) = n" using ws by (simp add: sample_of_def distinct_card)
    then show ?thesis using that ws by (intro card_seteq) (auto simp: S_def sample_of_def)
  qed (use ws in \<open>simp add: sample_of_def\<close>)
  ultimately show ?thesis using ws by (auto simp: sample_of_def)
qed

theorem bounded_set_sample_witness:
  "set (bset_iter (fold (\<lambda>(draw, item). bset_insert 2 draw item) [(0, ''a''), (2, ''b''), (0, ''a'')] (bset_new 2))) = {''a'', ''b''}"
proof -
  let ?ins = "[(0 :: nat, ''a''), (2, ''b''), (0, ''a'')]"
  have "set (bset_iter (fold (\<lambda>(draw, item). bset_insert 2 draw item) ?ins (bset_new 2))) = snd ` set ?ins"
    by (rule bounded_set_sample [THEN conjunct2, THEN conjunct2, THEN conjunct2, THEN mp]) (simp_all add: card_insert_if)
  then show ?thesis by (simp only:) auto
qed

end
