(* ===== verification/Assign_Log.thy ===== *)
theory Assign_Log
  imports Apply_Dedup
begin

text \<open>
  The queue of assignment events (\<open>confidence-resolver/src/assign_logger.rs\<close>): the event built
  from the flags to apply, and the checkpoints that move events into a request up to a byte
  limit. The encoded sizes of messages are parameters. The lock-free queue is the list of its
  elements, \<open>usize\<close> saturates at the 32-bit maximum of the WebAssembly build.
\<close>

section \<open>Building events\<close>

definition default_reason :: "int \<Rightarrow> int" where
  [model_defs]: "default_reason reason =
     (if reason = reason_number RNoSegmentMatch then 1
      else if reason = reason_number RNoTreatmentMatch then 2
      else if reason = reason_number RFlagArchived then 3
      else 0)"

definition applied_event_of :: "flag_to_apply \<Rightarrow> applied_event" where
  [model_defs]: "applied_event_of fta =
     (let f = fta_assigned_flag fta;
          assignment =
            (if af_variant f \<noteq> [] then Some (AssignmentInfo (af_segment f) (af_variant f))
             else Some (DefaultAssignment (default_reason (af_reason f)))) in
      \<lparr>ae_flag = af_flag f, ae_targeting_key = af_targeting_key f,
       ae_targeting_key_selector = af_targeting_key_selector f, ae_assignment = assignment,
       ae_assignment_id = af_assignment_id f, ae_rule = af_rule f,
       ae_fallthrough_assignments = af_fallthrough_assignments f,
       ae_apply_time = Some (fta_applied_time fta)\<rparr>)"

definition build_flag_assigned :: "string \<Rightarrow> flag_to_apply list \<Rightarrow> client \<Rightarrow> sdk option \<Rightarrow> flag_assigned" where
  [model_defs]: "build_flag_assigned resolve_id assigned_flags client sdk =
     \<lparr>fg_resolve_id = resolve_id,
      fg_client_info = Some \<lparr>ci_client = client_name client, ci_client_credential = client_credential_name client,
        ci_sdk = sdk\<rparr>,
      fg_flags = map applied_event_of assigned_flags\<rparr>"

section \<open>The logger\<close>

record wire =
  flag_assigned_len :: "flag_assigned \<Rightarrow> nat"
  log_request_len :: "log_request \<Rightarrow> nat"
  length_delimiter_len :: "nat \<Rightarrow> nat"

record assign_logger =
  al_assigned :: "flag_assigned list"
  al_pending :: "(flag_assigned \<times> nat) list"
  al_pending_bytes :: nat

definition assign_logger_new :: assign_logger where
  [model_defs]: "assign_logger_new = \<lparr>al_assigned = [], al_pending = [], al_pending_bytes = 0\<rparr>"

definition log_assigns :: "string \<Rightarrow> flag_to_apply list \<Rightarrow> client \<Rightarrow> sdk option \<Rightarrow> assign_logger \<Rightarrow> assign_logger" where
  [model_defs]: "log_assigns resolve_id assigned_flags client sdk A =
     A\<lparr>al_assigned := al_assigned A @ [build_flag_assigned resolve_id assigned_flags client sdk]\<rparr>"

definition event_len :: "wire \<Rightarrow> flag_assigned \<Rightarrow> nat" where
  [model_defs]: "event_len W assigned =
     (let len = flag_assigned_len W assigned in usize_add (usize_add len (length_delimiter_len W len)) 1)"

text \<open>The first loop takes events from the queue until the limit is reached.\<close>

fun take_events :: "wire \<Rightarrow> nat \<Rightarrow> flag_assigned list \<Rightarrow> (flag_assigned \<times> nat) list \<Rightarrow> nat \<Rightarrow>
    flag_assigned list \<times> (flag_assigned \<times> nat) list \<times> nat" where
  "take_events W limit [] waiting pending_bytes = ([], waiting, pending_bytes)"
| "take_events W limit (assigned # queue) waiting pending_bytes =
     (if pending_bytes < limit then
        let len = event_len W assigned in
        take_events W limit queue (waiting @ [(assigned, len)]) (usize_add pending_bytes len)
      else (assigned # queue, waiting, pending_bytes))"

text \<open>The second loop moves pending events into the request.\<close>

fun write_events :: "nat \<Rightarrow> nat \<Rightarrow> nat \<Rightarrow> (flag_assigned \<times> nat) list \<Rightarrow> flag_assigned list \<Rightarrow>
    nat \<times> (flag_assigned \<times> nat) list \<times> flag_assigned list" where
  "write_events limit start written [] out = (written, [], out)"
| "write_events limit start written ((assigned, len) # waiting) out =
     (if usize_add written len \<le> limit \<or> written = 0 \<and> start = 0 then
        write_events limit start (usize_add written len) waiting (out @ [assigned])
      else (written, (assigned, len) # waiting, out))"

definition checkpoint_fill_with_limit :: "wire \<Rightarrow> nat \<Rightarrow> bool \<Rightarrow> log_request \<Rightarrow> assign_logger \<Rightarrow> nat \<times> log_request \<times> assign_logger" where
  [model_defs]: "checkpoint_fill_with_limit W limit_bytes require_full req A =
     (let start = log_request_len W req;
          limit_bytes = limit_bytes - start;
          (queue, waiting, pending_bytes) = take_events W limit_bytes (al_assigned A) (al_pending A) (al_pending_bytes A) in
      if limit_bytes \<le> pending_bytes \<or> \<not> require_full then
        (let (written, waiting, out) = write_events limit_bytes start 0 waiting (lr_flag_assigned req) in
         (written, req\<lparr>lr_flag_assigned := out\<rparr>,
          A\<lparr>al_assigned := queue, al_pending := waiting, al_pending_bytes := pending_bytes - written\<rparr>))
      else (0, req, A\<lparr>al_assigned := queue, al_pending := waiting, al_pending_bytes := pending_bytes\<rparr>))"

definition checkpoint_fill :: "wire \<Rightarrow> log_request \<Rightarrow> assign_logger \<Rightarrow> nat \<times> log_request \<times> assign_logger" where
  [model_defs]: "checkpoint_fill W req A = checkpoint_fill_with_limit W USIZE_MAX False req A"

definition assign_checkpoint :: "wire \<Rightarrow> assign_logger \<Rightarrow> log_request \<times> assign_logger" where
  [model_defs]: "assign_checkpoint W A = snd (checkpoint_fill W log_request_default A)"

definition checkpoint_with_limit :: "wire \<Rightarrow> nat \<Rightarrow> bool \<Rightarrow> assign_logger \<Rightarrow> log_request \<times> assign_logger" where
  [model_defs]: "checkpoint_with_limit W limit_bytes require_full A =
     snd (checkpoint_fill_with_limit W limit_bytes require_full log_request_default A)"

section \<open>Properties\<close>

text \<open>The events a logger still holds, oldest first.\<close>

definition held_events :: "assign_logger \<Rightarrow> flag_assigned list" where
  "held_events A = map fst (al_pending A) @ al_assigned A"

definition waiting_total :: "(flag_assigned \<times> nat) list \<Rightarrow> nat" where
  "waiting_total ps = sum_list (map snd ps)"

definition size_of :: "wire \<Rightarrow> flag_assigned list \<Rightarrow> nat" where
  "size_of W as = sum_list (map (event_len W) as)"

text \<open>
  The pending events carry their sizes and the byte count is their sum; the events held fit
  the address space, so no size saturates.
\<close>

definition logger_inv :: "wire \<Rightarrow> assign_logger \<Rightarrow> bool" where
  "logger_inv W A \<longleftrightarrow> list_all (\<lambda>(a, len). len = event_len W a) (al_pending A)
     \<and> al_pending_bytes A = size_of W (map fst (al_pending A)) \<and> size_of W (held_events A) \<le> USIZE_MAX"

lemma size_of_simps [simp]:
  "size_of W [] = 0" "size_of W (a # as) = event_len W a + size_of W as" "size_of W (as @ bs) = size_of W as + size_of W bs"
  by (simp_all add: size_of_def)

lemma event_len_pos: "0 < event_len W a"
  by (simp add: event_len_def usize_add_def USIZE_MAX_def Let_def)

lemma usize_add_id: "a + b \<le> USIZE_MAX \<Longrightarrow> usize_add a b = a + b"
  by (simp add: usize_add_def)

lemma take_events_result:
  "take_events W limit queue waiting pb = (queue', waiting', pb') \<Longrightarrow>
     list_all (\<lambda>(a, len). len = event_len W a) waiting \<Longrightarrow> pb = size_of W (map fst waiting) \<Longrightarrow>
     size_of W (map fst waiting @ queue) \<le> USIZE_MAX \<Longrightarrow>
     map fst waiting' @ queue' = map fst waiting @ queue
     \<and> list_all (\<lambda>(a, len). len = event_len W a) waiting' \<and> pb' = size_of W (map fst waiting')
     \<and> (limit \<le> pb' \<or> queue' = [])"
  by (induction W limit queue waiting pb rule: take_events.induct)
    (auto simp: Let_def usize_add_id split: if_splits)

lemma write_events_result:
  "write_events limit start written waiting out = (w, waiting', out') \<Longrightarrow>
     list_all (\<lambda>(a, len). len = event_len W a) waiting \<Longrightarrow> written + size_of W (map fst waiting) \<le> USIZE_MAX \<Longrightarrow>
     \<exists>moved. map fst waiting = moved @ map fst waiting' \<and> out' = out @ moved \<and> w = written + size_of W moved
       \<and> list_all (\<lambda>(a, len). len = event_len W a) waiting'
       \<and> (w \<le> limit \<or> moved = [] \<or> written = 0 \<and> start = 0 \<and> length moved = 1)
       \<and> (waiting' = [] \<or> start \<noteq> 0 \<or> written \<noteq> 0 \<or> moved \<noteq> [])"
proof (induction limit start written waiting out rule: write_events.induct)
  case (2 limit start written a len waiting out)
  have len: "len = event_len W a" "0 < len" using "2.prems"(2) event_len_pos by auto
  have add: "usize_add written len = written + len" using "2.prems"(3) len by (simp add: usize_add_id)
  show ?case
  proof (cases "written + len \<le> limit \<or> written = 0 \<and> start = 0")
    case True
    then have run: "write_events limit start (written + len) waiting (out @ [a]) = (w, waiting', out')"
      using "2.prems"(1) by (simp add: add)
    have "written + len + size_of W (map fst waiting) \<le> USIZE_MAX" using "2.prems"(3) len by simp
    with "2.IH" [unfolded add, OF True run] "2.prems"(2) obtain moved where
      m: "map fst waiting = moved @ map fst waiting'" "out' = (out @ [a]) @ moved" "w = written + len + size_of W moved"
        "list_all (\<lambda>(a, len). len = event_len W a) waiting'" "w \<le> limit \<or> moved = []"
      using len(2) by auto
    have "w \<le> limit \<or> written = 0 \<and> start = 0 \<and> length (a # moved) = 1"
      using m(3,5) True by auto
    then show ?thesis using m len by (intro exI [of _ "a # moved"]) auto
  next
    case False
    then show ?thesis using "2.prems" by (intro exI [of _ "[]"]) (auto simp: add)
  qed
qed (auto intro!: exI [of _ "[]"])

text \<open>C16: A checkpoint neither loses, repeats nor reorders an event: the events of the request and then
  those still held are the request's earlier ones and then those held before. The events
  moved are within the byte limit, unless the first of an empty request alone exceeds it, and an
  empty request is never left empty while events are held and a full batch is not required.\<close>

theorem checkpoint_conserves:
  assumes "logger_inv W A"
    and "checkpoint_fill_with_limit W limit_bytes require_full req A = (written, req', A')"
  shows "logger_inv W A' \<and> (\<exists>moved. lr_flag_assigned req' = lr_flag_assigned req @ moved \<and> held_events A = moved @ held_events A'
    \<and> written = size_of W moved
    \<and> (written \<le> limit_bytes - log_request_len W req \<or> log_request_len W req = 0 \<and> length moved = 1)
    \<and> (log_request_len W req = 0 \<and> 0 < limit_bytes \<and> \<not> require_full \<and> held_events A \<noteq> [] \<longrightarrow> moved \<noteq> []))"
proof -
  let ?start = "log_request_len W req" and ?limit = "limit_bytes - log_request_len W req"
  have inv: "list_all (\<lambda>(a, len). len = event_len W a) (al_pending A)" "al_pending_bytes A = size_of W (map fst (al_pending A))"
    "size_of W (map fst (al_pending A) @ al_assigned A) \<le> USIZE_MAX"
    using assms(1) by (auto simp: logger_inv_def held_events_def)
  obtain queue waiting pb where t: "take_events W ?limit (al_assigned A) (al_pending A) (al_pending_bytes A) = (queue, waiting, pb)"
    by (cases "take_events W ?limit (al_assigned A) (al_pending A) (al_pending_bytes A)")
  note r = take_events_result [OF t inv]
  show ?thesis
  proof (cases "?limit \<le> pb \<or> \<not> require_full")
    case False
    then have "written = 0" "req' = req" "A' = A\<lparr>al_assigned := queue, al_pending := waiting, al_pending_bytes := pb\<rparr>"
      using assms(2) t by (simp_all add: checkpoint_fill_with_limit_def Let_def)
    then show ?thesis using r inv(3) False by (auto simp: logger_inv_def held_events_def)
  next
    case True
    obtain w waiting' out where wr: "write_events ?limit ?start 0 waiting (lr_flag_assigned req) = (w, waiting', out)"
      by (cases "write_events ?limit ?start 0 waiting (lr_flag_assigned req)")
    have res: "written = w" "lr_flag_assigned req' = out"
      "A' = A\<lparr>al_assigned := queue, al_pending := waiting', al_pending_bytes := pb - w\<rparr>"
      using assms(2) t wr True by (auto simp: checkpoint_fill_with_limit_def Let_def)
    have "size_of W (map fst waiting @ queue) \<le> USIZE_MAX" using r inv(3) by metis
    then have "0 + size_of W (map fst waiting) \<le> USIZE_MAX" by simp
    then obtain moved where m: "map fst waiting = moved @ map fst waiting'" "out = lr_flag_assigned req @ moved" "w = 0 + size_of W moved"
      "list_all (\<lambda>(a, len). len = event_len W a) waiting'"
      "w \<le> ?limit \<or> moved = [] \<or> ?start = 0 \<and> length moved = 1" "waiting' = [] \<or> ?start \<noteq> 0 \<or> moved \<noteq> []"
      using write_events_result [OF wr] r by blast
    have held: "held_events A = moved @ held_events A'" "size_of W (held_events A) \<le> USIZE_MAX"
      using r m(1) inv(3) by (auto simp: held_events_def res)
    have "logger_inv W A'"
      using m r held by (auto simp: logger_inv_def res)
    moreover have "moved \<noteq> []" if "?start = 0" "0 < limit_bytes" "held_events A \<noteq> []"
    proof
      assume "moved = []"
      then have "waiting = []" using m(1,6) that(1) by auto
      then have "pb = 0" "queue \<noteq> []" using r that(3) by (auto simp: held_events_def)
      then show False using r that by simp
    qed
    ultimately show ?thesis using held m res by (intro conjI exI [of _ moved]) auto
  qed
qed

definition example_wire :: wire where
  "example_wire = \<lparr>flag_assigned_len = (\<lambda>a. 10 * length (fg_flags a)), log_request_len = (\<lambda>r. length (lr_flag_assigned r)),
     length_delimiter_len = (\<lambda>n. if n < 128 then 1 else 2)\<rparr>"

theorem checkpoint_conserves_witness:
  "\<exists>moved A'. lr_flag_assigned (fst (checkpoint_with_limit example_wire 5 False
        (log_assigns ''r'' [] example_client None (log_assigns ''q'' [] example_client None assign_logger_new)))) = moved
     \<and> moved \<noteq> [] \<and> moved @ held_events A' = [build_flag_assigned ''q'' [] example_client None, build_flag_assigned ''r'' [] example_client None]"
proof -
  let ?A = "log_assigns ''r'' [] example_client None (log_assigns ''q'' [] example_client None assign_logger_new)"
  obtain w req A' where run: "checkpoint_fill_with_limit example_wire 5 False log_request_default ?A = (w, req, A')"
    by (cases "checkpoint_fill_with_limit example_wire 5 False log_request_default ?A")
  have "logger_inv example_wire ?A"
    by (simp add: logger_inv_def log_assigns_def assign_logger_new_def held_events_def event_len_def usize_add_def
        USIZE_MAX_def example_wire_def build_flag_assigned_def)
  from checkpoint_conserves [OF this run] obtain moved where "lr_flag_assigned req = moved" "held_events ?A = moved @ held_events A'" "moved \<noteq> []"
    by (auto simp: example_wire_def log_request_default_def held_events_def log_assigns_def assign_logger_new_def)
  then show ?thesis using run
    by (intro exI [of _ moved] exI [of _ A'])
      (simp add: checkpoint_with_limit_def held_events_def [of ?A], simp add: log_assigns_def assign_logger_new_def)
qed

text \<open>
  The key of an event and the key of the flag it was built from agree exactly for variant matches,
  and for flags without variant and segment whose reason has a default assignment reason; a
  client default match, which keeps its segment, has another key in the event pipeline.
\<close>

lemma event_key_agrees:
  "ref_of_event (applied_event_of fta) = ref_of_assigned (fta_assigned_flag fta) \<longleftrightarrow>
     (af_variant (fta_assigned_flag fta) \<noteq> [] \<and> af_reason (fta_assigned_flag fta) = reason_number RMatch)
     \<or> (af_variant (fta_assigned_flag fta) = [] \<and> af_segment (fta_assigned_flag fta) = []
        \<and> af_reason (fta_assigned_flag fta) \<in> {reason_number RUnspecified, reason_number RNoSegmentMatch,
             reason_number RNoTreatmentMatch, reason_number RFlagArchived})"
  by (auto simp: ref_of_event_def applied_event_of_def ref_of_assigned_def default_reason_def
      default_assignment_reason_to_resolve_reason_def Let_def)

end
