(* ===== verification/Flag_Log_Aggregation.thy ===== *)
theory Flag_Log_Aggregation
  imports Log_Messages "HOL-Library.Product_Lexorder"
begin

text \<open>
  The aggregation of a batch of log requests into one
  (\<open>confidence-resolver/src/flag_logger.rs\<close>): schemas by client credential, counters by
  flag, rule and variant, the assignment events, and the telemetry deltas.
\<close>

section \<open>Telemetry\<close>

text \<open>\<open>iter_mut().find(p)\<close> followed by an update of what was found; \<open>None\<close> when nothing was.\<close>

fun update_first :: "('a \<Rightarrow> bool) \<Rightarrow> ('a \<Rightarrow> 'a) \<Rightarrow> 'a list \<Rightarrow> 'a list option" where
  "update_first P f [] = None"
| "update_first P f (x # xs) = (if P x then Some (f x # xs) else map_option ((#) x) (update_first P f xs))"

text \<open>\<open>partition_point\<close> on a list that the predicate splits into a prefix and a suffix, and \<open>Vec::insert\<close>.\<close>

definition partition_point :: "('a \<Rightarrow> bool) \<Rightarrow> 'a list \<Rightarrow> nat" where
  [model_defs]: "partition_point P xs = length (takeWhile P xs)"

definition vec_insert :: "nat \<Rightarrow> 'a \<Rightarrow> 'a list \<Rightarrow> 'a list" where
  [model_defs]: "vec_insert i x xs = take i xs @ x # drop i xs"

definition merge_latency :: "resolve_latency option \<Rightarrow> resolve_latency option \<Rightarrow> resolve_latency option" where
  [model_defs]: "merge_latency acc delta =
     (case (acc, delta) of
        (Some a, Some d) \<Rightarrow>
          Some \<lparr>rl_sum = rl_sum a + rl_sum d, rl_count = rl_count a + rl_count d,
                rl_buckets = rl_buckets a @ rl_buckets d,
                rl_ln_ratio = (if f64_eq (rl_ln_ratio a) 0 then rl_ln_ratio d else rl_ln_ratio a)\<rparr>
      | (None, Some d) \<Rightarrow> Some d
      | _ \<Rightarrow> acc)"

definition merge_rate :: "resolve_rate \<Rightarrow> resolve_rate list \<Rightarrow> resolve_rate list" where
  [model_defs]: "merge_rate dr rates =
     (case update_first (\<lambda>r. rr_reason r = rr_reason dr) (\<lambda>ar. ar\<lparr>rr_count := rr_count ar + rr_count dr\<rparr>) rates of
        Some rates' \<Rightarrow> rates'
      | None \<Rightarrow> rates @ [\<lparr>rr_count = rr_count dr, rr_reason = rr_reason dr\<rparr>])"

definition merge_init :: "provider_init \<Rightarrow> provider_init list \<Rightarrow> provider_init list" where
  [model_defs]: "merge_init dp entries =
     (case update_first (\<lambda>e. pi_labels e = pi_labels dp) (\<lambda>e. e\<lparr>pi_count := pi_count e + pi_count dp\<rparr>) entries of
        Some entries' \<Rightarrow> entries'
      | None \<Rightarrow> vec_insert (partition_point (\<lambda>e. pi_labels e < pi_labels dp) entries) dp entries)"

definition merge_dedup :: "dedup_telemetry option \<Rightarrow> dedup_telemetry option \<Rightarrow> dedup_telemetry option" where
  [model_defs]: "merge_dedup acc delta =
     (case (acc, delta) of
        (Some a, Some d) \<Rightarrow>
          Some \<lparr>dt_applies_total = dt_applies_total a + dt_applies_total d,
                dt_applies_deduped = dt_applies_deduped a + dt_applies_deduped d,
                dt_overflow = dt_overflow a + dt_overflow d, dt_sweeps = dt_sweeps a + dt_sweeps d,
                dt_map_size = dt_map_size d, dt_map_capacity = dt_map_capacity d\<rparr>
      | (None, Some d) \<Rightarrow> Some d
      | _ \<Rightarrow> acc)"

definition merge_flush :: "flush_telemetry option \<Rightarrow> flush_telemetry option \<Rightarrow> flush_telemetry option" where
  [model_defs]: "merge_flush acc delta =
     (case (acc, delta) of
        (Some a, Some d) \<Rightarrow>
          Some \<lparr>ft_succeeded = ft_succeeded a + ft_succeeded d, ft_failed = ft_failed a + ft_failed d\<rparr>
      | (None, Some d) \<Rightarrow> Some d
      | _ \<Rightarrow> acc)"

definition merge_events :: "events_telemetry option \<Rightarrow> events_telemetry option \<Rightarrow> events_telemetry option" where
  [model_defs]: "merge_events acc delta =
     (case (acc, delta) of
        (Some a, Some d) \<Rightarrow>
          Some \<lparr>et_published = et_published a + et_published d,
                et_batches_succeeded = et_batches_succeeded a + et_batches_succeeded d,
                et_batches_failed = et_batches_failed a + et_batches_failed d,
                et_events_rejected = et_events_rejected a + et_events_rejected d\<rparr>
      | (None, Some d) \<Rightarrow> Some d
      | _ \<Rightarrow> acc)"

definition merge_telemetry :: "telemetry_data option \<Rightarrow> telemetry_data \<Rightarrow> telemetry_data" where
  [model_defs]: "merge_telemetry acc delta =
     (let acc = (case acc of Some a \<Rightarrow> a | None \<Rightarrow> telemetry_default) in
      acc\<lparr>td_resolve_latency := merge_latency (td_resolve_latency acc) (td_resolve_latency delta),
          td_resolve_rate := fold merge_rate (td_resolve_rate delta) (td_resolve_rate acc),
          td_provider_init_rate := fold merge_init (td_provider_init_rate delta) (td_provider_init_rate acc),
          td_apply_dedup := merge_dedup (td_apply_dedup acc) (td_apply_dedup delta),
          td_flush := merge_flush (td_flush acc) (td_flush delta),
          td_events := merge_events (td_events acc) (td_events delta),
          td_state_age := (case td_state_age delta of Some sa \<Rightarrow> Some sa | None \<Rightarrow> td_state_age acc),
          td_memory_bytes := (if 0 < td_memory_bytes delta then td_memory_bytes delta else td_memory_bytes acc),
          td_resolver_version :=
            (if td_resolver_version delta \<noteq> [] then td_resolver_version delta else td_resolver_version acc)\<rparr>)"

section \<open>Counters of flags\<close>

record rule_info =
  ri_count :: int
  ri_assignments :: "int fields"

record variant_rule_info =
  vr_rules :: "rule_info fields"
  vr_variants :: "int fields"

definition variant_rule_info_new :: variant_rule_info where
  [model_defs]: "variant_rule_info_new = \<lparr>vr_rules = [], vr_variants = []\<rparr>"

definition count_or_zero :: "int option \<Rightarrow> int" where
  [model_defs]: "count_or_zero c = (case c of None \<Rightarrow> 0 | Some n \<Rightarrow> n)"

definition new_assignment_counts :: "int fields \<Rightarrow> assignment_count list \<Rightarrow> int fields" where
  [model_defs]: "new_assignment_counts current infos =
     fold (\<lambda>aa m. hm_insert (ac_assignment_id aa)
             (i64_saturating_add (count_or_zero (map_of current (ac_assignment_id aa))) (ac_count aa)) m) infos []"

definition update_rule :: "rule_count \<Rightarrow> rule_info fields \<Rightarrow> rule_info fields" where
  [model_defs]: "update_rule info rules =
     (let resolve_count = i64_saturating_add
            (case map_of rules (rc_rule info) of Some i \<Rightarrow> ri_count i | None \<Rightarrow> 0) (rc_count info);
          current_assignments = (case map_of rules (rc_rule info) of Some i \<Rightarrow> ri_assignments i | None \<Rightarrow> []) in
      hm_insert (rc_rule info)
        \<lparr>ri_count = resolve_count, ri_assignments = new_assignment_counts current_assignments (rc_assignments info)\<rparr> rules)"

definition update_variant :: "variant_count \<Rightarrow> int fields \<Rightarrow> int fields" where
  [model_defs]: "update_variant info variants =
     hm_insert (vc_variant info)
       (i64_saturating_add (count_or_zero (map_of variants (vc_variant info))) (vc_count info)) variants"

definition update_rule_variant_info :: "variant_rule_info \<Rightarrow> flag_resolve_info \<Rightarrow> variant_rule_info" where
  [model_defs]: "update_rule_variant_info flag_info info =
     flag_info\<lparr>vr_rules := fold update_rule (fi_rules info) (vr_rules flag_info),
               vr_variants := fold update_variant (fi_variants info) (vr_variants flag_info)\<rparr>"

section \<open>Aggregation\<close>

record schema_item =
  sc_client :: string
  sc_schemas :: "schema_instance list"

record aggregate =
  ag_schemas :: "schema_item fields"
  ag_flags :: "variant_rule_info fields"
  ag_assigned :: "flag_assigned list"
  ag_first_sdk :: "sdk option"
  ag_telemetry :: "telemetry_data option"

definition aggregate_empty :: aggregate where
  [model_defs]: "aggregate_empty = \<lparr>ag_schemas = [], ag_flags = [], ag_assigned = [], ag_first_sdk = None, ag_telemetry = None\<rparr>"

text \<open>\<open>HashSet::insert\<close>.\<close>

definition hs_insert :: "'a \<Rightarrow> 'a list \<Rightarrow> 'a list" where
  [model_defs]: "hs_insert x xs = (if x \<in> set xs then xs else xs @ [x])"

definition add_schemas :: "client_resolve_info \<Rightarrow> schema_item fields \<Rightarrow> schema_item fields" where
  [model_defs]: "add_schemas c schemas =
     (case map_of schemas (cr_client_credential c) of
        Some item \<Rightarrow> hm_insert (cr_client_credential c) (item\<lparr>sc_schemas := fold hs_insert (cr_schema c) (sc_schemas item)\<rparr>) schemas
      | None \<Rightarrow> hm_insert (cr_client_credential c)
          \<lparr>sc_client = cr_client c, sc_schemas = fold hs_insert (cr_schema c) []\<rparr> schemas)"

definition add_flag :: "flag_resolve_info \<Rightarrow> variant_rule_info fields \<Rightarrow> variant_rule_info fields" where
  [model_defs]: "add_flag f flags =
     (let flag_info = (case map_of flags (fi_flag f) of Some i \<Rightarrow> i | None \<Rightarrow> variant_rule_info_new) in
      hm_insert (fi_flag f) (update_rule_variant_info flag_info f) flags)"

definition add_message :: "log_request \<Rightarrow> aggregate \<Rightarrow> aggregate" where
  [model_defs]: "add_message m ag =
     (let ag = (case lr_telemetry_data m of
            None \<Rightarrow> ag
          | Some td \<Rightarrow> ag\<lparr>ag_first_sdk := (if ag_first_sdk ag = None \<and> td_sdk td \<noteq> None then td_sdk td else ag_first_sdk ag),
                         ag_telemetry := Some (merge_telemetry (ag_telemetry ag) td)\<rparr>) in
      ag\<lparr>ag_schemas := fold add_schemas (lr_client_resolve_info m) (ag_schemas ag),
         ag_flags := fold add_flag (lr_flag_resolve_info m) (ag_flags ag),
         ag_assigned := ag_assigned ag @ lr_flag_assigned m\<rparr>)"

definition client_info_of :: "string \<times> schema_item \<Rightarrow> client_resolve_info" where
  [model_defs]: "client_info_of p =
     \<lparr>cr_client = sc_client (snd p), cr_client_credential = fst p, cr_schema = sc_schemas (snd p)\<rparr>"

definition flag_info_of :: "string \<times> variant_rule_info \<Rightarrow> flag_resolve_info" where
  [model_defs]: "flag_info_of p =
     \<lparr>fi_flag = fst p,
      fi_variants = map (\<lambda>(v, n). \<lparr>vc_variant = v, vc_count = n\<rparr>) (vr_variants (snd p)),
      fi_rules = map (\<lambda>(r, i). \<lparr>rc_rule = r, rc_count = ri_count i,
         rc_assignments = map (\<lambda>(a, n). \<lparr>ac_assignment_id = a, ac_count = n\<rparr>) (ri_assignments i)\<rparr>) (vr_rules (snd p))\<rparr>"

definition attach_sdk :: "telemetry_data option \<Rightarrow> sdk option \<Rightarrow> telemetry_data option" where
  [model_defs]: "attach_sdk agg_telemetry first_sdk =
     (case (agg_telemetry, first_sdk) of
        (Some td, s) \<Rightarrow> Some (if td_sdk td = None then td\<lparr>td_sdk := s\<rparr> else td)
      | (None, Some s) \<Rightarrow> Some (telemetry_default\<lparr>td_sdk := Some s\<rparr>)
      | (None, None) \<Rightarrow> None)"

definition aggregate_batch :: "log_request list \<Rightarrow> log_request" where
  [model_defs]: "aggregate_batch message_batch =
     (let ag = fold add_message message_batch aggregate_empty in
      \<lparr>lr_flag_assigned = ag_assigned ag, lr_telemetry_data = attach_sdk (ag_telemetry ag) (ag_first_sdk ag),
       lr_client_resolve_info = map client_info_of (ag_schemas ag),
       lr_flag_resolve_info = map flag_info_of (ag_flags ag)\<rparr>)"

section \<open>Telemetry totals\<close>

text \<open>The counters of a telemetry delta; the merge adds each of them.\<close>

datatype counter =
    LatencySum | LatencyCount | Rate int | Init "string fields"
  | Applies | Deduped | Overflow | Sweeps
  | FlushSucceeded | FlushFailed
  | Published | BatchesSucceeded | BatchesFailed | EventsRejected

fun opt_count :: "('a \<Rightarrow> u32) \<Rightarrow> 'a option \<Rightarrow> u32" where
  "opt_count f None = 0"
| "opt_count f (Some x) = f x"

fun counter_value :: "counter \<Rightarrow> telemetry_data \<Rightarrow> u32" where
  "counter_value LatencySum td = opt_count rl_sum (td_resolve_latency td)"
| "counter_value LatencyCount td = opt_count rl_count (td_resolve_latency td)"
| "counter_value (Rate r) td = sum_list (map (\<lambda>x. if rr_reason x = r then rr_count x else 0) (td_resolve_rate td))"
| "counter_value (Init l) td = sum_list (map (\<lambda>x. if pi_labels x = l then pi_count x else 0) (td_provider_init_rate td))"
| "counter_value Applies td = opt_count dt_applies_total (td_apply_dedup td)"
| "counter_value Deduped td = opt_count dt_applies_deduped (td_apply_dedup td)"
| "counter_value Overflow td = opt_count dt_overflow (td_apply_dedup td)"
| "counter_value Sweeps td = opt_count dt_sweeps (td_apply_dedup td)"
| "counter_value FlushSucceeded td = opt_count ft_succeeded (td_flush td)"
| "counter_value FlushFailed td = opt_count ft_failed (td_flush td)"
| "counter_value Published td = opt_count et_published (td_events td)"
| "counter_value BatchesSucceeded td = opt_count et_batches_succeeded (td_events td)"
| "counter_value BatchesFailed td = opt_count et_batches_failed (td_events td)"
| "counter_value EventsRejected td = opt_count et_events_rejected (td_events td)"

lemma update_first_sum:
  fixes g :: "'a \<Rightarrow> 'w::len word"
  assumes "\<And>x. P x \<Longrightarrow> g (f x) = g x + n"
  shows "update_first P f xs = Some ys \<Longrightarrow> sum_list (map g ys) = sum_list (map g xs) + n"
  using assms by (induction xs arbitrary: ys) (auto split: if_splits simp: algebra_simps)

lemma update_first_None: "update_first P f xs = None \<longleftrightarrow> (\<forall>x \<in> set xs. \<not> P x)"
  by (induction xs) auto

lemma vec_insert_sum: "sum_list (map g (vec_insert i x xs)) = g x + (sum_list (map g xs) :: 'b::comm_monoid_add)"
proof -
  have "sum_list (map g xs) = sum_list (map g (take i xs)) + sum_list (map g (drop i xs))"
    by (metis append_take_drop_id map_append sum_list_append)
  then show ?thesis by (simp add: vec_insert_def ac_simps)
qed

lemma merge_rate_total:
  "sum_list (map (\<lambda>x. if rr_reason x = r then rr_count x else 0) (merge_rate dr rates)) =
     sum_list (map (\<lambda>x. if rr_reason x = r then rr_count x else 0) rates) + (if rr_reason dr = r then rr_count dr else 0)"
proof (cases "update_first (\<lambda>x. rr_reason x = rr_reason dr) (\<lambda>ar. ar\<lparr>rr_count := rr_count ar + rr_count dr\<rparr>) rates")
  case (Some ys)
  from update_first_sum [OF _ this, where g = "\<lambda>x. if rr_reason x = r then rr_count x else 0"
      and n = "if rr_reason dr = r then rr_count dr else 0"] Some
  show ?thesis by (simp add: merge_rate_def)
qed (simp add: merge_rate_def)

lemma merge_init_total:
  "sum_list (map (\<lambda>x. if pi_labels x = l then pi_count x else 0) (merge_init dp entries)) =
     sum_list (map (\<lambda>x. if pi_labels x = l then pi_count x else 0) entries) + (if pi_labels dp = l then pi_count dp else 0)"
proof (cases "update_first (\<lambda>e. pi_labels e = pi_labels dp) (\<lambda>e. e\<lparr>pi_count := pi_count e + pi_count dp\<rparr>) entries")
  case (Some ys)
  from update_first_sum [OF _ this, where g = "\<lambda>x. if pi_labels x = l then pi_count x else 0"
      and n = "if pi_labels dp = l then pi_count dp else 0"] Some
  show ?thesis by (simp add: merge_init_def)
qed (simp add: merge_init_def vec_insert_sum)

lemma merge_rates_total:
  "sum_list (map (\<lambda>x. if rr_reason x = r then rr_count x else 0) (fold merge_rate ds rates)) =
     sum_list (map (\<lambda>x. if rr_reason x = r then rr_count x else 0) rates)
     + sum_list (map (\<lambda>x. if rr_reason x = r then rr_count x else 0) ds)"
  by (induction ds arbitrary: rates) (simp_all add: merge_rate_total add.assoc)

lemma merge_inits_total:
  "sum_list (map (\<lambda>x. if pi_labels x = l then pi_count x else 0) (fold merge_init ds entries)) =
     sum_list (map (\<lambda>x. if pi_labels x = l then pi_count x else 0) entries)
     + sum_list (map (\<lambda>x. if pi_labels x = l then pi_count x else 0) ds)"
  by (induction ds arbitrary: entries) (simp_all add: merge_init_total add.assoc)

definition telemetry_value :: "counter \<Rightarrow> telemetry_data option \<Rightarrow> u32" where
  "telemetry_value c td = opt_count (counter_value c) td"

lemma counter_default [simp]: "counter_value c telemetry_default = 0"
  by (cases c) (simp_all add: telemetry_default_def)

lemma merge_telemetry_value:
  "counter_value c (merge_telemetry acc delta) = telemetry_value c acc + counter_value c delta"
proof -
  have "counter_value c (merge_telemetry (Some a) delta) = counter_value c a + counter_value c delta" for a
    by (cases c)
      (auto simp: merge_telemetry_def Let_def merge_latency_def merge_dedup_def merge_flush_def merge_events_def
        merge_rates_total merge_inits_total split: option.splits)
  moreover have "merge_telemetry None delta = merge_telemetry (Some telemetry_default) delta"
    by (simp add: merge_telemetry_def)
  ultimately show ?thesis by (cases acc) (simp_all add: telemetry_value_def)
qed

definition telemetry_sum :: "counter \<Rightarrow> log_request list \<Rightarrow> u32" where
  "telemetry_sum c ms = sum_list (map (\<lambda>m. telemetry_value c (lr_telemetry_data m)) ms)"

lemma counter_value_sdk [simp]: "counter_value c (td\<lparr>td_sdk := s\<rparr>) = counter_value c td"
  by (cases c) simp_all

lemma telemetry_value_attach [simp]: "telemetry_value c (attach_sdk td s) = telemetry_value c td"
  by (auto simp: telemetry_value_def attach_sdk_def split: option.splits)

lemma add_message_telemetry:
  "telemetry_value c (ag_telemetry (add_message m ag)) =
     telemetry_value c (ag_telemetry ag) + telemetry_value c (lr_telemetry_data m)"
  by (simp add: add_message_def Let_def telemetry_value_def merge_telemetry_value split: option.splits)

lemma add_messages_telemetry:
  "telemetry_value c (ag_telemetry (fold add_message ms ag)) =
     telemetry_value c (ag_telemetry ag) + telemetry_sum c ms"
  by (induction ms arbitrary: ag) (simp_all add: add_message_telemetry telemetry_sum_def add.assoc)

text \<open>Aggregation loses and invents no telemetry. Every counter of the aggregated delta (latency
  sum and count, the resolve rate of each reason, the init rate of each label set, and the dedup,
  flush and event counters) is the sum, modulo 2 to the 32, of that counter over the deltas of the
  batch, wherever the deltas carry it.\<close>

lemma aggregate_telemetry_totals:
  "telemetry_value c (lr_telemetry_data (aggregate_batch ms)) =
     sum_list (map (\<lambda>m. telemetry_value c (lr_telemetry_data m)) ms)"
  by (simp add: aggregate_batch_def Let_def add_messages_telemetry telemetry_sum_def)
    (simp add: aggregate_empty_def telemetry_value_def)

section \<open>Counter totals\<close>

text \<open>
  A fold that adds a non-negative count to a saturating counter of the state for each element
  ends with the clamped total. It is used three times: over the variants or rules of a flag
  report, over the flag reports of a message and over the messages of a batch.
\<close>

lemma clamp_add:
  "0 \<le> a \<Longrightarrow> 0 \<le> b \<Longrightarrow> 0 \<le> c \<Longrightarrow> clamp_i64 (clamp_i64 (a + b) + c) = clamp_i64 (a + b + c)"
  by (simp add: clamp_i64_def)

lemma saturating_fold:
  fixes p :: "'s \<Rightarrow> int" and c :: "'a \<Rightarrow> int"
  assumes "\<And>x s. x \<in> set xs \<Longrightarrow> 0 \<le> p s \<Longrightarrow> i64_value (p s) \<Longrightarrow> p (upd x s) = clamp_i64 (p s + c x)"
    and "\<And>x. x \<in> set xs \<Longrightarrow> 0 \<le> c x" and "0 \<le> p s" "i64_value (p s)"
  shows "p (fold upd xs s) = clamp_i64 (p s + sum_list (map c xs))"
  using assms
proof (induction xs arbitrary: s)
  case Nil
  then show ?case by (simp add: clamp_i64_id)
next
  case (Cons x xs)
  have p: "p (upd x s) = clamp_i64 (p s + c x)" and cx: "0 \<le> c x" using Cons.prems by auto
  have tail: "0 \<le> sum_list (map c xs)" using Cons.prems(2) by (intro sum_list_nonneg) auto
  have "p (fold upd xs (upd x s)) = clamp_i64 (p (upd x s) + sum_list (map c xs))"
  proof (rule Cons.IH)
    show "0 \<le> p (upd x s)" using Cons.prems(3) cx by (simp add: p clamp_i64_def)
    show "i64_value (p (upd x s))" by (simp add: p)
  qed (use Cons.prems in auto)
  then show ?case using Cons.prems(3) cx tail by (simp add: p clamp_add add.assoc)
qed

text \<open>The count of a variant, or of a rule, of a flag: in the state of the fold and in a message.\<close>

definition variant_at :: "string \<Rightarrow> variant_rule_info \<Rightarrow> int" where
  "variant_at v i = count_or_zero (map_of (vr_variants i) v)"

definition rule_at :: "string \<Rightarrow> variant_rule_info \<Rightarrow> int" where
  "rule_at r i = (case map_of (vr_rules i) r of None \<Rightarrow> 0 | Some x \<Rightarrow> ri_count x)"

definition flag_at :: "(variant_rule_info \<Rightarrow> int) \<Rightarrow> string \<Rightarrow> variant_rule_info fields \<Rightarrow> int" where
  "flag_at p f flags = (case map_of flags f of None \<Rightarrow> 0 | Some i \<Rightarrow> p i)"

definition variant_count_in :: "string \<Rightarrow> flag_resolve_info \<Rightarrow> int" where
  "variant_count_in v fi = sum_list (map (\<lambda>x. if vc_variant x = v then vc_count x else 0) (fi_variants fi))"

definition rule_count_in :: "string \<Rightarrow> flag_resolve_info \<Rightarrow> int" where
  "rule_count_in r fi = sum_list (map (\<lambda>x. if rc_rule x = r then rc_count x else 0) (fi_rules fi))"

definition flag_count_in :: "(flag_resolve_info \<Rightarrow> int) \<Rightarrow> string \<Rightarrow> log_request \<Rightarrow> int" where
  "flag_count_in c f m = sum_list (map (\<lambda>fi. if fi_flag fi = f then c fi else 0) (lr_flag_resolve_info m))"

text \<open>The counters of a message are counts.\<close>

definition counts_nonneg :: "flag_resolve_info \<Rightarrow> bool" where
  [model_defs]: "counts_nonneg fi \<longleftrightarrow> list_all (\<lambda>x. 0 \<le> vc_count x) (fi_variants fi) \<and> list_all (\<lambda>x. 0 \<le> rc_count x) (fi_rules fi)"

definition counter_ok :: "(variant_rule_info \<Rightarrow> int) \<Rightarrow> (flag_resolve_info \<Rightarrow> int) \<Rightarrow> bool" where
  "counter_ok p c \<longleftrightarrow> p variant_rule_info_new = 0 \<and>
     (\<forall>i fi. counts_nonneg fi \<longrightarrow> 0 \<le> p i \<longrightarrow> i64_value (p i) \<longrightarrow>
        p (update_rule_variant_info i fi) = clamp_i64 (p i + c fi)) \<and> (\<forall>fi. counts_nonneg fi \<longrightarrow> 0 \<le> c fi)"

lemma i64_value_0 [simp]: "i64_value 0"
  by (simp add: i64_value_def)

lemma clamp_add_0: "i64_value x \<Longrightarrow> clamp_i64 (x + 0) = x"
  by (simp add: clamp_i64_id)

lemma counter_ok_variant: "counter_ok (variant_at v) (variant_count_in v)"
proof -
  have "variant_at v (update_rule_variant_info i fi) = clamp_i64 (variant_at v i + variant_count_in v fi)"
    if c: "counts_nonneg fi" and p: "0 \<le> variant_at v i" "i64_value (variant_at v i)" for i fi
  proof -
    let ?p = "\<lambda>m. count_or_zero (map_of m v)"
    have "?p (fold update_variant (fi_variants fi) (vr_variants i)) =
        clamp_i64 (?p (vr_variants i) + sum_list (map (\<lambda>x. if vc_variant x = v then vc_count x else 0) (fi_variants fi)))"
    proof (rule saturating_fold)
      show "?p (update_variant x s) = clamp_i64 (?p s + (if vc_variant x = v then vc_count x else 0))"
        if "i64_value (?p s)" for x s
        using that by (auto simp: update_variant_def i64_saturating_add_def count_or_zero_def clamp_i64_id)
      show "0 \<le> (if vc_variant x = v then vc_count x else 0)" if "x \<in> set (fi_variants fi)" for x
        using c that by (auto simp: counts_nonneg_def list_all_iff)
    qed (use p in \<open>simp_all add: variant_at_def\<close>)
    then show ?thesis by (simp add: variant_at_def update_rule_variant_info_def variant_count_in_def)
  qed
  then show ?thesis
    by (auto simp: counter_ok_def variant_at_def variant_rule_info_new_def count_or_zero_def variant_count_in_def
        counts_nonneg_def list_all_iff intro!: sum_list_nonneg)
qed

lemma counter_ok_rule: "counter_ok (rule_at r) (rule_count_in r)"
proof -
  have "rule_at r (update_rule_variant_info i fi) = clamp_i64 (rule_at r i + rule_count_in r fi)"
    if c: "counts_nonneg fi" and p: "0 \<le> rule_at r i" "i64_value (rule_at r i)" for i fi
  proof -
    let ?p = "\<lambda>m. case map_of m r of None \<Rightarrow> 0 | Some x \<Rightarrow> ri_count x"
    have "?p (fold update_rule (fi_rules fi) (vr_rules i)) =
        clamp_i64 (?p (vr_rules i) + sum_list (map (\<lambda>x. if rc_rule x = r then rc_count x else 0) (fi_rules fi)))"
    proof (rule saturating_fold)
      show "?p (update_rule x s) = clamp_i64 (?p s + (if rc_rule x = r then rc_count x else 0))"
        if "i64_value (?p s)" for x s
        using that by (auto simp: update_rule_def Let_def i64_saturating_add_def clamp_i64_id split: option.splits)
      show "0 \<le> (if rc_rule x = r then rc_count x else 0)" if "x \<in> set (fi_rules fi)" for x
        using c that by (auto simp: counts_nonneg_def list_all_iff)
    qed (use p in \<open>simp_all add: rule_at_def\<close>)
    then show ?thesis by (simp add: rule_at_def update_rule_variant_info_def rule_count_in_def)
  qed
  then show ?thesis
    by (auto simp: counter_ok_def rule_at_def variant_rule_info_new_def rule_count_in_def
        counts_nonneg_def list_all_iff intro!: sum_list_nonneg)
qed

lemma add_flag_counter:
  assumes "counter_ok p c" "counts_nonneg fi" "0 \<le> flag_at p f flags" "i64_value (flag_at p f flags)"
  shows "flag_at p f (add_flag fi flags) = clamp_i64 (flag_at p f flags + (if fi_flag fi = f then c fi else 0))"
  using assms by (auto simp: flag_at_def add_flag_def Let_def counter_ok_def clamp_i64_id split: option.splits)

lemma add_message_counter:
  assumes ok: "counter_ok p c" and m: "list_all counts_nonneg (lr_flag_resolve_info m)"
    and start: "0 \<le> flag_at p f (ag_flags ag)" "i64_value (flag_at p f (ag_flags ag))"
  shows "flag_at p f (ag_flags (add_message m ag)) = clamp_i64 (flag_at p f (ag_flags ag) + flag_count_in c f m)"
proof -
  have "flag_at p f (fold add_flag (lr_flag_resolve_info m) (ag_flags ag)) =
      clamp_i64 (flag_at p f (ag_flags ag) + sum_list (map (\<lambda>fi. if fi_flag fi = f then c fi else 0) (lr_flag_resolve_info m)))"
  proof (rule saturating_fold)
    show "0 \<le> (if fi_flag x = f then c x else 0)" if "x \<in> set (lr_flag_resolve_info m)" for x
      using ok m that by (auto simp: counter_ok_def list_all_iff)
    show "flag_at p f (add_flag x s) = clamp_i64 (flag_at p f s + (if fi_flag x = f then c x else 0))"
      if "x \<in> set (lr_flag_resolve_info m)" "0 \<le> flag_at p f s" "i64_value (flag_at p f s)" for x s
      using m that by (intro add_flag_counter [OF ok]) (auto simp: list_all_iff)
  qed (use start in simp_all)
  then show ?thesis by (simp add: add_message_def Let_def flag_count_in_def split: option.splits)
qed

lemma batch_counter:
  assumes ok: "counter_ok p c" and ms: "\<And>m. m \<in> set ms \<Longrightarrow> list_all counts_nonneg (lr_flag_resolve_info m)"
  shows "flag_at p f (ag_flags (fold add_message ms aggregate_empty)) = clamp_i64 (sum_list (map (flag_count_in c f) ms))"
proof -
  let ?p = "\<lambda>ag. flag_at p f (ag_flags ag)"
  have "?p (fold add_message ms aggregate_empty) = clamp_i64 (?p aggregate_empty + sum_list (map (flag_count_in c f) ms))"
  proof (rule saturating_fold)
    show "0 \<le> flag_count_in c f m" if "m \<in> set ms" for m
      using ok ms [OF that] by (auto simp: flag_count_in_def counter_ok_def list_all_iff intro!: sum_list_nonneg)
    show "?p (add_message m ag) = clamp_i64 (?p ag + flag_count_in c f m)"
      if "m \<in> set ms" "0 \<le> ?p ag" "i64_value (?p ag)" for m ag
      using ok ms that by (intro add_message_counter)
  qed (simp_all add: aggregate_empty_def flag_at_def)
  then show ?thesis by (simp add: aggregate_empty_def flag_at_def)
qed

text \<open>Reading the counters back from the message: the maps have distinct keys, so each flag, variant and rule is reported once.\<close>

definition wf_counters :: "variant_rule_info fields \<Rightarrow> bool" where
  "wf_counters flags \<longleftrightarrow> distinct_keys flags \<and>
     (\<forall>f i. map_of flags f = Some i \<longrightarrow> distinct_keys (vr_rules i) \<and> distinct_keys (vr_variants i))"

lemma distinct_update_rule: "distinct_keys m \<Longrightarrow> distinct_keys (update_rule x m)"
  by (simp add: update_rule_def Let_def distinct_keys_hm_insert)

lemma distinct_update_variant: "distinct_keys m \<Longrightarrow> distinct_keys (update_variant x m)"
  by (simp add: update_variant_def distinct_keys_hm_insert)

lemma fold_keeps: "(\<And>x s. P s \<Longrightarrow> P (f x s)) \<Longrightarrow> P s \<Longrightarrow> P (fold f xs s)"
  by (induction xs arbitrary: s) simp_all

lemma wf_add_flag: "wf_counters flags \<Longrightarrow> wf_counters (add_flag fi flags)"
  by (auto simp: wf_counters_def add_flag_def Let_def update_rule_variant_info_def variant_rule_info_new_def
      intro!: distinct_keys_hm_insert fold_keeps [where P = distinct_keys] distinct_update_rule distinct_update_variant
      split: option.splits if_splits)
    (simp_all add: distinct_keys_def)

lemma wf_batch: "wf_counters (ag_flags (fold add_message ms aggregate_empty))"
proof (rule fold_keeps [where P = "\<lambda>ag. wf_counters (ag_flags ag)"])
  show "wf_counters (ag_flags (add_message m ag))" if "wf_counters (ag_flags ag)" for m ag
    using that by (auto simp: add_message_def Let_def intro!: fold_keeps [where P = wf_counters] wf_add_flag split: option.splits)
qed (simp add: wf_counters_def aggregate_empty_def distinct_keys_def)

lemma sum_distinct_keys:
  "distinct_keys m \<Longrightarrow> sum_list (map (\<lambda>(k, x). if k = a then g x else (0 :: int)) m) =
     (case map_of m a of None \<Rightarrow> 0 | Some x \<Rightarrow> g x)"
proof (induction m)
  case (Cons p m)
  have "map_of m a = None" if "fst p = a"
    using Cons.prems that by (auto simp: distinct_keys_def map_of_eq_None_iff)
  with Cons show ?case by (cases p) (auto simp: distinct_keys_def)
qed simp

lemma sum_flag_infos:
  assumes "distinct_keys flags"
  shows "sum_list (map (\<lambda>fi. if fi_flag fi = f then c fi else 0) (map flag_info_of flags)) =
     flag_at (\<lambda>i. c (flag_info_of (f, i))) f flags"
proof -
  have "sum_list (map (\<lambda>fi. if fi_flag fi = f then c fi else 0) (map flag_info_of flags)) =
      sum_list (map (\<lambda>(k, i). if k = f then c (flag_info_of (f, i)) else 0) flags)"
    by (rule arg_cong [where f = sum_list]) (auto simp: flag_info_of_def)
  then show ?thesis by (simp add: sum_distinct_keys [OF assms] flag_at_def)
qed

lemma variant_count_flag_info:
  "distinct_keys (vr_variants i) \<Longrightarrow> variant_count_in v (flag_info_of (f, i)) = variant_at v i"
  using sum_distinct_keys [of "vr_variants i" v "\<lambda>x. x"]
  by (simp add: variant_count_in_def flag_info_of_def variant_at_def count_or_zero_def comp_def case_prod_unfold cong: if_cong)

lemma rule_count_flag_info:
  "distinct_keys (vr_rules i) \<Longrightarrow> rule_count_in r (flag_info_of (f, i)) = rule_at r i"
  using sum_distinct_keys [of "vr_rules i" r ri_count]
  by (simp add: rule_count_in_def flag_info_of_def rule_at_def comp_def case_prod_unfold cong: if_cong)

lemma aggregate_counter:
  assumes "counter_ok p c" "\<And>m. m \<in> set ms \<Longrightarrow> list_all counts_nonneg (lr_flag_resolve_info m)"
    and read: "\<And>i. distinct_keys (vr_rules i) \<Longrightarrow> distinct_keys (vr_variants i) \<Longrightarrow> c (flag_info_of (f, i)) = p i"
  shows "flag_count_in c f (aggregate_batch ms) = clamp_i64 (sum_list (map (flag_count_in c f) ms))"
proof -
  let ?flags = "ag_flags (fold add_message ms aggregate_empty)"
  have wf: "wf_counters ?flags" by (rule wf_batch)
  then have "flag_count_in c f (aggregate_batch ms) = flag_at (\<lambda>i. c (flag_info_of (f, i))) f ?flags"
    by (simp add: flag_count_in_def aggregate_batch_def Let_def wf_counters_def sum_flag_infos flip: map_map)
  also have "\<dots> = flag_at p f ?flags"
    using wf read by (auto simp: flag_at_def wf_counters_def split: option.splits)
  finally show ?thesis using batch_counter [OF assms(1, 2)] by simp
qed

text \<open>C17: the aggregated message reports each flag's counters exactly. When the counts of the batch are
  non-negative, the count of a variant of a flag is the sum of the counts the messages report for
  it, saturated at the largest 64-bit integer, and so is the count of a rule; neither the order of
  the messages nor how a client splits its counts over them matters.\<close>

theorem aggregate_counts_total:
  assumes "\<forall>m \<in> set ms. list_all counts_nonneg (lr_flag_resolve_info m)"
  shows "flag_count_in (variant_count_in v) f (aggregate_batch ms) =
      clamp_i64 (sum_list (map (flag_count_in (variant_count_in v) f) ms)) \<and>
    flag_count_in (rule_count_in r) f (aggregate_batch ms) =
      clamp_i64 (sum_list (map (flag_count_in (rule_count_in r) f) ms))"
proof
  show "flag_count_in (variant_count_in v) f (aggregate_batch ms) = clamp_i64 (sum_list (map (flag_count_in (variant_count_in v) f) ms))"
    using assms by (intro aggregate_counter [OF counter_ok_variant]) (simp_all add: variant_count_flag_info)
  show "flag_count_in (rule_count_in r) f (aggregate_batch ms) = clamp_i64 (sum_list (map (flag_count_in (rule_count_in r) f) ms))"
    using assms by (intro aggregate_counter [OF counter_ok_rule]) (simp_all add: rule_count_flag_info)
qed

definition count_report :: "string \<Rightarrow> string \<Rightarrow> int \<Rightarrow> assignment_count list \<Rightarrow> log_request" where
  [model_defs]: "count_report f r n cs = log_request_default\<lparr>lr_flag_resolve_info :=
     [\<lparr>fi_flag = f, fi_variants = [\<lparr>vc_variant = ''v'', vc_count = n\<rparr>],
       fi_rules = [\<lparr>rc_rule = r, rc_count = n, rc_assignments = cs\<rparr>]\<rparr>]\<rparr>"

lemma aggregate_counts_total_witness:
  "flag_count_in (variant_count_in ''v'') ''f'' (aggregate_batch
     [count_report ''f'' ''r'' (2 ^ 63 - 2) [], count_report ''f'' ''r2'' 3 [], count_report ''g'' ''r'' 5 []]) = 2 ^ 63 - 1 \<and>
   flag_count_in (rule_count_in ''r2'') ''f'' (aggregate_batch
     [count_report ''f'' ''r'' (2 ^ 63 - 2) [], count_report ''f'' ''r2'' 3 [], count_report ''g'' ''r'' 5 []]) = 3"
  using aggregate_counts_total [of "[count_report ''f'' ''r'' (2 ^ 63 - 2) [], count_report ''f'' ''r2'' 3 [], count_report ''g'' ''r'' 5 []]"
      "''v''" "''f''" "''r2''"]
  by (simp add: count_report_def log_request_default_def counts_nonneg_def flag_count_in_def variant_count_in_def
      rule_count_in_def clamp_i64_def)

section \<open>Events and schemas\<close>

definition schemas_of :: "string \<Rightarrow> client_resolve_info list \<Rightarrow> schema_instance set" where
  "schemas_of cred cs = (\<Union>c \<in> {c \<in> set cs. cr_client_credential c = cred}. set (cr_schema c))"

definition schemas_at :: "string \<Rightarrow> schema_item fields \<Rightarrow> schema_instance set" where
  "schemas_at cred m = (case map_of m cred of None \<Rightarrow> {} | Some item \<Rightarrow> set (sc_schemas item))"

lemma set_hs_insert [simp]: "set (hs_insert x xs) = insert x (set xs)"
  by (auto simp: hs_insert_def)

lemma set_fold_hs_insert [simp]: "set (fold hs_insert ys xs) = set xs \<union> set ys"
  by (induction ys arbitrary: xs) auto

lemma distinct_fold_hs_insert: "distinct xs \<Longrightarrow> distinct (fold hs_insert ys xs)"
  by (induction ys arbitrary: xs) (simp_all add: hs_insert_def)

lemma schemas_at_add:
  "schemas_at cred (add_schemas c m) = schemas_at cred m \<union> (if cr_client_credential c = cred then set (cr_schema c) else {})"
  by (auto simp: schemas_at_def add_schemas_def split: option.splits)

lemma schemas_at_fold: "schemas_at cred (fold add_schemas cs m) = schemas_at cred m \<union> schemas_of cred cs"
  by (induction cs arbitrary: m) (auto simp: schemas_at_add schemas_of_def)

lemma add_message_schemas [simp]: "ag_schemas (add_message m ag) = fold add_schemas (lr_client_resolve_info m) (ag_schemas ag)"
  by (simp add: add_message_def Let_def split: option.splits)

lemma schemas_at_batch:
  "schemas_at cred (ag_schemas (fold add_message ms ag)) =
     schemas_at cred (ag_schemas ag) \<union> (\<Union>m \<in> set ms. schemas_of cred (lr_client_resolve_info m))"
  by (induction ms arbitrary: ag) (simp_all add: schemas_at_fold Un_assoc)

lemma distinct_add_schemas: "distinct_keys m \<Longrightarrow> distinct_keys (add_schemas c m)"
  by (simp add: add_schemas_def distinct_keys_hm_insert split: option.splits)

lemma distinct_schemas_batch: "distinct_keys (ag_schemas (fold add_message ms aggregate_empty))"
proof (rule fold_keeps [where P = "\<lambda>ag. distinct_keys (ag_schemas ag)"])
  show "distinct_keys (ag_schemas (add_message m ag))" if "distinct_keys (ag_schemas ag)" for m ag
    using that by (auto intro!: fold_keeps [where P = distinct_keys] distinct_add_schemas)
qed (simp add: aggregate_empty_def distinct_keys_def)

lemma schemas_of_client_infos:
  assumes "distinct_keys m"
  shows "schemas_of cred (map client_info_of m) = schemas_at cred m"
proof (cases "map_of m cred")
  case None
  then have "cred \<notin> fst ` set m" by (simp add: map_of_eq_None_iff)
  then have "(cred, item) \<notin> set m" for item by force
  then show ?thesis by (auto simp: schemas_of_def schemas_at_def client_info_of_def None)
next
  case (Some item)
  have only: "x = item" if "(cred, x) \<in> set m" for x
    using hm.mem_iff_lookup [OF assms, of cred x] that Some by simp
  have item: "(cred, item) \<in> set m" using Some by (rule map_of_SomeD)
  have "{c \<in> set (map client_info_of m). cr_client_credential c = cred} = {client_info_of (cred, item)}"
  proof (intro set_eqI iffI)
    show "c \<in> {client_info_of (cred, item)}" if "c \<in> {c \<in> set (map client_info_of m). cr_client_credential c = cred}" for c
      using that only by (auto simp: client_info_of_def)
    show "c \<in> {c \<in> set (map client_info_of m). cr_client_credential c = cred}" if "c \<in> {client_info_of (cred, item)}" for c
      using that item by (auto simp: client_info_of_def intro!: image_eqI [of _ _ "(cred, item)"])
  qed
  then show ?thesis by (simp add: schemas_of_def schemas_at_def Some) (simp add: client_info_of_def)
qed

lemma add_messages_assigned: "ag_assigned (fold add_message ms ag) = ag_assigned ag @ concat (map lr_flag_assigned ms)"
  by (induction ms arbitrary: ag) (simp_all add: add_message_def Let_def split: option.splits)

text \<open>Aggregation keeps every assignment event, in the order of the batch, and reports for each
  client credential once the union of the schemas the batch reports for it.\<close>

lemma aggregate_events_schemas:
  "lr_flag_assigned (aggregate_batch ms) = concat (map lr_flag_assigned ms)
    \<and> schemas_of cred (lr_client_resolve_info (aggregate_batch ms)) = \<Union> (set (map (\<lambda>m. schemas_of cred (lr_client_resolve_info m)) ms))
    \<and> distinct (map cr_client_credential (lr_client_resolve_info (aggregate_batch ms)))"
  using distinct_schemas_batch [of ms] schemas_of_client_infos [OF distinct_schemas_batch, of cred ms]
    schemas_at_batch [of cred ms aggregate_empty]
  by (simp_all add: aggregate_batch_def Let_def add_messages_assigned aggregate_empty_def schemas_at_def
      distinct_keys_def client_info_of_def comp_def)

section \<open>Assignment counts\<close>

text \<open>The assignment counts of a rule are not kept. A message that reports a rule replaces the
  counts of all its assignments: after a message with three assignments of a rule to one id and a
  message with two to another, the aggregate still counts five evaluations of the rule but reports
  only the two.\<close>

lemma assignment_counts_lost:
  "lr_flag_resolve_info (aggregate_batch
     [count_report ''f'' ''r'' 3 [\<lparr>ac_assignment_id = ''a'', ac_count = 3\<rparr>],
      count_report ''f'' ''r'' 2 [\<lparr>ac_assignment_id = ''b'', ac_count = 2\<rparr>]]) =
   lr_flag_resolve_info (count_report ''f'' ''r'' 5 [\<lparr>ac_assignment_id = ''b'', ac_count = 2\<rparr>])"
  by (simp add: aggregate_batch_def add_message_def aggregate_empty_def count_report_def log_request_default_def
      add_flag_def update_rule_variant_info_def update_rule_def update_variant_def new_assignment_counts_def
      variant_rule_info_new_def flag_info_of_def i64_saturating_add_def clamp_i64_def count_or_zero_def)

end
