(* ===== verification/Schema_Derivation.thy ===== *)
theory Schema_Derivation
  imports Log_Messages
begin

text \<open>
  The schema of an evaluation context (\<open>confidence-resolver/src/schema_util.rs\<close>): the kind of
  every leaf by dotted path, and for string leaves a guessed semantic type. The date parsers are
  those of the library parameters; the Unicode case tables and the ISO 3166 codes are the
  parameters of \<open>locale_tables\<close>. Values never enter a schema.
\<close>

section \<open>Guessing the type of a string\<close>

record locale_tables =
  to_lowercase :: "string \<Rightarrow> string"
  to_uppercase :: "string \<Rightarrow> string"
  alpha2_codes :: "string list"

record derived_schema =
  ds_fields :: "schema_kind fields"
  ds_semantic_types :: "semantic_type option fields"

definition MIN_DATE_LENGTH :: nat where
  [model_defs]: "MIN_DATE_LENGTH = length ''2025-04-01''"

definition MIN_TIMESTAMP_LENGTH :: nat where
  [model_defs]: "MIN_TIMESTAMP_LENGTH = length ''2025-04-01T0000''"

text \<open>\<open>str::parse::<u32>\<close>.\<close>

definition parse_u32 :: "string \<Rightarrow> nat option" where
  [model_defs]: "parse_u32 s =
     (let ds = (case s of CHR ''+'' # t \<Rightarrow> t | _ \<Rightarrow> s) in
      if ds \<noteq> [] \<and> list_all ascii_digit ds \<and> dec_val 0 ds < 2 ^ 32 then Some (dec_val 0 ds) else None)"

definition is_semantic_version :: "string \<Rightarrow> bool" where
  [model_defs]: "is_semantic_version value =
     (let parts = split_on CHR ''.'' value in
      if length parts \<noteq> 3 then False else list_all (\<lambda>part. parse_u32 part \<noteq> None) parts)"

definition is_date :: "libs \<Rightarrow> string \<Rightarrow> bool" where
  [model_defs]: "is_date L value =
     (if length value < MIN_DATE_LENGTH then False else parse_naive_date L value ''%Y-%m-%d'' \<noteq> None)"

definition parse_instant :: "libs \<Rightarrow> string \<Rightarrow> datetime option" where
  [model_defs]: "parse_instant L value =
     (if value = [] then None
      else case parse_from_rfc3339 L value of
        Some dt \<Rightarrow> Some dt
      | None \<Rightarrow>
          if CHR ''T'' \<in> set value then
            (let time_part = dropWhile (\<lambda>c. c \<noteq> CHR ''T'') value in
             if str_ends_with value ''Z'' \<or> CHR ''+'' \<in> set time_part \<or> CHR ''-'' \<in> set time_part
             then parse_from_rfc3339 L value
             else case parse_naive_datetime L value ''%Y-%m-%dT%H:%M:%S'' of
                 Some ndt \<Rightarrow> Some ndt
               | None \<Rightarrow> parse_naive_datetime L value ''%Y-%m-%dT%H:%M:%S%.f'')
          else parse_naive_date L value ''%Y-%m-%d'')"

definition is_timestamp :: "libs \<Rightarrow> string \<Rightarrow> bool" where
  [model_defs]: "is_timestamp L value =
     (if length value < MIN_TIMESTAMP_LENGTH then False else parse_instant L value \<noteq> None)"

definition is_valid_country_code :: "locale_tables \<Rightarrow> string \<Rightarrow> bool" where
  [model_defs]: "is_valid_country_code T value \<longleftrightarrow> to_uppercase T value \<in> set (alpha2_codes T)"

definition guess_semantic_type :: "libs \<Rightarrow> locale_tables \<Rightarrow> string \<Rightarrow> string \<Rightarrow> derived_schema \<Rightarrow> derived_schema" where
  [model_defs]: "guess_semantic_type L T value field_path d =
     (let found = (\<lambda>t. d\<lparr>ds_semantic_types := bt_insert field_path (Some t) (ds_semantic_types d)\<rparr>) in
      if str_contains (to_lowercase T field_path) ''country'' then
        (if is_valid_country_code T value then found (Country 1) else d)
      else if is_date L value then found DateType
      else if is_timestamp L value then found TimestampType
      else if is_semantic_version value then found VersionType
      else d)"

section \<open>Flattening\<close>

text \<open>\<open>core::mem::discriminant\<close>.\<close>

fun kind_tag :: "gkind \<Rightarrow> nat" where
  "kind_tag (NullValue _) = 1"
| "kind_tag (NumberValue _) = 2"
| "kind_tag (StringValue _) = 3"
| "kind_tag (BoolValue _) = 4"
| "kind_tag (StructValue _) = 5"
| "kind_tag (ListValue _) = 6"

definition all_same_kind :: "gvalue list \<Rightarrow> bool" where
  [model_defs]: "all_same_kind vs =
     (case List.map_filter (\<lambda>v. v) vs of
        [] \<Rightarrow> False
      | first_kind # ks \<Rightarrow> list_all (\<lambda>k. kind_tag k = kind_tag first_kind) (first_kind # ks))"

fun add_field_schema :: "libs \<Rightarrow> locale_tables \<Rightarrow> gvalue \<Rightarrow> string \<Rightarrow> derived_schema \<Rightarrow> derived_schema" where
  "add_field_schema L T (Some (StringValue s)) field_path d =
     guess_semantic_type L T s field_path (d\<lparr>ds_fields := bt_insert field_path StringKind (ds_fields d)\<rparr>)"
| "add_field_schema L T (Some (BoolValue _)) field_path d =
     d\<lparr>ds_fields := bt_insert field_path BoolKind (ds_fields d)\<rparr>"
| "add_field_schema L T (Some (NumberValue _)) field_path d =
     d\<lparr>ds_fields := bt_insert field_path NumberKind (ds_fields d)\<rparr>"
| "add_field_schema L T (Some (NullValue _)) field_path d =
     d\<lparr>ds_fields := bt_insert field_path NullKind (ds_fields d)\<rparr>"
| "add_field_schema L T (Some (ListValue [])) field_path d = d"
| "add_field_schema L T (Some (ListValue (v # vs))) field_path d =
     (if all_same_kind (v # vs) then add_field_schema L T v field_path d else d)"
| "add_field_schema L T _ field_path d = d"

fun flattened_schema :: "libs \<Rightarrow> locale_tables \<Rightarrow> gstruct \<Rightarrow> string \<Rightarrow> derived_schema \<Rightarrow> derived_schema" where
  "flattened_schema L T [] field_path d = d"
| "flattened_schema L T ((field, value) # others) field_path d =
     flattened_schema L T others field_path
       (case value of
          Some (StructValue nested_struct) \<Rightarrow> flattened_schema L T nested_struct (field_path @ field @ ''.'') d
        | _ \<Rightarrow> add_field_schema L T value (field_path @ field) d)"

definition get_schema :: "libs \<Rightarrow> locale_tables \<Rightarrow> gstruct \<Rightarrow> derived_schema" where
  [model_defs]: "get_schema L T context_struct =
     flattened_schema L T context_struct [] \<lparr>ds_fields = [], ds_semantic_types = []\<rparr>"

section \<open>The schema as a function of the leaves\<close>

fun leaves :: "gstruct \<Rightarrow> string \<Rightarrow> (string \<times> gvalue) list" where
  "leaves [] path = []"
| "leaves ((field, value) # others) path =
     (case value of
        Some (StructValue nested) \<Rightarrow> leaves nested (path @ field @ ''.'')
      | _ \<Rightarrow> [(path @ field, value)]) @ leaves others path"

text \<open>The scalar that stands for a leaf: a list is represented by its first element.\<close>

fun scalar_of :: "gvalue \<Rightarrow> gkind option" where
  "scalar_of (Some (ListValue [])) = None"
| "scalar_of (Some (ListValue (v # vs))) = (if all_same_kind (v # vs) then scalar_of v else None)"
| "scalar_of (Some (StructValue _)) = None"
| "scalar_of v = v"

definition kind_name :: "gkind \<Rightarrow> schema_kind" where
  [model_defs]: "kind_name k = (case k of NullValue _ \<Rightarrow> NullKind | NumberValue _ \<Rightarrow> NumberKind | StringValue _ \<Rightarrow> StringKind
     | BoolValue _ \<Rightarrow> BoolKind | _ \<Rightarrow> UnspecifiedKind)"

text \<open>The semantic type of a string under a path, as a function.\<close>

definition semantic_of :: "libs \<Rightarrow> locale_tables \<Rightarrow> string \<Rightarrow> string \<Rightarrow> semantic_type option" where
  [model_defs]: "semantic_of L T path s =
     (if str_contains (to_lowercase T path) ''country'' then (if is_valid_country_code T s then Some (Country 1) else None)
      else if is_date L s then Some DateType
      else if is_timestamp L s then Some TimestampType
      else if is_semantic_version s then Some VersionType
      else None)"

definition kind_entries :: "(string \<times> gvalue) list \<Rightarrow> (string \<times> schema_kind) list" where
  [model_defs]: "kind_entries ls = List.map_filter (\<lambda>(p, v). map_option (\<lambda>k. (p, kind_name k)) (scalar_of v)) ls"

definition semantic_entries :: "libs \<Rightarrow> locale_tables \<Rightarrow> (string \<times> gvalue) list \<Rightarrow> (string \<times> semantic_type option) list" where
  [model_defs]: "semantic_entries L T ls = List.map_filter (\<lambda>(p, v). case scalar_of v of
     Some (StringValue s) \<Rightarrow> map_option (\<lambda>t. (p, Some t)) (semantic_of L T p s) | _ \<Rightarrow> None) ls"

lemma flattened_leaves:
  "flattened_schema L T fs path d = fold (\<lambda>(p, v). add_field_schema L T v p) (leaves fs path) d"
  by (induction L T fs path d rule: flattened_schema.induct) (auto split: option.splits gkind.splits)

lemma guess_semantic_of:
  "guess_semantic_type L T s p d = (case semantic_of L T p s of None \<Rightarrow> d
     | Some t \<Rightarrow> d\<lparr>ds_semantic_types := bt_insert p (Some t) (ds_semantic_types d)\<rparr>)"
  by (simp add: guess_semantic_type_def semantic_of_def Let_def)

lemma add_field_scalar:
  "ds_fields (add_field_schema L T v p d) =
     (case scalar_of v of None \<Rightarrow> ds_fields d | Some k \<Rightarrow> bt_insert p (kind_name k) (ds_fields d))"
  "ds_semantic_types (add_field_schema L T v p d) =
     (case scalar_of v of Some (StringValue s) \<Rightarrow>
        (case semantic_of L T p s of None \<Rightarrow> ds_semantic_types d | Some t \<Rightarrow> bt_insert p (Some t) (ds_semantic_types d))
      | _ \<Rightarrow> ds_semantic_types d)"
  by (induction L T v p d rule: add_field_schema.induct)
    (auto simp: guess_semantic_of kind_name_def split: option.splits)

lemma add_field_entries:
  "ds_fields (fold (\<lambda>(p, v). add_field_schema L T v p) ls d) = fold (\<lambda>x. bt_insert (fst x) (snd x)) (kind_entries ls) (ds_fields d)"
  "ds_semantic_types (fold (\<lambda>(p, v). add_field_schema L T v p) ls d) =
     fold (\<lambda>x. bt_insert (fst x) (snd x)) (semantic_entries L T ls) (ds_semantic_types d)"
proof (induction ls arbitrary: d)
  case Nil
  { case 1 show ?case by (simp add: kind_entries_def) next case 2 show ?case by (simp add: semantic_entries_def) }
next
  case (Cons l ls)
  obtain p v where l: "l = (p, v)" by (cases l)
  { case 1
    show ?case
      using Cons.IH(1) [of "add_field_schema L T v p d"]
      by (simp add: l kind_entries_def List.map_filter_simps add_field_scalar split: option.splits)
  next
    case 2
    show ?case
      using Cons.IH(2) [of "add_field_schema L T v p d"]
      by (simp add: l semantic_entries_def List.map_filter_simps add_field_scalar split: option.splits gkind.splits) }
qed

lemma get_schema_entries:
  "ds_fields (get_schema L T c) = fold (\<lambda>x. bt_insert (fst x) (snd x)) (kind_entries (leaves c [])) []"
  "ds_semantic_types (get_schema L T c) = fold (\<lambda>x. bt_insert (fst x) (snd x)) (semantic_entries L T (leaves c [])) []"
  by (simp_all add: get_schema_def flattened_leaves add_field_entries)

lemma lookup_inserted: "map_of (fold (\<lambda>x. bt_insert (fst x) (snd x)) xs m) = map_of m ++ map_of (rev xs)"
  by (induction xs arbitrary: m) (auto simp: map_add_def fun_eq_iff split: option.splits)

lemma get_schema_lookup:
  "map_of (ds_fields (get_schema L T c)) p = map_of (rev (kind_entries (leaves c []))) p"
  "map_of (ds_semantic_types (get_schema L T c)) p = map_of (rev (semantic_entries L T (leaves c []))) p"
  unfolding get_schema_entries lookup_inserted by simp_all

text \<open>C18: the derived schema describes exactly the leaves of the context. The kind recorded for a dotted
  path is that of the last leaf at the path, where a list counts as its first element if all its
  elements have one kind; the semantic type is that of the last string leaf at the path which has
  one; and both maps hold each path once, in order.\<close>

theorem schema_describes_leaves:
  "map_of (ds_fields (get_schema L T c)) p = map_of (rev (kind_entries (leaves c []))) p
    \<and> map_of (ds_semantic_types (get_schema L T c)) p = map_of (rev (semantic_entries L T (leaves c []))) p
    \<and> sorted_keys (ds_fields (get_schema L T c)) \<and> sorted_keys (ds_semantic_types (get_schema L T c))"
  by (rule conjI, rule get_schema_lookup)+ (simp_all add: get_schema_entries bt.inv_fold bt.inv_empty)

lemma mem_map_filter: "y \<in> set (List.map_filter f xs) \<longleftrightarrow> (\<exists>x \<in> set xs. f x = Some y)"
  by (induction xs) (auto simp: List.map_filter_simps split: option.splits)

lemma set_kind_entries: "(p, k) \<in> set (kind_entries ls) \<longleftrightarrow> (\<exists>v g. (p, v) \<in> set ls \<and> scalar_of v = Some g \<and> k = kind_name g)"
  by (force simp: kind_entries_def mem_map_filter)

lemma set_semantic_entries:
  "(p, t) \<in> set (semantic_entries L T ls) \<longleftrightarrow>
     (\<exists>v s u. (p, v) \<in> set ls \<and> scalar_of v = Some (StringValue s) \<and> semantic_of L T p s = Some u \<and> t = Some u)"
proof
  show "\<exists>v s u. (p, v) \<in> set ls \<and> scalar_of v = Some (StringValue s) \<and> semantic_of L T p s = Some u \<and> t = Some u"
    if "(p, t) \<in> set (semantic_entries L T ls)"
    using that by (auto simp: semantic_entries_def mem_map_filter split: option.splits gkind.splits) blast
  show "(p, t) \<in> set (semantic_entries L T ls)"
    if "\<exists>v s u. (p, v) \<in> set ls \<and> scalar_of v = Some (StringValue s) \<and> semantic_of L T p s = Some u \<and> t = Some u"
    using that by (force simp: semantic_entries_def mem_map_filter)
qed

lemma distinct_kind_entries: "distinct (map fst ls) \<Longrightarrow> distinct (map fst (kind_entries ls))"
proof (induction ls)
  case (Cons l ls)
  obtain p v where l: "l = (p, v)" by (cases l)
  have "p \<notin> fst ` set (kind_entries ls)" using Cons.prems by (force simp: l set_kind_entries)
  then show ?case using Cons by (auto simp: l kind_entries_def List.map_filter_simps split: option.splits)
qed (simp add: kind_entries_def)

text \<open>A semantic type is only ever recorded for a path whose recorded kind is a string, provided no
  two leaves of the context have the same dotted path.\<close>

lemma semantic_types_of_strings:
  assumes "distinct (map fst (leaves c []))" "map_of (ds_semantic_types (get_schema L T c)) p = Some t"
  shows "map_of (ds_fields (get_schema L T c)) p = Some StringKind"
proof -
  have "(p, t) \<in> set (semantic_entries L T (leaves c []))"
    using assms(2) by (auto simp: get_schema_lookup dest: map_of_SomeD)
  then obtain v s where v: "(p, v) \<in> set (leaves c [])" "scalar_of v = Some (StringValue s)"
    by (auto simp: set_semantic_entries)
  then have "(p, StringKind) \<in> set (kind_entries (leaves c []))"
    by (auto simp: set_kind_entries kind_name_def intro!: exI [of _ v] exI [of _ "StringValue s"])
  moreover have "distinct (map fst (rev (kind_entries (leaves c []))))"
    using distinct_kind_entries [OF assms(1)] by (simp add: rev_map [symmetric])
  ultimately show ?thesis by (simp add: get_schema_lookup)
qed

definition example_tables :: locale_tables where
  "example_tables = \<lparr>to_lowercase = (\<lambda>s. s), to_uppercase = (\<lambda>s. s), alpha2_codes = [''SE'']\<rparr>"

lemma semantic_types_of_strings_witness:
  "map_of (ds_fields (get_schema example_libs example_tables
      [(''app'', Some (StructValue [(''version'', Some (StringValue ''1.20.3''))])), (''country'', Some (StringValue ''SE''))]))
     ''app.version'' = Some StringKind"
  by (rule semantic_types_of_strings [where t = "Some VersionType"])
    (simp_all add: get_schema_def guess_semantic_type_def is_valid_country_code_def is_date_def is_timestamp_def
      parse_instant_def is_semantic_version_def parse_u32_def ascii_digit_def digit_val_def example_libs_def
      example_tables_def MIN_DATE_LENGTH_def MIN_TIMESTAMP_LENGTH_def)

text \<open>
  With a collision the recorded pair may be one no leaf has: the nested string gives the semantic
  type, the dotted field that follows it in key order the kind.
\<close>

lemma stale_semantic_type:
  "get_schema example_libs example_tables
     [(''a'', Some (StructValue [(''b'', Some (StringValue ''1.2.3''))])), (''a.b'', Some (NumberValue f))] =
   \<lparr>ds_fields = [(''a.b'', NumberKind)], ds_semantic_types = [(''a.b'', Some VersionType)]\<rparr>"
  by (simp add: get_schema_def guess_semantic_type_def is_valid_country_code_def is_date_def is_timestamp_def
      parse_instant_def is_semantic_version_def parse_u32_def ascii_digit_def digit_val_def example_libs_def
      example_tables_def MIN_DATE_LENGTH_def MIN_TIMESTAMP_LENGTH_def)

text \<open>A list whose first element has no kind has no schema, although the kind of the list was determined.\<close>

lemma kindless_first_element:
  "all_same_kind [None, Some (StringValue s)]"
  "get_schema L T [(''a'', Some (ListValue [None, Some (StringValue s)]))] = \<lparr>ds_fields = [], ds_semantic_types = []\<rparr>"
  by (simp_all add: get_schema_def all_same_kind_def List.map_filter_simps)

end
