(* ===== verification/Resolve_Log.thy ===== *)
theory Resolve_Log
  imports Schema_Derivation Bounded_Set Flag_Log_Aggregation
begin

text \<open>
  The counters of resolves (\<open>confidence-resolver/src/resolve_logger.rs\<close>): the live logger, its
  checkpoint, and the stateless log of a single resolve. Counters are 32-bit and wrap around.
  The last section models the lock protocol by which loggers and checkpoints share the state.
\<close>

section \<open>State\<close>

record rule_state =
  ru_count :: u32
  ru_assignments :: "u32 fields"

record flag_state =
  fs_variants :: "u32 fields"
  fs_rules :: "rule_state fields"

record resolve_info_state =
  is_flags :: "flag_state fields"
  is_clients :: "derived_schema bounded_set fields"

definition SCHEMA_SAMPLE_COUNT :: nat where
  [model_defs]: "SCHEMA_SAMPLE_COUNT = 50"

definition resolve_info_new :: resolve_info_state where
  [model_defs]: "resolve_info_new = \<lparr>is_flags = [], is_clients = []\<rparr>"

definition rule_state_default :: rule_state where
  [model_defs]: "rule_state_default = \<lparr>ru_count = 0, ru_assignments = []\<rparr>"

definition flag_state_default :: flag_state where
  [model_defs]: "flag_state_default = \<lparr>fs_variants = [], fs_rules = []\<rparr>"

text \<open>\<open>PapayaMapExt::with_default\<close> with the default of the value type, and \<open>increment\<close>.\<close>

definition with_default :: "'v \<Rightarrow> string \<Rightarrow> ('v \<Rightarrow> 'v) \<Rightarrow> 'v fields \<Rightarrow> 'v fields" where
  [model_defs]: "with_default dflt key f m = (case map_of m key of
       Some v \<Rightarrow> hm_insert key (f v) m
     | None \<Rightarrow> hm_insert key (f dflt) m)"

definition increment :: "string \<Rightarrow> u32 fields \<Rightarrow> u32 fields" where
  [model_defs]: "increment key = with_default 0 key (\<lambda>counter. counter + 1)"

section \<open>Logging\<close>

definition count_rule :: "string \<Rightarrow> string \<Rightarrow> flag_state \<Rightarrow> flag_state" where
  [model_defs]: "count_rule rule asg_id fs = fs\<lparr>fs_rules :=
     with_default rule_state_default rule
       (\<lambda>rs. rs\<lparr>ru_count := ru_count rs + 1, ru_assignments := increment asg_id (ru_assignments rs)\<rparr>) (fs_rules fs)\<rparr>"

definition count_variant :: "string \<Rightarrow> flag_state \<Rightarrow> flag_state" where
  [model_defs]: "count_variant variant_key fs = fs\<lparr>fs_variants := increment variant_key (fs_variants fs)\<rparr>"

definition log_flag :: "assigned_flag \<Rightarrow> flag_state \<Rightarrow> flag_state" where
  [model_defs]: "log_flag af fs =
     (let fs = fold (\<lambda>fallthrough. count_rule (fa_rule fallthrough) (fa_assignment_id fallthrough))
                 (af_fallthrough_assignments af) fs in
      if af_rule af \<noteq> [] then
        (let variant_key = (if af_variant af = [] then [] else af_variant af) in
         count_rule (af_rule af) (af_assignment_id af) (count_variant variant_key fs))
      else count_variant [] fs)"

definition log_resolve :: "libs \<Rightarrow> locale_tables \<Rightarrow> nat \<Rightarrow> gstruct \<Rightarrow> string \<Rightarrow> resolved_value list \<Rightarrow>
    resolve_info_state \<Rightarrow> resolve_info_state" where
  [model_defs]: "log_resolve L T draw resolve_context client_credential rvs st =
     st\<lparr>is_clients := with_default (bset_new SCHEMA_SAMPLE_COUNT) client_credential
          (bset_insert SCHEMA_SAMPLE_COUNT draw (get_schema L T resolve_context)) (is_clients st),
        is_flags := fold (\<lambda>rv. with_default flag_state_default (af_flag (rv_inner rv)) (log_flag (rv_inner rv)))
          rvs (is_flags st)\<rparr>"

section \<open>Checkpoints\<close>

definition extract_client :: "string \<Rightarrow> string" where
  [model_defs]: "extract_client credential =
     (case split_on CHR ''/'' credential of a # b # _ \<Rightarrow> a @ ''/'' @ b | _ \<Rightarrow> credential)"

definition schema_kind_number :: "schema_kind \<Rightarrow> int" where
  [model_defs]: "schema_kind_number k = (case k of UnspecifiedKind \<Rightarrow> 0 | NullKind \<Rightarrow> 1 | NumberKind \<Rightarrow> 2
     | StringKind \<Rightarrow> 3 | BoolKind \<Rightarrow> 4)"

definition to_pb_schema_instance :: "derived_schema \<Rightarrow> schema_instance" where
  [model_defs]: "to_pb_schema_instance schema =
     \<lparr>si_schema = map (\<lambda>(k, v). (k, schema_kind_number v)) (ds_fields schema),
      si_semantic_types = ds_semantic_types schema\<rparr>"

definition build_client_resolve_info :: "resolve_info_state \<Rightarrow> client_resolve_info list" where
  [model_defs]: "build_client_resolve_info st =
     map (\<lambda>(credential, info). \<lparr>cr_client = extract_client credential, cr_client_credential = credential,
            cr_schema = map to_pb_schema_instance (bset_iter info)\<rparr>) (is_clients st)"

definition to_pb_variant :: "string \<times> u32 \<Rightarrow> variant_count" where
  [model_defs]: "to_pb_variant p = \<lparr>vc_variant = fst p, vc_count = uint (snd p)\<rparr>"

definition to_pb_assignment :: "string \<times> u32 \<Rightarrow> assignment_count" where
  [model_defs]: "to_pb_assignment p = \<lparr>ac_assignment_id = fst p, ac_count = uint (snd p)\<rparr>"

definition to_pb_rule :: "string \<times> rule_state \<Rightarrow> rule_count" where
  [model_defs]: "to_pb_rule p = \<lparr>rc_rule = fst p, rc_count = uint (ru_count (snd p)),
     rc_assignments = map to_pb_assignment (ru_assignments (snd p))\<rparr>"

definition flag_info_of_state :: "string \<times> flag_state \<Rightarrow> flag_resolve_info" where
  [model_defs]: "flag_info_of_state p = \<lparr>fi_flag = fst p, fi_variants = map to_pb_variant (fs_variants (snd p)),
     fi_rules = map to_pb_rule (fs_rules (snd p))\<rparr>"

definition build_flag_resolve_info :: "resolve_info_state \<Rightarrow> flag_resolve_info list" where
  [model_defs]: "build_flag_resolve_info st = map flag_info_of_state (is_flags st)"

text \<open>The message of a checkpoint, and the checkpoint of a state no one else uses.\<close>

definition resolve_log_message :: "resolve_info_state \<Rightarrow> log_request" where
  [model_defs]: "resolve_log_message st = \<lparr>lr_flag_assigned = [], lr_telemetry_data = None,
     lr_client_resolve_info = build_client_resolve_info st, lr_flag_resolve_info = build_flag_resolve_info st\<rparr>"

definition resolve_checkpoint :: "resolve_info_state \<Rightarrow> log_request \<times> resolve_info_state" where
  [model_defs]: "resolve_checkpoint st = (resolve_log_message st, resolve_info_new)"

section \<open>The log of a single resolve\<close>

definition one_rule :: "string \<Rightarrow> string \<Rightarrow> rule_count" where
  [model_defs]: "one_rule rule asg_id = \<lparr>rc_rule = rule, rc_count = 1,
     rc_assignments = [\<lparr>ac_assignment_id = asg_id, ac_count = 1\<rparr>]\<rparr>"

definition flag_info_of_value :: "resolved_value \<Rightarrow> flag_resolve_info" where
  [model_defs]: "flag_info_of_value rv =
     (let af = rv_inner rv;
          rules = map (\<lambda>ft. one_rule (fa_rule ft) (fa_assignment_id ft)) (af_fallthrough_assignments af) in
      if af_rule af \<noteq> [] then
        (let variant_key = (if af_variant af = [] then [] else af_variant af) in
         \<lparr>fi_flag = af_flag af, fi_variants = [\<lparr>vc_variant = variant_key, vc_count = 1\<rparr>],
          fi_rules = rules @ [one_rule (af_rule af) (af_assignment_id af)]\<rparr>)
      else \<lparr>fi_flag = af_flag af, fi_variants = [\<lparr>vc_variant = [], vc_count = 1\<rparr>], fi_rules = rules\<rparr>)"

definition build_resolve_log :: "libs \<Rightarrow> locale_tables \<Rightarrow> gstruct \<Rightarrow> string \<Rightarrow> resolved_value list \<Rightarrow>
    flag_resolve_info list \<times> client_resolve_info" where
  [model_defs]: "build_resolve_log L T eval_context client_credential rvs =
     (map flag_info_of_value rvs,
      \<lparr>cr_client = extract_client client_credential, cr_client_credential = client_credential,
       cr_schema = [to_pb_schema_instance (get_schema L T eval_context)]\<rparr>)"

section \<open>Counters\<close>

text \<open>What a resolved value counts: its variant, and the rules that it passed or matched, with the assignment of each.\<close>

definition variant_key_of :: "assigned_flag \<Rightarrow> string" where
  [model_defs]: "variant_key_of af = (if af_rule af \<noteq> [] then af_variant af else [])"

definition rules_of :: "assigned_flag \<Rightarrow> (string \<times> string) list" where
  [model_defs]: "rules_of af = map (\<lambda>ft. (fa_rule ft, fa_assignment_id ft)) (af_fallthrough_assignments af)
     @ (if af_rule af \<noteq> [] then [(af_rule af, af_assignment_id af)] else [])"

definition variant_hits :: "string \<Rightarrow> assigned_flag \<Rightarrow> nat" where
  "variant_hits v af = (if variant_key_of af = v then 1 else 0)"

definition rule_hits :: "string \<Rightarrow> assigned_flag \<Rightarrow> nat" where
  "rule_hits r af = count_list (map fst (rules_of af)) r"

definition assignment_hits :: "string \<Rightarrow> string \<Rightarrow> assigned_flag \<Rightarrow> nat" where
  "assignment_hits r a af = count_list (rules_of af) (r, a)"

definition hits :: "(assigned_flag \<Rightarrow> nat) \<Rightarrow> string \<Rightarrow> resolved_value list \<Rightarrow> nat" where
  "hits h f vs = sum_list (map (\<lambda>rv. if af_flag (rv_inner rv) = f then h (rv_inner rv) else 0) vs)"

text \<open>Reading a counter of the state.\<close>

fun opt_val :: "('a \<Rightarrow> u32) \<Rightarrow> 'a option \<Rightarrow> u32" where
  "opt_val g None = 0"
| "opt_val g (Some x) = g x"

definition variant_read :: "string \<Rightarrow> flag_state \<Rightarrow> u32" where
  "variant_read v fs = opt_val (\<lambda>n. n) (map_of (fs_variants fs) v)"

definition rule_read :: "string \<Rightarrow> flag_state \<Rightarrow> u32" where
  "rule_read r fs = opt_val ru_count (map_of (fs_rules fs) r)"

definition assignment_read :: "string \<Rightarrow> string \<Rightarrow> flag_state \<Rightarrow> u32" where
  "assignment_read r a fs = opt_val (\<lambda>rs. opt_val (\<lambda>n. n) (map_of (ru_assignments rs) a)) (map_of (fs_rules fs) r)"

definition flag_read :: "(flag_state \<Rightarrow> u32) \<Rightarrow> string \<Rightarrow> resolve_info_state \<Rightarrow> u32" where
  "flag_read g f st = opt_val g (map_of (is_flags st) f)"

lemma map_of_with_default:
  "map_of (with_default dflt key f m) k =
     (if k = key then Some (f (case map_of m key of Some v \<Rightarrow> v | None \<Rightarrow> dflt)) else map_of m k)"
  by (simp add: with_default_def split: option.splits)

lemma count_rule_read:
  "variant_read v (count_rule r' a' fs) = variant_read v fs"
  "rule_read r (count_rule r' a' fs) = rule_read r fs + (if r' = r then 1 else 0)"
  "assignment_read r a (count_rule r' a' fs) = assignment_read r a fs + (if (r', a') = (r, a) then 1 else 0)"
  by (auto simp: variant_read_def rule_read_def assignment_read_def count_rule_def increment_def map_of_with_default
      rule_state_default_def split: option.splits)

lemma count_variant_read:
  "variant_read v (count_variant v' fs) = variant_read v fs + (if v' = v then 1 else 0)"
  "rule_read r (count_variant v' fs) = rule_read r fs"
  "assignment_read r a (count_variant v' fs) = assignment_read r a fs"
  by (auto simp: variant_read_def rule_read_def assignment_read_def count_variant_def increment_def map_of_with_default
      split: option.splits)

lemma log_flag_rules: "log_flag af fs =
    fold (\<lambda>(r, a). count_rule r a) (if af_rule af \<noteq> [] then [(af_rule af, af_assignment_id af)] else [])
      (count_variant (variant_key_of af)
        (fold (\<lambda>(r, a). count_rule r a) (map (\<lambda>ft. (fa_rule ft, fa_assignment_id ft)) (af_fallthrough_assignments af)) fs))"
  by (simp add: log_flag_def variant_key_of_def Let_def fold_map comp_def)

lemma count_rules_read:
  "variant_read v (fold (\<lambda>(r, a). count_rule r a) ras fs) = variant_read v fs"
  "rule_read r (fold (\<lambda>(r, a). count_rule r a) ras fs) = rule_read r fs + of_nat (count_list (map fst ras) r)"
  "assignment_read r a (fold (\<lambda>(r, a). count_rule r a) ras fs) = assignment_read r a fs + of_nat (count_list ras (r, a))"
  by (induction ras arbitrary: fs) (auto simp: count_rule_read split: if_splits)

text \<open>A counter \<open>g\<close> of the state that counts the hits \<open>h\<close> of a value.\<close>

definition counts_hits :: "(flag_state \<Rightarrow> u32) \<Rightarrow> (assigned_flag \<Rightarrow> nat) \<Rightarrow> bool" where
  "counts_hits g h \<longleftrightarrow> g flag_state_default = 0 \<and> (\<forall>af fs. g (log_flag af fs) = g fs + of_nat (h af))"

lemma default_read:
  "variant_read v flag_state_default = 0" "rule_read r flag_state_default = 0" "assignment_read r a flag_state_default = 0"
  by (simp_all add: variant_read_def rule_read_def assignment_read_def flag_state_default_def)

lemma counts_hits_variant: "counts_hits (variant_read v) (variant_hits v)"
  by (simp add: counts_hits_def default_read log_flag_rules
      count_rules_read count_variant_read variant_hits_def)

lemma counts_hits_rule: "counts_hits (rule_read r) (rule_hits r)"
  by (simp add: counts_hits_def default_read log_flag_rules
      count_rules_read count_rule_read count_variant_read rule_hits_def rules_of_def comp_def)

lemma counts_hits_assignment: "counts_hits (assignment_read r a) (assignment_hits r a)"
  by (auto simp: counts_hits_def default_read log_flag_rules
      count_rules_read count_rule_read count_variant_read assignment_hits_def rules_of_def)

lemma log_values_read:
  assumes "counts_hits g h"
  shows "opt_val g (map_of (fold (\<lambda>rv. with_default flag_state_default (af_flag (rv_inner rv)) (log_flag (rv_inner rv))) vs m) f) =
    opt_val g (map_of m f) + of_nat (hits h f vs)"
proof (induction vs arbitrary: m)
  case (Cons rv vs)
  have "opt_val g (map_of (with_default flag_state_default (af_flag (rv_inner rv)) (log_flag (rv_inner rv)) m) f) =
      opt_val g (map_of m f) + of_nat (if af_flag (rv_inner rv) = f then h (rv_inner rv) else 0)"
    using assms by (auto simp: counts_hits_def map_of_with_default split: option.splits)
  then show ?case using Cons.IH by (simp add: hits_def add.assoc)
qed (simp add: hits_def)

text \<open>A resolve to log: the random draw, the context, the credential and the resolved values.\<close>

type_synonym resolve_entry = "nat \<times> gstruct \<times> string \<times> resolved_value list"

definition log_entry :: "libs \<Rightarrow> locale_tables \<Rightarrow> resolve_entry \<Rightarrow> resolve_info_state \<Rightarrow> resolve_info_state" where
  "log_entry L T e st = (case e of (draw, context_struct, credential, vs) \<Rightarrow> log_resolve L T draw context_struct credential vs st)"

definition entry_values :: "resolve_entry \<Rightarrow> resolved_value list" where
  "entry_values e = snd (snd (snd e))"

definition logged :: "libs \<Rightarrow> locale_tables \<Rightarrow> resolve_entry list \<Rightarrow> resolve_info_state" where
  "logged L T es = fold (log_entry L T) es resolve_info_new"

lemma flag_read_log_entry:
  "counts_hits g h \<Longrightarrow> flag_read g f (log_entry L T e st) = flag_read g f st + of_nat (hits h f (entry_values e))"
  by (cases e) (simp add: flag_read_def log_entry_def log_resolve_def log_values_read entry_values_def)

lemma hits_append: "hits h f (xs @ ys) = hits h f xs + hits h f ys"
  by (simp add: hits_def)

lemma flag_read_logged:
  assumes "counts_hits g h"
  shows "flag_read g f (logged L T es) = of_nat (hits h f (concat (map entry_values es)))"
proof -
  have "flag_read g f (fold (log_entry L T) es st) = flag_read g f st + of_nat (hits h f (concat (map entry_values es)))" for st
    by (induction es arbitrary: st) (simp_all add: flag_read_log_entry [OF assms] hits_append add.assoc, simp add: hits_def)
  then show ?thesis by (simp add: logged_def resolve_info_new_def flag_read_def)
qed

section \<open>Reading the message\<close>

definition assignment_count_in :: "string \<Rightarrow> string \<Rightarrow> flag_resolve_info \<Rightarrow> int" where
  "assignment_count_in r a fi = sum_list (map (\<lambda>x. if rc_rule x = r
     then sum_list (map (\<lambda>y. if ac_assignment_id y = a then ac_count y else 0) (rc_assignments x)) else 0) (fi_rules fi))"

lemma distinct_with_default: "distinct_keys m \<Longrightarrow> distinct_keys (with_default dflt k f m)"
  by (simp add: with_default_def distinct_keys_hm_insert split: option.splits)

definition wf_flag_state :: "flag_state \<Rightarrow> bool" where
  "wf_flag_state fs \<longleftrightarrow> distinct_keys (fs_variants fs) \<and> distinct_keys (fs_rules fs)
     \<and> (\<forall>r rs. map_of (fs_rules fs) r = Some rs \<longrightarrow> distinct_keys (ru_assignments rs))"

lemma distinct_keys_Nil [simp]: "distinct_keys []"
  by (simp add: distinct_keys_def)

lemma wf_count_rule: "wf_flag_state fs \<Longrightarrow> wf_flag_state (count_rule r a fs)"
  by (auto simp: wf_flag_state_def count_rule_def map_of_with_default increment_def rule_state_default_def
      intro!: distinct_with_default split: option.splits if_splits)

lemma wf_count_variant: "wf_flag_state fs \<Longrightarrow> wf_flag_state (count_variant v fs)"
  by (simp add: wf_flag_state_def count_variant_def increment_def distinct_with_default)

lemma wf_log_flag: "wf_flag_state fs \<Longrightarrow> wf_flag_state (log_flag af fs)"
  unfolding log_flag_rules by (auto intro!: fold_keeps [where P = wf_flag_state] wf_count_rule wf_count_variant)

definition wf_flags :: "flag_state fields \<Rightarrow> bool" where
  "wf_flags m \<longleftrightarrow> distinct_keys m \<and> (\<forall>f fs. map_of m f = Some fs \<longrightarrow> wf_flag_state fs)"

lemma wf_flags_log: "wf_flags m \<Longrightarrow> wf_flags (with_default flag_state_default f (log_flag af) m)"
proof -
  have "wf_flag_state flag_state_default" by (simp add: wf_flag_state_def flag_state_default_def)
  then show "wf_flags m \<Longrightarrow> wf_flags (with_default flag_state_default f (log_flag af) m)"
    by (auto simp: wf_flags_def map_of_with_default intro!: distinct_with_default wf_log_flag split: option.splits if_splits)
qed

lemma wf_logged: "wf_flags (is_flags (logged L T es))"
proof -
  have "wf_flags (is_flags (log_entry L T e st))" if "wf_flags (is_flags st)" for e st
    using that by (cases e) (auto simp: log_entry_def log_resolve_def intro!: fold_keeps [where P = wf_flags] wf_flags_log)
  then show ?thesis
    unfolding logged_def by (intro fold_keeps [where P = "\<lambda>st. wf_flags (is_flags st)"]) (auto simp: wf_flags_def resolve_info_new_def)
qed

lemma message_count:
  assumes "wf_flags (is_flags st)"
    and "\<And>fs. wf_flag_state fs \<Longrightarrow> c (flag_info_of_state (f, fs)) = uint (g fs)"
  shows "flag_count_in c f (resolve_log_message st) = uint (flag_read g f st)"
proof -
  have d: "distinct_keys (is_flags st)" using assms(1) by (simp add: wf_flags_def)
  have "flag_count_in c f (resolve_log_message st) =
      sum_list (map (\<lambda>(k, i). if k = f then c (flag_info_of_state (f, i)) else 0) (is_flags st))"
    unfolding flag_count_in_def resolve_log_message_def build_flag_resolve_info_def
    by (simp add: comp_def) (rule arg_cong [where f = sum_list], auto simp: flag_info_of_state_def)
  then show ?thesis
    using assms by (auto simp: sum_distinct_keys [OF d] flag_read_def wf_flags_def split: option.splits)
qed

lemma variant_message: "wf_flag_state fs \<Longrightarrow> variant_count_in v (flag_info_of_state (f, fs)) = uint (variant_read v fs)"
  using sum_distinct_keys [of "fs_variants fs" v uint]
  by (simp add: wf_flag_state_def variant_count_in_def flag_info_of_state_def variant_read_def to_pb_variant_def
      comp_def case_prod_unfold cong: if_cong split: option.splits)

lemma rule_message: "wf_flag_state fs \<Longrightarrow> rule_count_in r (flag_info_of_state (f, fs)) = uint (rule_read r fs)"
  using sum_distinct_keys [of "fs_rules fs" r "\<lambda>i. uint (ru_count i)"]
  by (simp add: wf_flag_state_def rule_count_in_def flag_info_of_state_def rule_read_def to_pb_rule_def
      comp_def case_prod_unfold cong: if_cong split: option.splits)

lemma assignment_message:
  assumes wf: "wf_flag_state fs"
  shows "assignment_count_in r a (flag_info_of_state (f, fs)) = uint (assignment_read r a fs)"
proof -
  have inner: "sum_list (map (\<lambda>y. if ac_assignment_id y = a then ac_count y else 0) (map to_pb_assignment m)) =
      (case map_of m a of None \<Rightarrow> 0 | Some n \<Rightarrow> uint n)" if "distinct_keys m" for m
    using sum_distinct_keys [OF that, of a uint]
    by (simp add: to_pb_assignment_def comp_def case_prod_unfold cong: if_cong)
  have "assignment_count_in r a (flag_info_of_state (f, fs)) =
      (case map_of (fs_rules fs) r of None \<Rightarrow> 0 | Some i \<Rightarrow>
         sum_list (map (\<lambda>y. if ac_assignment_id y = a then ac_count y else 0) (map to_pb_assignment (ru_assignments i))))"
    using sum_distinct_keys [of "fs_rules fs" r "\<lambda>i. sum_list (map (\<lambda>y. if ac_assignment_id y = a then ac_count y else 0)
        (map to_pb_assignment (ru_assignments i)))"] wf
    by (simp add: wf_flag_state_def assignment_count_in_def flag_info_of_state_def to_pb_rule_def comp_def case_prod_unfold
        cong: if_cong)
  then show ?thesis
    using wf inner by (auto simp: wf_flag_state_def assignment_read_def split: option.splits)
qed

lemma uint_of_nat_32: "uint (of_nat n :: u32) = int (n mod 2 ^ 32)"
  by (simp add: unsigned_of_nat take_bit_eq_mod zmod_int)

lemma logged_count:
  assumes "counts_hits g h" "\<And>fs. wf_flag_state fs \<Longrightarrow> c (flag_info_of_state (f, fs)) = uint (g fs)"
  shows "flag_count_in c f (resolve_log_message (logged L T es)) = int (hits h f (concat (map entry_values es)) mod 2 ^ 32)"
  using message_count [where c = c and f = f and g = g, OF wf_logged assms(2)]
  by (simp add: flag_read_logged [OF assms(1)] uint_of_nat_32)

text \<open>A checkpoint reports what was resolved, modulo 2 to the 32: for each flag and variant the number
  of resolved values of the flag with the variant (the empty one when no rule matched), for each
  rule how often it matched or was passed, and for each rule and assignment how often with that
  assignment.\<close>

lemma checkpoint_counts_resolves:
  "flag_count_in (variant_count_in v) f (fst (resolve_checkpoint (logged L T es))) =
     int (hits (variant_hits v) f (concat (map entry_values es)) mod 2 ^ 32)
  \<and> flag_count_in (rule_count_in r) f (fst (resolve_checkpoint (logged L T es))) =
     int (hits (rule_hits r) f (concat (map entry_values es)) mod 2 ^ 32)
  \<and> flag_count_in (assignment_count_in r a) f (fst (resolve_checkpoint (logged L T es))) =
     int (hits (assignment_hits r a) f (concat (map entry_values es)) mod 2 ^ 32)"
  unfolding resolve_checkpoint_def fst_conv
  by (rule conjI logged_count counts_hits_variant counts_hits_rule counts_hits_assignment variant_message rule_message
      assignment_message; assumption?)+

section \<open>The live and the stateless logs\<close>

definition stateless_request :: "libs \<Rightarrow> locale_tables \<Rightarrow> resolve_entry \<Rightarrow> log_request" where
  "stateless_request L T e = (case e of (draw, context_struct, credential, vs) \<Rightarrow>
     (let (flags, client) = build_resolve_log L T context_struct credential vs in
      log_request_default\<lparr>lr_flag_resolve_info := flags, lr_client_resolve_info := [client]\<rparr>))"

lemma stateless_info:
  "fi_flag (flag_info_of_value rv) = af_flag (rv_inner rv)"
  "variant_count_in v (flag_info_of_value rv) = int (variant_hits v (rv_inner rv))"
  "counts_nonneg (flag_info_of_value rv)"
  by (auto simp: flag_info_of_value_def Let_def variant_count_in_def variant_hits_def variant_key_of_def counts_nonneg_def
      one_rule_def list_all_iff)

lemma sum_indicator: "sum_list (map (\<lambda>x. if p x = r then 1 else (0 :: int)) xs) = int (count_list (map p xs) r)"
  by (induction xs) auto

lemma rules_of_info: "fi_rules (flag_info_of_value rv) = map (\<lambda>(r, a). one_rule r a) (rules_of (rv_inner rv))"
  by (simp add: flag_info_of_value_def Let_def rules_of_def)

lemma stateless_rules: "rule_count_in r (flag_info_of_value rv) = int (rule_hits r (rv_inner rv))"
proof -
  have "rule_count_in r (flag_info_of_value rv) = sum_list (map (\<lambda>x. if fst x = r then 1 else 0) (rules_of (rv_inner rv)))"
    unfolding rule_count_in_def rules_of_info
    by (simp add: comp_def) (rule arg_cong [where f = sum_list], auto simp: one_rule_def)
  then show ?thesis by (simp add: sum_indicator rule_hits_def)
qed

lemma stateless_count:
  assumes "\<And>rv. c (flag_info_of_value rv) = int (h (rv_inner rv))"
  shows "flag_count_in c f (stateless_request L T e) = int (hits h f (entry_values e))"
proof (cases e)
  case (fields draw s cred vs)
  have "sum_list (map (\<lambda>fi. if fi_flag fi = f then c fi else 0) (map flag_info_of_value vs)) = int (hits h f vs)"
    by (induction vs) (simp_all add: hits_def stateless_info assms)
  then show ?thesis
    by (simp add: fields stateless_request_def build_resolve_log_def flag_count_in_def entry_values_def)
qed

lemma stateless_total:
  assumes "\<And>rv. c (flag_info_of_value rv) = int (h (rv_inner rv))"
  shows "sum_list (map (flag_count_in c f) (map (stateless_request L T) es)) = int (hits h f (concat (map entry_values es)))"
  by (induction es) (simp_all add: stateless_count [where h = h, OF assms] hits_append, simp add: hits_def)

lemma stateless_nonneg: "list_all counts_nonneg (lr_flag_resolve_info (stateless_request L T e))"
  by (cases e) (auto simp: stateless_request_def build_resolve_log_def list_all_iff stateless_info)


definition logged_value :: "string \<Rightarrow> string \<Rightarrow> string \<Rightarrow> resolved_value" where
  [model_defs]: "logged_value f r v = example_value\<lparr>rv_inner := assigned_flag_default\<lparr>af_flag := f, af_rule := r,
     af_variant := v, af_fallthrough_assignments := [\<lparr>fa_rule = ''r0'', fa_assignment_id = ''a0'', fa_targeting_key = [],
       fa_targeting_key_selector = []\<rparr>]\<rparr>\<rparr>"


end
