(* ===== verification/Resolve_Log_Protocol.thy ===== *)
theory Resolve_Log_Protocol
  imports Resolve_Log "HOL-Library.Multiset"
begin

text \<open>
  How threads share the state of the resolve logger (\<open>with_state\<close> and \<open>checkpoint\<close> of
  \<open>confidence-resolver/src/resolve_logger.rs\<close>). A cell is one \<open>RwLock<Option<_>>\<close>, its content the list of
  the resolves logged into it; \<open>ArcSwap\<close> is the index of the current cell. A step is one lock or swap
  operation. Logging under the read lock is one step: the increments of concurrent readers are
  atomic and commute. The outputs and the started resolves are kept for the specification only.
\<close>

section \<open>Steps\<close>

datatype 'e thread =
    Outside
  | Loaded nat 'e
  | Reading nat 'e
  | Swapped nat
  | Writing nat

record 'e logger =
  lg_cells :: "'e list option list"
  lg_current :: nat
  lg_threads :: "'e thread list"
  lg_started :: "'e list"
  lg_outputs :: "'e list list"

definition logger_new :: "nat \<Rightarrow> 'e logger" where
  [model_defs]: "logger_new n = \<lparr>lg_cells = [Some []], lg_current = 0, lg_threads = replicate n Outside,
     lg_started = [], lg_outputs = []\<rparr>"

definition at_thread :: "nat \<Rightarrow> 'e thread \<Rightarrow> 'e logger \<Rightarrow> bool" where
  "at_thread t p S \<longleftrightarrow> t < length (lg_threads S) \<and> lg_threads S ! t = p"

definition go :: "nat \<Rightarrow> 'e thread \<Rightarrow> 'e logger \<Rightarrow> 'e logger" where
  "go t p S = S\<lparr>lg_threads := (lg_threads S)[t := p]\<rparr>"

inductive logger_step :: "'e logger \<Rightarrow> 'e logger \<Rightarrow> bool" where
  LogLoad: "at_thread t Outside S \<Longrightarrow>
     logger_step S (go t (Loaded (lg_current S) e) (S\<lparr>lg_started := lg_started S @ [e]\<rparr>))"
| LogBlocked: "at_thread t (Loaded g e) S \<Longrightarrow> at_thread u (Swapped g) S \<or> at_thread u (Writing g) S \<Longrightarrow>
     logger_step S (go t (Loaded (lg_current S) e) S)"
| LogRead: "at_thread t (Loaded g e) S \<Longrightarrow> Writing g \<notin> set (lg_threads S) \<Longrightarrow>
     logger_step S (go t (Reading g e) S)"
| LogApply: "at_thread t (Reading g e) S \<Longrightarrow> lg_cells S ! g = Some es \<Longrightarrow>
     logger_step S (go t Outside (S\<lparr>lg_cells := (lg_cells S)[g := Some (es @ [e])]\<rparr>))"
| LogGone: "at_thread t (Reading g e) S \<Longrightarrow> lg_cells S ! g = None \<Longrightarrow>
     logger_step S (go t (Loaded (lg_current S) e) S)"
| CheckSwap: "at_thread t Outside S \<Longrightarrow>
     logger_step S (go t (Swapped (lg_current S))
       (S\<lparr>lg_cells := lg_cells S @ [Some []], lg_current := length (lg_cells S)\<rparr>))"
| CheckLock: "at_thread t (Swapped g) S \<Longrightarrow> Writing g \<notin> set (lg_threads S) \<Longrightarrow>
     \<forall>e. Reading g e \<notin> set (lg_threads S) \<Longrightarrow>
     logger_step S (go t (Writing g) S)"
| CheckTake: "at_thread t (Writing g) S \<Longrightarrow>
     logger_step S (go t Outside (S\<lparr>lg_cells := (lg_cells S)[g := None],
       lg_outputs := lg_outputs S @ [case lg_cells S ! g of None \<Rightarrow> [] | Some es \<Rightarrow> es]\<rparr>))"

inductive logger_reachable :: "nat \<Rightarrow> 'e logger \<Rightarrow> bool" for n where
  Start: "logger_reachable n (logger_new n)"
| Step: "logger_reachable n S \<Longrightarrow> logger_step S S' \<Longrightarrow> logger_reachable n S'"

section \<open>Conservation\<close>

fun in_flight :: "'e thread \<Rightarrow> 'e multiset" where
  "in_flight (Loaded g e) = {#e#}"
| "in_flight (Reading g e) = {#e#}"
| "in_flight _ = {#}"

fun cell_of :: "'e thread \<Rightarrow> nat option" where
  "cell_of Outside = None"
| "cell_of (Loaded g e) = Some g"
| "cell_of (Reading g e) = Some g"
| "cell_of (Swapped g) = Some g"
| "cell_of (Writing g) = Some g"

text \<open>The cell a thread is about to take, or has taken, out of service.\<close>

fun takes :: "'e thread \<Rightarrow> nat multiset" where
  "takes (Swapped g) = {#g#}"
| "takes (Writing g) = {#g#}"
| "takes _ = {#}"

definition content :: "'e list option \<Rightarrow> 'e multiset" where
  "content c = (case c of None \<Rightarrow> {#} | Some es \<Rightarrow> mset es)"

definition accounted :: "'e logger \<Rightarrow> 'e multiset" where
  "accounted S = mset (concat (lg_outputs S)) + sum_list (map content (lg_cells S)) + sum_list (map in_flight (lg_threads S))"

definition taken :: "'e logger \<Rightarrow> nat multiset" where
  "taken S = sum_list (map takes (lg_threads S))"

lemma sum_update:
  fixes f :: "'a \<Rightarrow> 'b multiset"
  shows "i < length xs \<Longrightarrow> sum_list (map f (xs[i := y])) + f (xs ! i) = sum_list (map f xs) + f y"
proof (induction xs arbitrary: i)
  case (Cons x xs)
  then show ?case by (cases i) (auto simp: ac_simps)
qed simp

lemma at_thread_mem: "at_thread t p S \<Longrightarrow> p \<in> set (lg_threads S)"
  by (auto simp: at_thread_def)

lemma go_threads: "p \<in> set (lg_threads (go t q S)) \<Longrightarrow> p = q \<or> p \<in> set (lg_threads S)"
  by (auto simp: go_def dest: set_update_subset_insert [THEN subsetD])

lemma go_simps [simp]:
  "lg_cells (go t p S) = lg_cells S" "lg_current (go t p S) = lg_current S"
  "lg_started (go t p S) = lg_started S" "lg_outputs (go t p S) = lg_outputs S"
  by (simp_all add: go_def)

lemma go_sum:
  fixes f :: "'e thread \<Rightarrow> 'b multiset"
  assumes "at_thread t p S" "lg_threads S' = lg_threads S"
  shows "sum_list (map f (lg_threads (go t q S'))) + f p = sum_list (map f (lg_threads S)) + f q"
  using sum_update [of t "lg_threads S" f q] assms by (simp add: at_thread_def go_def)

text \<open>The threads hold cells that exist, and the current cell holds a state.\<close>

definition cells_ok :: "'e logger \<Rightarrow> bool" where
  "cells_ok S \<longleftrightarrow> lg_current S < length (lg_cells S) \<and> lg_cells S ! lg_current S \<noteq> None
     \<and> (\<forall>p \<in> set (lg_threads S). \<forall>g. cell_of p = Some g \<longrightarrow> g < length (lg_cells S))"

text \<open>
  Exactly one thread is taking each cell that is neither current nor empty, and no thread takes
  the current cell or one already empty.
\<close>

definition takes_ok :: "'e logger \<Rightarrow> bool" where
  "takes_ok S \<longleftrightarrow> (\<forall>g. count (taken S) g =
     (if g < length (lg_cells S) \<and> g \<noteq> lg_current S \<and> lg_cells S ! g \<noteq> None then 1 else 0))"

definition excluded :: "'e logger \<Rightarrow> bool" where
  "excluded S \<longleftrightarrow> (\<forall>g e. Reading g e \<in> set (lg_threads S) \<longrightarrow> Writing g \<notin> set (lg_threads S))"

lemma held_cell: "cells_ok S \<Longrightarrow> at_thread t p S \<Longrightarrow> cell_of p = Some g \<Longrightarrow> g < length (lg_cells S)"
  by (auto simp: cells_ok_def dest!: at_thread_mem)

lemma in_sum_list: "g \<in># sum_list ms \<longleftrightarrow> (\<exists>m \<in> set ms. g \<in># m)"
  by (induction ms) auto

lemma taking: "at_thread t p S \<Longrightarrow> g \<in># takes p \<Longrightarrow> takes_ok S \<Longrightarrow>
    g < length (lg_cells S) \<and> g \<noteq> lg_current S \<and> lg_cells S ! g \<noteq> None"
proof -
  assume "at_thread t p S" "g \<in># takes p" and ok: "takes_ok S"
  then have "g \<in># taken S" by (auto simp: taken_def in_sum_list dest: at_thread_mem)
  then have "count (taken S) g \<noteq> 0" by simp
  then show ?thesis using ok by (auto simp: takes_ok_def split: if_splits)
qed

lemma excluded_step: "logger_step S S' \<Longrightarrow> excluded S \<Longrightarrow> excluded S'"
  by (induction rule: logger_step.induct) (auto simp: excluded_def dest!: go_threads, auto simp: go_def)

lemma accounted_step:
  assumes "logger_step S S'" "cells_ok S" "accounted S = mset (lg_started S)"
  shows "accounted S' = mset (lg_started S')"
  using assms
proof (induction rule: logger_step.induct)
  case (LogLoad t S e)
  then show ?case using go_sum [OF LogLoad.hyps, of "S\<lparr>lg_started := lg_started S @ [e]\<rparr>" in_flight "Loaded (lg_current S) e"]
    by (simp add: accounted_def)
next
  case (LogBlocked t g e S u)
  then show ?case using go_sum [OF LogBlocked.hyps(1), of S in_flight "Loaded (lg_current S) e"] by (simp add: accounted_def)
next
  case (LogRead t g e S)
  then show ?case using go_sum [OF LogRead.hyps(1), of S in_flight "Reading g e"] by (simp add: accounted_def)
next
  case (LogApply t g e S es)
  have "g < length (lg_cells S)" using LogApply held_cell by fastforce
  then have "sum_list (map content ((lg_cells S)[g := Some (es @ [e])])) = add_mset e (sum_list (map content (lg_cells S)))"
    using sum_update [of g "lg_cells S" content "Some (es @ [e])"] LogApply.hyps(2) by (simp add: content_def)
  moreover have "sum_list (map in_flight (lg_threads S)) =
      add_mset e (sum_list (map in_flight (lg_threads (go t Outside (S\<lparr>lg_cells := (lg_cells S)[g := Some (es @ [e])]\<rparr>)))))"
    using go_sum [OF LogApply.hyps(1), of "S\<lparr>lg_cells := (lg_cells S)[g := Some (es @ [e])]\<rparr>" in_flight Outside] by simp
  ultimately show ?case using LogApply.prems by (simp add: accounted_def)
next
  case (LogGone t g e S)
  then show ?case using go_sum [OF LogGone.hyps(1), of S in_flight "Loaded (lg_current S) e"] by (simp add: accounted_def)
next
  case (CheckSwap t S)
  then show ?case
    using go_sum [OF CheckSwap.hyps, of "S\<lparr>lg_cells := lg_cells S @ [Some []], lg_current := length (lg_cells S)\<rparr>" in_flight "Swapped (lg_current S)"]
    by (simp add: accounted_def content_def)
next
  case (CheckLock t g S)
  then show ?case using go_sum [OF CheckLock.hyps(1), of S in_flight "Writing g"] by (simp add: accounted_def)
next
  case (CheckTake t g S)
  have "g < length (lg_cells S)" using CheckTake held_cell by fastforce
  then have "sum_list (map content (lg_cells S)) = sum_list (map content ((lg_cells S)[g := None])) + content (lg_cells S ! g)"
    using sum_update [of g "lg_cells S" content None] by (simp add: content_def)
  moreover have "mset (case c of None \<Rightarrow> [] | Some es \<Rightarrow> es) = content c" for c :: "'a list option"
    by (simp add: content_def split: option.split)
  moreover have "sum_list (map in_flight (lg_threads (go t Outside (S\<lparr>lg_cells := (lg_cells S)[g := None],
      lg_outputs := lg_outputs S @ [case lg_cells S ! g of None \<Rightarrow> [] | Some es \<Rightarrow> es]\<rparr>)))) = sum_list (map in_flight (lg_threads S))"
    using go_sum [OF CheckTake.hyps(1), of "S\<lparr>lg_cells := (lg_cells S)[g := None],
       lg_outputs := lg_outputs S @ [case lg_cells S ! g of None \<Rightarrow> [] | Some es \<Rightarrow> es]\<rparr>" in_flight Outside] by simp
  ultimately show ?case using CheckTake.prems(2) by (simp add: accounted_def ac_simps)
qed

lemma cells_ok_step:
  assumes "logger_step S S'" "cells_ok S" "takes_ok S"
  shows "cells_ok S'"
  using assms
proof (induction rule: logger_step.induct)
  case (LogApply t g e S es)
  then have "g < length (lg_cells S)" using held_cell by fastforce
  then show ?case using LogApply.prems(1) by (auto simp: cells_ok_def nth_list_update dest!: go_threads)
next
  case (CheckSwap t S)
  then show ?case by (fastforce simp: cells_ok_def nth_append dest!: go_threads)
next
  case (CheckTake t g S)
  then have "g \<noteq> lg_current S" using taking [OF CheckTake.hyps, of g] by simp
  then show ?case using CheckTake.prems(1) by (auto simp: cells_ok_def nth_list_update dest!: go_threads)
qed (fastforce simp: cells_ok_def dest!: go_threads at_thread_mem)+

lemma taken_go:
  assumes "at_thread t p S" "lg_threads S' = lg_threads S"
  shows "taken (go t q S') + takes p = taken S + takes q"
  using go_sum [OF assms, of takes q] by (simp add: taken_def)

lemma taken_same: "at_thread t p S \<Longrightarrow> lg_threads S' = lg_threads S \<Longrightarrow> takes p = takes q \<Longrightarrow> taken (go t q S') = taken S"
  using taken_go [of t p S S' q] by simp

lemma takes_ok_step:
  assumes "logger_step S S'" "cells_ok S" "takes_ok S"
  shows "takes_ok S'"
  using assms
proof (induction rule: logger_step.induct)
  case (LogApply t g e S es)
  then have "g < length (lg_cells S)" using held_cell by fastforce
  then show ?case
    using LogApply taken_go [OF LogApply.hyps(1), of "S\<lparr>lg_cells := (lg_cells S)[g := Some (es @ [e])]\<rparr>" Outside]
    by (auto simp: takes_ok_def nth_list_update)
next
  case (CheckSwap t S)
  have cur: "lg_current S < length (lg_cells S)" "lg_cells S ! lg_current S \<noteq> None" using CheckSwap.prems by (auto simp: cells_ok_def)
  let ?S' = "S\<lparr>lg_cells := lg_cells S @ [Some []], lg_current := length (lg_cells S)\<rparr>"
  have "taken (go t (Swapped (lg_current S)) ?S') = add_mset (lg_current S) (taken S)"
    using taken_go [OF CheckSwap.hyps, of ?S' "Swapped (lg_current S)"] by simp
  then show ?case using CheckSwap.prems(2) cur by (auto simp: takes_ok_def nth_append)
next
  case (CheckTake t g S)
  have g: "g < length (lg_cells S)" "g \<noteq> lg_current S" "lg_cells S ! g \<noteq> None"
    using taking [OF CheckTake.hyps, of g] CheckTake.prems by auto
  let ?S' = "S\<lparr>lg_cells := (lg_cells S)[g := None], lg_outputs := lg_outputs S @ [case lg_cells S ! g of None \<Rightarrow> [] | Some es \<Rightarrow> es]\<rparr>"
  have "taken S = add_mset g (taken (go t Outside ?S'))"
    using taken_go [OF CheckTake.hyps, of ?S' Outside] by simp
  then have "count (taken (go t Outside ?S')) h = count (taken S) h - (if h = g then 1 else 0)" for h
    by simp
  then show ?case using CheckTake.prems(2) g by (auto simp: takes_ok_def nth_list_update)
next
  case (LogLoad t S e)
  then show ?case by (simp add: takes_ok_def taken_same)
next
  case (LogBlocked t g e S u)
  from LogBlocked.prems show ?case by (simp add: takes_ok_def taken_same [OF LogBlocked.hyps(1)])
next
  case (LogRead t g e S)
  then show ?case by (simp add: takes_ok_def taken_same [OF LogRead.hyps(1)])
next
  case (LogGone t g e S)
  then show ?case by (simp add: takes_ok_def taken_same [OF LogGone.hyps(1)])
next
  case (CheckLock t g S)
  then show ?case by (simp add: takes_ok_def taken_same [OF CheckLock.hyps(1)])
qed

lemma sum_list_none: "sum_list (replicate n ({#} :: 'b multiset)) = {#}"
  by (induction n) simp_all

lemma sum_single: "sum_list (map (\<lambda>g. if g = i then x else ({#} :: 'b multiset)) [0..<n]) = (if i < n then x else {#})"
  by (induction n) auto

lemma idle_sum: "set ps \<subseteq> {Outside} \<Longrightarrow> f Outside = ({#} :: 'b multiset) \<Longrightarrow> sum_list (map f ps) = {#}"
  by (induction ps) auto

text \<open>C20: no resolve is lost or counted twice, however the threads interleave. In every reachable state of the
  shared logger the resolves started are exactly those in the outputs of checkpoints, those in
  the cells not yet taken and those whose thread has not logged yet; the current cell always
  holds a state, so a logger that found an empty cell succeeds with the current one; a cell is
  not read while it is written; and once no thread is at work, all that a further checkpoint
  has to report is in the current cell.\<close>

theorem resolves_logged_once:
  assumes "logger_reachable n S"
  shows "accounted S = mset (lg_started S) \<and> lg_cells S ! lg_current S \<noteq> None
    \<and> (\<forall>g e. Reading g e \<in> set (lg_threads S) \<longrightarrow> Writing g \<notin> set (lg_threads S))
    \<and> (set (lg_threads S) \<subseteq> {Outside} \<longrightarrow>
         mset (concat (lg_outputs S)) + content (lg_cells S ! lg_current S) = mset (lg_started S))"
proof -
  have inv: "accounted S = mset (lg_started S) \<and> cells_ok S \<and> takes_ok S \<and> excluded S"
    using assms
  proof (induction rule: logger_reachable.induct)
    case Start
    show ?case
      by (auto simp: logger_new_def accounted_def cells_ok_def takes_ok_def excluded_def taken_def content_def sum_list_none)
  next
    case (Step S S')
    then show ?case by (blast intro: accounted_step cells_ok_step takes_ok_step excluded_step)
  qed
  have "mset (concat (lg_outputs S)) + content (lg_cells S ! lg_current S) = mset (lg_started S)"
    if idle: "set (lg_threads S) \<subseteq> {Outside}"
  proof -
    have "lg_cells S ! g = None" if "g < length (lg_cells S)" "g \<noteq> lg_current S" for g
      using inv that idle_sum [OF idle, of takes] by (auto simp: takes_ok_def taken_def split: if_splits)
    then have "map content (lg_cells S) = map (\<lambda>g. if g = lg_current S then content (lg_cells S ! lg_current S) else {#}) [0..<length (lg_cells S)]"
      by (intro nth_equalityI) (auto simp: content_def)
    then have "sum_list (map content (lg_cells S)) = content (lg_cells S ! lg_current S)"
      using inv by (simp add: cells_ok_def sum_single)
    then show ?thesis using inv idle_sum [OF idle, of in_flight] by (simp add: accounted_def)
  qed
  then show ?thesis using inv by (auto simp: cells_ok_def excluded_def)
qed

lemma resolves_logged_once_witness:
  "logger_reachable 1 \<lparr>lg_cells = [Some [''e'']], lg_current = 0, lg_threads = [Outside], lg_started = [''e''], lg_outputs = []\<rparr> \<and>
   mset (concat []) + content (Some [''e'']) = mset [''e'']"
proof -
  let ?S = "\<lambda>c p. \<lparr>lg_cells = [Some c], lg_current = 0, lg_threads = [p], lg_started = [''e''], lg_outputs = []\<rparr>"
  have "logger_reachable 1 (?S [] (Loaded 0 ''e''))"
    using Step [OF Start [of 1], OF LogLoad [of 0 "logger_new 1" "''e''"]] by (simp add: logger_new_def at_thread_def go_def)
  from Step [OF this, OF LogRead [of 0 0 "''e''"]] have "logger_reachable 1 (?S [] (Reading 0 ''e''))"
    by (simp add: at_thread_def go_def)
  from Step [OF this, OF LogApply [of 0 0 "''e''" _ "[]"]] have r: "logger_reachable 1 (?S [''e''] Outside)"
    by (simp add: at_thread_def go_def)
  from resolves_logged_once [OF this] r show ?thesis by simp
qed

end
