(* ===== verification/Telemetry.thy ===== *)
theory Telemetry
  imports Flag_Log_Aggregation Apply_Dedup
begin

text \<open>
  Telemetry (\<open>confidence-resolver/src/telemetry.rs\<close>): the in-memory collector of the guest, the
  deltas it reports, the stateless delta of a single request, and the cumulative snapshot into
  which a server accumulates the deltas. The floating-point logarithm of the bucket index, the
  memory reading and the version string are the parameters of \<open>telemetry_env\<close>. Counters are 64-bit
  in memory and 32-bit in a delta.
\<close>

section \<open>Collector\<close>

record telemetry_env =
  te_ln_bucket :: "u32 \<Rightarrow> nat"
  te_ln_ratio :: f64
  te_memory_bytes :: u64
  te_version :: string

definition BUCKET_COUNT :: nat where
  [model_defs]: "BUCKET_COUNT = 174"

definition REASON_COUNT :: nat where
  [model_defs]: "REASON_COUNT = 11"

record histogram =
  hg_sum :: u64
  hg_count :: u64
  hg_buckets :: "u64 list"

definition histogram_new :: histogram where
  [model_defs]: "histogram_new = \<lparr>hg_sum = 0, hg_count = 0, hg_buckets = replicate BUCKET_COUNT 0\<rparr>"

text \<open>\<open>if let Some(x) = xs.get(i)\<close> followed by \<open>fetch_add\<close>.\<close>

definition bump :: "nat \<Rightarrow> u64 list \<Rightarrow> u64 list" where
  [model_defs]: "bump idx bs = (if idx < length bs then bs[idx := bs ! idx + 1] else bs)"

definition observe :: "telemetry_env \<Rightarrow> u32 \<Rightarrow> histogram \<Rightarrow> histogram" where
  [model_defs]: "observe E value h =
     (let idx = (if value = 0 then 0 else min (te_ln_bucket E value) (length (hg_buckets h) - 1)) in
      \<lparr>hg_sum = hg_sum h + ucast value, hg_count = hg_count h + 1, hg_buckets = bump idx (hg_buckets h)\<rparr>)"

record telemetry =
  tl_resolve_latency :: histogram
  tl_resolve_rates :: "u64 list"
  tl_last_state_update :: u64

definition telemetry_new :: telemetry where
  [model_defs]: "telemetry_new = \<lparr>tl_resolve_latency = histogram_new, tl_resolve_rates = replicate REASON_COUNT 0,
     tl_last_state_update = 0\<rparr>"

definition record_latency_us :: "telemetry_env \<Rightarrow> u32 \<Rightarrow> telemetry \<Rightarrow> telemetry" where
  [model_defs]: "record_latency_us E micros t = t\<lparr>tl_resolve_latency := observe E micros (tl_resolve_latency t)\<rparr>"

definition mark_resolve :: "resolve_reason \<Rightarrow> telemetry \<Rightarrow> telemetry" where
  [model_defs]: "mark_resolve reason t = t\<lparr>tl_resolve_rates := bump (nat (reason_number reason)) (tl_resolve_rates t)\<rparr>"

definition set_last_state_update :: "u64 \<Rightarrow> telemetry \<Rightarrow> telemetry" where
  [model_defs]: "set_last_state_update epoch_ms t = t\<lparr>tl_last_state_update := epoch_ms\<rparr>"

section \<open>Snapshots\<close>

record provider_init_snapshot =
  ps_labels :: "string fields"
  ps_count :: u64

record flush_snapshot =
  fl_succeeded :: u64
  fl_failed :: u64

record events_snapshot =
  ev_published :: u64
  ev_batches_succeeded :: u64
  ev_batches_failed :: u64
  ev_events_rejected :: u64

record tel_snapshot =
  sn_latency :: histogram
  sn_resolve_rates :: "u64 list"
  sn_memory_bytes :: u64
  sn_apply_dedup :: "dedup_snapshot option"
  sn_flush :: flush_snapshot
  sn_events :: events_snapshot
  sn_provider_init_rate :: "provider_init_snapshot list"

definition snapshot_default :: tel_snapshot where
  [model_defs]: "snapshot_default = \<lparr>sn_latency = \<lparr>hg_sum = 0, hg_count = 0, hg_buckets = []\<rparr>, sn_resolve_rates = [],
     sn_memory_bytes = 0, sn_apply_dedup = None, sn_flush = \<lparr>fl_succeeded = 0, fl_failed = 0\<rparr>,
     sn_events = \<lparr>ev_published = 0, ev_batches_succeeded = 0, ev_batches_failed = 0, ev_events_rejected = 0\<rparr>,
     sn_provider_init_rate = []\<rparr>"

definition snapshot :: "telemetry_env \<Rightarrow> telemetry \<Rightarrow> tel_snapshot" where
  [model_defs]: "snapshot E t = snapshot_default\<lparr>sn_latency := tl_resolve_latency t, sn_resolve_rates := tl_resolve_rates t,
     sn_memory_bytes := te_memory_bytes E\<rparr>"

text \<open>\<open>get(i).copied().unwrap_or(0)\<close>.\<close>

definition get_or_0 :: "('a::zero) list \<Rightarrow> nat \<Rightarrow> 'a" where
  [model_defs]: "get_or_0 xs i = (case nth_opt xs i of Some x \<Rightarrow> x | None \<Rightarrow> 0)"

section \<open>Deltas\<close>

text \<open>The loop of \<open>bucket_spans\<close>: the spans of non-zero counts, with the span being built.\<close>

fun spans_loop :: "nat \<Rightarrow> (int \<times> u32 list) option \<Rightarrow> u32 list \<Rightarrow> bucket_span list" where
  "spans_loop i None [] = []"
| "spans_loop i (Some (offset, counts)) [] = [\<lparr>bs_offset = offset, bs_counts = counts\<rparr>]"
| "spans_loop i None (v # vs) = spans_loop (Suc i) (if 0 < v then Some (int i, [v]) else None) vs"
| "spans_loop i (Some (offset, counts)) (v # vs) =
     (if 0 < v then spans_loop (Suc i) (Some (offset, counts @ [v])) vs
      else \<lparr>bs_offset = offset, bs_counts = counts\<rparr> # spans_loop (Suc i) None vs)"

definition bucket_spans :: "u32 list \<Rightarrow> bucket_span list" where
  [model_defs]: "bucket_spans buckets = spans_loop 0 None buckets"

definition rate_deltas :: "u64 list \<Rightarrow> u64 list \<Rightarrow> resolve_rate list" where
  [model_defs]: "rate_deltas current previous =
     List.map_filter (\<lambda>(i, c). let delta = (ucast (c - get_or_0 previous i) :: u32) in
         if 0 < delta then Some \<lparr>rr_count = delta, rr_reason = int i\<rparr> else None)
       (enumerate 0 current)"

text \<open>\<open>delta_snapshot\<close> returns the delta and the snapshot that becomes the last flushed one.\<close>

definition delta_snapshot :: "telemetry_env \<Rightarrow> telemetry \<Rightarrow> tel_snapshot \<Rightarrow> telemetry_data \<times> tel_snapshot" where
  [model_defs]: "delta_snapshot E t previous =
     (let current = snapshot E t;
          delta_sum = (ucast (hg_sum (sn_latency current) - hg_sum (sn_latency previous)) :: u32);
          delta_count = (ucast (hg_count (sn_latency current) - hg_count (sn_latency previous)) :: u32);
          resolve_latency =
            (if 0 < delta_count then
               (let delta_buckets = map (\<lambda>(i, c). ucast (c - get_or_0 (hg_buckets (sn_latency previous)) i) :: u32)
                      (enumerate 0 (hg_buckets (sn_latency current))) in
                Some \<lparr>rl_sum = delta_sum, rl_count = delta_count, rl_buckets = bucket_spans delta_buckets,
                      rl_ln_ratio = te_ln_ratio E\<rparr>)
             else None) in
      (telemetry_default\<lparr>td_resolve_latency := resolve_latency,
         td_resolve_rate := rate_deltas (sn_resolve_rates current) (sn_resolve_rates previous),
         td_state_age := (if 0 < tl_last_state_update t then Some (tl_last_state_update t) else None),
         td_memory_bytes := te_memory_bytes E, td_resolver_version := te_version E\<rparr>, current))"

definition u32_saturating_add :: "u32 \<Rightarrow> u32 \<Rightarrow> u32" where
  [model_defs]: "u32_saturating_add x y = (if unat x + unat y < 2 ^ 32 then x + y else 0xFFFFFFFF)"

fun count_reasons :: "resolve_reason list \<Rightarrow> resolve_rate list \<Rightarrow> resolve_rate list" where
  "count_reasons [] rates = rates"
| "count_reasons (r # rs) rates = count_reasons rs
     (case update_first (\<lambda>e. rr_reason e = reason_number r) (\<lambda>e. e\<lparr>rr_count := u32_saturating_add (rr_count e) 1\<rparr>) rates of
        Some rates' \<Rightarrow> rates'
      | None \<Rightarrow> rates @ [\<lparr>rr_count = 1, rr_reason = reason_number r\<rparr>])"

definition build_request_telemetry :: "telemetry_env \<Rightarrow> u32 option \<Rightarrow> resolve_reason list \<Rightarrow> telemetry_data" where
  [model_defs]: "build_request_telemetry E latency_us rs =
     telemetry_default\<lparr>
       td_resolve_latency := map_option (\<lambda>us.
         let idx = (if us = 0 then 0 else min (te_ln_bucket E us) (BUCKET_COUNT - 1)) in
         \<lparr>rl_sum = us, rl_count = 1, rl_buckets = [\<lparr>bs_offset = int idx, bs_counts = [1]\<rparr>],
          rl_ln_ratio = te_ln_ratio E\<rparr>) latency_us,
       td_resolve_rate := count_reasons rs [], td_resolver_version := te_version E\<rparr>"

section \<open>Accumulation\<close>

definition resize_add :: "nat \<Rightarrow> u32 \<Rightarrow> u64 list \<Rightarrow> u64 list" where
  [model_defs]: "resize_add idx n bs =
     (let bs = (if length bs \<le> idx then bs @ replicate (Suc idx - length bs) 0 else bs) in
      bs[idx := bs ! idx + ucast n])"

fun add_counts :: "nat \<Rightarrow> u32 list \<Rightarrow> u64 list \<Rightarrow> u64 list" where
  "add_counts idx [] bs = bs"
| "add_counts idx (c # counts) bs =
     (if BUCKET_COUNT \<le> idx then bs else add_counts (Suc idx) counts (resize_add idx c bs))"

definition add_span :: "bucket_span \<Rightarrow> u64 list \<Rightarrow> u64 list" where
  [model_defs]: "add_span span bs =
     (if 0 \<le> bs_offset span \<and> nat (bs_offset span) < BUCKET_COUNT
      then add_counts (nat (bs_offset span)) (bs_counts span) bs else bs)"

definition add_latency :: "resolve_latency option \<Rightarrow> histogram \<Rightarrow> histogram" where
  [model_defs]: "add_latency latency h = (case latency of None \<Rightarrow> h
     | Some l \<Rightarrow> \<lparr>hg_sum = hg_sum h + ucast (rl_sum l), hg_count = hg_count h + ucast (rl_count l),
                  hg_buckets = fold add_span (rl_buckets l) (hg_buckets h)\<rparr>)"

definition add_rate :: "resolve_rate \<Rightarrow> u64 list \<Rightarrow> u64 list" where
  [model_defs]: "add_rate r rates =
     (if 0 \<le> rr_reason r \<and> nat (rr_reason r) < REASON_COUNT then resize_add (nat (rr_reason r)) (rr_count r) rates else rates)"

definition add_dedup :: "dedup_telemetry option \<Rightarrow> dedup_snapshot option \<Rightarrow> dedup_snapshot option" where
  [model_defs]: "add_dedup delta acc = (case delta of None \<Rightarrow> acc
     | Some d \<Rightarrow> (let ad = (case acc of Some ad \<Rightarrow> ad | None \<Rightarrow> dedup_snapshot_default) in
         Some \<lparr>ds_applies_total = ds_applies_total ad + ucast (dt_applies_total d),
               ds_applies_deduped = ds_applies_deduped ad + ucast (dt_applies_deduped d),
               ds_overflow = ds_overflow ad + ucast (dt_overflow d), ds_sweeps = ds_sweeps ad + ucast (dt_sweeps d),
               ds_map_size = dt_map_size d, ds_map_capacity = dt_map_capacity d\<rparr>))"

definition add_flush :: "flush_telemetry option \<Rightarrow> flush_snapshot \<Rightarrow> flush_snapshot" where
  [model_defs]: "add_flush delta f = (case delta of None \<Rightarrow> f
     | Some d \<Rightarrow> \<lparr>fl_succeeded = fl_succeeded f + ucast (ft_succeeded d), fl_failed = fl_failed f + ucast (ft_failed d)\<rparr>)"

definition add_events :: "events_telemetry option \<Rightarrow> events_snapshot \<Rightarrow> events_snapshot" where
  [model_defs]: "add_events delta e = (case delta of None \<Rightarrow> e
     | Some d \<Rightarrow> \<lparr>ev_published = ev_published e + ucast (et_published d),
         ev_batches_succeeded = ev_batches_succeeded e + ucast (et_batches_succeeded d),
         ev_batches_failed = ev_batches_failed e + ucast (et_batches_failed d),
         ev_events_rejected = ev_events_rejected e + ucast (et_events_rejected d)\<rparr>)"

definition add_init :: "provider_init \<Rightarrow> provider_init_snapshot list \<Rightarrow> provider_init_snapshot list" where
  [model_defs]: "add_init pir entries =
     (case update_first (\<lambda>e. ps_labels e = pi_labels pir) (\<lambda>e. e\<lparr>ps_count := ps_count e + ucast (pi_count pir)\<rparr>) entries of
        Some entries' \<Rightarrow> entries'
      | None \<Rightarrow> vec_insert (partition_point (\<lambda>e. ps_labels e < pi_labels pir) entries)
          \<lparr>ps_labels = pi_labels pir, ps_count = ucast (pi_count pir)\<rparr> entries)"

definition accumulate_delta :: "telemetry_data \<Rightarrow> tel_snapshot \<Rightarrow> tel_snapshot" where
  [model_defs]: "accumulate_delta td s =
     s\<lparr>sn_latency := add_latency (td_resolve_latency td) (sn_latency s),
       sn_resolve_rates := fold add_rate (td_resolve_rate td) (sn_resolve_rates s),
       sn_memory_bytes := (if 0 < td_memory_bytes td then td_memory_bytes td else sn_memory_bytes s),
       sn_apply_dedup := add_dedup (td_apply_dedup td) (sn_apply_dedup s),
       sn_flush := add_flush (td_flush td) (sn_flush s), sn_events := add_events (td_events td) (sn_events s),
       sn_provider_init_rate := fold add_init (td_provider_init_rate td) (sn_provider_init_rate s)\<rparr>"

section \<open>Counters as numbers\<close>

text \<open>
  What a delta says about a counter, as a natural number, and the value of the counter in a
  snapshot. \<open>Bucket\<close> is the count of a latency bucket, summed over the spans that cover it.
\<close>

datatype metric = Bucket nat | Metric counter

definition span_value :: "nat \<Rightarrow> bucket_span \<Rightarrow> nat" where
  "span_value j span = (if 0 \<le> bs_offset span \<and> j < BUCKET_COUNT \<and> nat (bs_offset span) \<le> j
     \<and> j - nat (bs_offset span) < length (bs_counts span)
     then unat (bs_counts span ! (j - nat (bs_offset span))) else 0)"

definition opt_nat :: "('a \<Rightarrow> nat) \<Rightarrow> 'a option \<Rightarrow> nat" where
  "opt_nat f x = (case x of None \<Rightarrow> 0 | Some y \<Rightarrow> f y)"

definition rate_value :: "int \<Rightarrow> resolve_rate list \<Rightarrow> nat" where
  "rate_value r rates = (if 0 \<le> r \<and> nat r < REASON_COUNT
     then sum_list (map (\<lambda>x. if rr_reason x = r then unat (rr_count x) else 0) rates) else 0)"

definition init_value :: "string fields \<Rightarrow> provider_init list \<Rightarrow> nat" where
  "init_value l inits = sum_list (map (\<lambda>x. if pi_labels x = l then unat (pi_count x) else 0) inits)"

fun delta_value :: "metric \<Rightarrow> telemetry_data \<Rightarrow> nat" where
  "delta_value (Bucket j) td = opt_nat (\<lambda>l. sum_list (map (span_value j) (rl_buckets l))) (td_resolve_latency td)"
| "delta_value (Metric (Rate r)) td = rate_value r (td_resolve_rate td)"
| "delta_value (Metric (Init l)) td = init_value l (td_provider_init_rate td)"
| "delta_value (Metric c) td = unat (counter_value c td)"

fun opt_word :: "('a \<Rightarrow> u64) \<Rightarrow> 'a option \<Rightarrow> u64" where
  "opt_word f None = 0"
| "opt_word f (Some x) = f x"

fun snapshot_value :: "metric \<Rightarrow> tel_snapshot \<Rightarrow> u64" where
  "snapshot_value (Bucket j) s = (if j < BUCKET_COUNT then get_or_0 (hg_buckets (sn_latency s)) j else 0)"
| "snapshot_value (Metric LatencySum) s = hg_sum (sn_latency s)"
| "snapshot_value (Metric LatencyCount) s = hg_count (sn_latency s)"
| "snapshot_value (Metric (Rate r)) s = (if 0 \<le> r \<and> nat r < REASON_COUNT then get_or_0 (sn_resolve_rates s) (nat r) else 0)"
| "snapshot_value (Metric (Init l)) s = sum_list (map (\<lambda>x. if ps_labels x = l then ps_count x else 0) (sn_provider_init_rate s))"
| "snapshot_value (Metric Applies) s = opt_word ds_applies_total (sn_apply_dedup s)"
| "snapshot_value (Metric Deduped) s = opt_word ds_applies_deduped (sn_apply_dedup s)"
| "snapshot_value (Metric Overflow) s = opt_word ds_overflow (sn_apply_dedup s)"
| "snapshot_value (Metric Sweeps) s = opt_word ds_sweeps (sn_apply_dedup s)"
| "snapshot_value (Metric FlushSucceeded) s = fl_succeeded (sn_flush s)"
| "snapshot_value (Metric FlushFailed) s = fl_failed (sn_flush s)"
| "snapshot_value (Metric Published) s = ev_published (sn_events s)"
| "snapshot_value (Metric BatchesSucceeded) s = ev_batches_succeeded (sn_events s)"
| "snapshot_value (Metric BatchesFailed) s = ev_batches_failed (sn_events s)"
| "snapshot_value (Metric EventsRejected) s = ev_events_rejected (sn_events s)"

lemma get_or_0_nth: "get_or_0 xs i = (if i < length xs then xs ! i else 0)"
proof (cases "nth_opt xs i")
  case None
  then have "\<not> i < length xs" using nth_opt_Some [of xs i] by (cases "i < length xs") auto
  then show ?thesis by (simp add: get_or_0_def None)
next
  case (Some x)
  then have "i < length xs \<and> xs ! i = x" by (simp add: nth_opt_Some)
  with Some show ?thesis by (simp add: get_or_0_def)
qed

lemma get_resize_add: "get_or_0 (resize_add idx c bs) j = get_or_0 bs j + (if j = idx then of_nat (unat c) else 0)"
  by (auto simp: get_or_0_nth resize_add_def Let_def nth_list_update nth_append)

lemma get_add_counts:
  "get_or_0 (add_counts idx cs bs) j = get_or_0 bs j
     + (if j < BUCKET_COUNT \<and> idx \<le> j \<and> j - idx < length cs then of_nat (unat (cs ! (j - idx))) else 0)"
proof (induction idx cs bs rule: add_counts.induct)
  case (2 idx c cs bs)
  show ?case
  proof (cases "BUCKET_COUNT \<le> idx")
    case False
    then show ?thesis
      using "2.IH" by (cases "j = idx") (auto simp: get_resize_add nth_Cons' Suc_diff_Suc)
  qed auto
qed simp

lemma get_add_span: "get_or_0 (add_span sp bs) j = get_or_0 bs j + of_nat (span_value j sp)"
  if "j < BUCKET_COUNT"
  using that by (auto simp: add_span_def span_value_def get_add_counts)

lemma get_add_spans:
  "j < BUCKET_COUNT \<Longrightarrow> get_or_0 (fold add_span sps bs) j = get_or_0 bs j + of_nat (sum_list (map (span_value j) sps))"
  by (induction sps arbitrary: bs) (simp_all add: get_add_span)

lemma get_add_rates:
  "0 \<le> r \<Longrightarrow> nat r < REASON_COUNT \<Longrightarrow> get_or_0 (fold add_rate rs rates) (nat r) = get_or_0 rates (nat r) + of_nat (rate_value r rs)"
proof (induction rs arbitrary: rates)
  case (Cons x rs)
  then show ?case by (auto simp: rate_value_def add_rate_def get_resize_add)
qed (simp add: rate_value_def)

lemma add_init_value:
  "sum_list (map (\<lambda>x. if ps_labels x = l then ps_count x else 0) (add_init pir entries)) =
     sum_list (map (\<lambda>x. if ps_labels x = l then ps_count x else 0) entries) + (if pi_labels pir = l then ucast (pi_count pir) else 0)"
proof (cases "update_first (\<lambda>e. ps_labels e = pi_labels pir) (\<lambda>e. e\<lparr>ps_count := ps_count e + ucast (pi_count pir)\<rparr>) entries")
  case None
  then show ?thesis by (simp add: add_init_def vec_insert_sum add.commute)
next
  case (Some ys)
  from update_first_sum [OF _ this, where g = "\<lambda>x. if ps_labels x = l then ps_count x else 0"
      and n = "if pi_labels pir = l then ucast (pi_count pir) else 0"] Some
  show ?thesis by (simp add: add_init_def)
qed

lemma add_inits_value:
  "sum_list (map (\<lambda>x. if ps_labels x = l then ps_count x else 0) (fold add_init inits entries)) =
     sum_list (map (\<lambda>x. if ps_labels x = l then ps_count x else 0) entries) + of_nat (init_value l inits)"
  by (induction inits arbitrary: entries) (simp_all add: add_init_value init_value_def add.assoc)

lemma no_span_value: "\<not> j < BUCKET_COUNT \<Longrightarrow> sum_list (map (span_value j) sps) = 0"
  by (induction sps) (simp_all add: span_value_def)

lemma accumulate_value: "snapshot_value m (accumulate_delta td s) = snapshot_value m s + of_nat (delta_value m td)"
proof (cases m)
  case (Bucket j)
  then show ?thesis
    by (auto simp: accumulate_delta_def add_latency_def get_add_spans opt_nat_def no_span_value split: option.splits)
next
  case (Metric c)
  then show ?thesis
    by (cases c; cases "td_resolve_latency td"; cases "td_apply_dedup td"; cases "sn_apply_dedup s"; cases "td_flush td"; cases "td_events td")
      (simp_all add: accumulate_delta_def add_latency_def add_dedup_def add_flush_def add_events_def get_add_rates
        add_inits_value rate_value_def dedup_snapshot_default_def Let_def)
qed

section \<open>Deltas report what happened\<close>

datatype tel_event = Observed u32 | Marked resolve_reason

fun record_event :: "telemetry_env \<Rightarrow> tel_event \<Rightarrow> telemetry \<Rightarrow> telemetry" where
  "record_event E (Observed us) t = record_latency_us E us t"
| "record_event E (Marked r) t = mark_resolve r t"

definition bucket_of :: "telemetry_env \<Rightarrow> u32 \<Rightarrow> nat" where
  "bucket_of E us = (if us = 0 then 0 else min (te_ln_bucket E us) (BUCKET_COUNT - 1))"

text \<open>What an event adds to a metric.\<close>

fun event_value :: "telemetry_env \<Rightarrow> metric \<Rightarrow> tel_event \<Rightarrow> nat" where
  "event_value E (Bucket j) (Observed us) = (if bucket_of E us = j then 1 else 0)"
| "event_value E (Metric LatencySum) (Observed us) = unat us"
| "event_value E (Metric LatencyCount) (Observed us) = 1"
| "event_value E (Metric (Rate r)) (Marked reason) = (if reason_number reason = r then 1 else 0)"
| "event_value E _ _ = 0"

definition events_value :: "telemetry_env \<Rightarrow> metric \<Rightarrow> tel_event list \<Rightarrow> nat" where
  "events_value E m evs = sum_list (map (event_value E m) evs)"

definition wf_telemetry :: "telemetry \<Rightarrow> bool" where
  "wf_telemetry t \<longleftrightarrow> length (hg_buckets (tl_resolve_latency t)) = BUCKET_COUNT \<and> length (tl_resolve_rates t) = REASON_COUNT"

lemma get_bump: "get_or_0 (bump i bs) j = get_or_0 bs j + (if j = i \<and> i < length bs then 1 else 0)"
  by (auto simp: get_or_0_nth bump_def nth_list_update)

lemma length_bump [simp]: "length (bump i bs) = length bs"
  by (simp add: bump_def)

lemma reason_range: "0 \<le> reason_number r" "nat (reason_number r) < REASON_COUNT"
  by (cases r; simp add: REASON_COUNT_def)+

lemma bucket_of_range: "bucket_of E us < BUCKET_COUNT"
  by (auto simp: bucket_of_def BUCKET_COUNT_def)

lemma wf_record: "wf_telemetry t \<Longrightarrow> wf_telemetry (record_event E ev t)"
  by (cases ev) (simp_all add: wf_telemetry_def record_latency_us_def mark_resolve_def observe_def Let_def)

lemma record_value:
  assumes "wf_telemetry t"
  shows "snapshot_value m (snapshot E (record_event E ev t)) = snapshot_value m (snapshot E t) + of_nat (event_value E m ev)"
proof (cases ev)
  case (Observed us)
  have "snapshot E (record_event E ev t) = (snapshot E t)\<lparr>sn_latency := \<lparr>hg_sum = hg_sum (tl_resolve_latency t) + ucast us,
      hg_count = hg_count (tl_resolve_latency t) + 1, hg_buckets = bump (bucket_of E us) (hg_buckets (tl_resolve_latency t))\<rparr>\<rparr>"
    using assms by (simp add: Observed record_latency_us_def observe_def snapshot_def bucket_of_def wf_telemetry_def Let_def)
  then show ?thesis
    using assms bucket_of_range [of E us]
    by (cases "(E, m, ev)" rule: event_value.cases) (auto simp: Observed snapshot_def get_bump wf_telemetry_def)
next
  case (Marked r)
  have "snapshot E (record_event E ev t) = (snapshot E t)\<lparr>sn_resolve_rates := bump (nat (reason_number r)) (tl_resolve_rates t)\<rparr>"
    by (simp add: Marked mark_resolve_def snapshot_def)
  then show ?thesis
    using assms reason_range [of r]
    by (cases "(E, m, ev)" rule: event_value.cases) (auto simp: Marked snapshot_def get_bump wf_telemetry_def)
qed

lemma records_value:
  "wf_telemetry t \<Longrightarrow> wf_telemetry (fold (record_event E) evs t) \<and>
     snapshot_value m (snapshot E (fold (record_event E) evs t)) = snapshot_value m (snapshot E t) + of_nat (events_value E m evs)"
  by (induction evs arbitrary: t) (simp_all add: events_value_def wf_record record_value add.assoc)

text \<open>Reading the spans and the rates of a delta back.\<close>

definition open_value :: "nat \<Rightarrow> (int \<times> u32 list) option \<Rightarrow> nat" where
  "open_value j cur = (case cur of None \<Rightarrow> 0 | Some (off, cs) \<Rightarrow> span_value j \<lparr>bs_offset = off, bs_counts = cs\<rparr>)"

definition open_ok :: "nat \<Rightarrow> (int \<times> u32 list) option \<Rightarrow> bool" where
  "open_ok i cur \<longleftrightarrow> (case cur of None \<Rightarrow> True | Some (off, cs) \<Rightarrow> 0 \<le> off \<and> nat off + length cs = i)"

lemma spans_loop_value:
  assumes "j < BUCKET_COUNT"
  shows "open_ok i cur \<Longrightarrow> sum_list (map (span_value j) (spans_loop i cur vs)) =
     open_value j cur + (if i \<le> j \<and> j - i < length vs then unat (vs ! (j - i)) else 0)"
proof (induction i cur vs rule: spans_loop.induct)
  case (3 i v vs)
  have "open_ok (Suc i) (if 0 < v then Some (int i, [v]) else None)" by (simp add: open_ok_def)
  moreover have "open_value j (if 0 < v then Some (int i, [v]) else None) = (if j = i then unat v else 0)"
    using assms by (auto simp: open_value_def span_value_def word_gt_0)
  ultimately show ?case
    using "3.IH" by (cases "j = i") (auto simp: open_value_def nth_Cons' Suc_diff_Suc)
next
  case (4 i off cs v vs)
  show ?case
  proof (cases "0 < v")
    case True
    have "open_ok (Suc i) (Some (off, cs @ [v]))" using "4.prems" by (simp add: open_ok_def)
    moreover have "open_value j (Some (off, cs @ [v])) = open_value j (Some (off, cs)) + (if j = i then unat v else 0)"
      using assms "4.prems" by (auto simp: open_value_def span_value_def open_ok_def nth_append)
    ultimately show ?thesis
      using "4.IH"(1) True by (cases "j = i") (auto simp: nth_Cons' Suc_diff_Suc)
  next
    case False
    then have "v = 0" by (simp add: word_gt_0)
    moreover have "open_ok (Suc i) None" by (simp add: open_ok_def)
    ultimately show ?thesis
      using "4.IH"(2) by (cases "j = i") (auto simp: open_value_def nth_Cons' Suc_diff_Suc)
  qed
qed (simp_all add: open_value_def)

lemma bucket_spans_value:
  assumes "j < BUCKET_COUNT"
  shows "sum_list (map (span_value j) (bucket_spans vs)) = (if j < length vs then unat (vs ! j) else 0)"
  using spans_loop_value [OF assms, of 0 None vs] by (simp add: bucket_spans_def open_ok_def open_value_def)

lemma rate_deltas_value:
  assumes "0 \<le> r" "nat r < REASON_COUNT" "nat r < length current"
  shows "rate_value r (rate_deltas current previous) = unat (ucast (current ! nat r - get_or_0 previous (nat r)) :: u32)"
proof -
  let ?f = "\<lambda>(i, c). let delta = (ucast (c - get_or_0 previous i) :: u32) in
         if 0 < delta then Some \<lparr>rr_count = delta, rr_reason = int i\<rparr> else None"
  have "sum_list (map (\<lambda>x. if rr_reason x = r then unat (rr_count x) else 0) (List.map_filter ?f (enumerate k cs))) =
      (if k \<le> nat r \<and> nat r - k < length cs then unat (ucast (cs ! (nat r - k) - get_or_0 previous (nat r)) :: u32) else 0)" for k cs
  proof (induction cs arbitrary: k)
    case (Cons c cs)
    define d where "d = (ucast (c - get_or_0 previous k) :: u32)"
    have split: "List.map_filter ?f (enumerate k (c # cs)) =
        (if 0 < d then [\<lparr>rr_count = d, rr_reason = int k\<rparr>] else []) @ List.map_filter ?f (enumerate (Suc k) cs)"
      by (simp add: List.map_filter_simps Let_def flip: d_def)
    have zero: "unat d = 0" if "\<not> 0 < d" using that by (simp add: word_gt_0)
    show ?case
    proof (cases "nat r = k")
      case True
      then show ?thesis unfolding split using assms(1) zero by (simp add: Cons.IH flip: d_def)
    next
      case False
      then have "int k \<noteq> r" "k \<le> nat r \<longleftrightarrow> Suc k \<le> nat r" "Suc k \<le> nat r \<Longrightarrow> nat r - k = Suc (nat r - Suc k)" using assms(1) by auto
      then show ?thesis unfolding split by (auto simp: Cons.IH)
    qed
  qed (simp add: List.map_filter_simps)
  from this [of 0 current] assms show ?thesis by (simp add: rate_value_def rate_deltas_def)
qed

lemma unat_ucast_diff: "x = y + of_nat n \<Longrightarrow> n < 2 ^ 32 \<Longrightarrow> unat (ucast (x - y :: u64) :: u32) = n"
  by (simp add: unsigned_of_nat unsigned_ucast_eq take_bit_nat_eq_self)

text \<open>
  A delta against a previous snapshot reports, metric by metric, by how much the collector
  exceeds it, when every excess fits 32 bits and the latency metrics move with their count.
\<close>

lemma delta_snapshot_value:
  assumes wf: "wf_telemetry t"
    and diff: "\<And>m. snapshot_value m (snapshot E t) = snapshot_value m prev + of_nat (events_value E m evs)"
    and small: "\<And>m. events_value E m evs < 2 ^ 32"
  shows "delta_value m (fst (delta_snapshot E t prev)) = events_value E m evs"
proof -
  let ?td = "fst (delta_snapshot E t prev)"
  let ?count = "ucast (hg_count (tl_resolve_latency t) - hg_count (sn_latency prev)) :: u32"
  have count: "unat ?count = events_value E (Metric LatencyCount) evs"
    using diff [of "Metric LatencyCount"] small [of "Metric LatencyCount"] by (intro unat_ucast_diff) (simp_all add: snapshot_def)
  have idle: "events_value E m evs = 0" if "?count = 0" "m = Metric LatencySum \<or> (\<exists>j. m = Bucket j)" for m
  proof -
    have "events_value E (Metric LatencyCount) evs = 0" using count that(1) by simp
    then have "\<forall>ev \<in> set evs. event_value E (Metric LatencyCount) ev = 0" by (simp add: events_value_def)
    then have "\<forall>ev \<in> set evs. \<exists>r. ev = Marked r" by (metis event_value.simps(3) tel_event.exhaust zero_neq_one)
    then show ?thesis using that(2) by (auto simp: events_value_def)
  qed
  have none: "events_value E m evs = 0" if "\<And>ev. event_value E m ev = 0" for m
    using that by (simp add: events_value_def)
  show ?thesis
  proof (cases m)
    case (Bucket j)
    show ?thesis
    proof (cases "0 < ?count \<and> j < BUCKET_COUNT")
      case True
      then have d: "delta_value m ?td = unat (ucast (hg_buckets (tl_resolve_latency t) ! j - get_or_0 (hg_buckets (sn_latency prev)) j) :: u32)"
        using wf by (simp add: Bucket delta_snapshot_def snapshot_def Let_def opt_nat_def bucket_spans_value wf_telemetry_def nth_enumerate_eq)
      have e: "hg_buckets (tl_resolve_latency t) ! j = get_or_0 (hg_buckets (sn_latency prev)) j + of_nat (events_value E m evs)"
        using diff [of m] True wf by (simp add: Bucket snapshot_def get_or_0_nth [of "hg_buckets (tl_resolve_latency t)"] wf_telemetry_def)
      show ?thesis unfolding d by (rule unat_ucast_diff [OF e small])
    next
      case False
      have "events_value E m evs = 0" if "\<not> j < BUCKET_COUNT"
      proof (rule none)
        show "event_value E m ev = 0" for ev using that bucket_of_range [of E] by (cases ev) (auto simp: Bucket)
      qed
      then have "events_value E m evs = 0" using False idle [of m] by (auto simp: Bucket word_gt_0)
      then show ?thesis using False by (auto simp: Bucket delta_snapshot_def snapshot_def Let_def opt_nat_def no_span_value telemetry_default_def)
    qed
  next
    case (Metric c)
    show ?thesis
    proof (cases c)
      case LatencySum
      have "unat (ucast (hg_sum (tl_resolve_latency t) - hg_sum (sn_latency prev)) :: u32) = events_value E m evs"
        using diff [of m] small [of m] by (intro unat_ucast_diff) (simp_all add: snapshot_def Metric LatencySum)
      then show ?thesis
        using idle [of m] by (auto simp: Metric LatencySum delta_snapshot_def snapshot_def Let_def telemetry_default_def word_gt_0)
    next
      case LatencyCount
      then show ?thesis
        using count by (auto simp: Metric delta_snapshot_def snapshot_def Let_def telemetry_default_def word_gt_0)
    next
      case (Rate r)
      show ?thesis
      proof (cases "0 \<le> r \<and> nat r < REASON_COUNT")
        case True
        then have d: "delta_value m ?td = unat (ucast (tl_resolve_rates t ! nat r - get_or_0 (sn_resolve_rates prev) (nat r)) :: u32)"
          using wf by (simp add: Metric Rate delta_snapshot_def snapshot_def Let_def rate_deltas_value wf_telemetry_def)
        have e: "tl_resolve_rates t ! nat r = get_or_0 (sn_resolve_rates prev) (nat r) + of_nat (events_value E m evs)"
          using diff [of m] True wf by (simp add: Metric Rate snapshot_def get_or_0_nth [of "tl_resolve_rates t"] wf_telemetry_def)
        show ?thesis unfolding d by (rule unat_ucast_diff [OF e small])
      next
        case False
        have "event_value E m ev = 0" for ev using False reason_range by (cases ev) (auto simp: Metric Rate)
        then show ?thesis using False none [of m] by (auto simp: Metric Rate rate_value_def)
      qed
    qed (simp_all add: Metric delta_snapshot_def snapshot_def Let_def telemetry_default_def init_value_def none)
  qed
qed

section \<open>Collector, deltas and server\<close>

text \<open>
  Rounds of events, each followed by a flush: the collector, its last flushed snapshot, and the
  snapshot of a server that accumulates the deltas.
\<close>

fun flush_rounds :: "telemetry_env \<Rightarrow> tel_event list list \<Rightarrow> telemetry \<times> tel_snapshot \<times> tel_snapshot \<Rightarrow>
    telemetry \<times> tel_snapshot \<times> tel_snapshot" where
  "flush_rounds E [] st = st"
| "flush_rounds E (evs # rounds) (t, last_flushed, server) =
     (let t = fold (record_event E) evs t;
          (td, last_flushed) = delta_snapshot E t last_flushed in
      flush_rounds E rounds (t, last_flushed, accumulate_delta td server))"

definition round_ok :: "telemetry_env \<Rightarrow> tel_event list \<Rightarrow> bool" where
  [model_defs]: "round_ok E evs \<longleftrightarrow> length evs < 2 ^ 32 \<and> events_value E (Metric LatencySum) evs < 2 ^ 32"

lemma events_value_small:
  assumes "round_ok E evs"
  shows "events_value E m evs < 2 ^ 32"
proof (cases "m = Metric LatencySum")
  case False
  have "event_value E m ev \<le> 1" for ev
    using False by (cases "(E, m, ev)" rule: event_value.cases) auto
  then have "events_value E m evs \<le> length evs"
    unfolding events_value_def
  proof (induction evs)
    case (Cons ev evs)
    from Cons.prems [of ev] Cons.IH [OF Cons.prems] show ?case by simp
  qed simp
  then show ?thesis using assms by (simp add: round_ok_def)
qed (use assms in \<open>simp add: round_ok_def\<close>)

lemma flush_rounds_track:
  assumes "\<And>evs. evs \<in> set rounds \<Longrightarrow> round_ok E evs" "wf_telemetry t"
    and "\<And>m. snapshot_value m prev = snapshot_value m (snapshot E t)"
    and "\<And>m. snapshot_value m server = snapshot_value m (snapshot E t)"
    and "flush_rounds E rounds (t, prev, server) = (t', prev', server')"
  shows "snapshot_value m server' = snapshot_value m (snapshot E t') \<and>
    snapshot_value m (snapshot E t') = snapshot_value m (snapshot E t) + of_nat (events_value E m (concat rounds))"
  using assms
proof (induction rounds arbitrary: t prev server)
  case Nil
  then show ?case by (simp add: events_value_def)
next
  case (Cons evs rounds)
  let ?t = "fold (record_event E) evs t"
  obtain td last' where d: "delta_snapshot E ?t prev = (td, last')" by (cases "delta_snapshot E ?t prev")
  have rec: "wf_telemetry ?t" "\<And>m. snapshot_value m (snapshot E ?t) = snapshot_value m (snapshot E t) + of_nat (events_value E m evs)"
    using records_value [OF Cons.prems(2)] by simp_all
  have "delta_value m td = events_value E m evs" for m
    using delta_snapshot_value [OF rec(1), of E prev evs m] events_value_small [of E evs] Cons.prems(1) [of evs]
    by (simp add: rec(2) Cons.prems(3) d)
  then have server: "snapshot_value m (accumulate_delta td server) = snapshot_value m (snapshot E ?t)" for m
    by (simp add: accumulate_value rec(2) Cons.prems(4))
  have "last' = snapshot E ?t" using d by (simp add: delta_snapshot_def Let_def)
  moreover have "flush_rounds E rounds (?t, last', accumulate_delta td server) = (t', prev', server')"
    using Cons.prems(5) by (simp add: Let_def d)
  ultimately show ?case
    using Cons.IH [of ?t last' "accumulate_delta td server"] Cons.prems(1) rec server
    by (simp add: events_value_def add.assoc)
qed

lemma snapshot_default_value [simp]: "snapshot_value m snapshot_default = 0"
  by (cases "(m, snapshot_default)" rule: snapshot_value.cases) (simp_all add: snapshot_default_def get_or_0_nth)

lemma wf_telemetry_new: "wf_telemetry telemetry_new"
  by (simp add: wf_telemetry_def telemetry_new_def histogram_new_def)

lemma snapshot_new_value: "snapshot_value m (snapshot E telemetry_new) = 0"
  by (cases "(m, snapshot_default)" rule: snapshot_value.cases)
    (auto simp: snapshot_def telemetry_new_def histogram_new_def get_or_0_nth snapshot_default_def)

text \<open>C21: the server's cumulative telemetry follows the collector. When a server accumulates every delta of a
  collector, and no round between two flushes has 2 to the 32 events or a latency sum that large,
  then after every flush each counter of the server (latency sum and count, every latency bucket,
  the rate of every reason) equals the collector's, which is the total of all events recorded,
  modulo 2 to the 64.\<close>

theorem server_tracks_collector:
  assumes "\<forall>evs \<in> set rounds. round_ok E evs"
    and "flush_rounds E rounds (telemetry_new, snapshot_default, snapshot_default) = (t, last_flushed, server)"
  shows "snapshot_value m server = snapshot_value m (snapshot E t) \<and>
    snapshot_value m server = of_nat (events_value E m (concat rounds))"
  using flush_rounds_track [OF _ wf_telemetry_new _ _ assms(2), of m] assms(1)
  by (simp add: snapshot_new_value)

definition example_env :: telemetry_env where
  "example_env = \<lparr>te_ln_bucket = (\<lambda>us. if us < 100 then 30 else 60), te_ln_ratio = 0, te_memory_bytes = 65536, te_version = ''0.1''\<rparr>"

lemma server_tracks_collector_witness:
  "\<exists>t last_flushed server. flush_rounds example_env [[Observed 12, Marked RMatch], [], [Observed 500, Observed 7, Marked RError]]
      (telemetry_new, snapshot_default, snapshot_default) = (t, last_flushed, server)
    \<and> snapshot_value (Bucket 30) server = 2 \<and> snapshot_value (Metric LatencySum) server = 519"
proof -
  let ?rounds = "[[Observed 12, Marked RMatch], [], [Observed 500, Observed 7, Marked RError]]"
  obtain t l s where run: "flush_rounds example_env ?rounds (telemetry_new, snapshot_default, snapshot_default) = (t, l, s)"
    by (cases "flush_rounds example_env ?rounds (telemetry_new, snapshot_default, snapshot_default)")
  have ok: "\<forall>evs \<in> set ?rounds. round_ok example_env evs"
    by (simp add: round_ok_def events_value_def)
  have "snapshot_value (Bucket 30) s = 2"
    using server_tracks_collector [OF ok run, of "Bucket 30", THEN conjunct2]
    by (simp add: events_value_def bucket_of_def example_env_def BUCKET_COUNT_def del: snapshot_value.simps)
  moreover have "snapshot_value (Metric LatencySum) s = 519"
    using server_tracks_collector [OF ok run, of "Metric LatencySum", THEN conjunct2]
    by (simp add: events_value_def del: snapshot_value.simps)
  ultimately show ?thesis using run by blast
qed

section \<open>Aggregated deltas\<close>

text \<open>The aggregation adds 32-bit counters; without a carry out of 32 bits it adds the numbers.\<close>

lemma update_first_nat:
  fixes g :: "'a \<Rightarrow> nat"
  assumes "\<And>x. P x \<Longrightarrow> g x + n < B \<Longrightarrow> g (f x) = g x + n"
  shows "update_first P f xs = Some ys \<Longrightarrow> sum_list (map g xs) + n < B \<Longrightarrow> sum_list (map g ys) = sum_list (map g xs) + n"
proof (induction xs arbitrary: ys)
  case (Cons x xs)
  show ?case
  proof (cases "P x")
    case True
    then show ?thesis using Cons.prems assms [of x] by auto
  next
    case False
    then obtain zs where "update_first P f xs = Some zs" "ys = x # zs" using Cons.prems(1) by auto
    then show ?thesis using Cons.IH [of zs] Cons.prems(2) by simp
  qed
qed simp

lemma unat_add_small: "unat (x :: u32) + unat y < 2 ^ 32 \<Longrightarrow> unat (x + y) = unat x + unat y"
  by (simp add: unat_add_lem [THEN iffD1])

lemma merge_rate_nat:
  assumes "rate_value r rates + rate_value r [dr] < 2 ^ 32"
  shows "rate_value r (merge_rate dr rates) = rate_value r rates + rate_value r [dr]"
proof (cases "0 \<le> r \<and> nat r < REASON_COUNT")
  case True
  let ?g = "\<lambda>x. if rr_reason x = r then unat (rr_count x) else 0"
  show ?thesis
  proof (cases "update_first (\<lambda>x. rr_reason x = rr_reason dr) (\<lambda>ar. ar\<lparr>rr_count := rr_count ar + rr_count dr\<rparr>) rates")
    case None
    then show ?thesis using True by (simp add: merge_rate_def rate_value_def)
  next
    case (Some ys)
    have "sum_list (map ?g ys) = sum_list (map ?g rates) + (if rr_reason dr = r then unat (rr_count dr) else 0)"
      by (rule update_first_nat [OF _ Some, where B = "2 ^ 32"])
        (use assms True in \<open>auto simp: rate_value_def unat_add_small split: if_splits\<close>)
    then show ?thesis using True Some by (simp add: merge_rate_def rate_value_def)
  qed
qed (auto simp: rate_value_def)

lemma rate_value_Cons: "rate_value r (x # xs) = rate_value r [x] + rate_value r xs"
  by (simp add: rate_value_def)

lemma merge_rates_nat:
  "rate_value r rates + rate_value r ds < 2 ^ 32 \<Longrightarrow> rate_value r (fold merge_rate ds rates) = rate_value r rates + rate_value r ds"
proof (induction ds arbitrary: rates)
  case (Cons d ds)
  have "rate_value r (merge_rate d rates) = rate_value r rates + rate_value r [d]"
    using Cons.prems rate_value_Cons [of r d ds] by (intro merge_rate_nat) simp
  then show ?case using Cons.IH [of "merge_rate d rates"] Cons.prems rate_value_Cons [of r d ds] by simp
qed (simp add: rate_value_def)

lemma merge_init_nat:
  assumes "init_value l inits + init_value l [dp] < 2 ^ 32"
  shows "init_value l (merge_init dp inits) = init_value l inits + init_value l [dp]"
proof -
  let ?g = "\<lambda>x. if pi_labels x = l then unat (pi_count x) else 0"
  show ?thesis
  proof (cases "update_first (\<lambda>e. pi_labels e = pi_labels dp) (\<lambda>e. e\<lparr>pi_count := pi_count e + pi_count dp\<rparr>) inits")
    case None
    then show ?thesis by (simp add: merge_init_def init_value_def vec_insert_sum add.commute)
  next
    case (Some ys)
    have "sum_list (map ?g ys) = sum_list (map ?g inits) + (if pi_labels dp = l then unat (pi_count dp) else 0)"
      by (rule update_first_nat [OF _ Some, where B = "2 ^ 32"])
        (use assms in \<open>auto simp: init_value_def unat_add_small split: if_splits\<close>)
    then show ?thesis using Some by (simp add: merge_init_def init_value_def)
  qed
qed

lemma merge_inits_nat:
  "init_value l inits + init_value l ds < 2 ^ 32 \<Longrightarrow> init_value l (fold merge_init ds inits) = init_value l inits + init_value l ds"
proof (induction ds arbitrary: inits)
  case (Cons d ds)
  have split: "init_value l (d # ds) = init_value l [d] + init_value l ds" by (simp add: init_value_def)
  have "init_value l (merge_init d inits) = init_value l inits + init_value l [d]"
    using Cons.prems split by (intro merge_init_nat) simp
  then show ?case using Cons.IH [of "merge_init d inits"] Cons.prems split by simp
qed (simp add: init_value_def)

lemma merge_telemetry_nat:
  assumes "\<And>c. opt_nat (delta_value (Metric c)) acc + delta_value (Metric c) delta < 2 ^ 32"
  shows "delta_value m (merge_telemetry acc delta) = opt_nat (delta_value m) acc + delta_value m delta"
proof -
  define a where "a = (case acc of Some a \<Rightarrow> a | None \<Rightarrow> telemetry_default)"
  have default: "delta_value m telemetry_default = 0" for m
    by (cases "(m, telemetry_default)" rule: delta_value.cases)
      (simp_all add: telemetry_default_def opt_nat_def rate_value_def init_value_def)
  then have acc: "opt_nat (delta_value m) acc = delta_value m a" for m
    by (cases acc) (simp_all add: a_def opt_nat_def)
  have merge: "merge_telemetry acc delta = merge_telemetry (Some a) delta"
    by (cases acc) (simp_all add: merge_telemetry_def a_def)
  have plain: "unat (counter_value c (merge_telemetry (Some a) delta)) = unat (counter_value c a) + unat (counter_value c delta)"
    if "unat (counter_value c a) + unat (counter_value c delta) < 2 ^ 32" for c
    using that unat_add_small [of "counter_value c a" "counter_value c delta"]
    by (simp add: merge_telemetry_value telemetry_value_def)
  show ?thesis
  proof (cases m)
    case (Bucket j)
    then show ?thesis
      by (auto simp: merge acc merge_telemetry_def Let_def merge_latency_def opt_nat_def telemetry_default_def split: option.splits)
  next
    case (Metric c)
    have small: "delta_value (Metric c) a + delta_value (Metric c) delta < 2 ^ 32" using assms [of c] by (simp add: acc)
    show ?thesis
      using small plain [of c] unfolding Metric merge acc
      by (cases c) (simp_all add: merge_telemetry_def Let_def merge_rates_nat merge_inits_nat)
  qed
qed

end
