(* ===== verification/Telemetry_Pipeline.thy ===== *)
theory Telemetry_Pipeline
  imports Telemetry
begin

text \<open>
  The telemetry path across components: the aggregation of a batch of log requests
  (\<open>flag_logger.rs\<close>) before the server accumulates it (\<open>telemetry.rs\<close>), and the delta of a stateless
  request against the delta of the in-memory collector.
\<close>

section \<open>Aggregate, then accumulate\<close>

definition deltas_of :: "log_request list \<Rightarrow> telemetry_data list" where
  [model_defs]: "deltas_of ms = List.map_filter lr_telemetry_data ms"

lemma add_message_deltas:
  "ag_telemetry (fold add_message ms ag) = fold (\<lambda>td acc. Some (merge_telemetry acc td)) (deltas_of ms) (ag_telemetry ag)"
proof (induction ms arbitrary: ag)
  case (Cons m ms)
  have "ag_telemetry (add_message m ag) = (case lr_telemetry_data m of None \<Rightarrow> ag_telemetry ag
      | Some td \<Rightarrow> Some (merge_telemetry (ag_telemetry ag) td))"
    by (simp add: add_message_def Let_def split: option.splits)
  then show ?case by (simp add: Cons.IH deltas_of_def List.map_filter_simps split: option.splits)
qed (simp add: deltas_of_def List.map_filter_simps)

lemma delta_value_sdk [simp]: "delta_value m (td\<lparr>td_sdk := s\<rparr>) = delta_value m td"
  by (cases "(m, td)" rule: delta_value.cases) simp_all

lemma delta_value_default [simp]: "delta_value m telemetry_default = 0"
  by (cases "(m, telemetry_default)" rule: delta_value.cases)
    (simp_all add: telemetry_default_def opt_nat_def rate_value_def init_value_def)

lemma merges_nat:
  "(\<And>c. opt_nat (delta_value (Metric c)) acc + sum_list (map (delta_value (Metric c)) tds) < 2 ^ 32) \<Longrightarrow>
   opt_nat (delta_value m) (fold (\<lambda>td acc. Some (merge_telemetry acc td)) tds acc) =
     opt_nat (delta_value m) acc + sum_list (map (delta_value m) tds)"
proof (induction tds arbitrary: acc)
  case (Cons td tds)
  have merge: "delta_value m (merge_telemetry acc td) = opt_nat (delta_value m) acc + delta_value m td" for m
  proof (rule merge_telemetry_nat)
    show "opt_nat (delta_value (Metric c)) acc + delta_value (Metric c) td < 2 ^ 32" for c using Cons.prems [of c] by simp
  qed
  have "opt_nat (delta_value (Metric c)) (Some (merge_telemetry acc td)) + sum_list (map (delta_value (Metric c)) tds) < 2 ^ 32" for c
    using Cons.prems [of c] by (simp add: opt_nat_def [of _ "Some _"] merge)
  from Cons.IH [OF this] show ?case by (simp add: opt_nat_def [of _ "Some _"] merge)
qed simp

lemma accumulates_value:
  "snapshot_value m (fold accumulate_delta tds s) = snapshot_value m s + of_nat (sum_list (map (delta_value m) tds))"
  by (induction tds arbitrary: s) (simp_all add: accumulate_value add.assoc)

definition accumulate_message :: "log_request \<Rightarrow> tel_snapshot \<Rightarrow> tel_snapshot" where
  [model_defs]: "accumulate_message m s = (case lr_telemetry_data m of None \<Rightarrow> s | Some td \<Rightarrow> accumulate_delta td s)"

lemma accumulate_message_value:
  "snapshot_value m (accumulate_message r s) = snapshot_value m s + of_nat (opt_nat (delta_value m) (lr_telemetry_data r))"
  by (simp add: accumulate_message_def accumulate_value opt_nat_def split: option.splits)

lemma accumulate_messages: "fold accumulate_message ms s = fold accumulate_delta (deltas_of ms) s"
  by (induction ms arbitrary: s) (simp_all add: accumulate_message_def deltas_of_def List.map_filter_simps split: option.splits)

text \<open>Aggregating a batch before it is accumulated changes no counter. If no counter of the deltas of the
  batch sums up to 2 to the 32, then accumulating the aggregated delta leaves every metric of the
  server's snapshot, latency buckets and label sets included, as accumulating the deltas one by
  one does.\<close>

lemma aggregation_preserves_accumulation:
  assumes "\<forall>c. sum_list (map (delta_value (Metric c)) (deltas_of ms)) < 2 ^ 32"
  shows "snapshot_value m (accumulate_message (aggregate_batch ms) s) = snapshot_value m (fold accumulate_message ms s)"
proof -
  let ?acc = "ag_telemetry (fold add_message ms aggregate_empty)"
  have "opt_nat (delta_value m) (lr_telemetry_data (aggregate_batch ms)) = opt_nat (delta_value m) ?acc"
    by (auto simp: aggregate_batch_def Let_def attach_sdk_def opt_nat_def split: option.splits)
  also have "\<dots> = sum_list (map (delta_value m) (deltas_of ms))"
    using merges_nat [of None "deltas_of ms" m] assms by (simp add: add_message_deltas aggregate_empty_def opt_nat_def [of _ None])
  finally show ?thesis
    by (simp add: accumulate_message_value accumulate_messages accumulates_value)
qed

definition delta_message :: "telemetry_data \<Rightarrow> log_request" where
  [model_defs]: "delta_message td = log_request_default\<lparr>lr_telemetry_data := Some td\<rparr>"

definition example_delta :: "u32 \<Rightarrow> telemetry_data" where
  [model_defs]: "example_delta n = telemetry_default\<lparr>
     td_resolve_latency := Some \<lparr>rl_sum = n, rl_count = 1, rl_buckets = [\<lparr>bs_offset = 40, bs_counts = [1]\<rparr>], rl_ln_ratio = 0\<rparr>,
     td_resolve_rate := [\<lparr>rr_count = 1, rr_reason = 1\<rparr>]\<rparr>"

lemma example_small: "sum_list (map (delta_value (Metric c)) [example_delta 70, example_delta 80]) < 2 ^ 32"
  by (cases c) (auto simp: example_delta_def telemetry_default_def rate_value_def init_value_def)

lemma aggregation_preserves_accumulation_witness:
  "snapshot_value (Bucket 40) (accumulate_message (aggregate_batch [delta_message (example_delta 70), log_request_default, delta_message (example_delta 80)]) snapshot_default) = 2"
proof -
  let ?ms = "[delta_message (example_delta 70), log_request_default, delta_message (example_delta 80)]"
  have d: "deltas_of ?ms = [example_delta 70, example_delta 80]"
    by (simp add: deltas_of_def delta_message_def log_request_default_def List.map_filter_simps)
  then have "\<forall>c. sum_list (map (delta_value (Metric c)) (deltas_of ?ms)) < 2 ^ 32" using example_small by simp
  from aggregation_preserves_accumulation [OF this, of "Bucket 40" snapshot_default]
  have "snapshot_value (Bucket 40) (accumulate_message (aggregate_batch ?ms) snapshot_default) =
      snapshot_value (Bucket 40) (fold accumulate_message ?ms snapshot_default)" .
  also have "\<dots> = 2"
    unfolding accumulate_messages accumulates_value d by (simp add: example_delta_def opt_nat_def span_value_def BUCKET_COUNT_def)
  finally show ?thesis .
qed

section \<open>Stateless requests\<close>

lemma count_reasons_value:
  "rate_value r rates + length rs < 2 ^ 32 \<Longrightarrow>
     rate_value r (count_reasons rs rates) = rate_value r rates
       + (if 0 \<le> r \<and> nat r < REASON_COUNT then count_list (map reason_number rs) r else 0)"
proof (induction rs arbitrary: rates)
  case (Cons x rs)
  let ?rates = "case update_first (\<lambda>e. rr_reason e = reason_number x) (\<lambda>e. e\<lparr>rr_count := u32_saturating_add (rr_count e) 1\<rparr>) rates of
        Some rates' \<Rightarrow> rates' | None \<Rightarrow> rates @ [\<lparr>rr_count = 1, rr_reason = reason_number x\<rparr>]"
  have step: "rate_value r ?rates = rate_value r rates + (if reason_number x = r then 1 else 0)"
  proof (cases "0 \<le> r \<and> nat r < REASON_COUNT")
    case True
    show ?thesis
    proof (cases "update_first (\<lambda>e. rr_reason e = reason_number x) (\<lambda>e. e\<lparr>rr_count := u32_saturating_add (rr_count e) 1\<rparr>) rates")
      case None
      then show ?thesis using True by (simp add: rate_value_def)
    next
      case (Some ys)
      have "sum_list (map (\<lambda>x. if rr_reason x = r then unat (rr_count x) else 0) ys) =
          sum_list (map (\<lambda>x. if rr_reason x = r then unat (rr_count x) else 0) rates) + (if reason_number x = r then 1 else 0)"
        by (rule update_first_nat [OF _ Some, where B = "2 ^ 32"])
          (use Cons.prems True in \<open>auto simp: rate_value_def u32_saturating_add_def unat_add_small split: if_splits\<close>)
      then show ?thesis using True Some by (simp add: rate_value_def)
    qed
  next
    case False
    then show ?thesis using reason_range [of x] by (auto simp: rate_value_def)
  qed
  have "rate_value r (count_reasons rs ?rates) = rate_value r ?rates
       + (if 0 \<le> r \<and> nat r < REASON_COUNT then count_list (map reason_number rs) r else 0)"
    using Cons.prems step by (intro Cons.IH) auto
  then show ?case using step reason_range [of x] by auto
qed simp

definition request_events :: "u32 option \<Rightarrow> resolve_reason list \<Rightarrow> tel_event list" where
  [model_defs]: "request_events latency_us rs = (case latency_us of None \<Rightarrow> [] | Some us \<Rightarrow> [Observed us]) @ map Marked rs"

lemma marked_values:
  "events_value E (Bucket j) (map Marked rs) = 0" "events_value E (Metric LatencySum) (map Marked rs) = 0"
  "events_value E (Metric LatencyCount) (map Marked rs) = 0"
  "events_value E (Metric (Rate r)) (map Marked rs) = count_list (map reason_number rs) r"
  by (induction rs) (auto simp: events_value_def)

lemma request_telemetry_value:
  assumes "length rs < 2 ^ 32"
  shows "delta_value m (build_request_telemetry E latency_us rs) = events_value E m (request_events latency_us rs)"
proof -
  have rates: "rate_value r (count_reasons rs []) = count_list (map reason_number rs) r" for r
  proof (cases "0 \<le> r \<and> nat r < REASON_COUNT")
    case True
    then show ?thesis using count_reasons_value [of r "[]" rs] assms by (simp add: rate_value_def)
  next
    case False
    then have "r \<notin> set (map reason_number rs)" using reason_range by auto
    then show ?thesis using False by (auto simp: rate_value_def count_list_0_iff)
  qed
  have app: "events_value E m (xs @ ys) = events_value E m xs + events_value E m ys" for m xs ys
    by (simp add: events_value_def)
  have none: "events_value E m (map Marked rs) = 0" if "\<And>reason. event_value E m (Marked reason) = 0" for m
    using that by (simp add: events_value_def comp_def)
  have latency: "td_resolve_latency (build_request_telemetry E None rs) = None"
    "td_resolve_latency (build_request_telemetry E (Some us) rs) = Some \<lparr>rl_sum = us, rl_count = 1,
       rl_buckets = [\<lparr>bs_offset = int (bucket_of E us), bs_counts = [1]\<rparr>], rl_ln_ratio = te_ln_ratio E\<rparr>" for us
    by (simp_all add: build_request_telemetry_def bucket_of_def Let_def)
  have rest: "td_resolve_rate (build_request_telemetry E lat rs) = count_reasons rs []"
    "td_provider_init_rate (build_request_telemetry E lat rs) = []" "td_apply_dedup (build_request_telemetry E lat rs) = None"
    "td_flush (build_request_telemetry E lat rs) = None" "td_events (build_request_telemetry E lat rs) = None" for lat
    by (simp_all add: build_request_telemetry_def telemetry_default_def)
  have events: "events_value E m (request_events None rs) = events_value E m (map Marked rs)"
    "events_value E m (request_events (Some us) rs) = event_value E m (Observed us) + events_value E m (map Marked rs)" for m us
    by (simp_all add: request_events_def events_value_def)
  show ?thesis
  proof (cases m)
    case (Bucket j)
    then show ?thesis
      using bucket_of_range [of E "the latency_us"]
      by (cases latency_us) (auto simp: latency events marked_values opt_nat_def span_value_def)
  next
    case (Metric c)
    have marked: "events_value E (Metric c) (map Marked rs) = (case c of Rate r \<Rightarrow> count_list (map reason_number rs) r | _ \<Rightarrow> 0)" for c
      by (cases c) (simp_all add: marked_values none)
    show ?thesis
      unfolding Metric
      by (cases c; cases latency_us) (simp_all add: latency rest rates events marked init_value_def)
  qed
qed

text \<open>A stateless request reports what the collector would. For fewer than 2 to the 32 resolved flags the
  delta built for one request and the delta of a fresh collector that recorded the request's
  latency and reasons agree in every metric.\<close>

lemma request_telemetry_agrees:
  assumes "length rs < 2 ^ 32 - 1"
  shows "delta_value m (build_request_telemetry E latency_us rs) =
    delta_value m (fst (delta_snapshot E (fold (record_event E) (request_events latency_us rs) telemetry_new) snapshot_default))"
proof -
  have "round_ok E (request_events latency_us rs)"
    using assms unsigned_less [of "the latency_us"]
    by (cases latency_us) (auto simp: round_ok_def request_events_def events_value_def comp_def)
  then have small: "events_value E m (request_events latency_us rs) < 2 ^ 32" for m by (rule events_value_small)
  have "delta_value m (fst (delta_snapshot E (fold (record_event E) (request_events latency_us rs) telemetry_new) snapshot_default)) =
      events_value E m (request_events latency_us rs)"
    by (rule delta_snapshot_value [OF _ _ small]) (simp_all add: records_value [OF wf_telemetry_new] snapshot_new_value)
  then show ?thesis using assms by (simp add: request_telemetry_value)
qed

lemma request_telemetry_agrees_witness:
  "delta_value (Metric (Rate 1)) (fst (delta_snapshot example_env
     (fold (record_event example_env) (request_events (Some 250) [RMatch, RNoSegmentMatch, RMatch]) telemetry_new) snapshot_default)) = 2"
proof -
  have "length [RMatch, RNoSegmentMatch, RMatch] < 2 ^ 32 - 1" by simp
  from request_telemetry_agrees [OF this, of "Metric (Rate 1)" example_env "Some 250"] show ?thesis
    by (simp add: build_request_telemetry_def u32_saturating_add_def rate_value_def REASON_COUNT_def)
qed

end
