(* ===== verification/Flag_Log_Delivery.thy ===== *)
theory Flag_Log_Delivery
  imports Telemetry_Pipeline Resolver_State "HOL-Library.Sublist"
begin

text \<open>
  Delivery of flag logs by the Cloudflare worker (\<open>confidence-cloudflare-resolver/src/flag_log/mod.rs\<close> and the
  delivery functions of its \<open>lib.rs\<close>): the budget of an invocation, the walk over the destinations with its
  retries, and the splitting of a batch by encoded size, by JSON size and by applied flags.

  The platform is the parameter \<open>net\<close>: its state \<open>'w\<close> is the clock and whatever the network does, \<open>send\<close>
  is one HTTP request that is aborted after its budget, and the encoded sizes are those of the serializers. Times
  are whole milliseconds, as \<open>Date.now()\<close> returns them. An \<open>async\<close> function is the function of its result;
  the requests that reached a destination are kept beside the platform's state for the specification only.
\<close>

section \<open>Sinks\<close>

datatype sink = QueueSink | BufferSink

definition ascii_lower :: "char \<Rightarrow> char" where
  [model_defs]: "ascii_lower c = (if 65 \<le> (of_char c :: nat) \<and> (of_char c :: nat) \<le> 90 then char_of ((of_char c :: nat) + 32) else c)"

definition eq_ignore_ascii_case :: "string \<Rightarrow> string \<Rightarrow> bool" where
  [model_defs]: "eq_ignore_ascii_case a b \<longleftrightarrow> map ascii_lower a = map ascii_lower b"

text \<open>\<open>str::trim\<close> is a parameter: it removes Unicode white space.\<close>

definition sink_parse :: "(string \<Rightarrow> string) \<Rightarrow> string option \<Rightarrow> sink" where
  [model_defs]: "sink_parse trim raw =
     (case map_option trim raw of
        Some value \<Rightarrow> if eq_ignore_ascii_case value ''buffer'' then BufferSink else QueueSink
      | None \<Rightarrow> QueueSink)"

definition dedup_enabled :: "(string \<Rightarrow> string) \<Rightarrow> string option \<Rightarrow> bool" where
  [model_defs]: "dedup_enabled trim var =
     (case map_option (\<lambda>v. \<not> eq_ignore_ascii_case (trim v) ''false'') var of Some b \<Rightarrow> b | None \<Rightarrow> True)"

section \<open>Budgets\<close>

definition DELIVERY_ATTEMPTS :: nat where [model_defs]: "DELIVERY_ATTEMPTS = 3"
definition INVOCATION_BUDGET_MS :: int where [model_defs]: "INVOCATION_BUDGET_MS = 25000"
definition QUEUE_BUDGET_MS :: int where [model_defs]: "QUEUE_BUDGET_MS = 120000"
definition MIN_ATTEMPT_MS :: int where [model_defs]: "MIN_ATTEMPT_MS = 250"

text \<open>\<open>ATTEMPT_SHARE\<close> is two fifths; the caller truncates the budget to whole milliseconds.\<close>

definition attempt_budget_ms :: "int \<Rightarrow> int" where
  [model_defs]: "attempt_budget_ms remaining_ms = max (remaining_ms * 2 div 5) MIN_ATTEMPT_MS"

record deadline =
  at_ms :: int

definition for_http_background :: "int \<Rightarrow> deadline" where
  [model_defs]: "for_http_background now = \<lparr>at_ms = now + INVOCATION_BUDGET_MS\<rparr>"

definition for_queue_consumer :: "int \<Rightarrow> deadline" where
  [model_defs]: "for_queue_consumer now = \<lparr>at_ms = now + QUEUE_BUDGET_MS\<rparr>"

definition remaining_from :: "deadline \<Rightarrow> int \<Rightarrow> int" where
  [model_defs]: "remaining_from d now = max (at_ms d - now) 0"

definition retry_backoff_ms :: "nat \<Rightarrow> nat" where
  [model_defs]: "retry_backoff_ms attempt = (if attempt = 1 then 250 else 1000)"

section \<open>One destination\<close>

text \<open>
  The response of the platform is a status or a transport error. \<open>nt_send secret url account body budget\<close>
  sends JSON without an account and the wrapped protobuf with one.
\<close>

datatype delivery_error = Status nat | Transport string

definition is_retryable :: "delivery_error \<Rightarrow> bool" where
  [model_defs]: "is_retryable e = (case e of Status code \<Rightarrow> 500 \<le> code \<or> code = 429 \<or> code = 408 | Transport _ \<Rightarrow> True)"

record 'w net =
  nt_send :: "string \<Rightarrow> string \<Rightarrow> string option \<Rightarrow> log_request \<Rightarrow> nat \<Rightarrow> 'w \<Rightarrow> (string + nat) \<times> 'w"
  nt_now :: "'w \<Rightarrow> int"
  nt_delay :: "nat \<Rightarrow> 'w \<Rightarrow> 'w"
  nt_json_len :: "log_request \<Rightarrow> nat option"
  nt_encoded_len :: "log_request \<Rightarrow> nat"
  nt_client_secret :: "string option"
  nt_account_id :: string
  nt_destinations :: "log_destination list"

definition log_destination_url :: "log_destination \<Rightarrow> string" where
  [model_defs]: "log_destination_url dest = (case dest of
       Edge \<Rightarrow> ''https://resolver.confidence.dev/v1/clientFlagLogs:write''
     | Cloudflare \<Rightarrow> ''https://epx-flags-logs.experimentation-platform.workers.dev/v1/flagLogs:ingest'')"

definition deliver_flag_logs ::
  "'w net \<Rightarrow> string \<Rightarrow> string \<Rightarrow> log_request \<Rightarrow> log_destination \<Rightarrow> nat \<Rightarrow> 'w \<Rightarrow> (delivery_error + unit) \<times> 'w" where
  [model_defs]: "deliver_flag_logs N client_secret account_id req dest budget_ms w =
     (let acct = (if dest = Edge then None else Some account_id) in
      case nt_send N client_secret (log_destination_url dest) acct req budget_ms w of
        (Inr status, w) \<Rightarrow> (if status < 400 then Inr () else Inl (Status status), w)
      | (Inl e, w) \<Rightarrow> (Inl (Transport e), w))"

section \<open>The walk over the destinations\<close>

datatype attempt_result = Landed | NextDestination | OutOfBudget

fun attempt_loop ::
  "'w net \<Rightarrow> string \<Rightarrow> log_request \<Rightarrow> deadline \<Rightarrow> log_destination \<Rightarrow> nat list \<Rightarrow> 'w \<Rightarrow> attempt_result \<times> 'w" where
  "attempt_loop N client_secret req deadline dest [] w = (NextDestination, w)"
| "attempt_loop N client_secret req deadline dest (attempt # attempts) w =
     (let left = remaining_from deadline (nt_now N w) in
      if left < MIN_ATTEMPT_MS then (OutOfBudget, w)
      else
        (case deliver_flag_logs N client_secret (nt_account_id N) req dest (nat (attempt_budget_ms left)) w of
           (Inr _, w) \<Rightarrow> (Landed, w)
         | (Inl reason, w) \<Rightarrow>
             if \<not> (is_retryable reason \<and> attempt < DELIVERY_ATTEMPTS) then (NextDestination, w)
             else
               attempt_loop N client_secret req deadline dest attempts
                 (nt_delay N (min (retry_backoff_ms attempt) (nat (remaining_from deadline (nt_now N w)))) w)))"

fun destination_loop ::
  "'w net \<Rightarrow> string \<Rightarrow> log_request \<Rightarrow> deadline \<Rightarrow> log_destination list \<Rightarrow> 'w \<Rightarrow> bool \<times> 'w" where
  "destination_loop N client_secret req deadline [] w = (False, w)"
| "destination_loop N client_secret req deadline (dest # dests) w =
     (case attempt_loop N client_secret req deadline dest [1..<Suc DELIVERY_ATTEMPTS] w of
        (Landed, w) \<Rightarrow> (True, w)
      | (OutOfBudget, w) \<Rightarrow> (False, w)
      | (NextDestination, w) \<Rightarrow> destination_loop N client_secret req deadline dests w)"

definition deliver :: "'w net \<Rightarrow> log_request \<Rightarrow> deadline \<Rightarrow> 'w \<times> log_request list \<Rightarrow> bool \<times> 'w \<times> log_request list" where
  [model_defs]: "deliver N req deadline s =
     (case s of (w, landed) \<Rightarrow>
        (case nt_client_secret N of
           None \<Rightarrow> (False, s)
         | Some client_secret \<Rightarrow>
             (case destination_loop N client_secret req deadline (nt_destinations N) w of
                (ok, w) \<Rightarrow> (ok, w, if ok then landed @ [req] else landed))))"

section \<open>Outcomes\<close>

record delivered =
  dl_ok :: nat
  dl_lost :: nat

definition delivered_default :: delivered where [model_defs]: "delivered_default = \<lparr>dl_ok = 0, dl_lost = 0\<rparr>"
definition delivered_ok :: "nat \<Rightarrow> delivered" where [model_defs]: "delivered_ok n = \<lparr>dl_ok = n, dl_lost = 0\<rparr>"
definition delivered_lost :: "nat \<Rightarrow> delivered" where [model_defs]: "delivered_lost n = \<lparr>dl_ok = 0, dl_lost = n\<rparr>"

definition delivered_merge :: "delivered \<Rightarrow> delivered \<Rightarrow> delivered" where
  [model_defs]: "delivered_merge a b = \<lparr>dl_ok = dl_ok a + dl_ok b, dl_lost = dl_lost a + dl_lost b\<rparr>"

definition split_outcome :: "bool \<Rightarrow> bool \<Rightarrow> nat \<Rightarrow> delivered" where
  [model_defs]: "split_outcome any_ok any_lost n_records =
     (case (any_ok, any_lost) of
        (True, False) \<Rightarrow> delivered_ok n_records
      | (True, True) \<Rightarrow> \<lparr>dl_ok = n_records, dl_lost = n_records\<rparr>
      | (False, _) \<Rightarrow> delivered_lost n_records)"

definition combine_halves :: "delivered \<Rightarrow> delivered \<Rightarrow> nat \<Rightarrow> delivered" where
  [model_defs]: "combine_halves head tail n_records =
     split_outcome (0 < dl_ok head \<or> 0 < dl_ok tail) (0 < dl_lost head \<or> 0 < dl_lost tail) n_records"

datatype disposition = Complete | Partial | AllFailed

definition ack_decision :: "delivered \<Rightarrow> disposition" where
  [model_defs]: "ack_decision outcome =
     (if 0 < dl_ok outcome \<and> 0 < dl_lost outcome then Partial
      else if 0 < dl_lost outcome then AllFailed else Complete)"

section \<open>Splitting\<close>

definition PROTO_CHUNK_BYTES :: nat where [model_defs]: "PROTO_CHUNK_BYTES = 768 * 1024"
definition MAX_DELIVERY_BYTES :: nat where [model_defs]: "MAX_DELIVERY_BYTES = 3 * 1024 * 1024 + 512 * 1024"
definition MEASURED_BACKEND_LIMIT :: nat where [model_defs]: "MEASURED_BACKEND_LIMIT = 4193298"

text \<open>\<open>serde_json::to_string(..).map_or(usize::MAX, |json| json.len())\<close>\<close>

definition json_size :: "'w net \<Rightarrow> log_request \<Rightarrow> nat" where
  [model_defs]: "json_size N req = (case nt_json_len N req of None \<Rightarrow> 2 ^ 32 - 1 | Some n \<Rightarrow> n)"

text \<open>The loop of \<open>deliver_by_splitting_flags\<close>; the head of the list is the top of the stack.\<close>

definition flags_weight :: "'a list \<Rightarrow> nat" where
  "flags_weight flags = max 1 (2 * length flags - 1)"

definition stack_weight :: "'a list list \<Rightarrow> nat" where
  "stack_weight stack = sum_list (map flags_weight stack)"

lemma stack_weight_Cons [simp]: "stack_weight [] = 0" "stack_weight (flags # stack) = flags_weight flags + stack_weight stack"
  by (simp_all add: stack_weight_def)

lemma flags_weight_pos [simp]: "0 < flags_weight flags"
  by (simp add: flags_weight_def)

lemma flags_weight_halves:
  assumes "1 < length flags"
  shows "flags_weight (take (length flags div 2) flags) + flags_weight (drop (length flags div 2) flags) < flags_weight flags"
proof -
  have "1 \<le> length flags div 2" "1 \<le> length flags - length flags div 2" "length flags div 2 \<le> length flags"
    using assms by (simp_all add: Suc_le_eq)
  then show ?thesis by (simp add: flags_weight_def)
qed

function split_loop ::
  "'w net \<Rightarrow> deadline \<Rightarrow> string \<Rightarrow> client_info option \<Rightarrow> applied_event list list \<Rightarrow> log_request option \<Rightarrow> bool \<Rightarrow> bool \<Rightarrow>
   'w \<times> log_request list \<Rightarrow> bool \<times> bool \<times> 'w \<times> log_request list" where
  "split_loop N deadline resolve_id client_info [] carry any_ok any_lost s = (any_ok, any_lost, s)"
| "split_loop N deadline resolve_id client_info (flags # stack) carry any_ok any_lost s =
     (if flags = [] then split_loop N deadline resolve_id client_info stack carry any_ok any_lost s
      else
        (let piece = (case carry of Some r \<Rightarrow> r | None \<Rightarrow> log_request_default)
                       \<lparr>lr_flag_assigned := [\<lparr>fg_resolve_id = resolve_id, fg_client_info = client_info, fg_flags = flags\<rparr>]\<rparr> in
         if json_size N piece < MEASURED_BACKEND_LIMIT then
           (case deliver N piece deadline s of
              (ok, s) \<Rightarrow> split_loop N deadline resolve_id client_info stack None (any_ok \<or> ok) (any_lost \<or> \<not> ok) s)
         else
           (let carry = Some (piece\<lparr>lr_flag_assigned := []\<rparr>) in
            if length flags \<le> 1 then split_loop N deadline resolve_id client_info stack carry any_ok True s
            else
              split_loop N deadline resolve_id client_info
                (take (length flags div 2) flags # drop (length flags div 2) flags # stack) carry any_ok any_lost s)))"
  by pat_completeness auto
termination
  by (relation "measure (\<lambda>(N, deadline, resolve_id, client_info, stack, carry, any_ok, any_lost, s). stack_weight stack)")
    (use flags_weight_halves in \<open>auto simp: not_le\<close>)

definition deliver_by_splitting_flags ::
  "'w net \<Rightarrow> log_request \<Rightarrow> nat \<Rightarrow> deadline \<Rightarrow> 'w \<times> log_request list \<Rightarrow> delivered \<times> 'w \<times> log_request list" where
  [model_defs]: "deliver_by_splitting_flags N request n_records deadline s =
     (let assigned = hd (lr_flag_assigned request);
          request = request\<lparr>lr_flag_assigned := tl (lr_flag_assigned request)\<rparr> in
      case split_loop N deadline (fg_resolve_id assigned) (fg_client_info assigned) [fg_flags assigned] (Some request)
             False False s of
        (any_ok, any_lost, s) \<Rightarrow> (split_outcome any_ok any_lost n_records, s))"

function deliver_aggregate ::
  "'w net \<Rightarrow> log_request \<Rightarrow> nat \<Rightarrow> deadline \<Rightarrow> 'w \<times> log_request list \<Rightarrow> delivered \<times> 'w \<times> log_request list" where
  "deliver_aggregate N request n_records deadline s =
     (let size = json_size N request in
      if size \<le> MAX_DELIVERY_BYTES then
        (case deliver N request deadline s of
           (ok, s) \<Rightarrow> (if ok then delivered_ok n_records else delivered_lost n_records, s))
      else if size < MEASURED_BACKEND_LIMIT then
        (case deliver N request deadline s of
           (ok, s) \<Rightarrow> (if ok then delivered_ok n_records else delivered_lost n_records, s))
      else if 1 < length (lr_flag_assigned request) then
        (let mid = length (lr_flag_assigned request) div 2;
             head = request\<lparr>lr_flag_assigned := take mid (lr_flag_assigned request)\<rparr>;
             tail = log_request_default\<lparr>lr_flag_assigned := drop mid (lr_flag_assigned request)\<rparr> in
         if n_records < 2 then
           (case deliver_aggregate N head n_records deadline s of (a, s) \<Rightarrow>
           (case deliver_aggregate N tail n_records deadline s of (b, s) \<Rightarrow>
              (combine_halves a b n_records, s)))
         else
           (let head_records = (n_records + 1) div 2; tail_records = n_records - head_records in
            (case deliver_aggregate N head head_records deadline s of (a, s) \<Rightarrow>
            (case deliver_aggregate N tail tail_records deadline s of (b, s) \<Rightarrow>
               (delivered_merge a b, s)))))
      else if length (lr_flag_assigned request) = 1 \<and> 1 < length (fg_flags (hd (lr_flag_assigned request))) then
        deliver_by_splitting_flags N request n_records deadline s
      else (delivered_lost n_records, s))"
  by auto
termination
  by (relation "measure (\<lambda>(N, request, n_records, deadline, s). length (lr_flag_assigned request))") auto

declare deliver_aggregate.simps [simp del]

function deliver_all_within_limit ::
  "'w net \<Rightarrow> log_request list \<Rightarrow> deadline \<Rightarrow> 'w \<times> log_request list \<Rightarrow> delivered \<times> 'w \<times> log_request list" where
  "deliver_all_within_limit N logs deadline s =
     (if logs = [] then (delivered_default, s)
      else if PROTO_CHUNK_BYTES < sum_list (map (nt_encoded_len N) logs) \<and> 1 < length logs then
        (case deliver_all_within_limit N (take (length logs div 2) logs) deadline s of (a, s) \<Rightarrow>
        (case deliver_all_within_limit N (drop (length logs div 2) logs) deadline s of (b, s) \<Rightarrow>
           (delivered_merge a b, s)))
      else deliver_aggregate N (aggregate_batch logs) (length logs) deadline s)"
  by auto
termination
  by (relation "measure (\<lambda>(N, logs, deadline, s). length logs)") auto

declare deliver_all_within_limit.simps [simp del]

section \<open>What lands\<close>

text \<open>
  The applied flags of assignment events, each with the resolve id and the client of its event, and what
  else a request carries; both as lists, so that repetition and order show.
\<close>

definition event_flags :: "flag_assigned \<Rightarrow> (string \<times> client_info option \<times> applied_event) list" where
  "event_flags a = map (\<lambda>e. (fg_resolve_id a, fg_client_info a, e)) (fg_flags a)"

definition landed_flags :: "log_request list \<Rightarrow> (string \<times> client_info option \<times> applied_event) list" where
  "landed_flags reqs = concat (map (\<lambda>req. concat (map event_flags (lr_flag_assigned req))) reqs)"

definition rests :: "log_request list \<Rightarrow> (telemetry_data option \<times> client_resolve_info list \<times> flag_resolve_info list) list" where
  "rests reqs = filter (\<lambda>r. r \<noteq> (None, [], []))
     (map (\<lambda>req. (lr_telemetry_data req, lr_client_resolve_info req, lr_flag_resolve_info req)) reqs)"

lemma landed_simps [simp]:
  "landed_flags [] = []" "landed_flags (xs @ ys) = landed_flags xs @ landed_flags ys" "rests [] = []" "rests (xs @ ys) = rests xs @ rests ys"
  by (simp_all add: landed_flags_def rests_def)

lemma rests_assigned [simp]: "rests [r\<lparr>lr_flag_assigned := as\<rparr>] = rests [r]" "rests [log_request_default] = []"
  by (simp_all add: rests_def log_request_default_def)

lemma deliver_landed: "deliver N req deadline s = (ok, s') \<Longrightarrow> snd s' = snd s @ (if ok then [req] else [])"
  by (auto simp: deliver_def split: prod.splits option.splits if_splits)

definition opt_rests :: "log_request option \<Rightarrow> (telemetry_data option \<times> client_resolve_info list \<times> flag_resolve_info list) list" where
  "opt_rests carry = (case carry of Some r \<Rightarrow> rests [r] | None \<Rightarrow> [])"

text \<open>
  The flags still on the stack land in order; a run that reports no loss has landed all of them,
  and the carried parts with the first.
\<close>

abbreviation stack_flags :: "string \<Rightarrow> client_info option \<Rightarrow> applied_event list list \<Rightarrow> (string \<times> client_info option \<times> applied_event) list" where
  "stack_flags resolve_id info stack \<equiv> map (\<lambda>e. (resolve_id, info, e)) (concat stack)"

lemma split_loop_landed:
  "split_loop N deadline resolve_id info stack carry any_ok any_lost s = (ok', lost', s') \<Longrightarrow>
     \<exists>pieces. snd s' = snd s @ pieces \<and> subseq (landed_flags pieces) (stack_flags resolve_id info stack)
       \<and> subseq (rests pieces) (opt_rests carry) \<and> (ok' \<longleftrightarrow> any_ok \<or> pieces \<noteq> []) \<and> (any_lost \<longrightarrow> lost')
       \<and> (\<not> lost' \<longrightarrow> landed_flags pieces = stack_flags resolve_id info stack \<and> (concat stack \<noteq> [] \<longrightarrow> rests pieces = opt_rests carry))
       \<and> (concat stack \<noteq> [] \<longrightarrow> ok' \<or> lost')"
proof (induction N deadline resolve_id info stack carry any_ok any_lost s arbitrary: ok' lost' s' rule: split_loop.induct)
  case (1 N deadline resolve_id info carry any_ok any_lost s)
  then show ?case by (intro exI [of _ "[]"]) simp
next
  case (2 N deadline resolve_id info flags stack carry any_ok any_lost s)
  let ?piece = "(case carry of Some r \<Rightarrow> r | None \<Rightarrow> log_request_default)
     \<lparr>lr_flag_assigned := [\<lparr>fg_resolve_id = resolve_id, fg_client_info = info, fg_flags = flags\<rparr>]\<rparr>"
  have piece: "landed_flags [?piece] = stack_flags resolve_id info [flags]" "rests [?piece] = opt_rests carry"
    by (simp_all add: landed_flags_def event_flags_def opt_rests_def split: option.splits)
  show ?case
  proof (cases "flags = []")
    case True
    with "2.IH"(1) [OF True, of ok' lost' s'] "2.prems" show ?thesis by simp
  next
    case flags: False
    show ?thesis
    proof (cases "json_size N ?piece < MEASURED_BACKEND_LIMIT")
      case True
      obtain ok s1 where d: "deliver N ?piece deadline s = (ok, s1)" by (cases "deliver N ?piece deadline s")
      have run: "split_loop N deadline resolve_id info stack None (any_ok \<or> ok) (any_lost \<or> \<not> ok) s1 = (ok', lost', s')"
        using "2.prems" flags True d by (simp add: Let_def)
      from "2.IH"(2) [OF flags refl True d [symmetric] this] obtain pieces where
        p: "snd s' = snd s1 @ pieces" "subseq (landed_flags pieces) (stack_flags resolve_id info stack)"
          "subseq (rests pieces) []" "ok' \<longleftrightarrow> (any_ok \<or> ok) \<or> pieces \<noteq> []" "any_lost \<or> \<not> ok \<longrightarrow> lost'"
          "\<not> lost' \<longrightarrow> landed_flags pieces = stack_flags resolve_id info stack"
        by (auto simp: opt_rests_def)
      let ?pieces = "(if ok then [?piece] else []) @ pieces"
      have rests: "rests pieces = []" using p(3) by simp
      have landed: "landed_flags ?pieces = (if ok then stack_flags resolve_id info [flags] else []) @ landed_flags pieces"
        and lr: "rests ?pieces = (if ok then opt_rests carry else [])"
        using piece rests by (simp_all only: landed_simps split: if_split) auto
      have "subseq (landed_flags ?pieces) (stack_flags resolve_id info (flags # stack))"
        unfolding landed using p(2) by (auto intro: list_emb_append_mono list_emb_append2)
      moreover have "\<not> lost' \<longrightarrow> landed_flags ?pieces = stack_flags resolve_id info (flags # stack) \<and> rests ?pieces = opt_rests carry"
        using p(5,6) unfolding landed lr by auto
      moreover have "subseq (rests ?pieces) (opt_rests carry)" unfolding lr by simp
      moreover have "snd s' = snd s @ ?pieces" using deliver_landed [OF d] p(1) by simp
      moreover have "ok' \<longleftrightarrow> any_ok \<or> ?pieces \<noteq> []" "any_lost \<longrightarrow> lost'" "ok' \<or> lost'" using p(4,5) by auto
      ultimately show ?thesis by blast
    next
      case big: False
      let ?carry = "Some (?piece\<lparr>lr_flag_assigned := []\<rparr>)"
      have carry: "opt_rests ?carry = opt_rests carry" by (simp add: opt_rests_def split: option.splits)
      show ?thesis
      proof (cases "length flags \<le> 1")
        case True
        have run: "split_loop N deadline resolve_id info stack ?carry any_ok True s = (ok', lost', s')"
          using "2.prems" flags big True by (simp add: Let_def)
        from "2.IH"(3) [OF flags refl big refl True this] obtain pieces where
          p: "snd s' = snd s @ pieces" "subseq (landed_flags pieces) (stack_flags resolve_id info stack)"
            "subseq (rests pieces) (opt_rests carry)" "ok' \<longleftrightarrow> any_ok \<or> pieces \<noteq> []" "lost'"
          unfolding carry by auto
        then show ?thesis by (intro exI [of _ pieces]) (auto intro: list_emb_append2)
      next
        case False
        let ?mid = "length flags div 2"
        have run: "split_loop N deadline resolve_id info (take ?mid flags # drop ?mid flags # stack) ?carry any_ok any_lost s = (ok', lost', s')"
          using "2.prems" flags big False by (simp add: Let_def)
        have whole: "concat (take ?mid flags # drop ?mid flags # stack) = concat (flags # stack)"
          by (simp flip: append_assoc)
        from "2.IH"(4) [OF flags refl big refl False run] show ?thesis unfolding carry whole .
      qed
    qed
  qed
qed

text \<open>
  An outcome is faithful to the flags \<open>F\<close> and the other parts \<open>R\<close> to be delivered: what landed is a part of them, in order and
  without repetition, everything if no loss is reported, and nothing landed exactly if no success is reported.
\<close>

type_synonym log_parts = "telemetry_data option \<times> client_resolve_info list \<times> flag_resolve_info list"

definition faithful :: "(string \<times> client_info option \<times> applied_event) list \<Rightarrow> log_parts list \<Rightarrow> delivered \<Rightarrow> log_request list \<Rightarrow> bool" where
  "faithful F R out pieces \<longleftrightarrow> subseq (landed_flags pieces) F \<and> subseq (rests pieces) R
     \<and> (dl_lost out = 0 \<longrightarrow> landed_flags pieces = F \<and> rests pieces = R) \<and> (dl_ok out = 0 \<longleftrightarrow> pieces = [])"

lemma faithful_append:
  assumes "faithful F R a ps" "faithful F' R' b qs" "dl_ok out = 0 \<longleftrightarrow> dl_ok a = 0 \<and> dl_ok b = 0"
    "dl_lost out = 0 \<longrightarrow> dl_lost a = 0 \<and> dl_lost b = 0"
  shows "faithful (F @ F') (R @ R') out (ps @ qs)"
  using assms by (auto simp: faithful_def intro: list_emb_append_mono)

lemma faithful_deliver:
  assumes "deliver N req deadline s = (ok, s')" "0 < n"
  shows "\<exists>pieces. snd s' = snd s @ pieces
    \<and> faithful (landed_flags [req]) (rests [req]) (if ok then delivered_ok n else delivered_lost n) pieces"
  using deliver_landed [OF assms(1)] assms(2)
  by (intro exI [of _ "if ok then [req] else []"]) (simp add: faithful_def delivered_ok_def delivered_lost_def)

lemma split_outcome_simps:
  "0 < n \<Longrightarrow> dl_ok (split_outcome a b n) = 0 \<longleftrightarrow> \<not> a" "0 < n \<Longrightarrow> dl_lost (split_outcome a b n) = 0 \<longleftrightarrow> a \<and> \<not> b"
  "0 < n \<Longrightarrow> 0 < dl_ok (split_outcome a b n) \<longleftrightarrow> a" "0 < n \<Longrightarrow> 0 < dl_lost (split_outcome a b n) \<longleftrightarrow> \<not> a \<or> b"
  by (auto simp: split_outcome_def delivered_ok_def delivered_lost_def split: bool.splits)

lemma splitting_flags_landed:
  assumes "deliver_by_splitting_flags N request n deadline s = (out, s')" "lr_flag_assigned request = [a]" "fg_flags a \<noteq> []" "0 < n"
  shows "\<exists>pieces. snd s' = snd s @ pieces \<and> faithful (landed_flags [request]) (rests [request]) out pieces
    \<and> 0 < dl_ok out + dl_lost out"
proof -
  let ?carry = "Some (request\<lparr>lr_flag_assigned := []\<rparr>)"
  obtain ok lost s1 where run: "split_loop N deadline (fg_resolve_id a) (fg_client_info a) [fg_flags a] ?carry False False s = (ok, lost, s1)"
    by (cases "split_loop N deadline (fg_resolve_id a) (fg_client_info a) [fg_flags a] ?carry False False s")
  have res: "out = split_outcome ok lost n" "s' = s1"
    using assms(1,2) run by (simp_all add: deliver_by_splitting_flags_def Let_def)
  have whole: "stack_flags (fg_resolve_id a) (fg_client_info a) [fg_flags a] = landed_flags [request]" "opt_rests ?carry = rests [request]"
    using assms(2) by (simp_all add: landed_flags_def event_flags_def opt_rests_def)
  from split_loop_landed [OF run] assms(3) obtain pieces where p: "snd s1 = snd s @ pieces"
    "subseq (landed_flags pieces) (landed_flags [request])" "subseq (rests pieces) (rests [request])" "ok \<longleftrightarrow> pieces \<noteq> []"
    "\<not> lost \<longrightarrow> landed_flags pieces = landed_flags [request] \<and> rests pieces = rests [request]"
    unfolding whole by auto
  then show ?thesis using assms(4) unfolding faithful_def res
    by (intro exI [of _ pieces]) (auto simp: split_outcome_simps)
qed

lemma deliver_aggregate_landed:
  "deliver_aggregate N request n deadline s = (out, s') \<Longrightarrow> 0 < n \<Longrightarrow>
     \<exists>pieces. snd s' = snd s @ pieces \<and> faithful (landed_flags [request]) (rests [request]) out pieces \<and> 0 < dl_ok out + dl_lost out"
proof (induction N request n deadline s arbitrary: out s' rule: deliver_aggregate.induct)
  case (1 N request n deadline s)
  note unfold = "1.prems"(1) [unfolded deliver_aggregate.simps [of N request n] Let_def]
  let ?as = "lr_flag_assigned request" and ?size = "json_size N request"
  let ?mid = "length ?as div 2"
  let ?head = "request\<lparr>lr_flag_assigned := take ?mid ?as\<rparr>" and ?tail = "log_request_default\<lparr>lr_flag_assigned := drop ?mid ?as\<rparr>"
  have halves: "landed_flags [request] = landed_flags [?head] @ landed_flags [?tail]" "rests [request] = rests [?head] @ rests [?tail]"
    by (simp_all add: landed_flags_def flip: concat_append map_append)
  consider (fits) "?size \<le> MAX_DELIVERY_BYTES \<or> ?size < MEASURED_BACKEND_LIMIT"
    | (halve) "\<not> ?size \<le> MAX_DELIVERY_BYTES" "\<not> ?size < MEASURED_BACKEND_LIMIT" "1 < length ?as"
    | (flags) "\<not> ?size \<le> MAX_DELIVERY_BYTES" "\<not> ?size < MEASURED_BACKEND_LIMIT" "length ?as = 1" "1 < length (fg_flags (hd ?as))"
    | (drop) "\<not> ?size \<le> MAX_DELIVERY_BYTES" "\<not> ?size < MEASURED_BACKEND_LIMIT" "\<not> 1 < length ?as"
      "\<not> (length ?as = 1 \<and> 1 < length (fg_flags (hd ?as)))"
    by blast
  then show ?case
  proof cases
    case fits
    obtain ok s1 where d: "deliver N request deadline s = (ok, s1)" by (cases "deliver N request deadline s")
    have "out = (if ok then delivered_ok n else delivered_lost n)" "s' = s1"
      using unfold fits d by (auto split: if_splits)
    with faithful_deliver [OF d "1.prems"(2)] "1.prems"(2) show ?thesis by (auto simp: delivered_ok_def delivered_lost_def)
  next
    case halve
    obtain h t where ht: "h = (if n < 2 then n else (n + 1) div 2)" "t = (if n < 2 then n else n - (n + 1) div 2)" by blast
    have pos: "0 < h" "0 < t" using "1.prems"(2) by (auto simp: ht)
    obtain a s1 where ra: "deliver_aggregate N ?head h deadline s = (a, s1)" by (cases "deliver_aggregate N ?head h deadline s")
    obtain b s2 where rb: "deliver_aggregate N ?tail t deadline s1 = (b, s2)" by (cases "deliver_aggregate N ?tail t deadline s1")
    have res: "out = (if n < 2 then combine_halves a b n else delivered_merge a b)" "s' = s2"
      using unfold halve ra rb by (auto simp: ht split: if_splits)
    obtain ps where p: "snd s1 = snd s @ ps" "faithful (landed_flags [?head]) (rests [?head]) a ps" "0 < dl_ok a + dl_lost a"
    proof (cases "n < 2")
      case True
      with "1.IH"(1) [OF refl halve refl refl refl True, of a s1] ra pos(1) that show ?thesis by (auto simp: ht)
    next
      case False
      with "1.IH"(3) [OF refl halve refl refl refl False refl refl, of a s1] ra pos(1) that show ?thesis by (auto simp: ht)
    qed
    obtain qs where q: "snd s2 = snd s1 @ qs" "faithful (landed_flags [?tail]) (rests [?tail]) b qs" "0 < dl_ok b + dl_lost b"
    proof (cases "n < 2")
      case True
      then have eqs: "(a, s1) = deliver_aggregate N ?head n deadline s" "deliver_aggregate N ?tail n deadline s1 = (b, s2)"
        using ra rb by (simp_all add: ht)
      from "1.IH"(2) [OF refl halve refl refl refl True eqs "1.prems"(2)] show ?thesis by (elim exE conjE) (rule that)
    next
      case False
      then have eqs: "(a, s1) = deliver_aggregate N ?head ((n + 1) div 2) deadline s"
        "deliver_aggregate N ?tail (n - (n + 1) div 2) deadline s1 = (b, s2)" "0 < n - (n + 1) div 2"
        using ra rb pos(2) by (simp_all add: ht)
      from "1.IH"(4) [OF refl halve refl refl refl False refl refl eqs] show ?thesis by (elim exE conjE) (rule that)
    qed
    have out: "dl_ok out = 0 \<longleftrightarrow> dl_ok a = 0 \<and> dl_ok b = 0" "dl_lost out = 0 \<longrightarrow> dl_lost a = 0 \<and> dl_lost b = 0"
      "0 < dl_ok out + dl_lost out"
      using p(3) q(3) "1.prems"(2) split_outcome_simps [of n]
      by (auto simp: res combine_halves_def delivered_merge_def)
    from faithful_append [OF p(2) q(2) out(1,2)] p(1) q(1) out(3) show ?thesis unfolding halves res(2) by auto
  next
    case flags
    then obtain a where a: "?as = [a]" by (auto simp: length_Suc_conv)
    have run: "deliver_by_splitting_flags N request n deadline s = (out, s')"
      using unfold flags by (auto split: if_splits)
    have "fg_flags a \<noteq> []" using flags(4) a by auto
    from splitting_flags_landed [OF run a this "1.prems"(2)] show ?thesis .
  next
    case drop
    then have "out = delivered_lost n" "s' = s" using unfold by (auto split: if_splits)
    then show ?thesis using "1.prems"(2)
      by (intro exI [of _ "[]"]) (simp add: faithful_def delivered_lost_def)
  qed
qed

lemma aggregate_events [simp]: "lr_flag_assigned (aggregate_batch logs) = concat (map lr_flag_assigned logs)"
  using aggregate_events_schemas by blast

lemma landed_aggregate: "landed_flags [aggregate_batch logs] = landed_flags logs"
  by (induction logs) (simp_all add: landed_flags_def)

lemma deliver_all_landed:
  "deliver_all_within_limit N logs deadline s = (out, s') \<Longrightarrow>
     \<exists>pieces chunks. snd s' = snd s @ pieces \<and> concat chunks = logs \<and> [] \<notin> set chunks
       \<and> faithful (landed_flags logs) (rests (map aggregate_batch chunks)) out pieces \<and> (logs \<noteq> [] \<longrightarrow> 0 < dl_ok out + dl_lost out)"
proof (induction N logs deadline s arbitrary: out s' rule: deliver_all_within_limit.induct)
  case (1 N logs deadline s)
  note unfold = "1.prems" [unfolded deliver_all_within_limit.simps [of N logs] Let_def]
  let ?head = "take (length logs div 2) logs" and ?tail = "drop (length logs div 2) logs"
  consider (empty) "logs = []"
    | (halve) "logs \<noteq> []" "PROTO_CHUNK_BYTES < sum_list (map (nt_encoded_len N) logs) \<and> 1 < length logs"
    | (whole) "logs \<noteq> []" "\<not> (PROTO_CHUNK_BYTES < sum_list (map (nt_encoded_len N) logs) \<and> 1 < length logs)"
    by blast
  then show ?case
  proof cases
    case empty
    then have "out = delivered_default" "s' = s" using unfold by simp_all
    then show ?thesis using empty
      by (intro exI [of _ "[]"]) (simp add: faithful_def delivered_default_def)
  next
    case halve
    obtain a s1 where ra: "deliver_all_within_limit N ?head deadline s = (a, s1)" by (cases "deliver_all_within_limit N ?head deadline s")
    obtain b s2 where rb: "deliver_all_within_limit N ?tail deadline s1 = (b, s2)" by (cases "deliver_all_within_limit N ?tail deadline s1")
    have res: "out = delivered_merge a b" "s' = s2" using unfold halve ra rb by auto
    have ne: "?head \<noteq> []" using halve(2) by (auto simp: Suc_le_eq)
    obtain ps cs where p: "snd s1 = snd s @ ps" "concat cs = ?head" "[] \<notin> set cs"
      "faithful (landed_flags ?head) (rests (map aggregate_batch cs)) a ps" "0 < dl_ok a + dl_lost a"
      using "1.IH"(1) [OF halve ra] ne by (elim exE conjE impE) (assumption, rule that)
    obtain qs ds where q: "snd s2 = snd s1 @ qs" "concat ds = ?tail" "[] \<notin> set ds"
      "faithful (landed_flags ?tail) (rests (map aggregate_batch ds)) b qs"
      using "1.IH"(2) [OF halve ra [symmetric] rb] by (elim exE conjE) (rule that)
    have "faithful (landed_flags ?head @ landed_flags ?tail) (rests (map aggregate_batch cs) @ rests (map aggregate_batch ds)) out (ps @ qs)"
      by (rule faithful_append [OF p(4) q(4)]) (simp_all add: res delivered_merge_def)
    moreover have "landed_flags ?head @ landed_flags ?tail = landed_flags logs"
      by (simp flip: landed_simps(2))
    moreover have "concat (cs @ ds) = logs" using p(2) q(2) by simp
    ultimately show ?thesis using p(1,3,5) q(1,3)
      by (intro exI [of _ "ps @ qs"] exI [of _ "cs @ ds"]) (auto simp: res delivered_merge_def)
  next
    case whole
    then have run: "deliver_aggregate N (aggregate_batch logs) (length logs) deadline s = (out, s')" "0 < length logs"
      using unfold by (auto split: if_splits)
    from deliver_aggregate_landed [OF run] whole(1) show ?thesis
      unfolding landed_aggregate by (elim exE conjE) (intro exI [of _ "[logs]"] exI conjI; simp)
  qed
qed


section \<open>Bounds of a delivery\<close>

text \<open>A delivery is a bounded sequence of walks over the destinations, one after the other.\<close>

definition run_delivers :: "'w net \<Rightarrow> deadline \<Rightarrow> log_request list \<Rightarrow> 'w \<times> log_request list \<Rightarrow> 'w \<times> log_request list" where
  "run_delivers N deadline reqs s = fold (\<lambda>req s. snd (deliver N req deadline s)) reqs s"

definition walks_within :: "'w net \<Rightarrow> deadline \<Rightarrow> nat \<Rightarrow> 'w \<times> log_request list \<Rightarrow> 'w \<times> log_request list \<Rightarrow> bool" where
  "walks_within N deadline k s s' \<longleftrightarrow> (\<exists>reqs. length reqs \<le> k \<and> s' = run_delivers N deadline reqs s)"

lemma walks_none: "walks_within N deadline k s s"
  by (auto simp: walks_within_def run_delivers_def intro!: exI [of _ "[]"])

lemma walks_one: "deliver N req deadline s = (ok, s') \<Longrightarrow> 1 \<le> k \<Longrightarrow> walks_within N deadline k s s'"
  by (auto simp: walks_within_def run_delivers_def intro!: exI [of _ "[req]"])

lemma walks_trans:
  assumes "walks_within N deadline k s s1" "walks_within N deadline l s1 s2" "k + l \<le> m"
  shows "walks_within N deadline m s s2"
proof -
  obtain xs ys where "length xs \<le> k" "s1 = run_delivers N deadline xs s" "length ys \<le> l" "s2 = run_delivers N deadline ys s1"
    using assms by (auto simp: walks_within_def)
  then show ?thesis using assms(3) unfolding walks_within_def
    by (intro exI [of _ "xs @ ys"]) (simp add: run_delivers_def)
qed

lemma split_loop_walks:
  "split_loop N deadline resolve_id info stack carry any_ok any_lost s = (ok', lost', s') \<Longrightarrow>
     walks_within N deadline (length (concat stack)) s s'"
proof (induction N deadline resolve_id info stack carry any_ok any_lost s arbitrary: ok' lost' s' rule: split_loop.induct)
  case (2 N deadline resolve_id info flags stack carry any_ok any_lost s)
  let ?piece = "(case carry of Some r \<Rightarrow> r | None \<Rightarrow> log_request_default)
     \<lparr>lr_flag_assigned := [\<lparr>fg_resolve_id = resolve_id, fg_client_info = info, fg_flags = flags\<rparr>]\<rparr>"
  show ?case
  proof (cases "flags = []")
    case True
    with "2.IH"(1) [OF True, of ok' lost' s'] "2.prems" show ?thesis by simp
  next
    case flags: False
    show ?thesis
    proof (cases "json_size N ?piece < MEASURED_BACKEND_LIMIT")
      case True
      obtain ok s1 where d: "deliver N ?piece deadline s = (ok, s1)" by (cases "deliver N ?piece deadline s")
      have run: "split_loop N deadline resolve_id info stack None (any_ok \<or> ok) (any_lost \<or> \<not> ok) s1 = (ok', lost', s')"
        using "2.prems" flags True d by (simp add: Let_def)
      have "Suc 0 \<le> length flags" using flags by (cases flags) auto
      then show ?thesis
        using walks_trans [OF walks_one [OF d le_refl] "2.IH"(2) [OF flags refl True d [symmetric] run]] by simp
    next
      case big: False
      show ?thesis
      proof (cases "length flags \<le> 1")
        case True
        have "split_loop N deadline resolve_id info stack (Some (?piece\<lparr>lr_flag_assigned := []\<rparr>)) any_ok True s = (ok', lost', s')"
          using "2.prems" flags big True by (simp add: Let_def)
        from walks_trans [OF walks_none "2.IH"(3) [OF flags refl big refl True this], of 0] show ?thesis by simp
      next
        case False
        let ?mid = "length flags div 2"
        have "split_loop N deadline resolve_id info (take ?mid flags # drop ?mid flags # stack) (Some (?piece\<lparr>lr_flag_assigned := []\<rparr>))
            any_ok any_lost s = (ok', lost', s')"
          using "2.prems" flags big False by (simp add: Let_def)
        moreover have "length (concat (take ?mid flags # drop ?mid flags # stack)) = length (concat (flags # stack))"
          by (simp flip: append_assoc length_append)
        ultimately show ?thesis using "2.IH"(4) [OF flags refl big refl False, of ok' lost' s'] by metis
      qed
    qed
  qed
qed (simp add: walks_none)

definition event_pieces :: "flag_assigned list \<Rightarrow> nat" where
  "event_pieces as = max 1 (sum_list (map (\<lambda>a. max 1 (length (fg_flags a))) as))"

lemma event_pieces_append: "as \<noteq> [] \<Longrightarrow> bs \<noteq> [] \<Longrightarrow> event_pieces (as @ bs) = event_pieces as + event_pieces bs"
  by (cases as; cases bs) (auto simp: event_pieces_def)

lemma deliver_aggregate_walks:
  "deliver_aggregate N request n deadline s = (out, s') \<Longrightarrow> walks_within N deadline (event_pieces (lr_flag_assigned request)) s s'"
proof (induction N request n deadline s arbitrary: out s' rule: deliver_aggregate.induct)
  case (1 N request n deadline s)
  note unfold = "1.prems"(1) [unfolded deliver_aggregate.simps [of N request n] Let_def]
  let ?as = "lr_flag_assigned request" and ?size = "json_size N request"
  let ?mid = "length ?as div 2"
  let ?head = "request\<lparr>lr_flag_assigned := take ?mid ?as\<rparr>" and ?tail = "log_request_default\<lparr>lr_flag_assigned := drop ?mid ?as\<rparr>"
  have one: "1 \<le> event_pieces ?as" by (simp add: event_pieces_def)
  consider (fits) "?size \<le> MAX_DELIVERY_BYTES \<or> ?size < MEASURED_BACKEND_LIMIT"
    | (halve) "\<not> ?size \<le> MAX_DELIVERY_BYTES" "\<not> ?size < MEASURED_BACKEND_LIMIT" "1 < length ?as"
    | (flags) "\<not> ?size \<le> MAX_DELIVERY_BYTES" "\<not> ?size < MEASURED_BACKEND_LIMIT" "length ?as = 1" "1 < length (fg_flags (hd ?as))"
    | (drop) "\<not> ?size \<le> MAX_DELIVERY_BYTES" "\<not> ?size < MEASURED_BACKEND_LIMIT" "\<not> 1 < length ?as"
      "\<not> (length ?as = 1 \<and> 1 < length (fg_flags (hd ?as)))"
    by blast
  then show ?case
  proof cases
    case fits
    obtain ok s1 where d: "deliver N request deadline s = (ok, s1)" by (cases "deliver N request deadline s")
    then have "s' = s1" using unfold fits by (auto split: if_splits)
    with walks_one [OF d one] show ?thesis by simp
  next
    case halve
    obtain h t where ht: "h = (if n < 2 then n else (n + 1) div 2)" "t = (if n < 2 then n else n - (n + 1) div 2)" by blast
    obtain a s1 where ra: "deliver_aggregate N ?head h deadline s = (a, s1)" by (cases "deliver_aggregate N ?head h deadline s")
    obtain b s2 where rb: "deliver_aggregate N ?tail t deadline s1 = (b, s2)" by (cases "deliver_aggregate N ?tail t deadline s1")
    have s': "s' = s2" using unfold halve ra rb by (auto simp: ht split: if_splits)
    have "walks_within N deadline (event_pieces (lr_flag_assigned ?head)) s s1 \<and> walks_within N deadline (event_pieces (lr_flag_assigned ?tail)) s1 s2"
    proof (cases "n < 2")
      case True
      then have eqs: "deliver_aggregate N ?head n deadline s = (a, s1)" "deliver_aggregate N ?tail n deadline s1 = (b, s2)"
        using ra rb by (simp_all add: ht)
      from "1.IH"(1) [OF refl halve refl refl refl True eqs(1)] "1.IH"(2) [OF refl halve refl refl refl True eqs(1) [symmetric] eqs(2)]
      show ?thesis ..
    next
      case False
      then have eqs: "deliver_aggregate N ?head ((n + 1) div 2) deadline s = (a, s1)"
        "deliver_aggregate N ?tail (n - (n + 1) div 2) deadline s1 = (b, s2)"
        using ra rb by (simp_all add: ht)
      from "1.IH"(3) [OF refl halve refl refl refl False refl refl eqs(1)]
        "1.IH"(4) [OF refl halve refl refl refl False refl refl eqs(1) [symmetric] eqs(2)]
      show ?thesis ..
    qed
    moreover have "event_pieces (take ?mid ?as) + event_pieces (drop ?mid ?as) = event_pieces ?as"
    proof -
      have "take ?mid ?as \<noteq> []" "drop ?mid ?as \<noteq> []" using halve(3) by (auto simp: Suc_le_eq)
      from event_pieces_append [OF this] show ?thesis by simp
    qed
    ultimately show ?thesis unfolding s' by (auto intro: walks_trans)
  next
    case flags
    then obtain a where a: "?as = [a]" by (auto simp: length_Suc_conv)
    have run: "deliver_by_splitting_flags N request n deadline s = (out, s')"
      using unfold flags by (auto split: if_splits)
    let ?carry = "Some (request\<lparr>lr_flag_assigned := []\<rparr>)"
    obtain ok lost s1 where loop: "split_loop N deadline (fg_resolve_id a) (fg_client_info a) [fg_flags a] ?carry False False s = (ok, lost, s1)"
      by (cases "split_loop N deadline (fg_resolve_id a) (fg_client_info a) [fg_flags a] ?carry False False s")
    then have "s' = s1" using run a by (simp add: deliver_by_splitting_flags_def Let_def)
    with split_loop_walks [OF loop] show ?thesis using flags(4) a by (simp add: event_pieces_def)
  next
    case drop
    then have "s' = s" using unfold by (auto split: if_splits)
    then show ?thesis by (simp add: walks_none)
  qed
qed

definition batch_pieces :: "log_request list \<Rightarrow> nat" where
  "batch_pieces logs = sum_list (map (\<lambda>log. event_pieces (lr_flag_assigned log)) logs)"

lemma event_pieces_batch: "logs \<noteq> [] \<Longrightarrow> event_pieces (concat (map lr_flag_assigned logs)) \<le> batch_pieces logs"
proof (induction logs)
  case (Cons log logs)
  have add: "event_pieces (as @ bs) \<le> event_pieces as + event_pieces bs" for as bs
    by (auto simp: event_pieces_def)
  show ?case
  proof (cases "logs = []")
    case False
    have "event_pieces (concat (map lr_flag_assigned (log # logs))) \<le> event_pieces (lr_flag_assigned log) + event_pieces (concat (map lr_flag_assigned logs))"
      using add by simp
    then show ?thesis using Cons.IH [OF False] by (simp add: batch_pieces_def)
  qed (simp add: batch_pieces_def)
qed simp

lemma deliver_all_walks:
  "deliver_all_within_limit N logs deadline s = (out, s') \<Longrightarrow> walks_within N deadline (batch_pieces logs) s s'"
proof (induction N logs deadline s arbitrary: out s' rule: deliver_all_within_limit.induct)
  case (1 N logs deadline s)
  note unfold = "1.prems" [unfolded deliver_all_within_limit.simps [of N logs] Let_def]
  let ?head = "take (length logs div 2) logs" and ?tail = "drop (length logs div 2) logs"
  consider (empty) "logs = []"
    | (halve) "logs \<noteq> []" "PROTO_CHUNK_BYTES < sum_list (map (nt_encoded_len N) logs) \<and> 1 < length logs"
    | (whole) "logs \<noteq> []" "\<not> (PROTO_CHUNK_BYTES < sum_list (map (nt_encoded_len N) logs) \<and> 1 < length logs)"
    by blast
  then show ?case
  proof cases
    case empty
    then have "s' = s" using unfold by simp
    then show ?thesis by (simp add: walks_none)
  next
    case halve
    obtain a s1 where ra: "deliver_all_within_limit N ?head deadline s = (a, s1)" by (cases "deliver_all_within_limit N ?head deadline s")
    obtain b s2 where rb: "deliver_all_within_limit N ?tail deadline s1 = (b, s2)" by (cases "deliver_all_within_limit N ?tail deadline s1")
    have s': "s' = s2" using unfold halve ra rb by auto
    have "batch_pieces ?head + batch_pieces ?tail = batch_pieces logs"
      by (simp add: batch_pieces_def flip: sum_list_append map_append)
    then show ?thesis
      using walks_trans [OF "1.IH"(1) [OF halve ra] "1.IH"(2) [OF halve ra [symmetric] rb]] by (simp add: s')
  next
    case whole
    then have run: "deliver_aggregate N (aggregate_batch logs) (length logs) deadline s = (out, s')"
      using unfold by (auto split: if_splits)
    from walks_trans [OF deliver_aggregate_walks [OF run] walks_none, of 0] event_pieces_batch [OF whole(1)]
    show ?thesis by simp
  qed
qed

text \<open>The platform keeps time: a request is aborted when its budget is over, and a delay lasts as long as asked.\<close>

definition timely :: "'w net \<Rightarrow> bool" where
  "timely N \<longleftrightarrow> (\<forall>secret url acct req budget w. nt_now N (snd (nt_send N secret url acct req budget w)) \<le> nt_now N w + int budget)
     \<and> (\<forall>d w. nt_now N (nt_delay N d w) \<le> nt_now N w + int d)"

text \<open>A count of the requests that the platform was asked for.\<close>

definition counts_requests :: "'w net \<Rightarrow> ('w \<Rightarrow> nat) \<Rightarrow> bool" where
  "counts_requests N c \<longleftrightarrow> (\<forall>secret url acct req budget w. c (snd (nt_send N secret url acct req budget w)) = Suc (c w))
     \<and> (\<forall>d w. c (nt_delay N d w) = c w)"

lemma deliver_flag_logs_platform:
  "\<exists>url acct. snd (deliver_flag_logs N secret account req dest budget w) = snd (nt_send N secret url acct req budget w)"
  by (auto simp: deliver_flag_logs_def Let_def split: prod.splits sum.splits) (metis snd_conv)+

lemma attempt_loop_in_time:
  "attempt_loop N secret req deadline dest attempts w = (r, w') \<Longrightarrow> timely N \<Longrightarrow> nt_now N w \<le> at_ms deadline \<Longrightarrow>
     nt_now N w' \<le> at_ms deadline"
proof (induction N secret req deadline dest attempts w rule: attempt_loop.induct)
  case (2 N secret req deadline dest attempt attempts w)
  let ?left = "remaining_from deadline (nt_now N w)"
  show ?case
  proof (cases "?left < MIN_ATTEMPT_MS")
    case False
    obtain q w1 where d: "deliver_flag_logs N secret (nt_account_id N) req dest (nat (attempt_budget_ms ?left)) w = (q, w1)"
      by (cases "deliver_flag_logs N secret (nt_account_id N) req dest (nat (attempt_budget_ms ?left)) w")
    have "nt_now N w1 \<le> nt_now N w + int (nat (attempt_budget_ms ?left))"
      using deliver_flag_logs_platform [of N secret "nt_account_id N" req dest "nat (attempt_budget_ms ?left)" w] "2.prems"(2) d
      unfolding timely_def by (metis snd_conv)
    moreover have "attempt_budget_ms ?left \<le> ?left" "0 \<le> attempt_budget_ms ?left" "?left = at_ms deadline - nt_now N w"
      using False "2.prems"(3) by (auto simp: attempt_budget_ms_def MIN_ATTEMPT_MS_def remaining_from_def)
    ultimately have w1: "nt_now N w1 \<le> at_ms deadline" by simp
    show ?thesis
    proof (cases q)
      case (Inr u)
      then show ?thesis using "2.prems"(1) False d w1 by (simp add: Let_def)
    next
      case (Inl reason)
      let ?d = "min (retry_backoff_ms attempt) (nat (remaining_from deadline (nt_now N w1)))"
      show ?thesis
      proof (cases "is_retryable reason \<and> attempt < DELIVERY_ATTEMPTS")
        case True
        have "nt_now N (nt_delay N ?d w1) \<le> nt_now N w1 + int ?d" using "2.prems"(2) by (simp add: timely_def)
        moreover have "int ?d \<le> at_ms deadline - nt_now N w1" using w1 by (simp add: remaining_from_def)
        ultimately have "nt_now N (nt_delay N ?d w1) \<le> at_ms deadline" by simp
        moreover have "attempt_loop N secret req deadline dest attempts (nt_delay N ?d w1) = (r, w')"
          using "2.prems"(1) False d Inl True by (simp add: Let_def)
        ultimately show ?thesis using "2.IH" [OF refl False d [symmetric] Inl] True "2.prems"(2) by simp
      next
        case no: False
        then show ?thesis using "2.prems"(1) False d w1 Inl by (auto simp: Let_def)
      qed
    qed
  qed (use "2.prems" in simp)
qed simp

lemma destination_loop_in_time:
  "destination_loop N secret req deadline dests w = (ok, w') \<Longrightarrow> timely N \<Longrightarrow> nt_now N w \<le> at_ms deadline \<Longrightarrow>
     nt_now N w' \<le> at_ms deadline"
proof (induction dests arbitrary: w)
  case (Cons dest dests)
  obtain r w1 where a: "attempt_loop N secret req deadline dest [1..<Suc DELIVERY_ATTEMPTS] w = (r, w1)"
    by (cases "attempt_loop N secret req deadline dest [1..<Suc DELIVERY_ATTEMPTS] w")
  note w1 = attempt_loop_in_time [OF a Cons.prems(2,3)]
  show ?case
  proof (cases r)
    case NextDestination
    then have "destination_loop N secret req deadline dests w1 = (ok, w')" using Cons.prems(1) unfolding destination_loop.simps a by simp
    from Cons.IH [OF this Cons.prems(2) w1] show ?thesis .
  qed (use Cons.prems(1) w1 in \<open>unfold destination_loop.simps a, simp\<close>)+
qed simp

lemma deliver_in_time:
  assumes "timely N" "nt_now N (fst s) \<le> at_ms deadline"
  shows "nt_now N (fst (snd (deliver N req deadline s))) \<le> at_ms deadline"
  using assms destination_loop_in_time [OF _ assms(1), of _ req deadline "nt_destinations N" "fst s"]
  by (auto simp: deliver_def split: prod.splits option.splits)

text \<open>C25: The work of an invocation ends within its budget. Every attempt, backoff and split of a batch is bounded
  by what is left, so a delivery that begins before its deadline is over by then, however slow the
  destinations are and however often the batch has to be split.\<close>

theorem delivery_ends_by_deadline:
  assumes "timely N" "nt_now N w \<le> at_ms deadline"
    and "deliver_all_within_limit N logs deadline (w, landed) = (out, w', landed')"
  shows "nt_now N w' \<le> at_ms deadline"
proof -
  obtain reqs where r: "(w', landed') = run_delivers N deadline reqs (w, landed)"
    using deliver_all_walks [OF assms(3)] by (auto simp: walks_within_def)
  have "nt_now N (fst (run_delivers N deadline reqs s)) \<le> at_ms deadline" if "nt_now N (fst s) \<le> at_ms deadline" for s
    using that
  proof (induction reqs arbitrary: s)
    case (Cons req reqs)
    from Cons.IH [OF deliver_in_time [OF assms(1) Cons.prems]] show ?case by (simp add: run_delivers_def)
  qed (simp add: run_delivers_def)
  from this [of "(w, landed)"] r [symmetric] assms(2) show ?thesis by simp
qed

lemma attempt_loop_requests:
  "attempt_loop N secret req deadline dest attempts w = (r, w') \<Longrightarrow> counts_requests N c \<Longrightarrow> c w' \<le> c w + length attempts"
proof (induction N secret req deadline dest attempts w rule: attempt_loop.induct)
  case (2 N secret req deadline dest attempt attempts w)
  let ?left = "remaining_from deadline (nt_now N w)"
  show ?case
  proof (cases "?left < MIN_ATTEMPT_MS")
    case False
    obtain q w1 where d: "deliver_flag_logs N secret (nt_account_id N) req dest (nat (attempt_budget_ms ?left)) w = (q, w1)"
      by (cases "deliver_flag_logs N secret (nt_account_id N) req dest (nat (attempt_budget_ms ?left)) w")
    have c1: "c w1 = Suc (c w)"
      using deliver_flag_logs_platform [of N secret "nt_account_id N" req dest "nat (attempt_budget_ms ?left)" w] "2.prems"(2) d
      unfolding counts_requests_def by (metis snd_conv)
    show ?thesis
    proof (cases "\<exists>reason. q = Inl reason \<and> is_retryable reason \<and> attempt < DELIVERY_ATTEMPTS")
      case True
      then obtain reason where i: "q = Inl reason" "\<not> \<not> (is_retryable reason \<and> attempt < DELIVERY_ATTEMPTS)" by blast
      let ?w = "nt_delay N (min (retry_backoff_ms attempt) (nat (remaining_from deadline (nt_now N w1)))) w1"
      have "attempt_loop N secret req deadline dest attempts ?w = (r, w')"
        using "2.prems"(1) False d i by (simp add: Let_def)
      from "2.IH" [OF refl False d [symmetric] i this "2.prems"(2)] show ?thesis
        using "2.prems"(2) c1 by (simp add: counts_requests_def)
    next
      case no: False
      then have "w' = w1" using "2.prems"(1) False d by (auto simp: Let_def split: sum.splits if_splits)
      then show ?thesis by (simp add: c1)
    qed
  qed (use "2.prems" in simp)
qed simp

lemma destination_loop_requests:
  "destination_loop N secret req deadline dests w = (ok, w') \<Longrightarrow> counts_requests N c \<Longrightarrow>
     c w' \<le> c w + DELIVERY_ATTEMPTS * length dests"
proof (induction dests arbitrary: w)
  case (Cons dest dests)
  obtain r w1 where a: "attempt_loop N secret req deadline dest [1..<Suc DELIVERY_ATTEMPTS] w = (r, w1)"
    by (cases "attempt_loop N secret req deadline dest [1..<Suc DELIVERY_ATTEMPTS] w")
  have w1: "c w1 \<le> c w + DELIVERY_ATTEMPTS" using attempt_loop_requests [OF a Cons.prems(2)] by (simp add: DELIVERY_ATTEMPTS_def)
  show ?case
  proof (cases r)
    case NextDestination
    then have "destination_loop N secret req deadline dests w1 = (ok, w')" using Cons.prems(1) unfolding destination_loop.simps a by simp
    from Cons.IH [OF this Cons.prems(2)] w1 show ?thesis by simp
  qed (use Cons.prems(1) w1 in \<open>unfold destination_loop.simps a, simp\<close>)+
qed simp

text \<open>Delivering a batch terminates after a bounded number of requests: at most three to each destination for every
  piece, and a batch breaks into at most one piece per applied flag, per event without flags and per
  message without events.\<close>

lemma delivery_requests_bounded:
  assumes "counts_requests N c" "deliver_all_within_limit N logs deadline (w, landed) = (out, w', landed')"
  shows "c w' \<le> c w + DELIVERY_ATTEMPTS * length (nt_destinations N) * batch_pieces logs"
proof -
  let ?k = "DELIVERY_ATTEMPTS * length (nt_destinations N)"
  obtain reqs where r: "length reqs \<le> batch_pieces logs" "(w', landed') = run_delivers N deadline reqs (w, landed)"
    using deliver_all_walks [OF assms(2)] by (auto simp: walks_within_def)
  have one: "c (fst (snd (deliver N req deadline s))) \<le> c (fst s) + ?k" for req s
    using destination_loop_requests [OF _ assms(1), of _ req deadline "nt_destinations N" "fst s"]
    by (auto simp: deliver_def split: prod.splits option.splits)
  have "c (fst (run_delivers N deadline reqs s)) \<le> c (fst s) + ?k * length reqs" for s
  proof (induction reqs arbitrary: s)
    case (Cons req reqs)
    from Cons.IH [of "snd (deliver N req deadline s)"] one [of req s] show ?case by (simp add: run_delivers_def)
  qed (simp add: run_delivers_def)
  from this [of "(w, landed)"] r(2) [symmetric] have "c w' \<le> c w + ?k * length reqs" by simp
  also have "\<dots> \<le> c w + ?k * batch_pieces logs" using r(1) by simp
  finally show ?thesis .
qed

section \<open>An oversized carry\<close>

text \<open>
  What is not the assignment travels with the first piece that is delivered. If those parts alone exceed
  the limit, no piece is ever small enough: every flag is dropped as indivisible, although
  each might be delivered without them.
\<close>

lemma oversized_carry_drops_flags:
  assumes "lr_flag_assigned request = [a]" "fg_flags a \<noteq> []"
    and "\<And>flags. flags \<noteq> [] \<Longrightarrow> MEASURED_BACKEND_LIMIT \<le> json_size N (request\<lparr>lr_flag_assigned := [a\<lparr>fg_flags := flags\<rparr>]\<rparr>)"
  shows "deliver_by_splitting_flags N request n deadline s = (delivered_lost n, s)"
proof -
  let ?carry = "Some (request\<lparr>lr_flag_assigned := []\<rparr>)"
  have piece: "\<not> json_size N (request\<lparr>lr_flag_assigned := [\<lparr>fg_resolve_id = fg_resolve_id a, fg_client_info = fg_client_info a, fg_flags = flags\<rparr>]\<rparr>)
      < MEASURED_BACKEND_LIMIT" if "flags \<noteq> []" for flags
    using assms(3) [OF that] by (cases a) simp
  have loop: "split_loop N deadline (fg_resolve_id a) (fg_client_info a) stack ?carry False lost s = (False, lost \<or> concat stack \<noteq> [], s)"
    for stack lost
  proof (induction "stack_weight stack" arbitrary: stack lost rule: less_induct)
    case less
    show ?case
    proof (cases stack)
      case (Cons flags rest)
      have IH: "split_loop N deadline (fg_resolve_id a) (fg_client_info a) st ?carry False l s = (False, l \<or> concat st \<noteq> [], s)"
        if "stack_weight st < stack_weight stack" for st l using less [OF that] .
      show ?thesis
      proof (cases "flags = []")
        case True
        then show ?thesis using IH [of rest lost] by (simp add: Cons)
      next
        case False
        note big = piece [OF False]
        have rest: "stack_weight rest < stack_weight stack" by (simp add: Cons)
        show ?thesis
        proof (cases "length flags \<le> 1")
          case True
          then show ?thesis using IH [OF rest, of True] big False by (simp add: Cons Let_def)
        next
          case long: False
          let ?st = "take (length flags div 2) flags # drop (length flags div 2) flags # rest"
          have "stack_weight ?st < stack_weight stack" using flags_weight_halves [of flags] long by (simp add: Cons)
          from IH [OF this, of lost] have "split_loop N deadline (fg_resolve_id a) (fg_client_info a) ?st ?carry False lost s = (False, True, s)"
            using False by (simp flip: append_assoc)
          then show ?thesis using big False long by (simp add: Cons Let_def)
        qed
      qed
    qed simp
  qed
  show ?thesis using assms(1,2) loop [of "[fg_flags a]" False]
    by (simp add: deliver_by_splitting_flags_def Let_def split_outcome_def delivered_lost_def)
qed

section \<open>Instances\<close>

text \<open>A platform that answers after ten milliseconds, with its clock and a count of the requests as state.\<close>

definition example_net :: "(int \<times> nat) net" where
  "example_net = \<lparr>nt_send = (\<lambda>secret url acct req budget w. (Inr 200, (fst w + int (min 10 budget), Suc (snd w)))), nt_now = fst,
     nt_delay = (\<lambda>d w. (fst w + int d, snd w)), nt_json_len = (\<lambda>req. Some (1000 * length (lr_flag_assigned req))),
     nt_encoded_len = (\<lambda>req. 500 * length (lr_flag_assigned req)), nt_client_secret = Some ''s'', nt_account_id = ''a'',
     nt_destinations = [Edge, Cloudflare]\<rparr>"

definition example_event :: "nat \<Rightarrow> flag_assigned" where
  "example_event n = \<lparr>fg_resolve_id = ''r'', fg_client_info = None, fg_flags = replicate n
     \<lparr>ae_flag = ''f'', ae_targeting_key = ''u'', ae_targeting_key_selector = [], ae_assignment = None, ae_assignment_id = ''a'',
      ae_rule = ''r'', ae_fallthrough_assignments = [], ae_apply_time = None\<rparr>\<rparr>"

definition example_log :: "nat \<Rightarrow> log_request" where
  "example_log n = log_request_default\<lparr>lr_flag_assigned := [example_event n]\<rparr>"

lemma example_deliver: "deliver example_net req (for_http_background 0) ((0, 0), []) = (True, (10, 1), [req])"
  by (simp add: deliver_def example_net_def deliver_flag_logs_def DELIVERY_ATTEMPTS_def remaining_from_def for_http_background_def
      INVOCATION_BUDGET_MS_def MIN_ATTEMPT_MS_def attempt_budget_ms_def upt_rec)

lemma example_delivery:
  "\<exists>landed. deliver_all_within_limit example_net [example_log 2, example_log 1] (for_http_background 0) ((0, 0), [])
     = (delivered_ok 2, (10, 1), landed)"
proof -
  let ?logs = "[example_log 2, example_log 1]"
  have size: "json_size example_net (aggregate_batch ?logs) = 2000"
    by (simp add: json_size_def example_net_def example_log_def)
  have encoded: "sum_list (map (nt_encoded_len example_net) ?logs) = 1000" by (simp add: example_net_def example_log_def)
  have "deliver_all_within_limit example_net ?logs (for_http_background 0) ((0, 0), [])
      = deliver_aggregate example_net (aggregate_batch ?logs) 2 (for_http_background 0) ((0, 0), [])"
    unfolding deliver_all_within_limit.simps [of example_net ?logs] encoded by (simp add: PROTO_CHUNK_BYTES_def numeral_2_eq_2)
  also have "\<dots> = (delivered_ok 2, (10, 1), [aggregate_batch ?logs])"
    unfolding deliver_aggregate.simps [of example_net "aggregate_batch ?logs"] size example_deliver
    by (simp add: MAX_DELIVERY_BYTES_def)
  finally show ?thesis by blast
qed


theorem delivery_ends_by_deadline_witness:
  "\<exists>out w landed. deliver_all_within_limit example_net [example_log 2, example_log 1] (for_http_background 0) ((0, 0), []) = (out, w, landed)
     \<and> nt_now example_net w \<le> 25000"
proof -
  obtain landed where run: "deliver_all_within_limit example_net [example_log 2, example_log 1] (for_http_background 0) ((0, 0), [])
      = (delivered_ok 2, (10, 1), landed)" using example_delivery by blast
  have "timely example_net" by (simp add: timely_def example_net_def)
  from delivery_ends_by_deadline [OF this _ run] have "nt_now example_net (10, 1) \<le> 25000"
    by (simp add: example_net_def for_http_background_def INVOCATION_BUDGET_MS_def)
  with run show ?thesis by blast
qed

theorem delivery_requests_bounded_witness:
  "\<exists>out w landed. deliver_all_within_limit example_net [example_log 2, example_log 1] (for_http_background 0) ((0, 0), []) = (out, w, landed)
     \<and> snd w \<le> 18"
proof -
  obtain landed where run: "deliver_all_within_limit example_net [example_log 2, example_log 1] (for_http_background 0) ((0, 0), [])
      = (delivered_ok 2, (10, 1), landed)" using example_delivery by blast
  have "counts_requests example_net snd" by (simp add: counts_requests_def example_net_def)
  from delivery_requests_bounded [OF this run] have "snd (10 :: int, 1 :: nat) \<le> 18"
    by (simp add: example_net_def DELIVERY_ATTEMPTS_def batch_pieces_def event_pieces_def example_log_def example_event_def)
  with run show ?thesis by (intro exI conjI)
qed

end
