(* ===== verification/Flag_Log_Consumer.thy ===== *)
theory Flag_Log_Consumer
  imports Flag_Log_Delivery "HOL-Library.Product_Lexorder"
begin

text \<open>
  The queue sink of the Cloudflare worker (\<open>flag_log/queue.rs\<close>, \<open>flag_log/shards.rs\<close>, the deduplication pass of
  \<open>flag_log/mod.rs\<close> and the metrics snapshots of \<open>lib.rs\<close>): how a log is published to a shard, and how a batch of messages
  is parsed, deduplicated, delivered, counted and acknowledged. The metrics store maps a key to the snapshot its text holds;
  parsing a message and the platform of \<open>net\<close> are parameters.
\<close>

section \<open>Shards\<close>

definition shard_name :: "nat \<Rightarrow> string" where
  [model_defs]: "shard_name n = ''flag_logs_queue_'' @ show_nat n"

text \<open>The \<open>while let\<close> loop: it ends with the first number that is not bound.\<close>

partial_function (option) discover_loop :: "(string \<Rightarrow> 'q option) \<Rightarrow> 'q list \<Rightarrow> 'q list option" where
  "discover_loop lookup queues =
     (case lookup (shard_name (length queues + 1)) of
        Some queue \<Rightarrow> discover_loop lookup (queues @ [queue])
      | None \<Rightarrow> Some queues)"

definition discover :: "(string \<Rightarrow> 'q option) \<Rightarrow> 'q list option" where
  [model_defs]: "discover lookup =
     (case lookup ''flag_logs_queue'' of
        None \<Rightarrow> Some []
      | Some first \<Rightarrow> discover_loop lookup [first])"

text \<open>\<open>scaled\<close> is the sample times the number of queues, truncated.\<close>

definition select_index :: "nat \<Rightarrow> nat \<Rightarrow> nat" where
  [model_defs]: "select_index len scaled = (if len = 0 then 0 else scaled mod len)"

fun send_offsets :: "('q \<Rightarrow> string \<Rightarrow> 'w \<Rightarrow> bool \<times> 'w) \<Rightarrow> 'q list \<Rightarrow> string \<Rightarrow> nat \<Rightarrow> nat list \<Rightarrow> 'w \<Rightarrow> bool \<times> 'w" where
  "send_offsets send queues json start [] w = (False, w)"
| "send_offsets send queues json start (offset # offsets) w =
     (case nth_opt queues ((start + offset) mod length queues) of
        Some queue \<Rightarrow>
          (case send queue json w of
             (True, w) \<Rightarrow> (True, w)
           | (False, w) \<Rightarrow> send_offsets send queues json start offsets w)
      | None \<Rightarrow> send_offsets send queues json start offsets w)"

definition send_to_any :: "('q \<Rightarrow> string \<Rightarrow> 'w \<Rightarrow> bool \<times> 'w) \<Rightarrow> 'q list \<Rightarrow> string \<Rightarrow> nat \<Rightarrow> 'w \<Rightarrow> bool \<times> 'w" where
  [model_defs]: "send_to_any send queues json scaled w =
     (if queues = [] then (False, w)
      else send_offsets send queues json (select_index (length queues) scaled) [0..<length queues] w)"

text \<open>\<open>queue::send\<close>: what does not serialize, and what is sent without bound queues, is dropped.\<close>

definition queue_send ::
  "('q \<Rightarrow> string \<Rightarrow> 'w \<Rightarrow> bool \<times> 'w) \<Rightarrow> (log_request \<Rightarrow> string option) \<Rightarrow> 'q list option \<Rightarrow> nat \<Rightarrow> log_request \<Rightarrow> 'w \<Rightarrow> 'w" where
  [model_defs]: "queue_send send to_json queues scaled log w =
     (case to_json log of
        None \<Rightarrow> w
      | Some json \<Rightarrow> (case queues of None \<Rightarrow> w | Some qs \<Rightarrow> snd (send_to_any send qs json scaled w)))"

section \<open>The deduplication pass\<close>

definition DEDUP_MAX_ENTRIES :: nat where [model_defs]: "DEDUP_MAX_ENTRIES = 100000"

definition new_dedup :: apply_dedup where
  [model_defs]: "new_dedup = apply_dedup_new (2 ^ 63 - 1) DEDUP_MAX_ENTRIES"

abbreviation event_hash :: "applied_event \<Rightarrow> u64" where
  "event_hash applied \<equiv> compute_applied_flag_dedup_hash (ref_of_event applied)"

fun retain_applies :: "int \<Rightarrow> applied_event list \<Rightarrow> apply_dedup \<Rightarrow> applied_event list \<times> apply_dedup" where
  "retain_applies now_seconds [] dedup = ([], dedup)"
| "retain_applies now_seconds (applied # flags) dedup =
     (let (new, dedup) = check_hash (event_hash applied) now_seconds dedup;
          (rest, dedup) = retain_applies now_seconds flags dedup in
      (if new then applied # rest else rest, dedup))"

fun retain_assignments :: "int \<Rightarrow> flag_assigned list \<Rightarrow> apply_dedup \<Rightarrow> flag_assigned list \<times> apply_dedup" where
  "retain_assignments now_seconds [] dedup = ([], dedup)"
| "retain_assignments now_seconds (a # asgs) dedup =
     (let (flags, dedup) = retain_applies now_seconds (fg_flags a) dedup;
          (rest, dedup) = retain_assignments now_seconds asgs dedup in
      (a\<lparr>fg_flags := flags\<rparr> # rest, dedup))"

fun dedup_flag_applies :: "int \<Rightarrow> log_request list \<Rightarrow> apply_dedup \<Rightarrow> log_request list \<times> apply_dedup" where
  "dedup_flag_applies now_seconds [] dedup = ([], dedup)"
| "dedup_flag_applies now_seconds (log # logs) dedup =
     (let (assigned, dedup) = retain_assignments now_seconds (lr_flag_assigned log) dedup;
          (rest, dedup) = dedup_flag_applies now_seconds logs dedup in
      (log\<lparr>lr_flag_assigned := filter (\<lambda>a. fg_flags a \<noteq> []) assigned\<rparr> # rest, dedup))"

definition dedup_batch_flag_applies :: "int \<Rightarrow> log_request list \<Rightarrow> log_request list" where
  [model_defs]: "dedup_batch_flag_applies now_seconds logs = fst (dedup_flag_applies now_seconds logs new_dedup)"

section \<open>Metrics snapshots\<close>

datatype gauge_source = Live | Frozen
datatype snapshot_pipeline = FlagLogs | EventsPipeline

definition pipeline_key :: "snapshot_pipeline \<Rightarrow> string" where
  [model_defs]: "pipeline_key p = (case p of FlagLogs \<Rightarrow> ''snapshot:flaglogs'' | EventsPipeline \<Rightarrow> ''snapshot:events'')"

definition SNAPSHOT_KEY_LEGACY :: string where [model_defs]: "SNAPSHOT_KEY_LEGACY = ''snapshot''"

text \<open>\<open>resize\<close> to the longer length with zeros, then add index-wise.\<close>

definition add_vectors :: "u64 list \<Rightarrow> u64 list \<Rightarrow> u64 list" where
  [model_defs]: "add_vectors acc other =
     (let acc = (if length acc < length other then acc @ replicate (length other - length acc) 0 else acc) in
      map2 (+) (take (length other) acc) other @ drop (length other) acc)"

definition merge_dedup_snapshot :: "gauge_source \<Rightarrow> dedup_snapshot option \<Rightarrow> dedup_snapshot option \<Rightarrow> dedup_snapshot option" where
  [model_defs]: "merge_dedup_snapshot gauges acc other =
     (case (acc, other) of
        (Some a, Some b) \<Rightarrow>
          (let a = a\<lparr>ds_applies_total := ds_applies_total a + ds_applies_total b,
                     ds_applies_deduped := ds_applies_deduped a + ds_applies_deduped b,
                     ds_overflow := ds_overflow a + ds_overflow b, ds_sweeps := ds_sweeps a + ds_sweeps b\<rparr> in
           Some (if gauges = Live then a\<lparr>ds_map_size := ds_map_size b, ds_map_capacity := ds_map_capacity b\<rparr> else a))
      | (None, Some b) \<Rightarrow> Some (if gauges = Frozen then b\<lparr>ds_map_size := 0, ds_map_capacity := 0\<rparr> else b)
      | (_, None) \<Rightarrow> acc)"

definition merge_init_rate :: "provider_init_snapshot \<Rightarrow> provider_init_snapshot list \<Rightarrow> provider_init_snapshot list" where
  [model_defs]: "merge_init_rate item entries =
     (case update_first (\<lambda>e. ps_labels e = ps_labels item) (\<lambda>e. e\<lparr>ps_count := ps_count e + ps_count item\<rparr>) entries of
        Some entries' \<Rightarrow> entries'
      | None \<Rightarrow> entries @ [item])"

definition merge_snapshots :: "tel_snapshot \<Rightarrow> tel_snapshot \<Rightarrow> gauge_source \<Rightarrow> tel_snapshot" where
  [model_defs]: "merge_snapshots acc other gauges =
     acc\<lparr>sn_latency := \<lparr>hg_sum = hg_sum (sn_latency acc) + hg_sum (sn_latency other),
           hg_count = hg_count (sn_latency acc) + hg_count (sn_latency other),
           hg_buckets = add_vectors (hg_buckets (sn_latency acc)) (hg_buckets (sn_latency other))\<rparr>,
         sn_resolve_rates := add_vectors (sn_resolve_rates acc) (sn_resolve_rates other),
         sn_memory_bytes := (if gauges = Live \<and> 0 < sn_memory_bytes other then sn_memory_bytes other else sn_memory_bytes acc),
         sn_flush := \<lparr>fl_succeeded = fl_succeeded (sn_flush acc) + fl_succeeded (sn_flush other),
           fl_failed = fl_failed (sn_flush acc) + fl_failed (sn_flush other)\<rparr>,
         sn_events := \<lparr>ev_published = ev_published (sn_events acc) + ev_published (sn_events other),
           ev_batches_succeeded = ev_batches_succeeded (sn_events acc) + ev_batches_succeeded (sn_events other),
           ev_batches_failed = ev_batches_failed (sn_events acc) + ev_batches_failed (sn_events other),
           ev_events_rejected = ev_events_rejected (sn_events acc) + ev_events_rejected (sn_events other)\<rparr>,
         sn_apply_dedup := merge_dedup_snapshot gauges (sn_apply_dedup acc) (sn_apply_dedup other),
         sn_provider_init_rate := sort_key ps_labels (fold merge_init_rate (sn_provider_init_rate other) (sn_provider_init_rate acc))\<rparr>"

type_synonym metrics_kv = "tel_snapshot fields"

definition kv_read :: "metrics_kv \<Rightarrow> string \<Rightarrow> tel_snapshot" where
  [model_defs]: "kv_read kv key = (case map_of kv key of Some s \<Rightarrow> s | None \<Rightarrow> snapshot_default)"

text \<open>What \<open>/metrics\<close> renders.\<close>

definition total_metrics :: "metrics_kv \<Rightarrow> tel_snapshot" where
  [model_defs]: "total_metrics kv =
     fold (\<lambda>(key, gauges) total. case map_of kv key of Some part \<Rightarrow> merge_snapshots total part gauges | None \<Rightarrow> total)
       [(pipeline_key FlagLogs, Live), (pipeline_key EventsPipeline, Live), (SNAPSHOT_KEY_LEGACY, Frozen)] snapshot_default"

definition count_flush :: "bool option \<Rightarrow> tel_snapshot \<Rightarrow> tel_snapshot" where
  [model_defs]: "count_flush flush_result cumulative =
     (case flush_result of
        Some True \<Rightarrow> cumulative\<lparr>sn_flush := (sn_flush cumulative)\<lparr>fl_succeeded := fl_succeeded (sn_flush cumulative) + 1\<rparr>\<rparr>
      | Some False \<Rightarrow> cumulative\<lparr>sn_flush := (sn_flush cumulative)\<lparr>fl_failed := fl_failed (sn_flush cumulative) + 1\<rparr>\<rparr>
      | None \<Rightarrow> cumulative)"

definition update_kv_snapshot_merged :: "snapshot_pipeline \<Rightarrow> tel_snapshot option \<Rightarrow> bool option \<Rightarrow> metrics_kv \<Rightarrow> metrics_kv" where
  [model_defs]: "update_kv_snapshot_merged pipeline snap flush_result kv =
     (let cumulative = kv_read kv (pipeline_key pipeline);
          cumulative = (case snap of Some s \<Rightarrow> merge_snapshots cumulative s Live | None \<Rightarrow> cumulative) in
      hm_insert (pipeline_key pipeline) (count_flush flush_result cumulative) kv)"

definition count_events :: "(nat \<times> nat \<times> bool) option \<Rightarrow> tel_snapshot \<Rightarrow> tel_snapshot" where
  [model_defs]: "count_events event_result cumulative =
     (case event_result of
        None \<Rightarrow> cumulative
      | Some (event_count, rejected, succeeded) \<Rightarrow>
          (let e = sn_events cumulative in
           if succeeded then
             cumulative\<lparr>sn_events := e\<lparr>ev_published := ev_published e + of_nat event_count,
               ev_events_rejected := ev_events_rejected e + of_nat rejected,
               ev_batches_succeeded := ev_batches_succeeded e + 1\<rparr>\<rparr>
           else cumulative\<lparr>sn_events := e\<lparr>ev_batches_failed := ev_batches_failed e + 1\<rparr>\<rparr>))"

definition update_kv_snapshot ::
  "snapshot_pipeline \<Rightarrow> telemetry_data option \<Rightarrow> bool option \<Rightarrow> (nat \<times> nat \<times> bool) option \<Rightarrow> metrics_kv \<Rightarrow> metrics_kv" where
  [model_defs]: "update_kv_snapshot pipeline telemetry_delta flush_result event_result kv =
     (let cumulative = kv_read kv (pipeline_key pipeline);
          cumulative = (case telemetry_delta of Some td \<Rightarrow> accumulate_delta td cumulative | None \<Rightarrow> cumulative) in
      hm_insert (pipeline_key pipeline) (count_events event_result (count_flush flush_result cumulative)) kv)"

section \<open>The consumer\<close>

record 'w consumer =
  cn_net :: "'w net"
  cn_parse :: "string \<Rightarrow> log_request option"
  cn_trim :: "string \<Rightarrow> string"
  cn_dedup_var :: "string option"
  cn_has_kv :: bool

text \<open>The telemetry of the messages, merged before it is known whether they are delivered.\<close>

definition batch_telemetry :: "log_request list \<Rightarrow> tel_snapshot option" where
  [model_defs]: "batch_telemetry logs =
     (if list_ex (\<lambda>log. lr_telemetry_data log \<noteq> None) logs then Some (fold accumulate_message logs snapshot_default) else None)"

definition nack_message :: "delivered \<Rightarrow> string" where
  [model_defs]: "nack_message outcome =
     (if ack_decision outcome = Partial then
        ''flag log delivery partial: '' @ show_nat (dl_lost outcome) @ '' of '' @
          show_nat (dl_ok outcome + dl_lost outcome) @ '' records failed''
      else ''flag log delivery failed for all '' @ show_nat (dl_lost outcome) @ '' records'')"

definition consumer_logs :: "'w consumer \<Rightarrow> string list \<Rightarrow> 'w \<Rightarrow> log_request list" where
  [model_defs]: "consumer_logs C messages w =
     (let logs = List.map_filter (cn_parse C) messages in
      if dedup_enabled (cn_trim C) (cn_dedup_var C)
      then dedup_batch_flag_applies (nt_now (cn_net C) w div 1000) logs else logs)"

definition consume ::
  "'w consumer \<Rightarrow> string list option \<Rightarrow> 'w \<times> log_request list \<Rightarrow> metrics_kv \<Rightarrow>
   (string + unit) \<times> ('w \<times> log_request list) \<times> metrics_kv" where
  [model_defs]: "consume C messages s kv =
     (let deadline = for_queue_consumer (nt_now (cn_net C) (fst s)) in
      case messages of
        None \<Rightarrow> (Inr (), s, kv)
      | Some messages \<Rightarrow>
          (let logs = consumer_logs C messages (fst s);
               telemetry = batch_telemetry logs in
           case deliver_all_within_limit (cn_net C) logs deadline s of (outcome, s) \<Rightarrow>
             (let kv = (if cn_has_kv C
                        then update_kv_snapshot_merged FlagLogs (if dl_lost outcome = 0 then telemetry else None)
                               (Some (dl_lost outcome = 0)) kv
                        else kv) in
              (if ack_decision outcome = Complete then Inr () else Inl (nack_message outcome), s, kv))))"

section \<open>Properties of the shards\<close>

lemma discover_loop_contiguous:
  assumes "lookup (shard_name (length queues + length others + 1)) = None"
    and "\<And>i. i < length others \<Longrightarrow> lookup (shard_name (length queues + i + 1)) = Some (others ! i)"
  shows "discover_loop lookup queues = Some (queues @ others)"
  using assms
proof (induction others arbitrary: queues)
  case Nil
  then show ?case by (subst discover_loop.simps) simp
next
  case (Cons q others)
  have "discover_loop lookup (queues @ [q]) = Some ((queues @ [q]) @ others)"
  proof (rule Cons.IH)
    show "lookup (shard_name (length (queues @ [q]) + length others + 1)) = None" using Cons.prems(1) by simp
    show "lookup (shard_name (length (queues @ [q]) + i + 1)) = Some (others ! i)" if "i < length others" for i
      using Cons.prems(2) [of "Suc i"] that by simp
  qed
  then show ?case using Cons.prems(2) [of 0] by (subst discover_loop.simps) simp
qed

text \<open>Discovery returns the legacy binding and the numbered ones up to the first gap.\<close>

lemma discover_contiguous:
  assumes "lookup ''flag_logs_queue'' = Some q" "lookup (shard_name (length others + 2)) = None"
    and "\<And>i. i < length others \<Longrightarrow> lookup (shard_name (i + 2)) = Some (others ! i)"
  shows "discover lookup = Some (q # others)"
  using discover_loop_contiguous [of lookup "[q]" others] assms by (simp add: discover_def)

text \<open>The queues tried, with a state that records them.\<close>

definition recording :: "('q \<Rightarrow> bool) \<Rightarrow> 'q \<Rightarrow> string \<Rightarrow> 'q list \<Rightarrow> bool \<times> 'q list" where
  "recording accepts queue json tried = (accepts queue, tried @ [queue])"

lemma nth_opt_mod: "qs \<noteq> [] \<Longrightarrow> nth_opt qs (k mod length qs) = Some (qs ! (k mod length qs))"
  by (simp add: nth_opt_eq)

lemma send_offsets_recording:
  "qs \<noteq> [] \<Longrightarrow> send_offsets (recording accepts) qs json start offsets tried = (ok, tried') \<Longrightarrow>
     \<exists>n \<le> length offsets. tried' = tried @ map (\<lambda>k. qs ! ((start + k) mod length qs)) (take n offsets)
       \<and> (ok \<longleftrightarrow> (\<exists>k \<in> set offsets. accepts (qs ! ((start + k) mod length qs)))) \<and> (\<not> ok \<longrightarrow> n = length offsets)"
proof (induction offsets arbitrary: tried)
  case (Cons k offsets)
  let ?q = "qs ! ((start + k) mod length qs)"
  show ?case
  proof (cases "accepts ?q")
    case True
    then show ?thesis using Cons.prems by (intro exI [of _ 1]) (auto simp: nth_opt_mod recording_def)
  next
    case False
    then have "send_offsets (recording accepts) qs json start offsets (tried @ [?q]) = (ok, tried')"
      using Cons.prems by (simp add: nth_opt_mod recording_def [of accepts "?q"])
    from Cons.IH [OF Cons.prems(1) this] obtain n where "n \<le> length offsets"
      "tried' = (tried @ [?q]) @ map (\<lambda>k. qs ! ((start + k) mod length qs)) (take n offsets)"
      "ok \<longleftrightarrow> (\<exists>k \<in> set offsets. accepts (qs ! ((start + k) mod length qs)))" "\<not> ok \<longrightarrow> n = length offsets" by blast
    then show ?thesis using False by (intro exI [of _ "Suc n"]) auto
  qed
qed simp

lemma rotated: "start < length qs \<Longrightarrow> map (\<lambda>k. qs ! ((start + k) mod length qs)) [0..<length qs] = rotate start qs"
  by (intro nth_equalityI) (simp_all add: nth_rotate add.commute)

text \<open>A log is dropped only when every shard rejects it. Whatever shard is tried first, the shards are tried one
  after the other and none twice: publishing succeeds exactly if some shard accepts, and when it fails each
  shard has been tried.\<close>

lemma send_to_any_tries_all:
  assumes "send_to_any (recording accepts) queues json scaled [] = (ok, tried)"
  shows "(ok \<longleftrightarrow> (\<exists>q \<in> set queues. accepts q)) \<and> mset tried \<subseteq># mset queues \<and> (\<not> ok \<longrightarrow> mset tried = mset queues)"
proof (cases "queues = []")
  case True
  then show ?thesis using assms by (simp add: send_to_any_def)
next
  case False
  let ?start = "select_index (length queues) scaled" and ?n = "length queues"
  have start: "?start < ?n" using False by (simp add: select_index_def)
  let ?at = "\<lambda>k. queues ! ((?start + k) mod ?n)"
  have run: "send_offsets (recording accepts) queues json ?start [0..<?n] [] = (ok, tried)"
    using assms False by (simp add: send_to_any_def)
  obtain n where n: "n \<le> ?n" "tried = map ?at (take n [0..<?n])" "ok \<longleftrightarrow> (\<exists>k \<in> {0..<?n}. accepts (?at k))" "\<not> ok \<longrightarrow> n = ?n"
    using send_offsets_recording [OF False run] unfolding set_upt length_upt append_Nil diff_zero by (elim exE conjE) (rule that)
  have all: "mset (map ?at [0..<?n]) = mset queues" unfolding rotated [OF start] by (metis rotate_drop_take append_take_drop_id mset_append union_commute)
  have tried: "tried = take n (map ?at [0..<?n])" using n(2) by (simp add: take_map)
  have "mset (take n (map ?at [0..<?n])) \<subseteq># mset (map ?at [0..<?n])"
    by (metis append_take_drop_id mset_append mset_subset_eq_add_left)
  then have sub: "mset tried \<subseteq># mset queues" unfolding tried all .
  have whole: "\<not> ok \<longrightarrow> mset tried = mset queues" using n(4) all by (simp add: tried)
  have "?at ` {0..<?n} = set queues"
    using arg_cong [OF all, of set_mset] by simp
  then have "ok \<longleftrightarrow> (\<exists>q \<in> set queues. accepts q)" using n(3) by (metis (no_types, lifting) image_iff)
  with sub whole show ?thesis by blast
qed

theorem send_to_any_tries_all_witness:
  "\<exists>tried. send_to_any (recording (\<lambda>q. q = (2::nat))) [1, 2, 3] [] 7 [] = (True, tried)"
proof -
  obtain ok tried where run: "send_to_any (recording (\<lambda>q. q = (2::nat))) [1, 2, 3] [] 7 [] = (ok, tried)"
    by (cases "send_to_any (recording (\<lambda>q. q = (2::nat))) [1, 2, 3] [] 7 []")
  with send_to_any_tries_all [OF run] show ?thesis by auto
qed

section \<open>Properties of the deduplication pass\<close>

text \<open>The first application of each identity, among flags with the envelope of their event.\<close>

fun firsts :: "u64 set \<Rightarrow> ('a \<times> 'b \<times> applied_event) list \<Rightarrow> ('a \<times> 'b \<times> applied_event) list" where
  "firsts seen [] = []"
| "firsts seen (x # xs) =
     (let h = event_hash (snd (snd x)) in if h \<in> seen then firsts seen xs else x # firsts (insert h seen) xs)"

definition hashes :: "('a \<times> 'b \<times> applied_event) list \<Rightarrow> u64 set" where
  "hashes xs = (\<lambda>x. event_hash (snd (snd x))) ` set xs"

lemma firsts_append: "firsts seen (xs @ ys) = firsts seen xs @ firsts (seen \<union> hashes xs) ys"
  by (induction xs arbitrary: seen) (auto simp: Let_def hashes_def insert_absorb Un_insert_left)

text \<open>A table with room for \<open>n\<close> more hashes than it needs.\<close>

definition room :: "nat \<Rightarrow> apply_dedup \<Rightarrow> bool" where
  "room n D \<longleftrightarrow> length (ad_seen D) + n \<le> ad_max_entries D"

lemma retain_applies_firsts:
  "retain_applies now flags D = (kept, D') \<Longrightarrow> room (length flags + n) D \<Longrightarrow>
     map (\<lambda>e. (r, c, e)) kept = firsts (seen_hashes D) (map (\<lambda>e. (r, c, e)) flags)
     \<and> seen_hashes D' = seen_hashes D \<union> hashes (map (\<lambda>e. (r, c, e)) flags) \<and> room n D'"
proof (induction now flags D arbitrary: kept D' rule: retain_applies.induct)
  case (2 now applied flags D)
  obtain new D1 where p: "check_hash (event_hash applied) now D = (new, D1)" by (cases "check_hash (event_hash applied) now D")
  obtain rest D2 where q: "retain_applies now flags D1 = (rest, D2)" by (cases "retain_applies now flags D1")
  note pr = probe_result [OF p [unfolded check_hash_def]]
  have room: "length (ad_seen D) < ad_max_entries D" using "2.prems"(2) by (simp add: room_def)
  have "room (length flags + n) D1" using pr(5,7) "2.prems"(2) by (simp add: room_def)
  from "2.IH" [OF p [symmetric] refl q this] have IH:
    "map (\<lambda>e. (r, c, e)) rest = firsts (seen_hashes D1) (map (\<lambda>e. (r, c, e)) flags)"
    "seen_hashes D2 = seen_hashes D1 \<union> hashes (map (\<lambda>e. (r, c, e)) flags)" "room n D2" by auto
  have res: "kept = (if new then applied # rest else rest)" "D' = D2" using "2.prems"(1) by (auto simp: p q Let_def)
  show ?case using IH pr(1,4) room by (auto simp: res hashes_def insert_absorb Let_def)
qed (simp add: hashes_def room_def)

lemma length_event_flags: "length (event_flags a) = length (fg_flags a)"
  by (simp add: event_flags_def)

lemma retain_assignments_firsts:
  "retain_assignments now as D = (kept, D') \<Longrightarrow> room (length (concat (map event_flags as)) + n) D \<Longrightarrow>
     concat (map event_flags kept) = firsts (seen_hashes D) (concat (map event_flags as))
     \<and> seen_hashes D' = seen_hashes D \<union> hashes (concat (map event_flags as)) \<and> room n D'"
proof (induction now as D arbitrary: kept D' rule: retain_assignments.induct)
  case (2 now a as D)
  obtain flags D1 where p: "retain_applies now (fg_flags a) D = (flags, D1)" by (cases "retain_applies now (fg_flags a) D")
  obtain rest D2 where q: "retain_assignments now as D1 = (rest, D2)" by (cases "retain_assignments now as D1")
  have "room (length (fg_flags a) + (length (concat (map event_flags as)) + n)) D"
    using "2.prems"(2) by (simp add: length_event_flags add.assoc)
  from retain_applies_firsts [OF p this, of "fg_resolve_id a" "fg_client_info a"]
  have first: "map (\<lambda>e. (fg_resolve_id a, fg_client_info a, e)) flags = firsts (seen_hashes D) (event_flags a)"
    "seen_hashes D1 = seen_hashes D \<union> hashes (event_flags a)" "room (length (concat (map event_flags as)) + n) D1"
    by (simp_all add: event_flags_def)
  note IH = "2.IH" [OF p [symmetric] refl q first(3)]
  have res: "kept = a\<lparr>fg_flags := flags\<rparr> # rest" "D' = D2" using "2.prems"(1) by (auto simp: p q Let_def)
  have "event_flags (a\<lparr>fg_flags := flags\<rparr>) = firsts (seen_hashes D) (event_flags a)"
    using first(1) by (simp add: event_flags_def)
  then show ?case using IH by (simp add: res first(2) firsts_append hashes_def image_Un Un_assoc)
qed (simp add: hashes_def room_def)

lemma drop_empty_events: "concat (map event_flags (filter (\<lambda>a. fg_flags a \<noteq> []) as)) = concat (map event_flags as)"
  by (induction as) (auto simp: event_flags_def)

lemma landed_flags_Cons: "landed_flags (log # logs) = concat (map event_flags (lr_flag_assigned log)) @ landed_flags logs"
  by (simp add: landed_flags_def)

lemma dedup_flag_applies_firsts:
  "dedup_flag_applies now logs D = (kept, D') \<Longrightarrow> room (length (landed_flags logs)) D \<Longrightarrow>
     landed_flags kept = firsts (seen_hashes D) (landed_flags logs)"
proof (induction now logs D arbitrary: kept D' rule: dedup_flag_applies.induct)
  case (2 now log logs D)
  obtain as D1 where p: "retain_assignments now (lr_flag_assigned log) D = (as, D1)" by (cases "retain_assignments now (lr_flag_assigned log) D")
  obtain rest D2 where q: "dedup_flag_applies now logs D1 = (rest, D2)" by (cases "dedup_flag_applies now logs D1")
  have "room (length (concat (map event_flags (lr_flag_assigned log))) + length (landed_flags logs)) D"
    using "2.prems"(2) by (simp add: landed_flags_Cons)
  note first = retain_assignments_firsts [OF p this]
  have "landed_flags rest = firsts (seen_hashes D1) (landed_flags logs)"
    using "2.IH" [OF p [symmetric] refl q] first by blast
  then show ?case using first "2.prems"(1) by (auto simp: p q Let_def landed_flags_Cons drop_empty_events firsts_append)
qed simp

lemma dedup_flag_applies_rest:
  "dedup_flag_applies now logs D = (kept, D') \<Longrightarrow> map lr_telemetry_data kept = map lr_telemetry_data logs
     \<and> map lr_client_resolve_info kept = map lr_client_resolve_info logs \<and> map lr_flag_resolve_info kept = map lr_flag_resolve_info logs"
proof (induction now logs D arbitrary: kept D' rule: dedup_flag_applies.induct)
  case (2 now log logs D)
  obtain as D1 where p: "retain_assignments now (lr_flag_assigned log) D = (as, D1)" by (cases "retain_assignments now (lr_flag_assigned log) D")
  obtain rest D2 where q: "dedup_flag_applies now logs D1 = (rest, D2)" by (cases "dedup_flag_applies now logs D1")
  from "2.IH" [OF p [symmetric] refl q] "2.prems" show ?case by (auto simp: p q Let_def)
qed simp

text \<open>Deduplicating a batch of up to 100,000 applied flags keeps exactly the first apply of each identity, in order and under
  its own event, whenever it runs, and leaves telemetry and resolve counts alone.\<close>

lemma dedup_batch_exact:
  assumes "length (landed_flags logs) \<le> DEDUP_MAX_ENTRIES"
  shows "landed_flags (dedup_batch_flag_applies now logs) = firsts {} (landed_flags logs)
    \<and> map lr_telemetry_data (dedup_batch_flag_applies now logs) = map lr_telemetry_data logs
    \<and> map lr_client_resolve_info (dedup_batch_flag_applies now logs) = map lr_client_resolve_info logs
    \<and> map lr_flag_resolve_info (dedup_batch_flag_applies now logs) = map lr_flag_resolve_info logs"
proof -
  obtain kept D where run: "dedup_flag_applies now logs new_dedup = (kept, D)" by (cases "dedup_flag_applies now logs new_dedup")
  have "room (length (landed_flags logs)) new_dedup" "seen_hashes new_dedup = {}"
    using assms by (simp_all add: room_def new_dedup_def apply_dedup_new_def seen_hashes_def)
  with dedup_flag_applies_firsts [OF run] dedup_flag_applies_rest [OF run] show ?thesis
    by (simp add: dedup_batch_flag_applies_def run)
qed

section \<open>Properties of the snapshots\<close>

lemma get_add_vectors: "get_or_0 (add_vectors acc other) i = get_or_0 acc i + get_or_0 other i"
  by (auto simp: get_or_0_nth add_vectors_def Let_def nth_append min_def not_less)

lemma merge_init_value:
  "sum_list (map (\<lambda>x. if ps_labels x = l then ps_count x else 0) (merge_init_rate item entries)) =
     sum_list (map (\<lambda>x. if ps_labels x = l then ps_count x else 0) entries) + (if ps_labels item = l then ps_count item else 0)"
proof (cases "update_first (\<lambda>e. ps_labels e = ps_labels item) (\<lambda>e. e\<lparr>ps_count := ps_count e + ps_count item\<rparr>) entries")
  case None
  then show ?thesis by (simp add: merge_init_rate_def)
next
  case (Some ys)
  from update_first_sum [OF _ this, where g = "\<lambda>x. if ps_labels x = l then ps_count x else 0"
      and n = "if ps_labels item = l then ps_count item else 0"] Some
  show ?thesis by (simp add: merge_init_rate_def)
qed

lemma merge_inits_value:
  "sum_list (map (\<lambda>x. if ps_labels x = l then ps_count x else 0) (fold merge_init_rate items entries)) =
     sum_list (map (\<lambda>x. if ps_labels x = l then ps_count x else 0) entries)
     + sum_list (map (\<lambda>x. if ps_labels x = l then ps_count x else 0) items)"
  by (induction items arbitrary: entries) (simp_all add: merge_init_value add.assoc)

lemma sum_sort_key: "sum_list (map f (sort_key k xs)) = (sum_list (map f xs) :: 'b::comm_monoid_add)"
  by (metis mset_map mset_sort sum_mset_sum_list)

lemma merge_dedup_value:
  "opt_word ds_applies_total (merge_dedup_snapshot g a b) = opt_word ds_applies_total a + opt_word ds_applies_total b"
  "opt_word ds_applies_deduped (merge_dedup_snapshot g a b) = opt_word ds_applies_deduped a + opt_word ds_applies_deduped b"
  "opt_word ds_overflow (merge_dedup_snapshot g a b) = opt_word ds_overflow a + opt_word ds_overflow b"
  "opt_word ds_sweeps (merge_dedup_snapshot g a b) = opt_word ds_sweeps a + opt_word ds_sweeps b"
  by (cases a; cases b; simp add: merge_dedup_snapshot_def Let_def)+

lemma merge_value: "snapshot_value m (merge_snapshots acc other g) = snapshot_value m acc + snapshot_value m other"
proof (cases m)
  case (Bucket j)
  then show ?thesis by (simp add: merge_snapshots_def get_add_vectors)
next
  case (Metric c)
  then show ?thesis
    by (cases c) (simp_all add: merge_snapshots_def get_add_vectors merge_inits_value sum_sort_key merge_dedup_value)
qed

text \<open>The metrics page loses no count. Every counter of the rendered total (latency, every bucket, rates, label sets,
  deduplication, flushes, events) is the sum of that counter over the stored snapshots, the
  frozen one of earlier deployments included, while the gauges are never taken from the frozen one: with it
  or without it the memory reading is the same.\<close>

lemma total_metrics_sums:
  "snapshot_value m (total_metrics kv) =
     snapshot_value m (kv_read kv (pipeline_key FlagLogs)) + snapshot_value m (kv_read kv (pipeline_key EventsPipeline))
     + snapshot_value m (kv_read kv SNAPSHOT_KEY_LEGACY)
   \<and> sn_memory_bytes (total_metrics kv) = sn_memory_bytes (total_metrics (filter (\<lambda>(key, _). key \<noteq> SNAPSHOT_KEY_LEGACY) kv))"
proof -
  have part: "snapshot_value m (case map_of kv key of Some part \<Rightarrow> merge_snapshots total part g | None \<Rightarrow> total)
      = snapshot_value m total + snapshot_value m (kv_read kv key)" for key total g
    by (cases "map_of kv key") (simp_all add: merge_value kv_read_def)
  have "snapshot_value m (total_metrics kv) =
     snapshot_value m (kv_read kv (pipeline_key FlagLogs)) + snapshot_value m (kv_read kv (pipeline_key EventsPipeline))
     + snapshot_value m (kv_read kv SNAPSHOT_KEY_LEGACY)"
    by (simp add: total_metrics_def part)
  moreover have "map_of (filter (\<lambda>(key, _). key \<noteq> SNAPSHOT_KEY_LEGACY) kv) key = (if key = SNAPSHOT_KEY_LEGACY then None else map_of kv key)" for key
    by (induction kv) auto
  moreover have "sn_memory_bytes (case map_of kv' SNAPSHOT_KEY_LEGACY of Some part \<Rightarrow> merge_snapshots total part Frozen | None \<Rightarrow> total)
      = sn_memory_bytes total" for kv' :: metrics_kv and total
    by (simp add: merge_snapshots_def split: option.split)
  moreover have "pipeline_key p \<noteq> SNAPSHOT_KEY_LEGACY" for p
    by (cases p) (simp_all add: pipeline_key_def SNAPSHOT_KEY_LEGACY_def)
  ultimately show ?thesis by (simp add: total_metrics_def)
qed

section \<open>Redelivery\<close>

text \<open>
  The queue redelivers a batch until the consumer acknowledges it, here at most a given number of times; the result says
  whether it was acknowledged.
\<close>

fun redeliver ::
  "'w consumer \<Rightarrow> string list \<Rightarrow> nat \<Rightarrow> 'w \<times> log_request list \<Rightarrow> metrics_kv \<Rightarrow> bool \<times> ('w \<times> log_request list) \<times> metrics_kv" where
  "redeliver C messages 0 s kv = (False, s, kv)"
| "redeliver C messages (Suc n) s kv =
     (case consume C (Some messages) s kv of
        (Inr _, s, kv) \<Rightarrow> (True, s, kv)
      | (Inl _, s, kv) \<Rightarrow> redeliver C messages n s kv)"

text \<open>The counters a batch reports, apart from the flushes, which are counted by attempt.\<close>

definition flush_metric :: "metric \<Rightarrow> bool" where
  "flush_metric m \<longleftrightarrow> m = Metric FlushSucceeded \<or> m = Metric FlushFailed"

lemma count_flush_value: "\<not> flush_metric m \<Longrightarrow> snapshot_value m (count_flush r s) = snapshot_value m s"
proof (cases m)
  case (Metric c)
  assume "\<not> flush_metric m"
  with Metric show ?thesis by (cases c) (auto simp: flush_metric_def count_flush_def split: option.split bool.split)
qed (auto simp: count_flush_def split: option.split bool.split)

lemma read_update: "kv_read (update_kv_snapshot_merged p snap r kv) (pipeline_key p)
    = count_flush r (case snap of Some s \<Rightarrow> merge_snapshots (kv_read kv (pipeline_key p)) s Live | None \<Rightarrow> kv_read kv (pipeline_key p))"
  by (simp add: update_kv_snapshot_merged_def Let_def kv_read_def [of "hm_insert _ _ _"])

lemma batch_telemetry_value:
  "(case batch_telemetry logs of Some s \<Rightarrow> snapshot_value m s | None \<Rightarrow> 0) =
     of_nat (sum_list (map (delta_value m) (deltas_of logs)))"
proof (cases "list_ex (\<lambda>log. lr_telemetry_data log \<noteq> None) logs")
  case True
  then show ?thesis by (simp add: batch_telemetry_def accumulate_messages accumulates_value)
next
  case False
  then have "deltas_of logs = []" by (induction logs) (auto simp: deltas_of_def List.map_filter_simps)
  with False show ?thesis by (simp add: batch_telemetry_def)
qed

definition parsed :: "'w consumer \<Rightarrow> string list \<Rightarrow> log_request list" where
  "parsed C messages = List.map_filter (cn_parse C) messages"

lemma deltas_of_consumer_logs: "deltas_of (consumer_logs C messages w) = deltas_of (parsed C messages)"
proof -
  have m: "deltas_of logs = List.map_filter id (map lr_telemetry_data logs)" for logs
    by (simp add: deltas_of_def List.map_filter_def comp_def filter_map)
  show ?thesis
    using dedup_flag_applies_rest [of "nt_now (cn_net C) w div 1000" "parsed C messages" new_dedup]
    by (cases "dedup_flag_applies (nt_now (cn_net C) w div 1000) (parsed C messages) new_dedup")
      (simp add: m consumer_logs_def parsed_def Let_def dedup_batch_flag_applies_def)
qed

lemma consumer_logs_flags:
  assumes "length (landed_flags (parsed C messages)) \<le> DEDUP_MAX_ENTRIES"
  shows "landed_flags (consumer_logs C messages w) =
    (if dedup_enabled (cn_trim C) (cn_dedup_var C) then firsts {} (landed_flags (parsed C messages)) else landed_flags (parsed C messages))"
proof -
  obtain kept D where run: "dedup_flag_applies (nt_now (cn_net C) w div 1000) (parsed C messages) new_dedup = (kept, D)"
    by (cases "dedup_flag_applies (nt_now (cn_net C) w div 1000) (parsed C messages) new_dedup")
  have "room (length (landed_flags (parsed C messages))) new_dedup" "seen_hashes new_dedup = {}"
    using assms by (simp_all add: room_def new_dedup_def apply_dedup_new_def seen_hashes_def)
  with dedup_flag_applies_firsts [OF run] run show ?thesis
    by (simp add: consumer_logs_def parsed_def Let_def dedup_batch_flag_applies_def)
qed

text \<open>One run of the consumer: acknowledged exactly if everything landed, and only then counted.\<close>

lemma consume_run:
  assumes "consume C (Some messages) s kv = (r, s', kv')"
  shows "\<exists>pieces. snd s' = snd s @ pieces \<and> (r = Inr () \<longrightarrow> landed_flags pieces = landed_flags (consumer_logs C messages (fst s)))
    \<and> (cn_has_kv C \<longrightarrow> \<not> flush_metric m \<longrightarrow> snapshot_value m (kv_read kv' (pipeline_key FlagLogs)) =
        snapshot_value m (kv_read kv (pipeline_key FlagLogs))
        + (if r = Inr () then of_nat (sum_list (map (delta_value m) (deltas_of (parsed C messages)))) else 0))"
proof -
  let ?logs = "consumer_logs C messages (fst s)"
  obtain out s1 where d: "deliver_all_within_limit (cn_net C) ?logs (for_queue_consumer (nt_now (cn_net C) (fst s))) s = (out, s1)"
    by (cases "deliver_all_within_limit (cn_net C) ?logs (for_queue_consumer (nt_now (cn_net C) (fst s))) s")
  have res: "s' = s1" "r = (if ack_decision out = Complete then Inr () else Inl (nack_message out))"
    "kv' = (if cn_has_kv C then update_kv_snapshot_merged FlagLogs (if dl_lost out = 0 then batch_telemetry ?logs else None)
       (Some (dl_lost out = 0)) kv else kv)"
    using assms by (auto simp: consume_def d Let_def)
  have ack: "ack_decision out = Complete \<longleftrightarrow> dl_lost out = 0" by (simp add: ack_decision_def)
  obtain pieces chunks where p: "snd s1 = snd s @ pieces" "faithful (landed_flags ?logs) (rests (map aggregate_batch chunks)) out pieces"
    using deliver_all_landed [OF d] by auto
  have "snapshot_value m (kv_read kv' (pipeline_key FlagLogs)) = snapshot_value m (kv_read kv (pipeline_key FlagLogs))
      + (if r = Inr () then of_nat (sum_list (map (delta_value m) (deltas_of (parsed C messages)))) else 0)"
    if "cn_has_kv C" "\<not> flush_metric m"
    using that batch_telemetry_value [of m ?logs] unfolding deltas_of_consumer_logs
    by (auto simp: res ack read_update count_flush_value merge_value split: option.splits)
  with p show ?thesis by (intro exI [of _ pieces]) (auto simp: res ack faithful_def)
qed


section \<open>Instances\<close>

text \<open>A consumer whose platform accepts the second attempt of a batch: the first run finds a server that rejects.\<close>

definition flaky_net :: "(int \<times> nat) net" where
  "flaky_net = example_net\<lparr>nt_send := (\<lambda>secret url acct req budget w. (Inr (if snd w = 0 then 413 else 200), (fst w + 10, Suc (snd w)))),
     nt_destinations := [Edge]\<rparr>"

definition example_consumer :: "(int \<times> nat) consumer" where
  "example_consumer = \<lparr>cn_net = flaky_net, cn_parse = (\<lambda>m. if m = ''x'' then Some (example_log 2) else None), cn_trim = (\<lambda>s. s),
     cn_dedup_var = Some ''false'', cn_has_kv = True\<rparr>"

lemma example_consumer_logs: "consumer_logs example_consumer [''x'', ''y''] w = [example_log 2]"
  by (simp add: consumer_logs_def example_consumer_def dedup_enabled_def eq_ignore_ascii_case_def List.map_filter_simps)

lemma flaky_deliver:
  "deliver flaky_net req (for_queue_consumer t) ((t, 0), landed) = (False, (t + 10, 1), landed)"
  "deliver flaky_net req (for_queue_consumer t) ((t, Suc n), landed) = (True, (t + 10, Suc (Suc n)), landed @ [req])"
  by (simp_all add: deliver_def flaky_net_def example_net_def deliver_flag_logs_def DELIVERY_ATTEMPTS_def remaining_from_def for_queue_consumer_def
      QUEUE_BUDGET_MS_def MIN_ATTEMPT_MS_def attempt_budget_ms_def is_retryable_def upt_rec)

lemma flaky_deliver_all:
  "deliver_all_within_limit flaky_net [example_log 2] (for_queue_consumer t) s =
     (case deliver flaky_net (aggregate_batch [example_log 2]) (for_queue_consumer t) s of
        (ok, s) \<Rightarrow> (if ok then delivered_ok 1 else delivered_lost 1, s))"
proof -
  have size: "json_size flaky_net (aggregate_batch [example_log 2]) = 1000"
    by (simp add: json_size_def flaky_net_def example_net_def example_log_def)
  show ?thesis
    unfolding deliver_all_within_limit.simps [of flaky_net "[example_log 2]"]
      deliver_aggregate.simps [of flaky_net "aggregate_batch [example_log 2]"] size
    by (simp add: MAX_DELIVERY_BYTES_def split: prod.split)
qed


theorem dedup_batch_exact_witness:
  "length (landed_flags (dedup_batch_flag_applies 7 [example_log 2, example_log 1])) = 1"
proof -
  have flags: "landed_flags [example_log 2, example_log 1] = replicate 3 (hd (event_flags (example_event 1)))"
    by (simp add: landed_flags_def example_log_def event_flags_def example_event_def numeral_3_eq_3 numeral_2_eq_2)
  then have "landed_flags (dedup_batch_flag_applies 7 [example_log 2, example_log 1]) = firsts {} (replicate 3 (hd (event_flags (example_event 1))))"
    using dedup_batch_exact [of "[example_log 2, example_log 1]" 7] by (simp add: DEDUP_MAX_ENTRIES_def)
  then show ?thesis by (simp add: numeral_3_eq_3 Let_def)
qed

end
