(* ===== verification/Flag_Log_Buffer.thy ===== *)
theory Flag_Log_Buffer
  imports Flag_Log_Consumer
begin

text \<open>
  The buffer sink of the Cloudflare worker (\<open>flag_log/buffer.rs\<close>): the buffer, its triggers, the admission of
  deliveries, the waiter that serves the timers, and the isolate in which requests, waiters and deliveries
  interleave. An isolate runs one task at a time and switches only where a task awaits, so a step of the isolate is
  the code between two awaits. The encoded length of a log is the parameter \<open>enc\<close>; times are milliseconds.
\<close>

section \<open>The buffer\<close>

definition FLUSH_BYTES :: nat where [model_defs]: "FLUSH_BYTES = PROTO_CHUNK_BYTES"
definition MAX_BUFFER_BYTES :: nat where [model_defs]: "MAX_BUFFER_BYTES = 12 * 1024 * 1024"
definition MAX_BUFFER_RECORDS :: nat where [model_defs]: "MAX_BUFFER_RECORDS = 20000"
definition FLUSH_RECORDS :: nat where [model_defs]: "FLUSH_RECORDS = MAX_BUFFER_RECORDS div 16"
definition IDLE_MS :: int where [model_defs]: "IDLE_MS = 1000"
definition MAX_AGE_MS :: int where [model_defs]: "MAX_AGE_MS = 10000"
definition MAX_IN_FLIGHT :: nat where [model_defs]: "MAX_IN_FLIGHT = 4"
definition HARD_IN_FLIGHT :: nat where [model_defs]: "HARD_IN_FLIGHT = 8"
definition MIN_DRAIN_BUDGET_MS :: int where [model_defs]: "MIN_DRAIN_BUDGET_MS = 1000"
definition RETIRE_AT_REMAINING_MS :: int where [model_defs]: "RETIRE_AT_REMAINING_MS = 6000"

record entry =
  en_log :: log_request
  en_seq :: u64
  en_len :: nat
  en_at_ms :: int

record buffer =
  bf_logs :: "entry list"
  bf_bytes :: nat
  bf_next_seq :: u64
  bf_waiter_active :: bool

definition buffer_new :: buffer where
  [model_defs]: "buffer_new = \<lparr>bf_logs = [], bf_bytes = 0, bf_next_seq = 0, bf_waiter_active = False\<rparr>"

definition buffer_push :: "(log_request \<Rightarrow> nat) \<Rightarrow> log_request \<Rightarrow> int \<Rightarrow> buffer \<Rightarrow> buffer" where
  [model_defs]: "buffer_push enc log now_ms b =
     b\<lparr>bf_bytes := usize_add (bf_bytes b) (enc log), bf_next_seq := bf_next_seq b + 1,
       bf_logs := bf_logs b @ [\<lparr>en_log = log, en_seq = bf_next_seq b, en_len = enc log, en_at_ms = now_ms\<rparr>]\<rparr>"

definition first_ms :: "buffer \<Rightarrow> int option" where
  [model_defs]: "first_ms b = map_option en_at_ms (first_opt (bf_logs b))"

definition last_ms :: "buffer \<Rightarrow> int option" where
  [model_defs]: "last_ms b = map_option en_at_ms (first_opt (rev (bf_logs b)))"

definition size_due :: "buffer \<Rightarrow> bool" where
  [model_defs]: "size_due b \<longleftrightarrow> FLUSH_BYTES \<le> bf_bytes b \<or> FLUSH_RECORDS \<le> length (bf_logs b)"

definition at_ceiling :: "buffer \<Rightarrow> bool" where
  [model_defs]: "at_ceiling b \<longleftrightarrow> MAX_BUFFER_BYTES \<le> bf_bytes b \<or> MAX_BUFFER_RECORDS \<le> length (bf_logs b)"

definition time_due :: "int \<Rightarrow> buffer \<Rightarrow> bool" where
  [model_defs]: "time_due now_ms b =
     (case (first_ms b, last_ms b) of
        (Some oldest, Some newest) \<Rightarrow> IDLE_MS \<le> now_ms - newest \<or> MAX_AGE_MS \<le> now_ms - oldest
      | _ \<Rightarrow> False)"

text \<open>
  The counting loop of both chunk functions: \<open>take_chunk\<close> has no boundary. The result is the count of records and
  their bytes.
\<close>

fun chunk_loop :: "u64 option \<Rightarrow> nat \<Rightarrow> nat \<Rightarrow> entry list \<Rightarrow> nat \<times> nat" where
  "chunk_loop boundary n bytes [] = (n, bytes)"
| "chunk_loop boundary n bytes (e # entries) =
     (if (case boundary of Some b \<Rightarrow> b \<le> en_seq e | None \<Rightarrow> False) then (n, bytes)
      else if 0 < n \<and> (FLUSH_BYTES < usize_add bytes (en_len e) \<or> FLUSH_RECORDS \<le> n) then (n, bytes)
      else chunk_loop boundary (Suc n) (usize_add bytes (en_len e)) entries)"

definition take_up_to :: "u64 option \<Rightarrow> buffer \<Rightarrow> log_request list \<times> buffer" where
  [model_defs]: "take_up_to boundary b =
     (case chunk_loop boundary 0 0 (bf_logs b) of
        (n, bytes) \<Rightarrow> (map en_log (take n (bf_logs b)), b\<lparr>bf_logs := drop n (bf_logs b), bf_bytes := bf_bytes b - bytes\<rparr>))"

definition take_chunk :: "buffer \<Rightarrow> log_request list \<times> buffer" where
  [model_defs]: "take_chunk = take_up_to None"

definition take_chunk_before :: "u64 \<Rightarrow> buffer \<Rightarrow> log_request list \<times> buffer" where
  [model_defs]: "take_chunk_before boundary = take_up_to (Some boundary)"

datatype decision = Hold | Deliver | Shed

definition decide :: "bool \<Rightarrow> nat \<Rightarrow> decision" where
  [model_defs]: "decide ceiling in_flight =
     (if HARD_IN_FLIGHT \<le> in_flight \<and> ceiling then Shed
      else if MAX_IN_FLIGHT \<le> in_flight \<and> \<not> ceiling then Hold
      else Deliver)"

section \<open>The isolate\<close>

text \<open>
  The isolate is the buffer and the number of slots held. For the specification it also keeps the logs that were
  offered, the batches whose delivery has begun and not ended, those whose delivery has ended (or was
  cancelled, which drops the slot), and those that were shed.
\<close>

record isolate =
  il_buffer :: buffer
  il_in_flight :: nat
  il_offered :: "log_request list"
  il_flying :: "log_request list list"
  il_ended :: "log_request list list"
  il_shed :: "log_request list list"

definition isolate_new :: isolate where
  [model_defs]: "isolate_new = \<lparr>il_buffer = buffer_new, il_in_flight = 0, il_offered = [], il_flying = [], il_ended = [], il_shed = []\<rparr>"

text \<open>Taking a slot with a batch, releasing it, and discarding a batch.\<close>

definition launch :: "log_request list \<times> buffer \<Rightarrow> isolate \<Rightarrow> isolate" where
  [model_defs]: "launch taken S = S\<lparr>il_buffer := snd taken, il_in_flight := il_in_flight S + 1, il_flying := il_flying S @ [fst taken]\<rparr>"

definition discard :: "log_request list \<times> buffer \<Rightarrow> isolate \<Rightarrow> isolate" where
  [model_defs]: "discard taken S = S\<lparr>il_buffer := snd taken, il_shed := il_shed S @ [fst taken]\<rparr>"

definition release :: "nat \<Rightarrow> isolate \<Rightarrow> isolate" where
  [model_defs]: "release i S = S\<lparr>il_in_flight := il_in_flight S - 1, il_ended := il_ended S @ [il_flying S ! i],
     il_flying := take i (il_flying S) @ drop (Suc i) (il_flying S)\<rparr>"

definition offer_at :: "(log_request \<Rightarrow> nat) \<Rightarrow> log_request \<Rightarrow> int \<Rightarrow> isolate \<Rightarrow> isolate" where
  [model_defs]: "offer_at enc log now_ms S =
     (let S = S\<lparr>il_buffer := buffer_push enc log now_ms (il_buffer S), il_offered := il_offered S @ [log]\<rparr>;
          b = il_buffer S in
      if \<not> size_due b then S
      else
        (case decide (at_ceiling b) (il_in_flight S) of
           Hold \<Rightarrow> S
         | Shed \<Rightarrow> discard (take_chunk b) S
         | Deliver \<Rightarrow> launch (take_chunk b) S))"

definition waiter_claim :: "isolate \<Rightarrow> isolate option" where
  [model_defs]: "waiter_claim S =
     (if bf_logs (il_buffer S) = [] \<or> bf_waiter_active (il_buffer S) then None
      else Some (S\<lparr>il_buffer := (il_buffer S)\<lparr>bf_waiter_active := True\<rparr>\<rparr>))"

definition waiter_drop :: "isolate \<Rightarrow> isolate" where
  [model_defs]: "waiter_drop S = S\<lparr>il_buffer := (il_buffer S)\<lparr>bf_waiter_active := False\<rparr>\<rparr>"

text \<open>The loop that sheds down to the flush size.\<close>

lemma chunk_loop_count: "n \<le> fst (chunk_loop boundary n bytes entries) \<and> fst (chunk_loop boundary n bytes entries) \<le> n + length entries"
proof (induction entries arbitrary: n bytes)
  case (Cons e entries)
  from Cons.IH [of "Suc n" "usize_add bytes (en_len e)"] show ?case by auto
qed simp

lemma take_chunk_shrinks:
  assumes "bf_logs b \<noteq> []"
  shows "length (bf_logs (snd (take_chunk b))) < length (bf_logs b)"
proof -
  obtain e es where "bf_logs b = e # es" using assms by (cases "bf_logs b") auto
  then have "1 \<le> fst (chunk_loop None 0 0 (bf_logs b))"
    using chunk_loop_count [of "Suc 0" None "usize_add 0 (en_len e)" es] by simp
  then show ?thesis using assms by (simp add: take_chunk_def take_up_to_def split_beta)
qed

function shed_down :: "isolate \<Rightarrow> isolate" where
  "shed_down S =
     (if bf_logs (il_buffer S) = [] \<or> \<not> size_due (il_buffer S) then S
      else shed_down (discard (take_chunk (il_buffer S)) S))"
  by auto
termination
  by (relation "measure (\<lambda>S. length (bf_logs (il_buffer S)))") (auto simp: discard_def take_chunk_shrinks)

declare shed_down.simps [simp del]

datatype waiter_step = Finished | Retired | Waiting | Shedding | Delivering

text \<open>One pass of the waiter's loop after its delay. A retiring waiter drops its role before it drains.\<close>

definition tick_step :: "int \<Rightarrow> int \<Rightarrow> isolate \<Rightarrow> waiter_step \<times> isolate" where
  [model_defs]: "tick_step remaining_ms now_ms S =
     (let b = il_buffer S in
      if remaining_ms < RETIRE_AT_REMAINING_MS then (if bf_logs b = [] then Finished else Retired, waiter_drop S)
      else if bf_logs b = [] then (Finished, waiter_drop S)
      else if \<not> time_due now_ms b then (Waiting, S)
      else
        (case decide (at_ceiling b) (il_in_flight S) of
           Hold \<Rightarrow> (Waiting, S)
         | Shed \<Rightarrow> (Shedding, shed_down (discard (take_chunk b) S))
         | Deliver \<Rightarrow> (Delivering, launch (take_chunk b) S)))"

text \<open>One pass of \<open>drain_before_standing_down\<close>; \<open>None\<close> ends the drain. An empty chunk gives its slot back.\<close>

definition drain_step :: "int \<Rightarrow> u64 \<Rightarrow> isolate \<Rightarrow> isolate option" where
  [model_defs]: "drain_step remaining_ms boundary S =
     (let b = il_buffer S in
      if remaining_ms < MIN_DRAIN_BUDGET_MS then None
      else if bf_logs b = [] then None
      else if MAX_IN_FLIGHT \<le> il_in_flight S \<and> \<not> at_ceiling b then None
      else if HARD_IN_FLIGHT \<le> il_in_flight S then None
      else
        (let taken = take_chunk_before boundary b in
         if fst taken = [] then None else Some (launch taken S)))"

text \<open>
  Any interleaving of requests, waiters, drains and the ends of deliveries. A cancelled waiter drops its role, a cancelled
  delivery its slot.
\<close>

inductive isolate_step :: "(log_request \<Rightarrow> nat) \<Rightarrow> isolate \<Rightarrow> isolate \<Rightarrow> bool" for enc where
  StepOffer: "isolate_step enc S (offer_at enc log now_ms S)"
| StepEnd: "i < length (il_flying S) \<Longrightarrow> isolate_step enc S (release i S)"
| StepClaim: "waiter_claim S = Some S' \<Longrightarrow> isolate_step enc S S'"
| StepTick: "bf_waiter_active (il_buffer S) \<Longrightarrow> tick_step remaining_ms now_ms S = (r, S') \<Longrightarrow> isolate_step enc S S'"
| StepCancel: "isolate_step enc S (waiter_drop S)"
| StepDrain: "drain_step remaining_ms boundary S = Some S' \<Longrightarrow> isolate_step enc S S'"

inductive isolate_reachable :: "(log_request \<Rightarrow> nat) \<Rightarrow> isolate \<Rightarrow> bool" for enc where
  IsolateStart: "isolate_reachable enc isolate_new"
| IsolateStep: "isolate_reachable enc S \<Longrightarrow> isolate_step enc S S' \<Longrightarrow> isolate_reachable enc S'"

inductive_cases isolate_stepE: "isolate_step enc S S'"

section \<open>Chunks\<close>

lemma chunk_loop_later:
  assumes "0 < n" "n \<le> FLUSH_RECORDS"
  shows "fst (chunk_loop boundary n bytes entries) \<le> FLUSH_RECORDS
    \<and> (fst (chunk_loop boundary n bytes entries) = n
       \<or> bytes + sum_list (map en_len (take (fst (chunk_loop boundary n bytes entries) - n) entries)) \<le> FLUSH_BYTES)"
  using assms
proof (induction entries arbitrary: n bytes)
  case (Cons e entries)
  show ?case
  proof (cases "chunk_loop boundary n bytes (e # entries) = (n, bytes)")
    case False
    then have run: "chunk_loop boundary n bytes (e # entries) = chunk_loop boundary (Suc n) (usize_add bytes (en_len e)) entries"
      and fits: "usize_add bytes (en_len e) \<le> FLUSH_BYTES" "n < FLUSH_RECORDS" using Cons.prems by (auto split: if_splits)
    have exact: "usize_add bytes (en_len e) = bytes + en_len e" "bytes + en_len e \<le> FLUSH_BYTES"
      using fits(1) by (auto simp: usize_add_def USIZE_MAX_def FLUSH_BYTES_def PROTO_CHUNK_BYTES_def min_def split: if_splits)
    let ?m = "fst (chunk_loop boundary (Suc n) (usize_add bytes (en_len e)) entries)"
    have "Suc n \<le> ?m" using chunk_loop_count by blast
    then have "?m - n = Suc (?m - Suc n)" by arith
    then have "take (?m - n) (e # entries) = e # take (?m - Suc n) entries" by simp
    with Cons.IH [of "Suc n" "usize_add bytes (en_len e)"] fits(2) exact show ?thesis by (auto simp: run)
  qed (use Cons.prems in simp)
qed simp

lemma chunk_loop_bounds:
  assumes n_def: "n = fst (chunk_loop boundary 0 0 entries)"
  shows "n \<le> length entries \<and> n \<le> FLUSH_RECORDS \<and> (n \<le> 1 \<or> sum_list (map en_len (take n entries)) \<le> FLUSH_BYTES)"
proof (cases entries)
  case (Cons e es)
  show ?thesis
  proof (cases "n = 0")
    case False
    then have n: "n = fst (chunk_loop boundary (Suc 0) (usize_add 0 (en_len e)) es)" by (auto simp: n_def Cons split: if_splits)
    have later: "n \<le> FLUSH_RECORDS \<and> (n = Suc 0 \<or> usize_add 0 (en_len e) + sum_list (map en_len (take (n - Suc 0) es)) \<le> FLUSH_BYTES)"
      unfolding n by (rule chunk_loop_later) (simp_all add: FLUSH_RECORDS_def MAX_BUFFER_RECORDS_def)
    have count: "Suc 0 \<le> n \<and> n \<le> Suc 0 + length es" unfolding n by (rule chunk_loop_count)
    have "en_len e + sum_list (map en_len (take (n - Suc 0) es)) \<le> FLUSH_BYTES" if "n \<noteq> Suc 0"
      using later that by (auto simp: usize_add_def USIZE_MAX_def FLUSH_BYTES_def PROTO_CHUNK_BYTES_def min_def split: if_splits)
    then show ?thesis using later count by (cases n) (auto simp: Cons)
  qed simp
qed (simp add: n_def)

definition small_batch :: "(log_request \<Rightarrow> nat) \<Rightarrow> log_request list \<Rightarrow> bool" where
  "small_batch enc batch \<longleftrightarrow>
     0 < length batch \<and> length batch \<le> FLUSH_RECORDS \<and> (length batch = 1 \<or> sum_list (map enc batch) \<le> FLUSH_BYTES)"

definition measured :: "(log_request \<Rightarrow> nat) \<Rightarrow> entry list \<Rightarrow> bool" where
  "measured enc entries \<longleftrightarrow> (\<forall>e\<in>set entries. en_len e = enc (en_log e))"

text \<open>What a chunk takes and leaves.\<close>

lemma take_up_to_spec:
  assumes "take_up_to boundary b = (batch, b')"
  obtains n where "n \<le> length (bf_logs b)" "batch = map en_log (take n (bf_logs b))" "bf_logs b' = drop n (bf_logs b)"
    "bf_waiter_active b' = bf_waiter_active b" "bf_next_seq b' = bf_next_seq b"
    "measured enc (bf_logs b) \<and> batch \<noteq> [] \<longrightarrow> small_batch enc batch"
proof (rule that [of "fst (chunk_loop boundary 0 0 (bf_logs b))"])
  let ?n = "fst (chunk_loop boundary 0 0 (bf_logs b))"
  have b: "?n \<le> length (bf_logs b)" "?n \<le> FLUSH_RECORDS" "?n \<le> 1 \<or> sum_list (map en_len (take ?n (bf_logs b))) \<le> FLUSH_BYTES"
    using chunk_loop_bounds [OF refl] by blast+
  show "?n \<le> length (bf_logs b)" by (rule b)
  show batch: "batch = map en_log (take ?n (bf_logs b))" and "bf_logs b' = drop ?n (bf_logs b)"
    "bf_waiter_active b' = bf_waiter_active b" "bf_next_seq b' = bf_next_seq b"
    using assms by (auto simp: take_up_to_def split_beta)
  show "measured enc (bf_logs b) \<and> batch \<noteq> [] \<longrightarrow> small_batch enc batch"
  proof (intro impI, elim conjE)
    assume m: "measured enc (bf_logs b)" and ne: "batch \<noteq> []"
    have "map enc batch = map en_len (take ?n (bf_logs b))"
      using m by (auto simp: batch measured_def dest: in_set_takeD)
    moreover have "length batch = ?n" using b(1) by (simp add: batch)
    ultimately show "small_batch enc batch" using b(2,3) ne by (cases batch) (auto simp: small_batch_def)
  qed
qed

lemma take_chunk_spec:
  assumes "take_chunk b = (batch, b')" "bf_logs b \<noteq> []"
  obtains n where "0 < n" "n \<le> length (bf_logs b)" "batch = map en_log (take n (bf_logs b))" "bf_logs b' = drop n (bf_logs b)"
    "bf_waiter_active b' = bf_waiter_active b" "measured enc (bf_logs b) \<longrightarrow> small_batch enc batch"
proof -
  obtain n where n: "n \<le> length (bf_logs b)" "batch = map en_log (take n (bf_logs b))" "bf_logs b' = drop n (bf_logs b)"
    "bf_waiter_active b' = bf_waiter_active b" "measured enc (bf_logs b) \<and> batch \<noteq> [] \<longrightarrow> small_batch enc batch"
    using assms(1) unfolding take_chunk_def by (rule take_up_to_spec)
  have "0 < n" using take_chunk_shrinks [OF assms(2)] assms(1) n(3) by (cases n) simp_all
  with n assms(2) show ?thesis by (intro that [of n]) auto
qed

section \<open>The invariant of the isolate\<close>

text \<open>Every log that was offered is in exactly one place.\<close>

definition isolate_logs :: "isolate \<Rightarrow> log_request multiset" where
  "isolate_logs S = mset (map en_log (bf_logs (il_buffer S)))
     + mset (concat (il_flying S)) + mset (concat (il_ended S)) + mset (concat (il_shed S))"

definition isolate_ok :: "(log_request \<Rightarrow> nat) \<Rightarrow> isolate \<Rightarrow> bool" where
  "isolate_ok enc S \<longleftrightarrow> il_in_flight S = length (il_flying S) \<and> il_in_flight S \<le> HARD_IN_FLIGHT
     \<and> measured enc (bf_logs (il_buffer S))
     \<and> (\<forall>batch\<in>set (il_flying S) \<union> set (il_ended S) \<union> set (il_shed S). small_batch enc batch)
     \<and> isolate_logs S = mset (il_offered S)"

named_theorems isolate_defs
lemmas [isolate_defs] = isolate_ok_def isolate_logs_def launch_def discard_def release_def waiter_drop_def

lemma mset_take_drop: "mset (take n xs) + mset (drop n xs) = mset xs"
  by (simp flip: mset_append)

lemma ok_launch:
  assumes "isolate_ok enc S" "il_in_flight S < HARD_IN_FLIGHT" "take_up_to boundary (il_buffer S) = taken" "fst taken \<noteq> []"
  shows "isolate_ok enc (launch taken S)"
proof -
  obtain batch b' where t: "taken = (batch, b')" by (cases taken)
  obtain n where n: "n \<le> length (bf_logs (il_buffer S))" "batch = map en_log (take n (bf_logs (il_buffer S)))"
    "bf_logs b' = drop n (bf_logs (il_buffer S))" "measured enc (bf_logs (il_buffer S)) \<and> batch \<noteq> [] \<longrightarrow> small_batch enc batch"
    using assms(3) unfolding t by (rule take_up_to_spec)
  have "mset (map en_log (bf_logs (il_buffer S))) = mset batch + mset (map en_log (bf_logs b'))"
    unfolding n(2,3) by (simp add: mset_take_drop flip: take_map drop_map)
  moreover have "measured enc (bf_logs b')" using assms(1) by (auto simp: isolate_defs measured_def n(3) dest: in_set_dropD)
  ultimately show ?thesis using assms(1,2,4) n(4) by (auto simp: isolate_defs t n(3) ac_simps)
qed

lemma ok_discard:
  assumes "isolate_ok enc S" "bf_logs (il_buffer S) \<noteq> []"
  shows "isolate_ok enc (discard (take_chunk (il_buffer S)) S)"
proof -
  obtain batch b' where t: "take_chunk (il_buffer S) = (batch, b')" by (cases "take_chunk (il_buffer S)")
  obtain n where n: "0 < n" "n \<le> length (bf_logs (il_buffer S))" "batch = map en_log (take n (bf_logs (il_buffer S)))"
    "bf_logs b' = drop n (bf_logs (il_buffer S))" "measured enc (bf_logs (il_buffer S)) \<longrightarrow> small_batch enc batch"
    using t assms(2) by (rule take_chunk_spec)
  have "mset (map en_log (bf_logs (il_buffer S))) = mset batch + mset (map en_log (bf_logs b'))"
    unfolding n(3,4) by (simp add: mset_take_drop flip: take_map drop_map)
  moreover have "measured enc (bf_logs b')" using assms(1) by (auto simp: isolate_defs measured_def n(4) dest: in_set_dropD)
  ultimately show ?thesis using assms(1) n(5) by (auto simp: isolate_defs t n(4) ac_simps)
qed

lemma ok_shed_down: "isolate_ok enc S \<Longrightarrow> isolate_ok enc (shed_down S)"
proof (induction S rule: shed_down.induct)
  case (1 S)
  then show ?case using ok_discard by (subst shed_down.simps) auto
qed

lemma ok_release:
  assumes "isolate_ok enc S" "i < length (il_flying S)"
  shows "isolate_ok enc (release i S)"
proof -
  let ?rest = "take i (il_flying S) @ drop (Suc i) (il_flying S)"
  have split: "il_flying S = take i (il_flying S) @ il_flying S ! i # drop (Suc i) (il_flying S)" by (rule id_take_nth_drop [OF assms(2)])
  obtain rest batch where r: "rest = ?rest" "batch = il_flying S ! i" by blast
  have "mset (concat (il_flying S)) = mset batch + mset (concat rest)" unfolding r by (subst split) simp
  moreover have "set (il_flying S) = insert batch (set rest)" unfolding r by (subst split) simp
  moreover have "length (il_flying S) = Suc (length rest)" unfolding r using assms(2) by simp
  ultimately show ?thesis using assms(1) unfolding isolate_defs r [symmetric] by (auto simp: ac_simps)
qed

lemma take_chunk_nonempty: "bf_logs b \<noteq> [] \<Longrightarrow> fst (take_chunk b) \<noteq> []"
  by (rule take_chunk_spec [of b "fst (take_chunk b)" "snd (take_chunk b)"]) auto

lemma ok_launch_chunk:
  assumes "isolate_ok enc S" "bf_logs (il_buffer S) \<noteq> []" "decide (at_ceiling (il_buffer S)) (il_in_flight S) = Deliver"
  shows "isolate_ok enc (launch (take_chunk (il_buffer S)) S)"
proof (rule ok_launch [OF assms(1)])
  show "il_in_flight S < HARD_IN_FLIGHT"
    using assms(3) by (auto simp: decide_def MAX_IN_FLIGHT_def HARD_IN_FLIGHT_def split: if_splits)
  show "take_up_to None (il_buffer S) = take_chunk (il_buffer S)" by (simp add: take_chunk_def)
qed (rule take_chunk_nonempty [OF assms(2)])

lemma ok_offer:
  assumes "isolate_ok enc S"
  shows "isolate_ok enc (offer_at enc log now_ms S)"
proof -
  define T where "T = S\<lparr>il_buffer := buffer_push enc log now_ms (il_buffer S), il_offered := il_offered S @ [log]\<rparr>"
  have "isolate_ok enc T" "bf_logs (il_buffer T) \<noteq> []" using assms by (auto simp: T_def isolate_defs buffer_push_def measured_def)
  then show ?thesis unfolding offer_at_def Let_def T_def [symmetric]
    by (simp add: ok_launch_chunk ok_discard split: decision.split)
qed

lemma drain_cases:
  assumes "drain_step remaining_ms boundary S = Some S'"
  shows "il_in_flight S < HARD_IN_FLIGHT" "fst (take_up_to (Some boundary) (il_buffer S)) \<noteq> []"
    "S' = launch (take_up_to (Some boundary) (il_buffer S)) S"
proof -
  define taken where "taken = take_up_to (Some boundary) (il_buffer S)"
  have "il_in_flight S < HARD_IN_FLIGHT \<and> fst taken \<noteq> [] \<and> S' = launch taken S"
    using assms unfolding drain_step_def Let_def take_chunk_before_def taken_def [symmetric] by (simp split: if_splits)
  then show "il_in_flight S < HARD_IN_FLIGHT" "fst (take_up_to (Some boundary) (il_buffer S)) \<noteq> []"
    "S' = launch (take_up_to (Some boundary) (il_buffer S)) S" by (simp_all add: taken_def)
qed

lemma ok_drain: "isolate_ok enc S \<Longrightarrow> drain_step remaining_ms boundary S = Some S' \<Longrightarrow> isolate_ok enc S'"
proof -
  assume ok: "isolate_ok enc S" and run: "drain_step remaining_ms boundary S = Some S'"
  show "isolate_ok enc S'" unfolding drain_cases(3) [OF run] by (rule ok_launch [OF ok drain_cases(1) [OF run] refl drain_cases(2) [OF run]])
qed

lemma ok_tick: "isolate_ok enc S \<Longrightarrow> isolate_ok enc (snd (tick_step remaining_ms now_ms S))"
proof -
  assume ok: "isolate_ok enc S"
  have "isolate_ok enc (waiter_drop S)" using ok by (simp add: isolate_defs)
  then show ?thesis
    using ok by (simp add: tick_step_def Let_def ok_shed_down ok_discard ok_launch_chunk split: decision.split)
qed

text \<open>The number of records: every path but the offer leaves at most as many, and the offer makes room at the ceiling.\<close>

lemma records_launch:
  "length (bf_logs (il_buffer (launch (take_up_to boundary b) S))) \<le> length (bf_logs b)"
  by (simp add: launch_def take_up_to_def split_beta)

lemma records_shed_down: "length (bf_logs (il_buffer (shed_down S))) \<le> length (bf_logs (il_buffer S))"
proof (induction S rule: shed_down.induct)
  case (1 S)
  then show ?case using take_chunk_shrinks [of "il_buffer S"]
    by (subst shed_down.simps) (auto simp: discard_def intro: le_trans less_imp_le)
qed

lemma records_tick: "length (bf_logs (il_buffer (snd (tick_step remaining_ms now_ms S)))) \<le> length (bf_logs (il_buffer S))"
proof -
  have "length (bf_logs (il_buffer (shed_down (discard (take_chunk (il_buffer S)) S)))) \<le> length (bf_logs (il_buffer S))"
    using records_shed_down [of "discard (take_chunk (il_buffer S)) S"] 
    by (simp add: discard_def take_chunk_def take_up_to_def split_beta)
  then show ?thesis using records_launch [of None "il_buffer S" S]
    by (simp add: tick_step_def Let_def waiter_drop_def take_chunk_def split: decision.split)
qed

lemma records_offer:
  assumes "length (bf_logs (il_buffer S)) < MAX_BUFFER_RECORDS"
  shows "length (bf_logs (il_buffer (offer_at enc log now_ms S))) < MAX_BUFFER_RECORDS"
proof -
  let ?b = "buffer_push enc log now_ms (il_buffer S)"
  have len: "length (bf_logs ?b) = Suc (length (bf_logs (il_buffer S)))" by (simp add: buffer_push_def)
  then have "length (bf_logs (snd (take_chunk ?b))) < length (bf_logs ?b)" by (intro take_chunk_shrinks) auto
  then show ?thesis using assms len
    by (auto simp: offer_at_def Let_def discard_def launch_def size_due_def decide_def at_ceiling_def FLUSH_RECORDS_def split: decision.split)
qed

lemma records_step:
  assumes "isolate_step enc S S'" "length (bf_logs (il_buffer S)) < MAX_BUFFER_RECORDS"
  shows "length (bf_logs (il_buffer S')) < MAX_BUFFER_RECORDS"
  using assms
proof cases
  case (StepTick remaining_ms now_ms r)
  then show ?thesis using records_tick [of remaining_ms now_ms S] assms(2) by simp
next
  case (StepDrain remaining_ms boundary)
  then show ?thesis using records_launch [of "Some boundary" "il_buffer S" S] assms(2) drain_cases(3) by fastforce
qed (auto simp: waiter_claim_def waiter_drop_def release_def records_offer split: if_splits)

lemma ok_step: "isolate_step enc S S' \<Longrightarrow> isolate_ok enc S \<Longrightarrow> isolate_ok enc S'"
proof (induction rule: isolate_step.induct)
  case (StepTick S remaining_ms now_ms r S')
  then show ?case using ok_tick [of enc S remaining_ms now_ms] by simp
qed (auto simp: ok_offer ok_release ok_drain, auto simp: isolate_defs waiter_claim_def split: if_splits)

lemma reachable_ok:
  "isolate_reachable enc S \<Longrightarrow> isolate_ok enc S \<and> length (bf_logs (il_buffer S)) < MAX_BUFFER_RECORDS"
proof (induction rule: isolate_reachable.induct)
  case IsolateStart
  show ?case by (simp add: isolate_defs isolate_new_def buffer_new_def measured_def MAX_BUFFER_RECORDS_def)
qed (use ok_step records_step in blast)

section \<open>Properties of the isolate\<close>

text \<open>C27: However requests, waiters, drains and deliveries interleave, the memory of the isolate is bounded and no log gets
  lost on the way. The slots held are the deliveries in flight, never more than 8; the buffer holds fewer than
  20,000 records; a delivery holds at most 1,250 records, of at most 768 KiB unless it is a single one; and each log
  offered is in exactly one place: buffered, in flight, ended, or shed.\<close>

theorem isolate_bounded_and_lossless:
  assumes "isolate_reachable enc S"
  shows "il_in_flight S = length (il_flying S) \<and> length (il_flying S) \<le> 8 \<and> length (bf_logs (il_buffer S)) < 20000
    \<and> (\<forall>batch\<in>set (il_flying S). 0 < length batch \<and> length batch \<le> 1250 \<and> (length batch = 1 \<or> sum_list (map enc batch) \<le> 768 * 1024))
    \<and> mset (il_offered S) = mset (map en_log (bf_logs (il_buffer S)))
         + mset (concat (il_flying S)) + mset (concat (il_ended S)) + mset (concat (il_shed S))"
  using reachable_ok [OF assms]
  by (auto simp: isolate_ok_def isolate_logs_def HARD_IN_FLIGHT_def MAX_BUFFER_RECORDS_def small_batch_def FLUSH_RECORDS_def
      FLUSH_BYTES_def PROTO_CHUNK_BYTES_def)

text \<open>Shedding takes the oldest records of the buffer.\<close>

lemma shed_down_oldest:
  "\<exists>more. il_shed (shed_down S) = il_shed S @ more \<and> il_flying (shed_down S) = il_flying S \<and> il_in_flight (shed_down S) = il_in_flight S
     \<and> concat more @ map en_log (bf_logs (il_buffer (shed_down S))) = map en_log (bf_logs (il_buffer S))"
proof (induction S rule: shed_down.induct)
  case (1 S)
  show ?case
  proof (cases "bf_logs (il_buffer S) = [] \<or> \<not> size_due (il_buffer S)")
    case True
    then show ?thesis by (subst (1 2 3 4) shed_down.simps) simp
  next
    case False
    let ?T = "discard (take_chunk (il_buffer S)) S"
    obtain more where "il_shed (shed_down ?T) = il_shed ?T @ more" "il_flying (shed_down ?T) = il_flying ?T"
      "il_in_flight (shed_down ?T) = il_in_flight ?T"
      "concat more @ map en_log (bf_logs (il_buffer (shed_down ?T))) = map en_log (bf_logs (il_buffer ?T))"
      using "1.IH" [OF False] by blast
    moreover have "fst (take_chunk (il_buffer S)) @ map en_log (bf_logs (il_buffer ?T)) = map en_log (bf_logs (il_buffer S))"
      by (simp add: discard_def take_chunk_def take_up_to_def split_beta append_take_drop_id flip: map_append)
    moreover have "shed_down S = shed_down ?T" using False by (subst shed_down.simps) simp
    ultimately show ?thesis by (intro exI [of _ "fst (take_chunk (il_buffer S)) # more"]) (simp add: discard_def)
  qed
qed

lemma discard_oldest:
  "il_shed (discard (take_chunk b) S) = il_shed S @ [fst (take_chunk b)]"
  "fst (take_chunk b) @ map en_log (bf_logs (il_buffer (discard (take_chunk b) S))) = map en_log (bf_logs b)"
  by (simp_all add: discard_def take_chunk_def take_up_to_def split_beta append_take_drop_id flip: map_append)

text \<open>C28: Records are shed only when they must be. A step of the isolate discards something only when all 8 delivery slots
  are taken and the buffer is at its ceiling of 12 MiB or 20,000 records; what it discards is then the oldest part of
  the buffer, and the rest stays in order.\<close>

theorem sheds_only_when_stuck:
  assumes "isolate_reachable enc S" "isolate_step enc S S'" "il_shed S' \<noteq> il_shed S"
  shows "length (il_flying S) = 8 \<and> il_flying S' = il_flying S
    \<and> (\<exists>full more. at_ceiling full \<and> (full = il_buffer S \<or> (\<exists>log now_ms. full = buffer_push enc log now_ms (il_buffer S)))
         \<and> il_shed S' = il_shed S @ more \<and> concat more @ map en_log (bf_logs (il_buffer S')) = map en_log (bf_logs full))"
proof -
  have slots: "il_in_flight S = length (il_flying S)" "length (il_flying S) \<le> HARD_IN_FLIGHT"
    using reachable_ok [OF assms(1)] by (auto simp: isolate_ok_def)
  have shed: "at_ceiling b \<and> length (il_flying S) = 8" if "decide (at_ceiling b) (il_in_flight S) = Shed" for b
    using that slots by (auto simp: decide_def HARD_IN_FLIGHT_def split: if_splits)
  show ?thesis using assms(2)
  proof cases
    case (StepOffer log now_ms)
    let ?b = "buffer_push enc log now_ms (il_buffer S)"
    have "decide (at_ceiling ?b) (il_in_flight S) = Shed"
      "S' = discard (take_chunk ?b) (S\<lparr>il_buffer := ?b, il_offered := il_offered S @ [log]\<rparr>)"
      using StepOffer assms(3) by (auto simp: offer_at_def Let_def launch_def split: decision.splits if_splits)
    with shed [of ?b] show ?thesis using discard_oldest [of ?b "S\<lparr>il_buffer := ?b, il_offered := il_offered S @ [log]\<rparr>"]
      by (intro conjI exI [of _ ?b] exI [of _ "[fst (take_chunk ?b)]"]) (auto simp: discard_def)
  next
    case (StepTick remaining_ms now_ms r)
    let ?T = "discard (take_chunk (il_buffer S)) S"
    have s: "decide (at_ceiling (il_buffer S)) (il_in_flight S) = Shed" "S' = shed_down ?T"
      using StepTick assms(3) by (auto simp: tick_step_def Let_def launch_def waiter_drop_def split: decision.splits if_splits)
    obtain more where m: "il_shed S' = il_shed ?T @ more" "il_flying S' = il_flying ?T"
      "concat more @ map en_log (bf_logs (il_buffer S')) = map en_log (bf_logs (il_buffer ?T))"
      using shed_down_oldest [of ?T] unfolding s(2) by blast
    with shed [OF s(1)] discard_oldest [of "il_buffer S" S] show ?thesis
      by (intro conjI exI [of _ "il_buffer S"] exI [of _ "fst (take_chunk (il_buffer S)) # more"]) (auto simp: discard_def)
  next
    case (StepDrain remaining_ms boundary)
    then have "il_shed S' = il_shed S" by (simp add: drain_cases(3) [OF StepDrain] launch_def)
    with assms(3) show ?thesis by simp
  qed (use assms(3) in \<open>auto simp: release_def waiter_claim_def waiter_drop_def split: if_splits\<close>)
qed

section \<open>A waiter on its own\<close>

text \<open>
  The waiter when traffic has stopped: it awaits each delivery it starts before its next pass. The list gives
  the remaining budget and the time at each pass; a retired waiter spends the rest of them on the drain. The result says whether it
  stood down with an empty buffer.
\<close>

fun drain_loop :: "(int \<times> int) list \<Rightarrow> u64 \<Rightarrow> isolate \<Rightarrow> isolate" where
  "drain_loop [] boundary S = S"
| "drain_loop ((remaining_ms, _) # passes) boundary S =
     (case drain_step remaining_ms boundary S of
        None \<Rightarrow> S
      | Some S \<Rightarrow> drain_loop passes boundary (release (length (il_flying S) - 1) S))"

fun tick_loop :: "(int \<times> int) list \<Rightarrow> isolate \<Rightarrow> bool \<times> isolate" where
  "tick_loop [] S = (False, S)"
| "tick_loop ((remaining_ms, now_ms) # passes) S =
     (case tick_step remaining_ms now_ms S of
        (Finished, S) \<Rightarrow> (True, S)
      | (Retired, S) \<Rightarrow> (False, drain_loop passes (bf_next_seq (il_buffer S)) S)
      | (Delivering, S) \<Rightarrow> tick_loop passes (release (length (il_flying S) - 1) S)
      | (_, S) \<Rightarrow> tick_loop passes S)"

lemma release_launch:
  "release (length (il_flying (launch taken S)) - 1) (launch taken S) = S\<lparr>il_buffer := snd taken, il_ended := il_ended S @ [fst taken]\<rparr>"
  by (simp add: release_def launch_def)

lemma time_due_idle:
  assumes "bf_logs b \<noteq> []" "\<forall>e\<in>set (bf_logs b). en_at_ms e + 1000 \<le> now_ms"
  shows "time_due now_ms b"
proof -
  have "first_opt (rev (bf_logs b)) = Some (last (bf_logs b))" "first_opt (bf_logs b) = Some (hd (bf_logs b))"
    using assms(1) by (simp_all add: first_opt_def hd_rev split: list.split)
  moreover have "last (bf_logs b) \<in> set (bf_logs b)" using assms(1) by simp
  ultimately show ?thesis using assms(2) by (auto simp: time_due_def first_ms_def last_ms_def IDLE_MS_def)
qed

text \<open>C29: When traffic stops, nothing stays behind. A waiter that is alone with a buffer that has been idle for a second, fewer
  than 4 other deliveries being stuck, delivers every buffered log in order, in one pass per chunk, sheds nothing,
  and gives up its role with the buffer empty; the budget at each pass must be above the retirement mark of 6 seconds.\<close>

theorem waiter_empties_buffer:
  assumes "il_in_flight S < 4" "length (bf_logs (il_buffer S)) < length passes"
    and "\<forall>pass\<in>set passes. 6000 \<le> fst pass \<and> (\<forall>e\<in>set (bf_logs (il_buffer S)). en_at_ms e + 1000 \<le> snd pass)"
  shows "\<exists>S' batches. tick_loop passes S = (True, S') \<and> bf_logs (il_buffer S') = [] \<and> \<not> bf_waiter_active (il_buffer S')
    \<and> il_ended S' = il_ended S @ batches \<and> concat batches = map en_log (bf_logs (il_buffer S))
    \<and> il_shed S' = il_shed S \<and> il_flying S' = il_flying S"
  using assms
proof (induction passes arbitrary: S)
  case (Cons pass passes)
  obtain remaining_ms now_ms where pass: "pass = (remaining_ms, now_ms)" by (cases pass)
  let ?b = "il_buffer S"
  have budget: "\<not> remaining_ms < RETIRE_AT_REMAINING_MS" using Cons.prems(3) by (simp add: pass RETIRE_AT_REMAINING_MS_def)
  show ?case
  proof (cases "bf_logs ?b = []")
    case True
    then show ?thesis using budget by (simp add: pass tick_step_def Let_def waiter_drop_def)
  next
    case False
    have "time_due now_ms ?b" using Cons.prems(3) by (intro time_due_idle [OF False]) (simp add: pass)
    moreover have "decide (at_ceiling ?b) (il_in_flight S) = Deliver"
      using Cons.prems(1) by (simp add: decide_def HARD_IN_FLIGHT_def MAX_IN_FLIGHT_def)
    ultimately have step: "tick_step remaining_ms now_ms S = (Delivering, launch (take_chunk ?b) S)"
      using False budget by (simp add: tick_step_def Let_def)
    let ?T = "S\<lparr>il_buffer := snd (take_chunk ?b), il_ended := il_ended S @ [fst (take_chunk ?b)]\<rparr>"
    have loop: "tick_loop (pass # passes) S = tick_loop passes ?T" by (simp add: pass step release_launch del: One_nat_def)
    have chunk: "fst (take_chunk ?b) @ map en_log (bf_logs (snd (take_chunk ?b))) = map en_log (bf_logs ?b)"
      using discard_oldest(2) [of ?b S] by (simp add: discard_def)
    have "set (bf_logs (snd (take_chunk ?b))) \<subseteq> set (bf_logs ?b)"
      by (auto simp: take_chunk_def take_up_to_def split_beta dest: in_set_dropD)
    then obtain S' batches where "tick_loop passes ?T = (True, S')" "bf_logs (il_buffer S') = []" "\<not> bf_waiter_active (il_buffer S')"
      "il_ended S' = il_ended ?T @ batches" "concat batches = map en_log (bf_logs (il_buffer ?T))"
      "il_shed S' = il_shed ?T" "il_flying S' = il_flying ?T"
      using Cons.IH [of ?T] Cons.prems take_chunk_shrinks [OF False] by fastforce
    then show ?thesis unfolding loop chunk [symmetric]
      by (intro exI [of _ S'] exI [of _ "fst (take_chunk ?b) # batches"]) simp
  qed
qed simp

section \<open>Delivering a batch\<close>

text \<open>
  The delivery of a flushed batch, and what it does to the stored metrics. Unlike the queue's consumer it counts the telemetry
  whether or not the batch was delivered, since nobody will send it again.
\<close>

definition update_metrics :: "bool \<Rightarrow> tel_snapshot \<Rightarrow> bool \<Rightarrow> metrics_kv \<Rightarrow> metrics_kv" where
  [model_defs]: "update_metrics has_kv snap landed kv =
     (if has_kv then update_kv_snapshot_merged FlagLogs (Some snap) (Some landed) kv else kv)"

definition deliver_batch ::
  "'w net \<Rightarrow> bool \<Rightarrow> log_request list \<Rightarrow> deadline \<Rightarrow> ('w \<times> log_request list) \<times> metrics_kv \<Rightarrow> ('w \<times> log_request list) \<times> metrics_kv" where
  [model_defs]: "deliver_batch N has_kv logs deadline s =
     (if logs = [] then s
      else
        (let telemetry = fold accumulate_message logs snapshot_default in
         case deliver_all_within_limit N logs deadline (fst s) of
           (outcome, w) \<Rightarrow> (w, update_metrics has_kv telemetry (dl_lost outcome = 0) (snd s))))"

lemma deliver_batch_run:
  assumes "deliver_batch N has_kv logs deadline (s, kv) = (s', kv')"
  shows "\<exists>pieces. snd s' = snd s @ pieces \<and> subseq (landed_flags pieces) (landed_flags logs)
    \<and> (has_kv \<longrightarrow> \<not> flush_metric m \<longrightarrow> snapshot_value m (kv_read kv' (pipeline_key FlagLogs)) =
        snapshot_value m (kv_read kv (pipeline_key FlagLogs)) + of_nat (sum_list (map (delta_value m) (deltas_of logs))))"
proof (cases "logs = []")
  case True
  then show ?thesis using assms by (intro exI [of _ "[]"]) (simp add: deliver_batch_def deltas_of_def List.map_filter_simps)
next
  case False
  obtain out s1 where d: "deliver_all_within_limit N logs deadline s = (out, s1)" by (cases "deliver_all_within_limit N logs deadline s")
  have res: "s' = s1" "kv' = update_metrics has_kv (fold accumulate_message logs snapshot_default) (dl_lost out = 0) kv"
    using assms False by (simp_all add: deliver_batch_def d Let_def)
  obtain pieces where "snd s1 = snd s @ pieces" "subseq (landed_flags pieces) (landed_flags logs)"
    using deliver_all_landed [OF d] by (auto simp: faithful_def)
  moreover have "snapshot_value m (kv_read kv' (pipeline_key FlagLogs)) =
      snapshot_value m (kv_read kv (pipeline_key FlagLogs)) + of_nat (sum_list (map (delta_value m) (deltas_of logs)))"
    if "has_kv" "\<not> flush_metric m"
    using that by (simp add: res update_metrics_def read_update count_flush_value merge_value accumulate_messages accumulates_value)
  ultimately show ?thesis by (auto simp: res)
qed

text \<open>The deliveries of an isolate, as they end, each with the deadline of its invocation.\<close>

fun deliver_batches ::
  "'w net \<Rightarrow> bool \<Rightarrow> (log_request list \<times> deadline) list \<Rightarrow> ('w \<times> log_request list) \<times> metrics_kv
   \<Rightarrow> ('w \<times> log_request list) \<times> metrics_kv" where
  "deliver_batches N has_kv [] s = s"
| "deliver_batches N has_kv ((batch, deadline) # batches) s = deliver_batches N has_kv batches (deliver_batch N has_kv batch deadline s)"


section \<open>Instances\<close>

text \<open>Offers of records of 13 MiB: each is at the ceiling on its own, so the first eight are delivered and the next is shed.\<close>

definition example_offer :: "isolate \<Rightarrow> isolate" where
  "example_offer = offer_at (\<lambda>_. 13 * 1024 * 1024) log_request_default 0"

definition stuck :: "nat \<Rightarrow> isolate" where
  "stuck n = \<lparr>il_buffer = buffer_new\<lparr>bf_next_seq := of_nat n\<rparr>, il_in_flight = n, il_offered = replicate n log_request_default,
     il_flying = replicate n [log_request_default], il_ended = [], il_shed = []\<rparr>"

lemmas offer_evaluation = stuck_def example_offer_def buffer_new_def offer_at_def Let_def buffer_push_def usize_add_def USIZE_MAX_def
  size_due_def FLUSH_BYTES_def PROTO_CHUNK_BYTES_def decide_def at_ceiling_def MAX_BUFFER_BYTES_def HARD_IN_FLIGHT_def
  MAX_IN_FLIGHT_def launch_def discard_def take_chunk_def take_up_to_def

lemma stuck_offer: "n < 8 \<Longrightarrow> example_offer (stuck n) = stuck (Suc n)"
  by (simp add: offer_evaluation replicate_append_same add.commute)

lemma stuck_reachable: "n \<le> 8 \<Longrightarrow> isolate_reachable (\<lambda>_. 13 * 1024 * 1024) (stuck n)"
proof (induction n)
  case 0
  have "stuck 0 = isolate_new" by (simp add: stuck_def isolate_new_def buffer_new_def)
  then show ?case using IsolateStart by simp
next
  case (Suc n)
  then have "isolate_step (\<lambda>_. 13 * 1024 * 1024) (stuck n) (stuck (Suc n))"
    using StepOffer [of "\<lambda>_. 13 * 1024 * 1024" "stuck n" log_request_default 0] stuck_offer [of n] by (simp add: example_offer_def)
  with Suc show ?case by (auto intro: IsolateStep)
qed

definition eight_stuck :: isolate where "eight_stuck = stuck 8"

lemma eight_reachable: "isolate_reachable (\<lambda>_. 13 * 1024 * 1024) eight_stuck"
  unfolding eight_stuck_def by (rule stuck_reachable) simp

lemma ninth_shed: "il_shed (example_offer eight_stuck) = [[log_request_default]]"
  by (simp add: eight_stuck_def offer_evaluation)

theorem isolate_bounded_and_lossless_witness: "il_in_flight eight_stuck = 8 \<and> length (il_flying eight_stuck) = 8"
  using isolate_bounded_and_lossless [OF eight_reachable] by (auto simp: eight_stuck_def stuck_def)

theorem sheds_only_when_stuck_witness:
  "il_shed (example_offer eight_stuck) \<noteq> il_shed eight_stuck \<and> length (il_flying eight_stuck) = 8"
proof -
  have step: "isolate_step (\<lambda>_. 13 * 1024 * 1024) eight_stuck (example_offer eight_stuck)" unfolding example_offer_def by (rule StepOffer)
  have shed: "il_shed (example_offer eight_stuck) \<noteq> il_shed eight_stuck" unfolding ninth_shed by (simp add: eight_stuck_def stuck_def)
  from sheds_only_when_stuck [OF eight_reachable step shed] shed show ?thesis by simp
qed

definition idle_isolate :: isolate where
  "idle_isolate = isolate_new\<lparr>il_buffer := (buffer_push (\<lambda>_. 100) log_request_default 40
     (buffer_push (\<lambda>_. 700 * 1024) log_request_default 0 (buffer_push (\<lambda>_. 100 * 1024) log_request_default 0 buffer_new)))
     \<lparr>bf_waiter_active := True\<rparr>\<rparr>"

theorem waiter_empties_buffer_witness:
  "\<exists>S'. tick_loop (replicate 4 (20000, 1040)) idle_isolate = (True, S') \<and> concat (il_ended S') = replicate 3 log_request_default"
proof -
  have logs: "map en_log (bf_logs (il_buffer idle_isolate)) = replicate 3 log_request_default" "il_ended idle_isolate = []"
    "il_in_flight idle_isolate < 4" "length (bf_logs (il_buffer idle_isolate)) < length (replicate 4 (20000 :: int, 1040 :: int))"
    "\<forall>pass\<in>set (replicate 4 (20000 :: int, 1040 :: int)). 6000 \<le> fst pass \<and> (\<forall>e\<in>set (bf_logs (il_buffer idle_isolate)). en_at_ms e + 1000 \<le> snd pass)"
    by (simp_all add: idle_isolate_def buffer_push_def buffer_new_def isolate_new_def numeral_3_eq_3)
  from waiter_empties_buffer [OF logs(3-5)] obtain S' batches where
    "tick_loop (replicate 4 (20000, 1040)) idle_isolate = (True, S')" "il_ended S' = il_ended idle_isolate @ batches"
    "concat batches = map en_log (bf_logs (il_buffer idle_isolate))" by blast
  then show ?thesis unfolding logs(1,2) by auto
qed


end
