(* ===== verification/Provider_State.thy ===== *)
theory Provider_State
  imports Resolver_State
begin

text \<open>
  The state of the OpenFeature provider (\<open>openfeature-provider/rust/src\<close>): its errors (\<open>error.rs\<close>), the fetcher and the
  shared state (\<open>state.rs\<close>), and the initialisation and the polling loop of \<open>provider.rs\<close>. The HTTP
  exchange, SHA-256, AES-GCM, the hexadecimal and protobuf decoders are parameters; an answer that does not come within the
  timeout is \<open>None\<close>. Nothing of a fetch is kept before its last step, so cutting it off anywhere has the same effect.
\<close>

section \<open>Errors\<close>

datatype provider_error =
    StateFetch string | StateHttp nat | StateParse string | NotInitialized | Resolve string | FlagNotFound string
  | TypeMismatch string | PathNotFound string | Http string | Configuration string | Proto string | Materialization string

fun provider_error_to_string :: "provider_error \<Rightarrow> string" where
  "provider_error_to_string (StateFetch s) = ''failed to fetch state: '' @ s"
| "provider_error_to_string (StateHttp n) = ''CDN returned status '' @ show_nat n"
| "provider_error_to_string (StateParse s) = ''failed to parse state: '' @ s"
| "provider_error_to_string NotInitialized = ''provider not initialized''"
| "provider_error_to_string (Resolve s) = ''failed to resolve flag: '' @ s"
| "provider_error_to_string (FlagNotFound s) = ''flag not found: '' @ s"
| "provider_error_to_string (TypeMismatch s) = ''type mismatch: '' @ s"
| "provider_error_to_string (PathNotFound s) = ''path not found: '' @ s"
| "provider_error_to_string (Http s) = ''HTTP error: '' @ s"
| "provider_error_to_string (Configuration s) = ''configuration error: '' @ s"
| "provider_error_to_string (Proto s) = ''protobuf error: '' @ s"
| "provider_error_to_string (Materialization s) = ''materialization error: '' @ s"

definition is_retryable_state_error :: "provider_error \<Rightarrow> bool" where
  [model_defs]: "is_retryable_state_error e =
     (case e of
        Http _ \<Rightarrow> True
      | StateFetch _ \<Rightarrow> True
      | StateHttp n \<Rightarrow> n = 404 \<or> n = 408 \<or> n = 429 \<or> 500 \<le> n \<and> n \<le> 599
      | _ \<Rightarrow> False)"

section \<open>The fetcher\<close>

record client_resolver_state =
  cs_state :: bytes
  cs_account :: string
  cs_log_destinations :: "int list"

definition parse_log_destinations :: "int list \<Rightarrow> log_destination list" where
  [model_defs]: "parse_log_destinations raw = (let parsed = map log_destination_from raw in if parsed = [] then [Edge] else parsed)"

record platform =
  pf_sha256_hex :: "string \<Rightarrow> string"
  pf_hex_decode :: "string \<Rightarrow> bytes option"
  pf_aes_open :: "bytes \<Rightarrow> bytes \<Rightarrow> bytes \<Rightarrow> bytes option"
  pf_invalid_key :: string
  pf_decode_client_state :: "bytes \<Rightarrow> string + client_resolver_state"
  pf_decode_resolver_state :: "bytes \<Rightarrow> string + resolver_state_pb"
  pf_debug :: "error_code \<Rightarrow> string"
  pf_timeout_text :: string

record cdn_response =
  cr_status :: nat
  cr_etag :: "string option"
  cr_body :: "string + bytes"

record state_fetcher =
  sf_client_secret :: string
  sf_cdn_url :: string
  sf_etag :: "string option"
  sf_sdk :: "sdk option"
  sf_encryption_key :: bytes

definition CDN_BASE_URL :: string where
  [model_defs]: "CDN_BASE_URL = ''https://confidence-resolver-state-cdn.spotifycdn.com''"

definition decode_encryption_key :: "platform \<Rightarrow> string \<Rightarrow> provider_error + bytes" where
  [model_defs]: "decode_encryption_key P key =
     (case pf_hex_decode P key of
        Some decoded \<Rightarrow>
          if length decoded = 32 then Inr decoded
          else Inl (Configuration ''encryption_key is required and must contain exactly 64 hexadecimal characters'')
      | None \<Rightarrow> Inl (Configuration ''encryption_key is required and must contain exactly 64 hexadecimal characters''))"

definition state_fetcher_new :: "platform \<Rightarrow> string \<Rightarrow> sdk option \<Rightarrow> string \<Rightarrow> provider_error + state_fetcher" where
  [model_defs]: "state_fetcher_new P client_secret sdk encryption_key_hex =
     (case decode_encryption_key P encryption_key_hex of
        Inl e \<Rightarrow> Inl e
      | Inr key \<Rightarrow> Inr \<lparr>sf_client_secret = client_secret, sf_cdn_url = CDN_BASE_URL @ ''/'' @ pf_sha256_hex P client_secret @ ''.enc'',
                      sf_etag = None, sf_sdk = sdk, sf_encryption_key = key\<rparr>)"

definition decrypt_state :: "platform \<Rightarrow> bytes \<Rightarrow> bytes \<Rightarrow> provider_error + bytes" where
  [model_defs]: "decrypt_state P data key =
     (if length data < 12 then Inl (StateParse ''Encrypted state too short (missing nonce)'')
      else if length key \<noteq> 32 then Inl (StateParse (''Invalid encryption key: '' @ pf_invalid_key P))
      else
        (case pf_aes_open P key (take 12 data) (drop 12 data) of
           None \<Rightarrow> Inl (StateParse ''Failed to decrypt resolver state: invalid key or corrupted data'')
         | Some plain \<Rightarrow> Inr plain))"

text \<open>What the body of a successful answer holds: the state, the account and the destinations.\<close>

definition parse_state :: "platform \<Rightarrow> libs \<Rightarrow> state_fetcher \<Rightarrow> bytes \<Rightarrow> provider_error + resolver_state \<times> string \<times> log_destination list" where
  [model_defs]: "parse_state P L F raw_bytes =
     (case decrypt_state P raw_bytes (sf_encryption_key F) of
        Inl e \<Rightarrow> Inl e
      | Inr proto_bytes \<Rightarrow>
          (case pf_decode_client_state P proto_bytes of
             Inl e \<Rightarrow> Inl (StateParse (''Failed to decode ClientResolverState: '' @ e))
           | Inr request \<Rightarrow>
               (case pf_decode_resolver_state P (cs_state request) of
                  Inl e \<Rightarrow> Inl (StateParse (''Failed to decode ResolverState: '' @ e))
                | Inr state_pb \<Rightarrow>
                    (case from_proto L state_pb (cs_account request) (sf_sdk F) of
                       Inl e \<Rightarrow> Inl (StateParse (''Failed to create ResolverState: '' @ pf_debug P e))
                     | Inr state \<Rightarrow> Inr (state, cs_account request, parse_log_destinations (cs_log_destinations request))))))"

definition fetch ::
  "platform \<Rightarrow> libs \<Rightarrow> string + cdn_response \<Rightarrow> state_fetcher \<Rightarrow>
   (provider_error + (resolver_state \<times> string \<times> log_destination list) option) \<times> state_fetcher" where
  [model_defs]: "fetch P L answer F =
     (case answer of
        Inl e \<Rightarrow> (Inl (Http e), F)
      | Inr response \<Rightarrow>
          if cr_status response = 304 then (Inr None, F)
          else if \<not> (200 \<le> cr_status response \<and> cr_status response < 300) then (Inl (StateHttp (cr_status response)), F)
          else
            (case cr_body response of
               Inl e \<Rightarrow> (Inl (Http e), F)
             | Inr raw_bytes \<Rightarrow>
                 (case parse_state P L F raw_bytes of
                    Inl e \<Rightarrow> (Inl e, F)
                  | Inr fetched \<Rightarrow> (Inr (Some fetched), F\<lparr>sf_etag := cr_etag response\<rparr>))))"

section \<open>The shared state\<close>

datatype provider_status = Ready | NotReady | StatusError

record shared_state =
  ss_state :: "resolver_state option"
  ss_account_id :: "string option"
  ss_log_destinations :: "log_destination list"
  ss_terminal_error :: "string option"

definition shared_state_new :: shared_state where
  [model_defs]: "shared_state_new = \<lparr>ss_state = None, ss_account_id = None, ss_log_destinations = [Edge], ss_terminal_error = None\<rparr>"

definition shared_update :: "resolver_state \<times> string \<times> log_destination list \<Rightarrow> shared_state \<Rightarrow> shared_state" where
  [model_defs]: "shared_update fetched S =
     S\<lparr>ss_state := Some (fst fetched), ss_account_id := Some (fst (snd fetched)), ss_log_destinations := snd (snd fetched)\<rparr>"

definition is_initialized :: "shared_state \<Rightarrow> bool" where
  [model_defs]: "is_initialized S \<longleftrightarrow> ss_state S \<noteq> None"

definition status :: "shared_state \<Rightarrow> provider_status" where
  [model_defs]: "status S =
     (if is_initialized S then Ready else if ss_terminal_error S \<noteq> None then StatusError else NotReady)"

section \<open>Refreshing\<close>

definition refresh_state ::
  "platform \<Rightarrow> libs \<Rightarrow> (string + cdn_response) option \<Rightarrow> state_fetcher \<times> shared_state \<Rightarrow>
   (provider_error + unit) \<times> state_fetcher \<times> shared_state" where
  [model_defs]: "refresh_state P L answer FS =
     (case FS of (F, S) \<Rightarrow>
     (case answer of
        None \<Rightarrow> (Inl (StateFetch (''timed out after '' @ pf_timeout_text P)), F, S)
      | Some answer \<Rightarrow>
          (case fetch P L answer F of
             (Inl e, F) \<Rightarrow> (Inl e, F, S)
           | (Inr (Some fetched), F) \<Rightarrow> (Inr (), F, shared_update fetched S)
           | (Inr None, F) \<Rightarrow>
               if is_initialized S then (Inr (), F, S) else (Inl (StateFetch ''No state returned from CDN''), F, S))))"

text \<open>The provider: whether its background task polls, the fetcher and the shared state.\<close>

record provider =
  pv_polling :: bool
  pv_fetcher :: state_fetcher
  pv_shared :: shared_state

definition STATE_RETRY_INTERVAL_MS :: nat where [model_defs]: "STATE_RETRY_INTERVAL_MS = 1000"
definition DEFAULT_STATE_POLL_INTERVAL_MS :: nat where [model_defs]: "DEFAULT_STATE_POLL_INTERVAL_MS = 30000"

definition poll_interval_ms :: "nat option \<Rightarrow> shared_state \<Rightarrow> nat" where
  [model_defs]: "poll_interval_ms configured S =
     (if is_initialized S then (case configured of Some ms \<Rightarrow> ms | None \<Rightarrow> DEFAULT_STATE_POLL_INTERVAL_MS) else STATE_RETRY_INTERVAL_MS)"

definition init_provider ::
  "platform \<Rightarrow> libs \<Rightarrow> (string + cdn_response) option \<Rightarrow> state_fetcher \<Rightarrow> (provider_error + unit) \<times> provider" where
  [model_defs]: "init_provider P L answer F =
     (case refresh_state P L answer (F, shared_state_new) of
        (Inl e, F, S) \<Rightarrow>
          if \<not> is_retryable_state_error e \<and> \<not> is_initialized S
          then (Inl e, \<lparr>pv_polling = False, pv_fetcher = F, pv_shared = S\<lparr>ss_terminal_error := Some (provider_error_to_string e)\<rparr>\<rparr>)
          else (Inr (), \<lparr>pv_polling = True, pv_fetcher = F, pv_shared = S\<rparr>)
      | (Inr _, F, S) \<Rightarrow> (Inr (), \<lparr>pv_polling = True, pv_fetcher = F, pv_shared = S\<rparr>))"

text \<open>One round of the refresh loop; leaving it ends the background task.\<close>

definition poll :: "platform \<Rightarrow> libs \<Rightarrow> (string + cdn_response) option \<Rightarrow> provider \<Rightarrow> provider" where
  [model_defs]: "poll P L answer V =
     (if \<not> pv_polling V then V
      else
        (case refresh_state P L answer (pv_fetcher V, pv_shared V) of
           (Inr _, F, S) \<Rightarrow> V\<lparr>pv_fetcher := F, pv_shared := S\<rparr>
         | (Inl e, F, S) \<Rightarrow>
             if \<not> is_initialized S \<and> \<not> is_retryable_state_error e
             then V\<lparr>pv_polling := False, pv_fetcher := F, pv_shared := S\<lparr>ss_terminal_error := Some (provider_error_to_string e)\<rparr>\<rparr>
             else V\<lparr>pv_fetcher := F, pv_shared := S\<rparr>))"

fun run_provider :: "platform \<Rightarrow> libs \<Rightarrow> (string + cdn_response) option list \<Rightarrow> state_fetcher \<Rightarrow> provider" where
  "run_provider P L [] F = \<lparr>pv_polling = False, pv_fetcher = F, pv_shared = shared_state_new\<rparr>"
| "run_provider P L (reply # replies) F = fold (poll P L) replies (snd (init_provider P L reply F))"

section \<open>What the provider serves\<close>

text \<open>The state an answer carries, with its entity tag, if it can be used.\<close>

definition usable :: "platform \<Rightarrow> libs \<Rightarrow> state_fetcher \<Rightarrow> (string + cdn_response) option \<Rightarrow>
    ((resolver_state \<times> string \<times> log_destination list) \<times> string option) option" where
  "usable P L F answer =
     (case answer of
        Some (Inr response) \<Rightarrow>
          (if 200 \<le> cr_status response \<and> cr_status response < 300
           then (case bind_ok (cr_body response) (\<lambda>raw. map_err provider_error_to_string (parse_state P L F raw)) of
                   Inr fetched \<Rightarrow> Some (fetched, cr_etag response) | Inl _ \<Rightarrow> None)
           else None)
      | _ \<Rightarrow> None)"

lemma refresh_cases:
  assumes "refresh_state P L answer (F, S) = (r, F', S')"
  shows "case usable P L F answer of
      Some (fetched, tag) \<Rightarrow> r = Inr () \<and> F' = F\<lparr>sf_etag := tag\<rparr> \<and> S' = shared_update fetched S
    | None \<Rightarrow> F' = F \<and> S' = S \<and> (r = Inr () \<longrightarrow> is_initialized S)"
  using assms
  by (cases answer; auto simp: refresh_state_def fetch_def usable_def bind_ok_def map_err_def split: sum.splits if_splits option.splits prod.splits)

lemma parse_state_etag: "parse_state P L (F\<lparr>sf_etag := tag\<rparr>) = parse_state P L F"
proof -
  have keep: "sf_encryption_key (F\<lparr>sf_etag := tag\<rparr>) = sf_encryption_key F" "sf_sdk (F\<lparr>sf_etag := tag\<rparr>) = sf_sdk F" by simp_all
  show ?thesis unfolding parse_state_def keep ..
qed

lemma usable_etag [simp]: "usable P L (F\<lparr>sf_etag := tag\<rparr>) = usable P L F"
  unfolding usable_def parse_state_etag ..

text \<open>A failure that ends the polling of a provider without a state.\<close>

definition gives_up :: "platform \<Rightarrow> libs \<Rightarrow> state_fetcher \<Rightarrow> (string + cdn_response) option \<Rightarrow> bool" where
  "gives_up P L F answer \<longleftrightarrow>
     (\<exists>e. fst (refresh_state P L answer (F, shared_state_new)) = Inl e \<and> \<not> is_retryable_state_error e)"

definition held :: "((resolver_state \<times> string \<times> log_destination list) \<times> string option) list \<Rightarrow> state_fetcher \<Rightarrow> provider" where
  "held given F =
     (if given = [] then \<lparr>pv_polling = True, pv_fetcher = F, pv_shared = shared_state_new\<rparr>
      else \<lparr>pv_polling = True, pv_fetcher = F\<lparr>sf_etag := snd (last given)\<rparr>, pv_shared = shared_update (fst (last given)) shared_state_new\<rparr>)"

definition failed :: "string \<Rightarrow> state_fetcher \<Rightarrow> provider" where
  "failed e F = \<lparr>pv_polling = False, pv_fetcher = F, pv_shared = shared_state_new\<lparr>ss_terminal_error := Some e\<rparr>\<rparr>"

lemma poll_held:
  "poll P L answer (held given F) =
     (case usable P L F answer of
        Some fetched \<Rightarrow> held (given @ [fetched]) F
      | None \<Rightarrow> if given = [] \<and> gives_up P L F answer
                then failed (provider_error_to_string (projl (fst (refresh_state P L answer (F, shared_state_new))))) F
                else held given F)"
proof -
  let ?F = "pv_fetcher (held given F)" and ?S = "pv_shared (held given F)"
  obtain r F' S' where run: "refresh_state P L answer (?F, ?S) = (r, F', S')" by (cases "refresh_state P L answer (?F, ?S)")
  have us: "usable P L ?F = usable P L F" and on: "pv_polling (held given F)" by (auto simp: held_def)
  have init: "is_initialized ?S \<longleftrightarrow> given \<noteq> []" by (simp add: held_def is_initialized_def shared_update_def shared_state_new_def)
  note r = refresh_cases [OF run, unfolded us]
  have poll: "poll P L answer (held given F) =
      (case r of Inr _ \<Rightarrow> (held given F)\<lparr>pv_fetcher := F', pv_shared := S'\<rparr>
       | Inl e \<Rightarrow> if \<not> is_initialized S' \<and> \<not> is_retryable_state_error e
           then (held given F)\<lparr>pv_polling := False, pv_fetcher := F', pv_shared := S'\<lparr>ss_terminal_error := Some (provider_error_to_string e)\<rparr>\<rparr>
           else (held given F)\<lparr>pv_fetcher := F', pv_shared := S'\<rparr>)"
    using on run by (simp add: poll_def split: sum.split)
  show ?thesis
  proof (cases "usable P L F answer")
    case (Some fetched)
    then show ?thesis unfolding poll using r by (cases fetched) (auto simp: held_def shared_update_def)
  next
    case None
    then have same: "F' = ?F" "S' = ?S" "r = Inr () \<longrightarrow> is_initialized ?S" using r by auto
    show ?thesis
    proof (cases "given = []")
      case True
      then have fs: "?F = F" "?S = shared_state_new" by (simp_all add: held_def)
      with True None same init run show ?thesis unfolding poll
        by (cases r) (auto simp: gives_up_def failed_def held_def)
    next
      case False
      then show ?thesis unfolding poll using None same init by (auto split: sum.split)
    qed
  qed
qed

lemma poll_failed [simp]: "poll P L answer (failed e F) = failed e F"
  by (simp add: poll_def failed_def)

lemma run_is_poll: "replies \<noteq> [] \<Longrightarrow> run_provider P L replies F = fold (poll P L) replies (held [] F)"
proof (cases replies)
  case (Cons reply rest)
  have "snd (init_provider P L reply F) = poll P L reply (held [] F)"
    by (auto simp: init_provider_def poll_def held_def split: sum.split prod.split)
  then show ?thesis by (simp add: Cons)
qed simp

lemma run_cases:
  "fold (poll P L) replies (held [] F) = held (List.map_filter (usable P L F) replies) F
   \<or> (\<exists>n e. n < length replies \<and> List.map_filter (usable P L F) (take n replies) = [] \<and> gives_up P L F (replies ! n)
        \<and> fold (poll P L) replies (held [] F) = failed e F)"
proof (induction replies rule: rev_induct)
  case (snoc reply replies)
  have step: "List.map_filter (usable P L F) (replies @ [reply]) = List.map_filter (usable P L F) replies
      @ (case usable P L F reply of Some fetched \<Rightarrow> [fetched] | None \<Rightarrow> [])"
    by (simp add: List.map_filter_def split: option.split)
  from snoc show ?case
  proof (elim disjE exE conjE)
    assume ok: "fold (poll P L) replies (held [] F) = held (List.map_filter (usable P L F) replies) F"
    show ?thesis
    proof (cases "usable P L F reply = None \<and> List.map_filter (usable P L F) replies = [] \<and> gives_up P L F reply")
      case True
      then show ?thesis using ok by (intro disjI2 exI [of _ "length replies"] exI conjI) (auto simp: poll_held)
    next
      case False
      then show ?thesis using ok by (intro disjI1) (auto simp: poll_held step split: option.split)
    qed
  next
    fix n e assume "n < length replies" "List.map_filter (usable P L F) (take n replies) = []" "gives_up P L F (replies ! n)"
      "fold (poll P L) replies (held [] F) = failed e F"
    then show ?thesis by (intro disjI2 exI [of _ n] exI [of _ e]) (simp add: nth_append)
  qed
qed (simp add: List.map_filter_simps)

text \<open>C31: The provider serves the last good state. After any initial load and any polls, whatever failed in between, a provider that
  still polls holds the state, the account, the destinations and the entity tag of the last answer that could be used,
  all of the same answer, and is ready; before the first such answer it is not ready and sends no tag. It stops only before any
  usable answer came, on a failure that is not worth retrying, and then reports an error.\<close>

theorem provider_serves_last_state:
  assumes "replies \<noteq> []"
  shows "let V = run_provider P L replies F; given = List.map_filter (usable P L F) replies in
    if pv_polling V then
      (if given = [] then status (pv_shared V) = NotReady \<and> sf_etag (pv_fetcher V) = sf_etag F
       else status (pv_shared V) = Ready \<and> sf_etag (pv_fetcher V) = snd (last given)
         \<and> (ss_state (pv_shared V), ss_account_id (pv_shared V), ss_log_destinations (pv_shared V))
             = (case fst (last given) of (state, account, destinations) \<Rightarrow> (Some state, Some account, destinations)))
    else status (pv_shared V) = StatusError \<and> ss_state (pv_shared V) = None
      \<and> (\<exists>n<length replies. List.map_filter (usable P L F) (take n replies) = [] \<and> gives_up P L F (replies ! n))"
proof -
  note run = run_cases [of P L replies F, folded run_is_poll [OF assms]]
  then show ?thesis
  proof (elim disjE exE conjE)
    assume "run_provider P L replies F = held (List.map_filter (usable P L F) replies) F"
    then show ?thesis
      by (simp add: held_def status_def is_initialized_def shared_update_def shared_state_new_def split: prod.split)
  next
    fix n e assume "n < length replies" "List.map_filter (usable P L F) (take n replies) = []" "gives_up P L F (replies ! n)"
      "run_provider P L replies F = failed e F"
    then show ?thesis by (auto simp: failed_def status_def is_initialized_def shared_state_new_def)
  qed
qed

section \<open>Instances\<close>

text \<open>A platform whose ciphertexts are plain, with one decodable state.\<close>

definition example_platform :: platform where
  "example_platform = \<lparr>pf_sha256_hex = (\<lambda>s. ''00''), pf_hex_decode = (\<lambda>s. Some (replicate 32 0)), pf_aes_open = (\<lambda>k n d. Some d),
     pf_invalid_key = ''Invalid Length'', pf_decode_client_state = (\<lambda>b. if b = [] then Inr \<lparr>cs_state = [], cs_account = ''a'', cs_log_destinations = [2, 1]\<rparr>
       else Inl ''bad''), pf_decode_resolver_state = (\<lambda>b. Inr \<lparr>sp_flags = [], sp_segments = [], sp_bitsets = [], sp_clients = [],
         sp_client_credentials = [], sp_bloom_filters = []\<rparr>), pf_debug = (\<lambda>e. ''e''), pf_timeout_text = ''30s''\<rparr>"

definition example_fetcher :: state_fetcher where
  "example_fetcher = \<lparr>sf_client_secret = ''s'', sf_cdn_url = ''u'', sf_etag = None, sf_sdk = None, sf_encryption_key = replicate 32 0\<rparr>"

definition example_answers :: "(string + cdn_response) option list" where
  "example_answers = [None, Some (Inr \<lparr>cr_status = 503, cr_etag = None, cr_body = Inr []\<rparr>),
     Some (Inr \<lparr>cr_status = 200, cr_etag = Some ''t'', cr_body = Inr (replicate 12 0)\<rparr>),
     Some (Inr \<lparr>cr_status = 200, cr_etag = Some ''x'', cr_body = Inr (replicate 13 0)\<rparr>), Some (Inl ''reset'')]"

theorem provider_serves_last_state_witness:
  "pv_polling (run_provider example_platform example_libs example_answers example_fetcher)
    \<and> status (pv_shared (run_provider example_platform example_libs example_answers example_fetcher)) = Ready
    \<and> sf_etag (pv_fetcher (run_provider example_platform example_libs example_answers example_fetcher)) = Some ''t''"
proof -
  have parsed: "parse_state example_platform example_libs example_fetcher raw =
      (if length raw < 12 then Inl (StateParse ''Encrypted state too short (missing nonce)'')
       else if length raw = 12
       then Inr (\<lparr>rs_secrets = [], rs_flags = [], rs_segments = [], rs_bitsets = [], rs_bloom_filters = [], rs_sdk = None\<rparr>, ''a'', [Cloudflare, Edge])
       else Inl (StateParse ''Failed to decode ClientResolverState: bad''))" for raw
    by (simp add: parse_state_def decrypt_state_def example_platform_def example_fetcher_def from_proto_def load_secrets_def load_bloom_filters_def
        parse_log_destinations_def log_destination_from_def)
  have given: "List.map_filter (usable example_platform example_libs example_fetcher) example_answers
      = [((\<lparr>rs_secrets = [], rs_flags = [], rs_segments = [], rs_bitsets = [], rs_bloom_filters = [], rs_sdk = None\<rparr>, ''a'', [Cloudflare, Edge]), Some ''t'')]"
    by (simp add: example_answers_def List.map_filter_simps usable_def bind_ok_def map_err_def parsed)
  have "pv_polling (run_provider example_platform example_libs example_answers example_fetcher)"
    by (simp add: example_answers_def init_provider_def refresh_state_def fetch_def poll_def parse_state_etag parsed is_retryable_state_error_def
        shared_state_new_def is_initialized_def shared_update_def)
  moreover have "example_answers \<noteq> []" by (simp add: example_answers_def)
  ultimately show ?thesis
    using provider_serves_last_state [of example_answers example_platform example_libs example_fetcher] by (simp add: given Let_def)
qed

end
