(* ===== verification/Provider_Evaluation.thy ===== *)
theory Provider_Evaluation
  imports Provider_State Resolve_Process Telemetry
begin

text \<open>
  The evaluation of a flag by the OpenFeature provider (\<open>provider.rs\<close>) with its materialization store
  (\<open>materialization.rs\<close>). The context and the values of OpenFeature are the variants the code matches on. The first entry that
  the iteration of a \<open>HashMap\<close> meets depends on its random hash state and is the parameter \<open>pick\<close>; the store, the
  clock and the resolve ids are parameters too.
\<close>

section \<open>materialization.rs\<close>

datatype read_op = ReadVariant string string string | ReadInclusion string string
datatype read_result = VariantResult string string string "string option" | InclusionResult string string bool

record write_op =
  wo_unit :: string
  wo_materialization :: string
  wo_rule :: string
  wo_variant :: string

record 'w store =
  so_read :: "read_op list \<Rightarrow> 'w \<Rightarrow> (provider_error + read_result list) \<times> 'w"
  so_write :: "write_op list \<Rightarrow> 'w \<Rightarrow> (provider_error + unit) \<times> 'w"

definition read_op_of :: "materialization_record \<Rightarrow> read_op" where
  [model_defs]: "read_op_of r =
     (if mr_rule r \<noteq> [] then ReadVariant (mr_unit r) (mr_materialization r) (mr_rule r)
      else ReadInclusion (mr_unit r) (mr_materialization r))"

definition materialization_records_to_read_ops :: "materialization_record list \<Rightarrow> read_op list" where
  [model_defs]: "materialization_records_to_read_ops rs = map read_op_of rs"

fun record_of_result :: "read_result \<Rightarrow> materialization_record option" where
  "record_of_result (VariantResult unit materialization rule variant) =
     map_option (\<lambda>v. \<lparr>mr_unit = unit, mr_materialization = materialization, mr_rule = rule, mr_variant = v\<rparr>) variant"
| "record_of_result (InclusionResult unit materialization included) =
     (if included then Some \<lparr>mr_unit = unit, mr_materialization = materialization, mr_rule = [], mr_variant = []\<rparr> else None)"

definition read_results_to_materialization_records :: "read_result list \<Rightarrow> materialization_record list" where
  [model_defs]: "read_results_to_materialization_records results = List.map_filter record_of_result results"

definition materialization_records_to_write_ops :: "materialization_record list \<Rightarrow> write_op list" where
  [model_defs]: "materialization_records_to_write_ops rs =
     map (\<lambda>r. \<lparr>wo_unit = mr_unit r, wo_materialization = mr_materialization r, wo_rule = mr_rule r, wo_variant = mr_variant r\<rparr>) rs"

text \<open>The messages of the remote store: an operation and a result are oneofs that may be absent, an absent variant is empty.\<close>

datatype remote_op = VariantReadOp string string string | InclusionReadOp string string
datatype remote_result = RemoteVariant string string string string | RemoteInclusion string string bool

definition read_ops_to_remote_proto :: "read_op list \<Rightarrow> remote_op option list" where
  [model_defs]: "read_ops_to_remote_proto ops =
     map (\<lambda>op. Some (case op of ReadVariant u m r \<Rightarrow> VariantReadOp u m r | ReadInclusion u m \<Rightarrow> InclusionReadOp u m)) ops"

definition read_results_from_remote_proto :: "remote_result option list \<Rightarrow> read_result list" where
  [model_defs]: "read_results_from_remote_proto results =
     List.map_filter (\<lambda>r. case r of
        Some (RemoteVariant u m rule v) \<Rightarrow> Some (VariantResult u m rule (if v = [] then None else Some v))
      | Some (RemoteInclusion u m included) \<Rightarrow> Some (InclusionResult u m included)
      | None \<Rightarrow> None) results"

text \<open>
  The remote store: the exchange is a parameter that gives a failure or the answer, whose text is what a failed status reports;
  an empty write sends nothing.
\<close>

record remote_answer =
  ra_code :: nat
  ra_text :: string
  ra_body :: "string + bytes"

record 'w remote =
  rm_read :: "string \<Rightarrow> remote_op option list \<Rightarrow> 'w \<Rightarrow> (string + remote_answer) \<times> 'w"
  rm_write :: "string \<Rightarrow> write_op list \<Rightarrow> 'w \<Rightarrow> (string + remote_answer) \<times> 'w"
  rm_decode :: "bytes \<Rightarrow> string + remote_result option list"
  rm_status_text :: "nat \<Rightarrow> string"

definition is_success :: "nat \<Rightarrow> bool" where
  [model_defs]: "is_success code \<longleftrightarrow> 200 \<le> code \<and> code < 300"

definition remote_read :: "'w remote \<Rightarrow> string \<Rightarrow> read_op list \<Rightarrow> 'w \<Rightarrow> (provider_error + read_result list) \<times> 'w" where
  [model_defs]: "remote_read R client_secret ops w =
     (case rm_read R client_secret (read_ops_to_remote_proto ops) w of
        (Inl e, w) \<Rightarrow> (Inl (Http e), w)
      | (Inr a, w) \<Rightarrow>
          (if \<not> is_success (ra_code a)
           then Inl (Http (''Failed to read materializations: '' @ rm_status_text R (ra_code a) @ '' '' @ ra_text a))
           else (case ra_body a of
                   Inl e \<Rightarrow> Inl (Http e)
                 | Inr raw \<Rightarrow> (case rm_decode R raw of
                                 Inl e \<Rightarrow> Inl (Proto e)
                               | Inr results \<Rightarrow> Inr (read_results_from_remote_proto results))), w))"

definition remote_write :: "'w remote \<Rightarrow> string \<Rightarrow> write_op list \<Rightarrow> 'w \<Rightarrow> (provider_error + unit) \<times> 'w" where
  [model_defs]: "remote_write R client_secret ops w =
     (if ops = [] then (Inr (), w)
      else
        (case rm_write R client_secret ops w of
           (Inl e, w) \<Rightarrow> (Inl (Http e), w)
         | (Inr a, w) \<Rightarrow>
             (if \<not> is_success (ra_code a)
              then Inl (Http (''Failed to write materializations: '' @ rm_status_text R (ra_code a) @ '' '' @ ra_text a))
              else Inr (), w)))"

definition remote_store :: "'w remote \<Rightarrow> string \<Rightarrow> 'w store" where
  [model_defs]: "remote_store R client_secret = \<lparr>so_read = remote_read R client_secret, so_write = remote_write R client_secret\<rparr>"

section \<open>OpenFeature values\<close>

datatype context_field = OfBool bool | OfInt int | OfFloat f64 | OfString string | OfDateTime | OfStruct

record eval_context =
  ec_targeting_key :: "string option"
  ec_custom_fields :: "context_field fields"

datatype of_value = VBool bool | VFloat f64 | VString string | VArray "of_value list" | VStruct "(string \<times> of_value) list"

datatype eval_code = ProviderNotReady | General string | CodeTypeMismatch
datatype eval_reason = TargetingMatch | ReasonDefault | ReasonDisabled | ReasonError | ReasonUnknown

record eval_error =
  ee_code :: eval_code
  ee_message :: "string option"

text \<open>\<open>i as f64\<close>: the nearest double, ties to even.\<close>

definition f64_of_int :: "int \<Rightarrow> f64" where
  [model_defs]: "f64_of_int i = f64_of_mag (i < 0) (f64_round (nat \<bar>i\<bar>) 1)"

fun context_field_to_proto :: "context_field \<Rightarrow> gvalue option" where
  "context_field_to_proto (OfBool b) = Some (Some (BoolValue b))"
| "context_field_to_proto (OfInt i) = Some (Some (NumberValue (f64_of_int i)))"
| "context_field_to_proto (OfFloat f) = Some (Some (NumberValue f))"
| "context_field_to_proto (OfString s) = Some (Some (StringValue s))"
| "context_field_to_proto OfDateTime = None"
| "context_field_to_proto OfStruct = None"

definition convert_evaluation_context :: "eval_context \<Rightarrow> gstruct" where
  [model_defs]: "convert_evaluation_context ctx =
     fold (\<lambda>(key, field) fs. case context_field_to_proto field of Some v \<Rightarrow> hm_insert key v fs | None \<Rightarrow> fs)
       (ec_custom_fields ctx)
       (case ec_targeting_key ctx of Some key \<Rightarrow> [(''targeting_key'', Some (StringValue key))] | None \<Rightarrow> [])"

fun proto_value_to_openfeature :: "gvalue \<Rightarrow> of_value option" where
  "proto_value_to_openfeature (Some (BoolValue b)) = Some (VBool b)"
| "proto_value_to_openfeature (Some (NumberValue n)) = Some (VFloat n)"
| "proto_value_to_openfeature (Some (StringValue s)) = Some (VString s)"
| "proto_value_to_openfeature (Some (ListValue vs)) = Some (VArray (map the (filter (\<lambda>v. v \<noteq> None) (map proto_value_to_openfeature vs))))"
| "proto_value_to_openfeature (Some (StructValue fs)) =
     Some (VStruct (map (\<lambda>(k, v). (k, the v)) (filter (\<lambda>(k, v). v \<noteq> None) (map (\<lambda>(k, v). (k, proto_value_to_openfeature v)) fs))))"
| "proto_value_to_openfeature (Some (NullValue _)) = None"
| "proto_value_to_openfeature None = None"

definition proto_struct_to_openfeature :: "gstruct \<Rightarrow> (string \<times> of_value) list" where
  [model_defs]: "proto_struct_to_openfeature fs =
     List.map_filter (\<lambda>(k, v). map_option (Pair k) (proto_value_to_openfeature v)) fs"

text \<open>\<open>split_once('.')\<close>.\<close>

definition parse_flag_path :: "string \<Rightarrow> string \<times> string option" where
  [model_defs]: "parse_flag_path flag_key =
     (if CHR ''.'' \<in> set flag_key
      then (takeWhile (\<lambda>c. c \<noteq> CHR ''.'') flag_key, Some (tl (dropWhile (\<lambda>c. c \<noteq> CHR ''.'') flag_key)))
      else (flag_key, None))"

fun navigate_parts :: "gstruct \<Rightarrow> string list \<Rightarrow> gstruct option" where
  "navigate_parts current [] = Some current"
| "navigate_parts current (part # parts) =
     (case map_of current part of
        None \<Rightarrow> None
      | Some (Some (StructValue fs)) \<Rightarrow> navigate_parts fs parts
      | Some field \<Rightarrow> if parts = [] then Some [(part, field)] else None)"

definition navigate_path :: "gstruct option \<Rightarrow> string \<Rightarrow> gstruct option" where
  [model_defs]: "navigate_path value path =
     (case value of None \<Rightarrow> None | Some current \<Rightarrow> navigate_parts current (split_on CHR ''.'' path))"

type_synonym pick = "gstruct \<Rightarrow> (string \<times> gvalue) option"

definition is_null_value :: "pick \<Rightarrow> gstruct option \<Rightarrow> bool" where
  [model_defs]: "is_null_value pick value =
     (case value of
        None \<Rightarrow> True
      | Some fs \<Rightarrow>
          (case pick fs of None \<Rightarrow> True | Some (_, v) \<Rightarrow> (case v of None \<Rightarrow> True | Some (NullValue _) \<Rightarrow> True | _ \<Rightarrow> False)))"

definition first_kind :: "pick \<Rightarrow> gstruct option \<Rightarrow> gkind option" where
  [model_defs]: "first_kind pick value = (case value of None \<Rightarrow> None | Some fs \<Rightarrow> (case pick fs of None \<Rightarrow> None | Some (_, v) \<Rightarrow> v))"

definition extract_bool_value :: "pick \<Rightarrow> gstruct option \<Rightarrow> bool option" where
  [model_defs]: "extract_bool_value pick value = (case first_kind pick value of Some (BoolValue b) \<Rightarrow> Some b | _ \<Rightarrow> None)"

definition extract_number_value :: "pick \<Rightarrow> gstruct option \<Rightarrow> f64 option" where
  [model_defs]: "extract_number_value pick value = (case first_kind pick value of Some (NumberValue n) \<Rightarrow> Some n | _ \<Rightarrow> None)"

definition extract_string_value :: "pick \<Rightarrow> gstruct option \<Rightarrow> string option" where
  [model_defs]: "extract_string_value pick value = (case first_kind pick value of Some (StringValue s) \<Rightarrow> Some s | _ \<Rightarrow> None)"

text \<open>\<open>ResolveReason::try_from\<close>, which fails for an unknown number.\<close>

definition reason_try_from :: "int \<Rightarrow> resolve_reason option" where
  [model_defs]: "reason_try_from n = (if 0 \<le> n then nth_opt reasons (nat n) else None)"

definition map_resolve_reason :: "int \<Rightarrow> eval_reason" where
  [model_defs]: "map_resolve_reason n =
     (case reason_try_from n of
        Some RMatch \<Rightarrow> TargetingMatch
      | Some RNoSegmentMatch \<Rightarrow> ReasonDefault
      | Some RFlagArchived \<Rightarrow> ReasonDisabled
      | Some RTargetingKeyError \<Rightarrow> ReasonError
      | Some RError \<Rightarrow> ReasonError
      | Some RUnrecognizedTargetingRule \<Rightarrow> ReasonError
      | _ \<Rightarrow> ReasonUnknown)"

section \<open>resolve_flag\<close>

text \<open>
  What the evaluation uses of the provider. A panic of the resolver is passed on; every other failure is an
  evaluation error.
\<close>

record 'w evaluator =
  el_client_secret :: string
  el_shared :: shared_state
  el_store :: "'w store option"
  el_disable_exposure :: bool
  el_sdk :: sdk

datatype eval_failure = EvalPanic | EvalError eval_error

record resolve_result =
  ro_value :: "gstruct option"
  ro_variant :: "string option"
  ro_reason :: eval_reason
  ro_resolve_reason :: resolve_reason

definition eval_general :: "string \<Rightarrow> eval_error" where
  [model_defs]: "eval_general msg = \<lparr>ee_code = General msg, ee_message = None\<rparr>"

definition with_prefix :: "string \<Rightarrow> failure \<Rightarrow> eval_failure" where
  [model_defs]: "with_prefix lead f =
     (case f of Panic \<Rightarrow> EvalPanic | Failed e \<Rightarrow> EvalError (eval_general (lead @ e)))"

definition current_state :: "'w evaluator \<Rightarrow> eval_failure + resolver_state" where
  [model_defs]: "current_state V =
     (case ss_state (el_shared V) of
        Some state \<Rightarrow> Inr state
      | None \<Rightarrow>
          (case ss_terminal_error (el_shared V) of
             Some cause \<Rightarrow> Inl (EvalError \<lparr>ee_code = General cause, ee_message = Some cause\<rparr>)
           | None \<Rightarrow> Inl (EvalError \<lparr>ee_code = ProviderNotReady, ee_message = Some ''Provider not initialized''\<rparr>)))"

text \<open>Whether exposure is skipped, and the context that is left: the field is taken out only when the provider's option is off.\<close>

definition SKIP_APPLY :: string where [model_defs]: "SKIP_APPLY = ''_confidence_skip_apply''"

definition skip_exposure :: "bool \<Rightarrow> eval_context \<Rightarrow> bool \<times> eval_context" where
  [model_defs]: "skip_exposure disabled ctx =
     (if disabled then (True, ctx)
      else (map_of (ec_custom_fields ctx) SKIP_APPLY = Some (OfBool True),
            ctx\<lparr>ec_custom_fields := filter (\<lambda>(k, _). k \<noteq> SKIP_APPLY) (ec_custom_fields ctx)\<rparr>))"

definition read_materializations :: "'w evaluator \<Rightarrow> materialization_record list \<Rightarrow> 'w \<Rightarrow> (provider_error + materialization_record list) \<times> 'w" where
  [model_defs]: "read_materializations V rs w =
     (case el_store V of
        None \<Rightarrow> (Inl (Materialization ''No materialization store configured''), w)
      | Some store \<Rightarrow>
          (case so_read store (materialization_records_to_read_ops rs) w of
             (Inl e, w) \<Rightarrow> (Inl e, w)
           | (Inr results, w) \<Rightarrow> (Inr (read_results_to_materialization_records results), w)))"

text \<open>A failed write is only logged.\<close>

definition write_materializations :: "'w evaluator \<Rightarrow> materialization_record list \<Rightarrow> 'w \<Rightarrow> 'w" where
  [model_defs]: "write_materializations V rs w =
     (case el_store V of None \<Rightarrow> w | Some store \<Rightarrow> snd (so_write store (materialization_records_to_write_ops rs) w))"

text \<open>
  The run of the resolver, resumed once with the records of the store. The two ids are those the resolver draws.
\<close>

definition run_resolver ::
  "libs \<Rightarrow> host \<Rightarrow> string \<times> string \<Rightarrow> 'w evaluator \<Rightarrow> account_resolver \<Rightarrow> process_request option \<Rightarrow> 'w \<Rightarrow>
   (eval_failure + resolve_response option \<times> materialization_record list) \<times> 'w \<times> host_event list" where
  [model_defs]: "run_resolver L H ids V R request w =
     (case resolve_flags L H (fst ids) R request of
        (Inl e, ev) \<Rightarrow> (Inl (with_prefix ''Failed to resolve: '' e), w, ev)
      | (Inr None, ev) \<Rightarrow> (Inl (EvalError (eval_general ''No resolve result'')), w, ev)
      | (Inr (Some (Resolved response writes)), ev) \<Rightarrow> (Inr (response, writes), w, ev)
      | (Inr (Some (Suspended reads state)), ev) \<Rightarrow>
          (case read_materializations V reads w of
             (Inl e, w) \<Rightarrow> (Inl (EvalError (eval_general (''Failed to read materializations: '' @ provider_error_to_string e))), w, ev)
           | (Inr found, w) \<Rightarrow>
               (case resolve_flags L H (snd ids) R (resume found state) of
                  (Inl e, ev') \<Rightarrow> (Inl (with_prefix ''Failed to resolve after resume: '' e), w, ev @ ev')
                | (Inr None, ev') \<Rightarrow> (Inl (EvalError (eval_general ''No resolve result after resume'')), w, ev @ ev')
                | (Inr (Some (Suspended _ _)), ev') \<Rightarrow>
                    (Inl (EvalError (eval_general ''Unexpected second suspend after resume'')), w, ev @ ev')
                | (Inr (Some (Resolved response writes)), ev') \<Rightarrow> (Inr (response, writes), w, ev @ ev'))))"

definition result_of_response :: "string option \<Rightarrow> resolve_response \<Rightarrow> resolve_result" where
  [model_defs]: "result_of_response path response =
     (case first_opt (rr_resolved_flags response) of
        None \<Rightarrow> \<lparr>ro_value = None, ro_variant = None, ro_reason = ReasonError, ro_resolve_reason = RFlagNotFound\<rparr>
      | Some rf \<Rightarrow>
          (let reason = (case reason_try_from (rf_reason rf) of Some r \<Rightarrow> r | None \<Rightarrow> RError) in
           if rf_variant rf = []
           then \<lparr>ro_value = None, ro_variant = None, ro_reason = map_resolve_reason (rf_reason rf), ro_resolve_reason = reason\<rparr>
           else \<lparr>ro_value = (case path of Some p \<Rightarrow> navigate_path (rf_value rf) p | None \<Rightarrow> rf_value rf),
                  ro_variant = Some (rf_variant rf), ro_reason = TargetingMatch, ro_resolve_reason = reason\<rparr>))"

definition request_for :: "'w evaluator \<Rightarrow> string \<Rightarrow> bool \<Rightarrow> gstruct \<Rightarrow> process_request option" where
  [model_defs]: "request_for V flag skip context_fields =
     (let request = \<lparr>rq_flags = [''flags/'' @ flag], rq_evaluation_context = Some context_fields,
            rq_client_secret = el_client_secret V, rq_apply = (\<not> skip), rq_sdk = Some (el_sdk V)\<rparr> in
      if el_store V \<noteq> None then deferred_materializations request else without_materializations request)"

definition provider_resolve_flag ::
  "libs \<Rightarrow> host \<Rightarrow> string \<times> string \<Rightarrow> 'w evaluator \<Rightarrow> string \<Rightarrow> eval_context \<Rightarrow> 'w \<Rightarrow>
   (eval_failure + resolve_result) \<times> 'w \<times> host_event list" where
  [model_defs]: "provider_resolve_flag L H ids V flag_key ctx w =
     (case current_state V of
        Inl e \<Rightarrow> (Inl e, w, [])
      | Inr state \<Rightarrow>
          (case parse_flag_path flag_key of (flag, path) \<Rightarrow>
          (case skip_exposure (el_disable_exposure V) ctx of (skip, ctx) \<Rightarrow>
            (let proto_context = convert_evaluation_context ctx in
             case get_resolver state (el_client_secret V) proto_context (replicate 16 0) of
               Inl e \<Rightarrow> (Inl (with_prefix ''Failed to get resolver: '' e), w, [])
             | Inr R \<Rightarrow>
                 (case run_resolver L H ids V (with_disable_exposure_collection R (el_disable_exposure V))
                         (request_for V flag skip proto_context) w of
                    (Inl e, w, ev) \<Rightarrow> (Inl e, w, ev)
                  | (Inr (response, writes), w, ev) \<Rightarrow>
                      (let w = (if writes = [] then w else write_materializations V writes w) in
                       case response of
                         None \<Rightarrow> (Inl (EvalError (eval_general ''No response in success'')), w, ev)
                       | Some response \<Rightarrow> (Inr (result_of_response path response), w, ev)))))))"

section \<open>Typed evaluation\<close>

record 'a details =
  dt_value :: 'a
  dt_variant :: "string option"
  dt_reason :: "eval_reason option"

definition do_register_resolve :: "telemetry_env \<Rightarrow> resolve_reason \<Rightarrow> u32 \<Rightarrow> telemetry \<Rightarrow> telemetry" where
  [model_defs]: "do_register_resolve E reason latency_us t = mark_resolve reason (record_latency_us E latency_us t)"

definition null_value_error :: eval_error where
  [model_defs]: "null_value_error = \<lparr>ee_code = General ''Property value is null'',
     ee_message = Some ''Property value is null (unset in flag configuration). The SDK default will be used.''\<rparr>"

definition no_variant_matched_error :: "eval_reason \<Rightarrow> eval_error" where
  [model_defs]: "no_variant_matched_error reason =
     (let message = (case reason of ReasonDefault \<Rightarrow> ''No targeting rule matched'' | ReasonDisabled \<Rightarrow> ''Flag is disabled''
                     | _ \<Rightarrow> ''No variant assigned'') in
      \<lparr>ee_code = General message, ee_message = Some message\<rparr>)"

text \<open>
  The common shape of the scalar evaluations: the answer, and the reason that is registered with the telemetry; nothing is registered
  when the resolver panics.
\<close>

definition evaluate_scalar ::
  "(gstruct option \<Rightarrow> 'a option) \<Rightarrow> string \<Rightarrow> pick \<Rightarrow> eval_failure + resolve_result \<Rightarrow>
   (eval_failure + 'a details) \<times> resolve_reason option" where
  [model_defs]: "evaluate_scalar extract mismatch pick outcome =
     (case outcome of
        Inl EvalPanic \<Rightarrow> (Inl EvalPanic, None)
      | Inl (EvalError e) \<Rightarrow> (Inl (EvalError e), Some RError)
      | Inr result \<Rightarrow>
          (case ro_variant result of
             None \<Rightarrow> (Inl (EvalError (no_variant_matched_error (ro_reason result))), Some (ro_resolve_reason result))
           | Some variant \<Rightarrow>
               if is_null_value pick (ro_value result) then (Inl (EvalError null_value_error), Some (ro_resolve_reason result))
               else
                 (case extract (ro_value result) of
                    Some v \<Rightarrow> (Inr \<lparr>dt_value = v, dt_variant = Some variant, dt_reason = Some (ro_reason result)\<rparr>,
                              Some (ro_resolve_reason result))
                  | None \<Rightarrow> (Inl (EvalError \<lparr>ee_code = CodeTypeMismatch, ee_message = Some mismatch\<rparr>), Some RTypeMismatch))))"

definition resolve_bool_value :: "pick \<Rightarrow> eval_failure + resolve_result \<Rightarrow> (eval_failure + bool details) \<times> resolve_reason option" where
  [model_defs]: "resolve_bool_value pick = evaluate_scalar (extract_bool_value pick) ''Value is not a boolean'' pick"

definition resolve_int_value :: "pick \<Rightarrow> eval_failure + resolve_result \<Rightarrow> (eval_failure + int details) \<times> resolve_reason option" where
  [model_defs]: "resolve_int_value pick =
     evaluate_scalar (\<lambda>v. map_option f64_as_i64 (extract_number_value pick v)) ''Value is not a number'' pick"

definition resolve_float_value :: "pick \<Rightarrow> eval_failure + resolve_result \<Rightarrow> (eval_failure + f64 details) \<times> resolve_reason option" where
  [model_defs]: "resolve_float_value pick = evaluate_scalar (extract_number_value pick) ''Value is not a number'' pick"

definition resolve_string_value :: "pick \<Rightarrow> eval_failure + resolve_result \<Rightarrow> (eval_failure + string details) \<times> resolve_reason option" where
  [model_defs]: "resolve_string_value pick = evaluate_scalar (extract_string_value pick) ''Value is not a string'' pick"

definition resolve_struct_value :: "eval_failure + resolve_result \<Rightarrow> (eval_failure + (string \<times> of_value) list details) \<times> resolve_reason option" where
  [model_defs]: "resolve_struct_value outcome =
     (case outcome of
        Inl EvalPanic \<Rightarrow> (Inl EvalPanic, None)
      | Inl (EvalError e) \<Rightarrow> (Inl (EvalError e), Some RError)
      | Inr result \<Rightarrow>
          (case ro_variant result of
             None \<Rightarrow> (Inl (EvalError (no_variant_matched_error (ro_reason result))), Some (ro_resolve_reason result))
           | Some variant \<Rightarrow>
               (Inr \<lparr>dt_value = (case ro_value result of Some fs \<Rightarrow> proto_struct_to_openfeature fs | None \<Rightarrow> []),
                     dt_variant = Some variant, dt_reason = Some (ro_reason result)\<rparr>, Some (ro_resolve_reason result))))"

text \<open>An evaluation with its telemetry.\<close>

definition register :: "telemetry_env \<Rightarrow> u32 \<Rightarrow> 'a \<times> resolve_reason option \<Rightarrow> telemetry \<Rightarrow> 'a \<times> telemetry" where
  [model_defs]: "register E latency_us answer t =
     (fst answer, case snd answer of Some reason \<Rightarrow> do_register_resolve E reason latency_us t | None \<Rightarrow> t)"

section \<open>A run of the resolver\<close>

text \<open>An answered request names the flags it is for and logs itself once; a suspended one logs nothing.\<close>

definition exposure_events ::
  "host \<Rightarrow> account_resolver \<Rightarrow> bool \<Rightarrow> string \<Rightarrow> resolved_value list \<Rightarrow> host_event list" where
  "exposure_events H R apply i vals =
     (if disable_exposure_collection R \<or> \<not> apply then []
      else [LogAssign i (map (\<lambda>rv. \<lparr>fta_assigned_flag = rv_inner rv, fta_applied_time = current_time H\<rparr>) (filter should_apply vals))
              (ar_client R) (rs_sdk (ar_state R))]) @ [LogResolve i (evaluation_context R) vals (ar_client R)]"

lemma answer_cases:
  assumes "wf_state (ar_state R)" "open_request H request = Inr (state, mc)" "ps_resolve_request state = Some req"
    and "resolve_flags L H i R request = (Inr res, ev)"
  shows "(\<exists>response ws vals. res = Some (Resolved (Some response) ws) \<and> ev = exposure_events H R (rq_apply req) i vals
        \<and> try_map resolved_flag_of vals = Inr (rr_resolved_flags response)
        \<and> map rf_flag (rr_resolved_flags response) = map af_flag (ps_resolved_flags state) @ map flag_name (flags_to_resolve R req (ps_resolved_flags state)))
    \<or> records mc = Discovery \<and> ev = [] \<and> (\<exists>reads assigned ws new fs. res = Some (Suspended reads (encode_state H (state\<lparr>ps_resolved_flags := assigned,
         ps_materializations_to_write := ws\<rparr>))) \<and> assigned = ps_resolved_flags state @ new
         \<and> map af_flag new = map flag_name fs \<and> subseq fs (flags_to_resolve R req (ps_resolved_flags state)))"
  using assms(4)
proof (rule resolve_flags_cases)
  fix state' mc1 req' assigned mc'
  assume o: "open_request H request = Inr (state', mc1)" "ps_resolve_request state' = Some req'"
    and each: "resolve_each L R (flags_to_resolve R req' (ps_resolved_flags state')) (ps_resolved_flags state') mc1 = Inr (assigned, mc')"
    and susp: "to_read mc' \<noteq> [] \<Longrightarrow> ev = [] \<and> res = suspended H (to_read mc') (state'\<lparr>ps_resolved_flags := assigned,
         ps_materializations_to_write := to_write mc'\<rparr>)"
    and resp: "to_read mc' = [] \<Longrightarrow> respond H R req' i (current_time H) assigned (to_write mc') = (Inr res, ev)"
  have st: "state' = state" "mc1 = mc" "req' = req" using o assms(2,3) by auto
  obtain fs new where new: "assigned = ps_resolved_flags state @ new" "answers_of R fs new"
    "subseq fs (flags_to_resolve R req (ps_resolved_flags state))"
    using resolve_each_answers [OF each] unfolding st by blast
  show ?thesis
  proof (cases "to_read mc' = []")
    case True
    from resp [OF True, unfolded st] show ?thesis
    proof (rule respond_cases)
      fix vals rfs token events
      assume v: "try_map resolved_flag_of vals = Inr rfs" "expose H R req i (current_time H) vals = Inr (token, events)"
        "res = resolved \<lparr>rr_resolved_flags = rfs, rr_resolve_token = token, rr_resolve_id = i\<rparr> (to_write mc')"
        "ev = events @ [LogResolve i (evaluation_context R) vals (ar_client R)]"
      have "ev = exposure_events H R (rq_apply req) i vals"
        using v(2,4) by (auto simp: exposure_events_def expose_def split: if_splits sum.splits failure.splits)
      moreover have "into_resolved res = Some (\<lparr>rr_resolved_flags = rfs, rr_resolve_token = token, rr_resolve_id = i\<rparr>, to_write mc')"
        using v(3) by simp
      ultimately show ?thesis
        using response_answers [OF assms(1-4)] v(1,3) by (intro disjI1) (auto simp: resolved_def)
    qed
  next
    case False
    then have "records mc = Discovery"
      using resolve_each_extends [OF each] open_request_modes(1) [OF o(1)] by (auto simp: extends_context_def st)
    with susp [OF False] new answers_names [OF new(2)] show ?thesis by (intro disjI2) (auto simp: suspended_def st)
  qed
qed

lemma request_for_open:
  obtains req where "rq_flags req = [''flags/'' @ flag]" "rq_apply req = (\<not> skip)"
    "open_request H (request_for V flag skip fs) = Inr (fresh_state req, if el_store V \<noteq> None then discovery else unsupported)"
  by (rule that [of "\<lparr>rq_flags = [''flags/'' @ flag], rq_evaluation_context = Some fs,
            rq_client_secret = el_client_secret V, rq_apply = (\<not> skip), rq_sdk = Some (el_sdk V)\<rparr>"])
     (auto simp: request_for_def Let_def open_request_def deferred_materializations_def without_materializations_def)

lemma one_flag:
  assumes "wf_state (ar_state R)" "rq_flags req = [name]"
  shows "map flag_name (flags_to_resolve R req already) \<in> {[], [name]}"
proof -
  have "distinct (map flag_name (flags_to_resolve R req already))" by (rule distinct_flags_to_resolve [OF assms(1)])
  moreover have "set (map flag_name (flags_to_resolve R req already)) \<subseteq> {name}" using assms(2) by (auto simp: flags_to_resolve_def)
  ultimately show ?thesis by (cases "map flag_name (flags_to_resolve R req already)" rule: remdups_adj.cases) auto
qed

lemma one_flag_resumed:
  assumes "wf_state (ar_state R)" "rq_flags req = [name]" "map af_flag new = map flag_name fs" "subseq fs (flags_to_resolve R req [])"
  shows "map af_flag new @ map flag_name (flags_to_resolve R req new) \<in> {[], [name]}"
proof (cases new)
  case Nil
  then show ?thesis using one_flag [OF assms(1,2), of "[]"] by simp
next
  case (Cons a rest)
  have "subseq (map af_flag new) (map flag_name (flags_to_resolve R req []))" unfolding assms(3) by (rule subseq_map [OF assms(4)])
  then have new: "map af_flag new = [name]"
    using one_flag [OF assms(1,2), of "[]"] Cons by (cases rest) (auto dest: list_emb_length split: if_splits)
  then have "flags_to_resolve R req new = []" using assms(2) Cons by (auto simp: flags_to_resolve_def filter_empty_conv)
  with new show ?thesis by simp
qed

text \<open>What the run of the resolver gives: the answer to the one flag, or one of the failures that can happen.\<close>

definition answers_flag :: "host \<Rightarrow> account_resolver \<Rightarrow> string \<Rightarrow> bool \<Rightarrow> resolve_response option \<Rightarrow> host_event list \<Rightarrow> bool" where
  "answers_flag H R flag apply response ev \<longleftrightarrow>
     (\<exists>answer i vals. response = Some answer \<and> map rf_flag (rr_resolved_flags answer) \<in> {[], [''flags/'' @ flag]}
        \<and> try_map resolved_flag_of vals = Inr (rr_resolved_flags answer) \<and> ev = exposure_events H R apply i vals)"

lemma answers_flagI:
  "map rf_flag (rr_resolved_flags answer) \<in> {[], [''flags/'' @ flag]} \<Longrightarrow> try_map resolved_flag_of vals = Inr (rr_resolved_flags answer)
   \<Longrightarrow> answers_flag H R flag apply (Some answer) (exposure_events H R apply i vals)"
  unfolding answers_flag_def by (intro exI [of _ answer] exI [of _ i] exI [of _ vals] conjI refl)

definition failure_leads :: "string set" where
  "failure_leads = {''Failed to resolve: '', ''Failed to read materializations: '', ''Failed to resolve after resume: ''}"

definition resolver_failure :: "eval_failure \<Rightarrow> bool" where
  "resolver_failure f \<longleftrightarrow> f = EvalPanic \<or> (\<exists>lead\<in>failure_leads. \<exists>detail. f = EvalError (eval_general (lead @ detail)))"

lemma resolver_failure_prefix:
  assumes "lead \<in> failure_leads"
  shows "resolver_failure (with_prefix lead e)" "resolver_failure (EvalError (eval_general (lead @ detail)))"
proof -
  show error: "resolver_failure (EvalError (eval_general (lead @ detail)))" for detail
    unfolding resolver_failure_def using assms by blast
  show "resolver_failure (with_prefix lead e)"
    using error by (cases e) (simp_all add: with_prefix_def, simp add: resolver_failure_def)
qed

lemma leads: "''Failed to resolve: '' \<in> failure_leads" "''Failed to read materializations: '' \<in> failure_leads"
  "''Failed to resolve after resume: '' \<in> failure_leads"
  by (simp_all add: failure_leads_def)

text \<open>A run that suspends gets its continuation back as it was.\<close>

definition continuation_kept :: "libs \<Rightarrow> host \<Rightarrow> string \<Rightarrow> account_resolver \<Rightarrow> process_request option \<Rightarrow> bool" where
  "continuation_kept L H i R request \<longleftrightarrow>
     (\<forall>reads st. resolve_flags L H i R request = (Inr (suspended H reads st), []) \<longrightarrow> decode_state H (encode_state H st) = Inr st)"

lemma run_resolver_outcome:
  assumes "wf_state (ar_state R)" "continuation_kept L H (fst ids) R (request_for V flag skip fs)"
    and run: "run_resolver L H ids V R (request_for V flag skip fs) w = (out, w', ev)"
  shows "case out of Inr (response, ws) \<Rightarrow> answers_flag H R flag (\<not> skip) response ev | Inl f \<Rightarrow> resolver_failure f"
proof -
  obtain req where req: "rq_flags req = [''flags/'' @ flag]" "rq_apply req = (\<not> skip)"
    "open_request H (request_for V flag skip fs) = Inr (fresh_state req, if el_store V \<noteq> None then discovery else unsupported)"
    by (rule request_for_open)
  have fresh: "ps_resolve_request (fresh_state req) = Some req" "ps_resolved_flags (fresh_state req) = []" by (simp_all add: fresh_state_def)
  obtain r1 ev1 where one: "resolve_flags L H (fst ids) R (request_for V flag skip fs) = (r1, ev1)"
    by (cases "resolve_flags L H (fst ids) R (request_for V flag skip fs)")
  note run = run [unfolded run_resolver_def one]
  show ?thesis
  proof (cases r1)
    case (Inl e)
    then show ?thesis using run resolver_failure_prefix(1) [OF leads(1), of e] by auto
  next
    case (Inr res)
    from answer_cases [OF assms(1) req(3) fresh(1) one [unfolded Inr], unfolded fresh] show ?thesis
    proof (elim disjE exE conjE)
      fix response ws vals
      assume a: "res = Some (Resolved (Some response) ws)" "ev1 = exposure_events H R (rq_apply req) (fst ids) vals"
        "try_map resolved_flag_of vals = Inr (rr_resolved_flags response)"
        "map rf_flag (rr_resolved_flags response) = map af_flag [] @ map flag_name (flags_to_resolve R req [])"
      then have "out = Inr (Some response, ws)" "ev = exposure_events H R (\<not> skip) (fst ids) vals" using run Inr by (auto simp: req(2))
      moreover have "map rf_flag (rr_resolved_flags response) \<in> {[], [''flags/'' @ flag]}"
        unfolding a(4) using one_flag [OF assms(1) req(1), of "[]"] by simp
      ultimately show ?thesis using a(3) by (simp add: answers_flagI)
    next
      fix reads assigned ws new fs'
      let ?st = "(fresh_state req)\<lparr>ps_resolved_flags := assigned, ps_materializations_to_write := ws\<rparr>"
      assume s: "ev1 = []" "res = Some (Suspended reads (encode_state H ?st))" "assigned = [] @ new"
        "map af_flag new = map flag_name fs'" "subseq fs' (flags_to_resolve R req [])"
      obtain found w1 where rd: "read_materializations V reads w = (found, w1)" by (cases "read_materializations V reads w")
      show ?thesis
      proof (cases found)
        case (Inl e)
        then show ?thesis using run Inr s(1,2) rd resolver_failure_prefix(2) [OF leads(2)] by auto
      next
        case found: (Inr recs)
        have kept: "decode_state H (encode_state H ?st) = Inr ?st"
          using assms(2) one Inr s(1,2) unfolding continuation_kept_def by (simp add: suspended_def)
        let ?again = "resume recs (encode_state H ?st)"
        obtain r2 ev2 where two: "resolve_flags L H (snd ids) R ?again = (r2, ev2)" by (cases "resolve_flags L H (snd ids) R ?again")
        show ?thesis
        proof (cases r2)
          case (Inl e)
          then show ?thesis using run Inr s(1,2) rd found two resolver_failure_prefix(1) [OF leads(3), of e] by auto
        next
          case again: (Inr res2)
          obtain mc where o2: "open_request H ?again = Inr (?st\<lparr>ps_materializations_to_write := []\<rparr>, mc)" "records mc \<noteq> Discovery"
            by (simp add: open_request_def resume_def kept Let_def complete_def)
          have "ps_resolve_request (?st\<lparr>ps_materializations_to_write := []\<rparr>) = Some req" by (simp add: fresh_state_def)
          from answer_cases [OF assms(1) o2(1) this two [unfolded again]] o2(2) obtain response ws' vals where a:
            "res2 = Some (Resolved (Some response) ws')" "ev2 = exposure_events H R (rq_apply req) (snd ids) vals"
            "try_map resolved_flag_of vals = Inr (rr_resolved_flags response)"
            "map rf_flag (rr_resolved_flags response) = map af_flag assigned @ map flag_name (flags_to_resolve R req assigned)"
            by (elim disjE exE conjE) (simp, blast)
          then have "out = Inr (Some response, ws')" "ev = exposure_events H R (\<not> skip) (snd ids) vals"
            using run Inr s(1,2) rd found two again by (auto simp: req(2))
          moreover have "map rf_flag (rr_resolved_flags response) \<in> {[], [''flags/'' @ flag]}"
            unfolding a(4) using one_flag_resumed [OF assms(1) req(1) s(4,5)] s(3) by simp
          ultimately show ?thesis using a(3) by (simp add: answers_flagI)
        qed
      qed
    qed
  qed
qed

section \<open>Properties of an evaluation\<close>

text \<open>C32: An evaluation is the resolve of one flag. With a state and a faithful encoding of the continuation, whatever
  the materialization store does: an evaluation that succeeds reads its result from a response that holds at most the flag
  that was asked for, logs that resolve once, and reports an assignment exactly when exposure is not skipped by the
  provider's option or the evaluation's field; one that fails with an error says that there is no resolver for the secret, that the
  resolver failed, or that the store failed. A second suspension or a missing response never happens.\<close>

theorem evaluation_resolves_the_flag:
  assumes "current_state V = Inr state" "wf_state state"
    and "\<And>R. get_resolver state (el_client_secret V) (convert_evaluation_context ctx') (replicate 16 0) = Inr R \<Longrightarrow>
      continuation_kept L H (fst ids) (with_disable_exposure_collection R (el_disable_exposure V))
        (request_for V flag skip (convert_evaluation_context ctx'))"
    and "provider_resolve_flag L H ids V flag_key ctx w = (out, w', ev)"
    and "parse_flag_path flag_key = (flag, path)" "skip_exposure (el_disable_exposure V) ctx = (skip, ctx')"
  shows "case out of
      Inr result \<Rightarrow> (\<exists>R response i vals. get_resolver state (el_client_secret V) (convert_evaluation_context ctx') (replicate 16 0) = Inr R
        \<and> result = result_of_response path response \<and> map rf_flag (rr_resolved_flags response) \<in> {[], [''flags/'' @ flag]} \<and> try_map resolved_flag_of vals = Inr (rr_resolved_flags response)
        \<and> ev = (if skip then [] else [LogAssign i (map (\<lambda>rv. \<lparr>fta_assigned_flag = rv_inner rv, fta_applied_time = current_time H\<rparr>)
              (filter should_apply vals)) (ar_client R) (rs_sdk state)]) @ [LogResolve i (evaluation_context R) vals (ar_client R)])
    | Inl f \<Rightarrow> f = EvalPanic \<or> (\<exists>detail. \<exists>lead\<in>insert ''Failed to get resolver: '' failure_leads. f = EvalError (eval_general (lead @ detail)))"
proof -
  note eval = assms(4) [unfolded provider_resolve_flag_def assms(1,5,6) Let_def, simplified]
  show ?thesis
  proof (cases "get_resolver state (el_client_secret V) (convert_evaluation_context ctx') (replicate 16 0)")
    case (Inl e)
    then show ?thesis using eval by (cases e) (auto simp: with_prefix_def)
  next
    case (Inr R0)
    define R where "R = with_disable_exposure_collection R0 (el_disable_exposure V)"
    have R: "ar_state R = state" "disable_exposure_collection R = el_disable_exposure V"
      "ar_client R = ar_client R0" "evaluation_context R = evaluation_context R0"
      using Inr by (auto simp: R_def with_disable_exposure_collection_def get_resolver_def resolver_new_def split: option.splits)
    obtain r w1 ev1 where run: "run_resolver L H ids V R (request_for V flag skip (convert_evaluation_context ctx')) w = (r, w1, ev1)"
      by (cases "run_resolver L H ids V R (request_for V flag skip (convert_evaluation_context ctx')) w")
    have skips: "el_disable_exposure V \<Longrightarrow> skip" using assms(6) by (auto simp: skip_exposure_def)
    note outcome = run_resolver_outcome [OF _ assms(3) [OF Inr, folded R_def] run, unfolded R(1), OF assms(2)]
    note eval = eval [unfolded Inr, simplified, folded R_def, unfolded run, simplified]
    show ?thesis
    proof (cases r)
      case (Inl f)
      then have "out = Inl f" "resolver_failure f" using eval outcome by auto
      then show ?thesis unfolding resolver_failure_def by (simp, blast)
    next
      case resp: (Inr answer)
      obtain response ws where answer: "answer = (response, ws)" by (cases answer)
      obtain got i vals where a: "response = Some got" "map rf_flag (rr_resolved_flags got) \<in> {[], [''flags/'' @ flag]}"
        "try_map resolved_flag_of vals = Inr (rr_resolved_flags got)" "ev1 = exposure_events H R (\<not> skip) i vals"
        using outcome unfolding resp answer answers_flag_def by auto
      have out: "out = Inr (result_of_response path got)" "ev = ev1"
        using eval unfolding resp answer a(1) by (auto split: if_splits)
      have ev: "ev = (if skip then [] else [LogAssign i (map (\<lambda>rv. \<lparr>fta_assigned_flag = rv_inner rv, fta_applied_time = current_time H\<rparr>)
          (filter should_apply vals)) (ar_client R0) (rs_sdk state)]) @ [LogResolve i (evaluation_context R0) vals (ar_client R0)]"
        using skips by (auto simp: out(2) a(4) exposure_events_def R)
      show ?thesis unfolding out(1) sum.case
        by (intro exI [of _ R0] exI [of _ got] exI [of _ i] exI [of _ vals] conjI Inr refl a(2,3) ev)
    qed
  qed
qed

text \<open>Navigation reaches the value at a path and wraps it under its last name.\<close>

lemma navigate_leaf:
  "find_path fs parts = Some (Some kind) \<Longrightarrow> \<not> is_struct (Some kind) \<Longrightarrow> navigate_parts fs parts = Some [(last parts, Some kind)]"
proof (induction fs parts rule: find_path.induct)
  case (2 s k)
  then show ?case by (cases kind) auto
next
  case (3 s k k' ks)
  obtain inner where "map_of s k = Some (Some (StructValue inner))"
    using "3.prems"(1) by (cases "map_of s k" rule: struct_fields.cases) auto
  with 3 show ?case by simp
qed simp


text \<open>
  Without a path, or with one that ends at a struct, a scalar evaluation answers with some member of the struct: which one depends on
  the order of the hash map, and there is no type mismatch.
\<close>

lemma struct_answers_any_member:
  assumes "ro_variant result = Some variant" "ro_value result = Some fs" "pick fs = Some (k, Some (BoolValue b))"
  shows "fst (resolve_bool_value pick (Inr result)) = Inr \<lparr>dt_value = b, dt_variant = Some variant, dt_reason = Some (ro_reason result)\<rparr>"
  using assms by (simp add: resolve_bool_value_def evaluate_scalar_def is_null_value_def extract_bool_value_def first_kind_def)

text \<open>With the provider's option set, the evaluation's field is not taken out and reaches the resolver as an attribute.\<close>

lemma skip_field_reaches_context:
  "map_of (convert_evaluation_context (snd (skip_exposure True \<lparr>ec_targeting_key = None, ec_custom_fields = [(SKIP_APPLY, OfBool True)]\<rparr>))) SKIP_APPLY
     = Some (Some (BoolValue True))"
  "map_of (convert_evaluation_context (snd (skip_exposure False \<lparr>ec_targeting_key = None, ec_custom_fields = [(SKIP_APPLY, OfBool True)]\<rparr>))) SKIP_APPLY
     = None"
  by (simp_all add: skip_exposure_def convert_evaluation_context_def)

section \<open>The store\<close>

text \<open>What a store holds: the included units and the stored variants, of which every unit is included. Its answer to an operation.\<close>

definition store_answer :: "(string \<Rightarrow> string \<Rightarrow> bool) \<Rightarrow> (string \<Rightarrow> string \<Rightarrow> string \<Rightarrow> string option) \<Rightarrow> read_op \<Rightarrow> read_result" where
  "store_answer incl var op =
     (case op of ReadVariant u m r \<Rightarrow> VariantResult u m r (var u m r) | ReadInclusion u m \<Rightarrow> InclusionResult u m (incl u m))"

lemma found_record:
  "record_of_result (store_answer incl var (read_op_of q)) = Some found \<longleftrightarrow>
     (if mr_rule q = [] then incl (mr_unit q) (mr_materialization q)
        \<and> found = \<lparr>mr_unit = mr_unit q, mr_materialization = mr_materialization q, mr_rule = [], mr_variant = []\<rparr>
      else (\<exists>v. var (mr_unit q) (mr_materialization q) (mr_rule q) = Some v
        \<and> found = \<lparr>mr_unit = mr_unit q, mr_materialization = mr_materialization q, mr_rule = mr_rule q, mr_variant = v\<rparr>))"
  by (auto simp: read_op_of_def store_answer_def)

text \<open>What the store holds is what a resumed resolve sees. For every read that was asked for, when the store answers each
  operation, the resumed run finds a stored variant exactly if the store has one for that unit, materialization and rule, and
  finds the unit included exactly if the store includes it; a variant that is stored implies the inclusion.\<close>

lemma store_answers_reads:
  assumes "so_read store (materialization_records_to_read_ops asked) w
      = (Inr (map (store_answer incl var) (materialization_records_to_read_ops asked)), w')"
    and "el_store V = Some store" "q \<in> set asked" "\<And>u m r. var u m r \<noteq> None \<Longrightarrow> incl u m"
  shows "\<exists>found. read_materializations V asked w = (Inr found, w')
    \<and> (mr_rule q \<noteq> [] \<longrightarrow> fst (has_rule_materialization (mr_materialization q) (mr_unit q) (mr_rule q) (complete found))
         = Inr (Some (var (mr_unit q) (mr_materialization q) (mr_rule q) \<noteq> None)))
    \<and> (mr_rule q = [] \<longrightarrow> fst (is_unit_in_materialization (mr_materialization q) (mr_unit q) (complete found))
         = Inr (Some (incl (mr_unit q) (mr_materialization q))))"
proof -
  let ?found = "List.map_filter (\<lambda>q. record_of_result (store_answer incl var (read_op_of q))) asked"
  have "read_materializations V asked w = (Inr ?found, w')"
    using assms(1,2) by (simp add: read_materializations_def materialization_records_to_read_ops_def
        read_results_to_materialization_records_def List.map_filter_def comp_def filter_map)
  moreover have mem: "r \<in> set ?found \<longleftrightarrow> (\<exists>p\<in>set asked. record_of_result (store_answer incl var (read_op_of p)) = Some r)" for r
    by (auto simp: List.map_filter_def image_iff)
  moreover have "list_ex (record_matches (mr_unit q) (mr_materialization q) (mr_rule q)) ?found
      \<longleftrightarrow> var (mr_unit q) (mr_materialization q) (mr_rule q) \<noteq> None" if rule: "mr_rule q \<noteq> []"
  proof
    assume "var (mr_unit q) (mr_materialization q) (mr_rule q) \<noteq> None"
    then obtain v where "var (mr_unit q) (mr_materialization q) (mr_rule q) = Some v" by blast
    then have "\<lparr>mr_unit = mr_unit q, mr_materialization = mr_materialization q, mr_rule = mr_rule q, mr_variant = v\<rparr> \<in> set ?found"
      unfolding mem found_record using assms(3) rule by (intro bexI [of _ q]) auto
    then show "list_ex (record_matches (mr_unit q) (mr_materialization q) (mr_rule q)) ?found"
      unfolding list_ex_iff record_matches_def by (rule bexI [rotated]) simp
  next
    assume "list_ex (record_matches (mr_unit q) (mr_materialization q) (mr_rule q)) ?found"
    then show "var (mr_unit q) (mr_materialization q) (mr_rule q) \<noteq> None"
      unfolding list_ex_iff Bex_def mem found_record record_matches_def using rule by (auto split: if_splits)
  qed
  moreover have "list_ex (\<lambda>r. mr_unit r = mr_unit q \<and> mr_materialization r = mr_materialization q) ?found
      \<longleftrightarrow> incl (mr_unit q) (mr_materialization q)" if rule: "mr_rule q = []"
  proof
    assume "incl (mr_unit q) (mr_materialization q)"
    then have "\<lparr>mr_unit = mr_unit q, mr_materialization = mr_materialization q, mr_rule = [], mr_variant = []\<rparr> \<in> set ?found"
      unfolding mem found_record using assms(3) rule by (intro bexI [of _ q]) auto
    then show "list_ex (\<lambda>r. mr_unit r = mr_unit q \<and> mr_materialization r = mr_materialization q) ?found"
      unfolding list_ex_iff by (rule bexI [rotated]) simp
  next
    assume "list_ex (\<lambda>r. mr_unit r = mr_unit q \<and> mr_materialization r = mr_materialization q) ?found"
    then show "incl (mr_unit q) (mr_materialization q)"
      unfolding list_ex_iff Bex_def mem found_record using assms(4) by (fastforce split: if_splits)
  qed
  ultimately show ?thesis
    by (intro exI [of _ ?found]) (auto simp: has_rule_materialization_def is_unit_in_materialization_def complete_def)
qed

section \<open>Instances\<close>

text \<open>A provider whose only flag has a sticky rule, and a store that remembers the variant of the unit.\<close>

definition provider_state :: resolver_state where
  "provider_state = (ar_state (resolver_with [sticky_flag [sticky_rule]]))\<lparr>rs_secrets := [(''secret'', example_client)]\<rparr>"

definition example_store :: "unit store" where
  "example_store = \<lparr>so_read = (\<lambda>ops w. (Inr (map (store_answer (\<lambda>u m. u = ''user'') (\<lambda>u m r. if u = ''user'' then Some ''flags/f/variants/on'' else None)) ops), w)),
     so_write = (\<lambda>ops w. (Inr (), w))\<rparr>"

definition example_evaluator :: "unit evaluator" where
  "example_evaluator = \<lparr>el_client_secret = ''secret'', el_shared = shared_update (provider_state, ''a'', [Edge]) shared_state_new,
     el_store = Some example_store, el_disable_exposure = False, el_sdk = \<lparr>sdk_id = None, sdk_version = []\<rparr>\<rparr>"

definition example_eval_context :: eval_context where
  "example_eval_context = \<lparr>ec_targeting_key = Some ''user'', ec_custom_fields = []\<rparr>"

definition provider_request :: resolve_request where
  "provider_request = \<lparr>rq_flags = [''flags/f''], rq_evaluation_context = Some [(''targeting_key'', Some (StringValue ''user''))],
     rq_client_secret = ''secret'', rq_apply = True, rq_sdk = Some \<lparr>sdk_id = None, sdk_version = []\<rparr>\<rparr>"

definition provider_host :: host where
  "provider_host = (example_host (token_for ''id'' []) (fresh_state provider_request))
     \<lparr>encode_state := (\<lambda>st. if st = fresh_state provider_request then [] else [1])\<rparr>"

lemma provider_parts:
  "current_state example_evaluator = Inr provider_state" "parse_flag_path ''f'' = (''f'', None)"
  "skip_exposure (el_disable_exposure example_evaluator) example_eval_context = (False, example_eval_context)"
  "convert_evaluation_context example_eval_context = [(''targeting_key'', Some (StringValue ''user''))]"
  "request_for example_evaluator ''f'' False [(''targeting_key'', Some (StringValue ''user''))] = deferred_materializations provider_request"
  by (simp_all add: example_evaluator_def current_state_def shared_update_def shared_state_new_def parse_flag_path_def skip_exposure_def
      example_eval_context_def convert_evaluation_context_def request_for_def provider_request_def deferred_materializations_def)

lemma provider_resolver:
  "get_resolver provider_state (el_client_secret example_evaluator) [(''targeting_key'', Some (StringValue ''user''))] key
     = Inr (resolver_new example_client provider_state [(''targeting_key'', Some (StringValue ''user''))] key)"
  by (simp add: get_resolver_def provider_state_def example_evaluator_def example_client_def merge_context_def unflatten_def)

lemma provider_suspends:
  "resolve_flags example_libs provider_host i (with_disable_exposure_collection
      (resolver_new example_client provider_state [(''targeting_key'', Some (StringValue ''user''))] key) False)
      (deferred_materializations provider_request)
    = (Inr (suspended provider_host [sticky_record\<lparr>mr_variant := []\<rparr>] (fresh_state provider_request)), [])"
  by (simp add: provider_host_def provider_request_def provider_state_def resolver_new_def with_disable_exposure_collection_def process_defs resolve_defs)

lemma provider_resumes:
  "\<exists>response vals. resolve_flags example_libs provider_host i (with_disable_exposure_collection
      (resolver_new example_client provider_state [(''targeting_key'', Some (StringValue ''user''))] key) False) (resume [sticky_record] [])
    = (Inr (Some (Resolved (Some response) [])), vals)"
  by (simp add: provider_host_def provider_request_def provider_state_def resolver_new_def with_disable_exposure_collection_def process_defs resolve_defs)

lemma provider_reads:
  "read_materializations example_evaluator [sticky_record\<lparr>mr_variant := []\<rparr>] w = (Inr [sticky_record], w)"
  by (simp add: read_materializations_def example_evaluator_def example_store_def materialization_records_to_read_ops_def read_op_of_def
      read_results_to_materialization_records_def store_answer_def List.map_filter_simps sticky_record_def)

theorem evaluation_resolves_the_flag_witness:
  "\<exists>result ev. provider_resolve_flag example_libs provider_host (''i1'', ''i2'') example_evaluator ''f'' example_eval_context ()
     = (Inr result, (), ev) \<and> length ev = 2"
proof -
  let ?R = "\<lambda>key. resolver_new example_client provider_state [(''targeting_key'', Some (StringValue ''user''))] key"
  have off: "el_disable_exposure example_evaluator = False" by (simp add: example_evaluator_def)
  have enc: "encode_state provider_host st = (if st = fresh_state provider_request then [] else [1])"
    "decode_state provider_host [] = Inr (fresh_state provider_request)" for st
    by (simp_all add: provider_host_def example_host_def)
  obtain response ev where resumed: "resolve_flags example_libs provider_host ''i2'' (with_disable_exposure_collection (?R (replicate 16 0)) False)
      (resume [sticky_record] []) = (Inr (Some (Resolved (Some response) [])), ev)"
    using provider_resumes by blast
  have run: "provider_resolve_flag example_libs provider_host (''i1'', ''i2'') example_evaluator ''f'' example_eval_context ()
      = (Inr (result_of_response None response), (), ev)"
    unfolding provider_resolve_flag_def provider_parts sum.case prod.case Let_def provider_resolver run_resolver_def
    by (simp add: off provider_suspends suspended_def provider_reads enc resumed)
  have kept: "continuation_kept example_libs provider_host (fst (''i1'', ''i2'')) (with_disable_exposure_collection R (el_disable_exposure example_evaluator))
      (request_for example_evaluator ''f'' False (convert_evaluation_context example_eval_context))"
    if "get_resolver provider_state (el_client_secret example_evaluator) (convert_evaluation_context example_eval_context) (replicate 16 0) = Inr R" for R
  proof -
    have "R = ?R (replicate 16 0)" using that unfolding provider_parts(4) provider_resolver by simp
    then show ?thesis unfolding provider_parts(4,5) off
      by (auto simp: continuation_kept_def provider_suspends suspended_def enc split: if_splits)
  qed
  have "wf_state provider_state" by (simp add: provider_state_def resolver_with_def wf_state_def sticky_resolver_def distinct_keys_def all_segment_def sticky_flag_def)
  from evaluation_resolves_the_flag [OF provider_parts(1) this kept run provider_parts(2,3)]
  have "length ev = 2" by auto
  with run show ?thesis by blast
qed


theorem store_answers_reads_witness:
  "\<exists>found. read_materializations example_evaluator [sticky_record\<lparr>mr_variant := []\<rparr>] () = (Inr found, ())
     \<and> fst (has_rule_materialization ''m'' ''user'' ''flags/f/rules/sticky'' (complete found)) = Inr (Some True)"
proof -
  let ?incl = "\<lambda>u (m :: string). u = ''user''" and ?var = "\<lambda>u (m :: string) (r :: string). if u = ''user'' then Some ''flags/f/variants/on'' else None"
  have "so_read example_store ops () = (Inr (map (store_answer ?incl ?var) ops), ())" for ops by (simp add: example_store_def)
  note answers = this
  have "?var u m r \<noteq> None \<Longrightarrow> ?incl u m" for u m r by (simp split: if_splits)
  from store_answers_reads [OF answers _ _ this, of example_evaluator "sticky_record\<lparr>mr_variant := []\<rparr>" "[sticky_record\<lparr>mr_variant := []\<rparr>]"]
  show ?thesis by (simp add: example_evaluator_def sticky_record_def)
qed

end
