(* ===== verification/Event_Host.thy ===== *)
theory Event_Host
  imports Resolve_Process Assign_Log
begin

text \<open>
  The interface between the resolver and its hosts: the trait \<open>Host\<close> of \<open>confidence-resolver/src/lib.rs\<close> as the contract of its two logging
  callbacks. A host reports of a batch of applies what its deduplication keeps, and its table and counters account for the rest.
  The contract of a whole list of events follows from that of one. The WebAssembly guest, the Cloudflare worker and the
  native host of the OpenFeature provider implement it.
\<close>

section \<open>What the filter keeps\<close>

text \<open>The flags the filter keeps cover the identities of the batch that the table does not hold.\<close>

lemma survivors_cover:
  "survivors flags now D = (keeps, D') \<Longrightarrow> kept = map fst (filter snd (zip flags keeps)) \<Longrightarrow>
     seen_hashes D' \<subseteq> seen_hashes D \<union> hash_of ` set kept \<and> hash_of ` set flags \<subseteq> seen_hashes D \<union> hash_of ` set kept"
proof (induction flags arbitrary: D keeps kept)
  case (Cons f flags)
  from Cons.prems(1) obtain new D1 rest where k: "probe (hash_of f) now D = (new, D1)"
    "survivors flags now D1 = (rest, D')" "keeps = new # rest" by (rule survivors_ConsE)
  note pr = probe_result [OF k(1)]
  have "seen_hashes D1 \<subseteq> seen_hashes D \<union> (if new then {hash_of f} else {})" using pr(1,3) by auto
  then show ?case using Cons.IH [OF k(2) refl] pr(1) k(3) Cons.prems(2) by (auto split: if_splits)
qed simp

lemma filter_duplicates_cover:
  assumes "filter_duplicates flags now D = (r, D')"
  shows "set (dedup_collect r flags) \<subseteq> set flags"
    "seen_hashes D' \<subseteq> seen_hashes D \<union> hash_of ` set (dedup_collect r flags)"
    "hash_of ` set flags \<subseteq> seen_hashes D \<union> hash_of ` set (dedup_collect r flags)"
    "length (dedup_collect r flags) = kept_count r"
    "kept_count r = length flags \<Longrightarrow> dedup_collect r flags = flags"
    "ad_applies_total D' = ad_applies_total D + of_nat (length flags)"
    "ad_applies_deduped D' = ad_applies_deduped D + of_nat (length flags - length (dedup_collect r flags))"
    "length (dedup_collect r flags) \<le> length flags"
proof -
  obtain keeps where s: "survivors flags (max now (ad_last_sweep_seconds D)) D = (keeps, D')"
    using filter_duplicates_survivors(1) [OF assms] by (metis prod.collapse)
  have len: "length keeps = length flags" using survivors_length s by (metis fst_conv)
  have kept: "is_kept r j \<longleftrightarrow> keeps ! j" if "j < length flags" for j
    using filter_duplicates_survivors(3) [OF assms that] s by simp
  have c: "dedup_collect r flags = map fst (filter snd (zip flags keeps))"
    using collect_filter [OF len, of r 0] kept filter_duplicates_survivors(2) [OF assms] s all_kept_zip [OF _ len] len
    by (auto simp: dedup_collect_def kept_count_def)
  show "set (dedup_collect r flags) \<subseteq> set flags" by (auto simp: c dest: set_zip_leftD)
  show "seen_hashes D' \<subseteq> seen_hashes D \<union> hash_of ` set (dedup_collect r flags)"
    "hash_of ` set flags \<subseteq> seen_hashes D \<union> hash_of ` set (dedup_collect r flags)"
    using survivors_cover [OF s c] by blast+
  have "length (filter snd (zip flags ks)) = length (filter (\<lambda>b. b) ks)" if "length ks = length flags" for ks
    using that by (induction ks flags rule: list_induct2) simp_all
  then show count: "length (dedup_collect r flags) = kept_count r"
    using filter_duplicates_survivors(2) [OF assms] s len by (simp add: c)
  have "length flags = length (filter (\<lambda>b. b) keeps) + length (filter Not keeps)"
    using sum_length_filter_compl [of "\<lambda>b. b" keeps] len by simp
  then show "ad_applies_total D' = ad_applies_total D + of_nat (length flags)"
    "ad_applies_deduped D' = ad_applies_deduped D + of_nat (length flags - length (dedup_collect r flags))"
    "length (dedup_collect r flags) \<le> length flags"
    using survivors_state [OF s] filter_duplicates_survivors(2) [OF assms] s count by simp_all
  show "kept_count r = length flags \<Longrightarrow> dedup_collect r flags = flags"
    by (simp add: dedup_collect_def kept_count_def)
qed

lemma dedup_is_empty_collect: "filter_duplicates flags now D = (r, D') \<Longrightarrow> dedup_is_empty r \<longleftrightarrow> dedup_collect r flags = []"
  by (drule filter_duplicates_cover(4)) (auto simp: dedup_is_empty_def kept_count_def)

section \<open>The contract\<close>

text \<open>The flags that a list of events applies.\<close>

definition applied_of :: "host_event list \<Rightarrow> flag_to_apply list" where
  "applied_of events = concat (map (\<lambda>e. case e of LogAssign _ flags _ _ \<Rightarrow> flags | LogResolve _ _ _ _ \<Rightarrow> []) events)"

lemma applied_of_simps [simp]:
  "applied_of [] = []" "applied_of (LogAssign i flags c s # events) = flags @ applied_of events"
  "applied_of (LogResolve i fs rvs cl # events) = applied_of events"
  by (simp_all add: applied_of_def)

text \<open>The books of a batch of applies: what is kept of it, and what the table and its counters say.\<close>

definition booked :: "bool \<Rightarrow> flag_to_apply list \<Rightarrow> flag_to_apply list \<Rightarrow> apply_dedup \<Rightarrow> apply_dedup \<Rightarrow> bool" where
  "booked dedup_on applied kept D D' \<longleftrightarrow> set kept \<subseteq> set applied \<and> length kept \<le> length applied \<and>
     (if dedup_on then hash_of ` set applied \<subseteq> seen_hashes D \<union> hash_of ` set kept \<and> seen_hashes D' \<subseteq> seen_hashes D \<union> hash_of ` set kept
        \<and> ad_applies_total D' = ad_applies_total D + of_nat (length applied)
        \<and> ad_applies_deduped D' = ad_applies_deduped D + of_nat (length applied - length kept)
      else kept = applied \<and> D' = D)"

lemma booked_append:
  assumes "booked b as ks D D1" "booked b as' ks' D1 D'"
  shows "booked b (as @ as') (ks @ ks') D D'"
proof -
  have "length (as @ as') - length (ks @ ks') = (length as - length ks) + (length as' - length ks')"
    using assms by (simp add: booked_def)
  then show ?thesis using assms unfolding booked_def by (cases b) (auto simp: image_Un)
qed

lemma booked_none [simp]: "booked b [] [] D D"
  by (simp add: booked_def)

lemma booked_all: "flags = [] \<or> \<not> b \<Longrightarrow> booked b flags flags D D"
  by (auto simp: booked_def)

lemma booked_filter: "filter_duplicates flags now D = (r, D') \<Longrightarrow> booked True flags (dedup_collect r flags) D D'"
  using filter_duplicates_cover by (simp add: booked_def)

lemma booked_counts:
  assumes "booked b flags kept D D'"
  shows "\<not> b \<longrightarrow> kept = flags" "length kept \<le> length flags"
    "ad_applies_total D' = ad_applies_total D + of_nat (if b then length flags else 0)"
    "ad_applies_deduped D' = ad_applies_deduped D + of_nat (length flags - length kept)"
  using assms by (auto simp: booked_def split: if_splits)

lemma booked_seen:
  assumes "booked b flags kept D D'"
  shows "set kept \<subseteq> set flags" "seen_hashes D' \<subseteq> seen_hashes D \<union> hash_of ` set kept"
    "hash_of ` set flags \<subseteq> seen_hashes D \<union> hash_of ` set kept"
  using assms by (cases b; simp add: booked_def)+

locale event_host =
  fixes deliver :: "host_event \<Rightarrow> 's \<Rightarrow> 's" and reports :: "'s \<Rightarrow> applied_event list"
    and table :: "'s \<Rightarrow> apply_dedup" and dedup_on :: "'s \<Rightarrow> bool"
  assumes switch: "dedup_on (deliver e s) = dedup_on s"
    and resolve_reports: "reports (deliver (LogResolve i fs rvs c) s) = reports s"
    and resolve_table: "table (deliver (LogResolve i fs rvs c) s) = table s"
    and assign_books: "\<exists>kept. reports (deliver (LogAssign i flags c k) s) = reports s @ map applied_event_of kept
      \<and> booked (dedup_on s) flags kept (table s) (table (deliver (LogAssign i flags c k) s))"
begin

lemma events_switch: "dedup_on (fold deliver events s) = dedup_on s"
  by (induction events arbitrary: s) (simp_all add: switch)

lemma events_books:
  "\<exists>kept. reports (fold deliver events s) = reports s @ map applied_event_of kept
     \<and> booked (dedup_on s) (applied_of events) kept (table s) (table (fold deliver events s))"
proof (induction events arbitrary: s)
  case Nil
  show ?case by (intro exI [of _ "[]"]) simp
next
  case (Cons e events)
  have "\<exists>kept. reports (deliver e s) = reports s @ map applied_event_of kept \<and> booked (dedup_on s) (applied_of [e]) kept (table s) (table (deliver e s))"
  proof (cases e)
    case (LogAssign i flags c k)
    then show ?thesis using assign_books by simp
  next
    case (LogResolve i fs rvs c)
    then show ?thesis by (intro exI [of _ "[]"]) (simp add: resolve_reports resolve_table)
  qed
  then obtain kept where k: "reports (deliver e s) = reports s @ map applied_event_of kept"
    "booked (dedup_on s) (applied_of [e]) kept (table s) (table (deliver e s))" by blast
  obtain kept' where k': "reports (fold deliver events (deliver e s)) = reports (deliver e s) @ map applied_event_of kept'"
    "booked (dedup_on s) (applied_of events) kept' (table (deliver e s)) (table (fold deliver events (deliver e s)))"
    using Cons.IH [of "deliver e s"] by (auto simp: switch)
  have "applied_of (e # events) = applied_of [e] @ applied_of events" by (simp add: applied_of_def)
  then show ?case using k k' booked_append [OF k(2) k'(2)] by (intro exI [of _ "kept @ kept'"]) simp
qed

text \<open>Without deduplication every apply is reported, in order; with it every identity is in the table before or is reported.\<close>

lemma reports_all: "\<not> dedup_on s \<Longrightarrow> reports (fold deliver events s) = reports s @ map applied_event_of (applied_of events)"
  using events_books [of events s] by (auto simp: booked_def)

lemma reports_every_identity:
  "f \<in> set (applied_of events) \<Longrightarrow> hash_of f \<notin> seen_hashes (table s) \<Longrightarrow>
     \<exists>g \<in> set (applied_of events). hash_of g = hash_of f \<and> applied_event_of g \<in> set (reports (fold deliver events s))"
proof -
  assume f: "f \<in> set (applied_of events)" "hash_of f \<notin> seen_hashes (table s)"
  obtain kept where k: "reports (fold deliver events s) = reports s @ map applied_event_of kept"
    "booked (dedup_on s) (applied_of events) kept (table s) (table (fold deliver events s))" using events_books by blast
  have "hash_of f \<in> hash_of ` set kept" using k(2) f by (auto simp: booked_def split: if_splits)
  then obtain g where "g \<in> set kept" "hash_of g = hash_of f" by (metis imageE)
  then show ?thesis using k by (intro bexI [of _ g]) (auto simp: booked_def)
qed

end

end
