(* ===== verification/Wasm_Guest.thy ===== *)
theory Wasm_Guest
  imports Event_Host Resolve_Log Telemetry
begin

text \<open>
  The WebAssembly guest (\<open>wasm/rust-guest/src/lib.rs\<close>): the one place where resolving, logging,
  deduplication and telemetry meet. Its statics are the fields of \<open>guest\<close>, an exported function is a
  function on the guest, and the module is single threaded, so a history of the guest is a sequence
  of calls. The protobuf decoder of the resolver state, the token codecs and the tables of the
  libraries are in \<open>guest_env\<close>; a call carries what the host supplies (the time) and what
  the generator draws (the resolve id and the reservoir index).
\<close>

section \<open>State\<close>

definition LOG_TARGET_BYTES :: nat where
  [model_defs]: "LOG_TARGET_BYTES = 4 * 1024 * 1024"

definition ENCRYPTION_KEY :: bytes where
  [model_defs]: "ENCRYPTION_KEY = replicate 16 0"

record guest_env =
  ge_libs :: libs
  ge_tables :: locale_tables
  ge_wire :: wire
  ge_telemetry :: telemetry_env
  ge_codecs :: host
  ge_decode_resolver_state :: "bytes \<Rightarrow> string + resolver_state_pb"

record guest =
  gu_resolver_state :: "resolver_state option"
  gu_resolve_logger :: resolve_info_state
  gu_assign_logger :: assign_logger
  gu_apply_dedup :: apply_dedup
  gu_dedup_enabled :: bool
  gu_disable_exposure :: bool
  gu_telemetry :: telemetry
  gu_last_flushed :: tel_snapshot
  gu_last_dedup :: dedup_snapshot

definition guest_new :: guest where
  [model_defs]: "guest_new =
     \<lparr>gu_resolver_state = None, gu_resolve_logger = resolve_info_new, gu_assign_logger = assign_logger_new,
      gu_apply_dedup = apply_dedup_new 120 100000, gu_dedup_enabled = False, gu_disable_exposure = False,
      gu_telemetry = telemetry_new, gu_last_flushed = snapshot_default, gu_last_dedup = dedup_snapshot_default\<rparr>"

section \<open>The host of the resolver\<close>

text \<open>Tokens are not sealed inside the guest.\<close>

definition wasm_host :: "guest_env \<Rightarrow> timestamp \<Rightarrow> host" where
  [model_defs]: "wasm_host G now = (ge_codecs G)\<lparr>current_time := now,
     host_encrypt := (\<lambda>token_data _. Inr token_data), host_decrypt := (\<lambda>token_data _. Inr token_data)\<rparr>"

definition guest_log_resolve :: "guest_env \<Rightarrow> nat \<Rightarrow> gstruct \<Rightarrow> resolved_value list \<Rightarrow> client \<Rightarrow> guest \<Rightarrow> guest" where
  [model_defs]: "guest_log_resolve G draw context rvs client g =
     g\<lparr>gu_resolve_logger := log_resolve (ge_libs G) (ge_tables G) draw context (client_credential_name client) rvs
          (gu_resolve_logger g)\<rparr>"

definition guest_log_assign :: "string \<Rightarrow> flag_to_apply list \<Rightarrow> client \<Rightarrow> sdk option \<Rightarrow> guest \<Rightarrow> guest" where
  [model_defs]: "guest_log_assign resolve_id assigned_flags client sdk g =
     (if assigned_flags = [] \<or> \<not> gu_dedup_enabled g then
        g\<lparr>gu_assign_logger := log_assigns resolve_id assigned_flags client sdk (gu_assign_logger g)\<rparr>
      else
        (let now_seconds = (case first_opt assigned_flags of Some f \<Rightarrow> seconds (fta_applied_time f) | None \<Rightarrow> 0);
             (result, dedup) = filter_duplicates assigned_flags now_seconds (gu_apply_dedup g);
             g = g\<lparr>gu_apply_dedup := dedup\<rparr> in
         if dedup_is_empty result then g
         else if kept_count result = length assigned_flags then
           g\<lparr>gu_assign_logger := log_assigns resolve_id assigned_flags client sdk (gu_assign_logger g)\<rparr>
         else
           g\<lparr>gu_assign_logger := log_assigns resolve_id (dedup_collect result assigned_flags) client sdk
               (gu_assign_logger g)\<rparr>))"

fun deliver_event :: "guest_env \<Rightarrow> nat \<Rightarrow> host_event \<Rightarrow> guest \<Rightarrow> guest" where
  "deliver_event G draw (LogResolve resolve_id context rvs client) g = guest_log_resolve G draw context rvs client g"
| "deliver_event G draw (LogAssign resolve_id flags client sdk) g = guest_log_assign resolve_id flags client sdk g"

definition sweep_apply_dedup :: "timestamp \<Rightarrow> guest \<Rightarrow> guest" where
  [model_defs]: "sweep_apply_dedup now g = g\<lparr>gu_apply_dedup := sweep (seconds now) (gu_apply_dedup g)\<rparr>"

definition guest_dedup_snapshot :: "guest \<Rightarrow> dedup_snapshot" where
  [model_defs]: "guest_dedup_snapshot g = telemetry_snapshot (gu_apply_dedup g)"

definition get_resolver_state :: "guest \<Rightarrow> failure + resolver_state" where
  [model_defs]: "get_resolver_state g = or_fail (Failed ''Resolver state not set'') (gu_resolver_state g)"

section \<open>Exported functions\<close>

definition guest_set_resolver_state ::
  "guest_env \<Rightarrow> bytes \<Rightarrow> string \<Rightarrow> sdk option \<Rightarrow> bool \<Rightarrow> bool \<Rightarrow> guest \<Rightarrow> (failure + unit) \<times> guest" where
  [model_defs]: "guest_set_resolver_state G state account_id sdk enable_dedup disable_exposure g =
     (case ge_decode_resolver_state G state of
        Inl e \<Rightarrow> (Inl (Failed (''Failed to decode resolver state: '' @ e)), g)
      | Inr state_pb \<Rightarrow>
          (case map_err code_failure (from_proto (ge_libs G) state_pb account_id sdk) of
             Inl e \<Rightarrow> (Inl e, g)
           | Inr new_state \<Rightarrow>
               (Inr (), g\<lparr>gu_dedup_enabled := enable_dedup, gu_disable_exposure := disable_exposure,
                  gu_resolver_state := Some new_state\<rparr>)))"

text \<open>The request inside a process request, which selects the client and the context.\<close>

definition request_of :: "guest_env \<Rightarrow> process_request option \<Rightarrow> failure + resolve_request" where
  [model_defs]: "request_of G request =
     (case request of
        Some (DeferredMaterializations req) \<Rightarrow> Inr req
      | Some (StaticMaterializations req _) \<Rightarrow> or_fail (Failed ''resolve_request is required'') req
      | Some (WithoutMaterializations req) \<Rightarrow> Inr req
      | Some (Resume _ state) \<Rightarrow>
          (case decode_state (ge_codecs G) state of
             Inl e \<Rightarrow> Inl (Failed (''Failed to decode continuation state: '' @ e))
           | Inr cont \<Rightarrow> or_fail (Failed ''continuation missing resolve_request'') (ps_resolve_request cont))
      | None \<Rightarrow> Inl (Failed ''request is required''))"

text \<open>The resolver's run for a call: its result and the events it hands to the host.\<close>

definition guest_resolve ::
  "guest_env \<Rightarrow> timestamp \<Rightarrow> string \<Rightarrow> process_request option \<Rightarrow> guest \<Rightarrow>
   (failure + process_response option) \<times> host_event list" where
  [model_defs]: "guest_resolve G now resolve_id request g =
     (case bind_ok (get_resolver_state g) (\<lambda>state.
             bind_ok (request_of G request) (\<lambda>req.
               let context = (case rq_evaluation_context req of Some c \<Rightarrow> c | None \<Rightarrow> []) in
               get_resolver state (rq_client_secret req) context ENCRYPTION_KEY)) of
        Inl e \<Rightarrow> (Inl e, [])
      | Inr resolver \<Rightarrow>
          resolve_flags (ge_libs G) (wasm_host G now) resolve_id
            (with_disable_exposure_collection resolver (gu_disable_exposure g)) request)"

definition apply_error :: "failure \<Rightarrow> failure" where
  [model_defs]: "apply_error e = (case e of Failed m \<Rightarrow> Failed (''apply_flags: '' @ m) | Panic \<Rightarrow> Panic)"

definition guest_apply ::
  "guest_env \<Rightarrow> timestamp \<Rightarrow> apply_request \<Rightarrow> guest \<Rightarrow> (failure + unit) \<times> host_event list" where
  [model_defs]: "guest_apply G now request g =
     (case bind_ok (get_resolver_state g) (\<lambda>state.
             map_err apply_error (get_resolver state (aq_client_secret request) [] ENCRYPTION_KEY)) of
        Inl e \<Rightarrow> (Inl e, [])
      | Inr resolver \<Rightarrow>
          (case apply_flags (ge_libs G) (wasm_host G now)
                  (with_disable_exposure_collection resolver (gu_disable_exposure g)) request of
             (r, events) \<Rightarrow> (map_err apply_error r, events)))"

definition register_resolve :: "guest_env \<Rightarrow> u32 \<Rightarrow> resolve_reason \<Rightarrow> guest \<Rightarrow> guest" where
  [model_defs]: "register_resolve G latency_us reason g =
     g\<lparr>gu_telemetry := mark_resolve reason (record_latency_us (ge_telemetry G) latency_us (gu_telemetry g))\<rparr>"

definition flush_logs :: "guest_env \<Rightarrow> timestamp \<Rightarrow> guest \<Rightarrow> log_request \<times> guest" where
  [model_defs]: "flush_logs G now g =
     (let g = sweep_apply_dedup now g;
          (req, resolves) = resolve_checkpoint (gu_resolve_logger g);
          (_, req, assigns) = checkpoint_fill (ge_wire G) req (gu_assign_logger g) in
      (req, g\<lparr>gu_resolve_logger := resolves, gu_assign_logger := assigns\<rparr>))"

text \<open>The delta of the deduplication is attached exactly when the baseline moves.\<close>

definition attach_dedup :: "telemetry_data \<Rightarrow> guest \<Rightarrow> telemetry_data \<times> guest" where
  [model_defs]: "attach_dedup td g =
     (if gu_dedup_enabled g then
        (let current = guest_dedup_snapshot g in
         case delta_to_report current (gu_last_dedup g) of
           Some delta \<Rightarrow> (td\<lparr>td_apply_dedup := Some delta\<rparr>, g\<lparr>gu_last_dedup := current\<rparr>)
         | None \<Rightarrow> (td, g))
      else (td, g))"

definition bounded_flush_logs :: "guest_env \<Rightarrow> timestamp \<Rightarrow> guest \<Rightarrow> log_request \<times> guest" where
  [model_defs]: "bounded_flush_logs G now g =
     (let g = sweep_apply_dedup now g;
          (req, resolves) = resolve_checkpoint (gu_resolve_logger g);
          (td, flushed) = delta_snapshot (ge_telemetry G) (gu_telemetry g) (gu_last_flushed g);
          g = g\<lparr>gu_resolve_logger := resolves, gu_last_flushed := flushed\<rparr>;
          td = (case gu_resolver_state g of Some state \<Rightarrow> td\<lparr>td_sdk := rs_sdk state\<rparr> | None \<Rightarrow> td);
          (td, g) = attach_dedup td g;
          req = req\<lparr>lr_telemetry_data := Some td\<rparr>;
          (_, req, assigns) = checkpoint_fill_with_limit (ge_wire G) LOG_TARGET_BYTES False req (gu_assign_logger g) in
      (req, g\<lparr>gu_assign_logger := assigns\<rparr>))"

definition bounded_flush_assign :: "guest_env \<Rightarrow> timestamp \<Rightarrow> guest \<Rightarrow> log_request \<times> guest" where
  [model_defs]: "bounded_flush_assign G now g =
     (let g = sweep_apply_dedup now g;
          (req, assigns) = checkpoint_with_limit (ge_wire G) LOG_TARGET_BYTES True (gu_assign_logger g) in
      (req, g\<lparr>gu_assign_logger := assigns\<rparr>))"

section \<open>Calls\<close>

datatype guest_call =
    SetResolverState bytes string "sdk option" bool bool
  | ResolveFlags timestamp string nat "process_request option"
  | RegisterResolve u32 resolve_reason
  | FlushLogs timestamp
  | BoundedFlushLogs timestamp
  | BoundedFlushAssign timestamp
  | ApplyFlags timestamp apply_request

datatype guest_reply =
    Void
  | Answer "process_response option"
  | Logs log_request

fun guest_events :: "guest_env \<Rightarrow> guest_call \<Rightarrow> guest \<Rightarrow> host_event list" where
  "guest_events G (ResolveFlags now resolve_id draw request) g = snd (guest_resolve G now resolve_id request g)"
| "guest_events G (ApplyFlags now request) g = snd (guest_apply G now request g)"
| "guest_events G _ g = []"

fun guest_step :: "guest_env \<Rightarrow> guest_call \<Rightarrow> guest \<Rightarrow> (failure + guest_reply) \<times> guest" where
  "guest_step G (SetResolverState state account sdk enable disable) g =
     (case guest_set_resolver_state G state account sdk enable disable g of (r, g) \<Rightarrow> (map_ok (\<lambda>_. Void) r, g))"
| "guest_step G (ResolveFlags now resolve_id draw request) g =
     (case guest_resolve G now resolve_id request g of
        (r, events) \<Rightarrow> (map_ok Answer r, fold (deliver_event G draw) events g))"
| "guest_step G (RegisterResolve latency reason) g = (Inr Void, register_resolve G latency reason g)"
| "guest_step G (FlushLogs now) g = (case flush_logs G now g of (req, g) \<Rightarrow> (Inr (Logs req), g))"
| "guest_step G (BoundedFlushLogs now) g = (case bounded_flush_logs G now g of (req, g) \<Rightarrow> (Inr (Logs req), g))"
| "guest_step G (BoundedFlushAssign now) g = (case bounded_flush_assign G now g of (req, g) \<Rightarrow> (Inr (Logs req), g))"
| "guest_step G (ApplyFlags now request) g =
     (case guest_apply G now request g of
        (r, events) \<Rightarrow> (map_ok (\<lambda>_. Void) r, fold (deliver_event G 0) events g))"

section \<open>Histories\<close>

text \<open>
  A history of the guest records, beside the state, the events the resolver handed to the host, each
  with the deduplication switch at that moment, and the log requests that calls returned.
\<close>

fun reply_logs :: "failure + guest_reply \<Rightarrow> log_request list" where
  "reply_logs (Inr (Logs req)) = [req]"
| "reply_logs _ = []"

lemma reply_logs_quiet [simp]: "reply_logs (map_ok (\<lambda>_. Void) r) = []" "reply_logs (map_ok Answer q) = []"
  by (simp_all add: map_ok_def split: sum.split)

inductive guest_history :: "guest_env \<Rightarrow> (bool \<times> host_event) list \<Rightarrow> log_request list \<Rightarrow> guest \<Rightarrow> bool" for G where
  Boot: "guest_history G [] [] guest_new"
| Call: "guest_history G events logs g \<Longrightarrow> guest_step G c g = (r, g') \<Longrightarrow>
     guest_history G (events @ map (Pair (gu_dedup_enabled g)) (guest_events G c g)) (logs @ reply_logs r) g'"

text \<open>The assignment events that exist: those of the returned requests, then those still held.\<close>

definition recorded :: "log_request list \<Rightarrow> guest \<Rightarrow> flag_assigned list" where
  "recorded logs g = concat (map lr_flag_assigned logs) @ held_events (gu_assign_logger g)"

lemma take_events_keeps:
  "take_events W limit queue waiting pb = (queue', waiting', pb') \<Longrightarrow> map fst waiting' @ queue' = map fst waiting @ queue"
  by (induction W limit queue waiting pb rule: take_events.induct) (auto simp: Let_def split: if_splits)

lemma write_events_keeps:
  "write_events limit start written waiting out = (w, waiting', out') \<Longrightarrow> out' @ map fst waiting' = out @ map fst waiting"
  by (induction limit start written waiting out rule: write_events.induct) (auto simp: Let_def split: if_splits)

lemma checkpoint_keeps:
  assumes "checkpoint_fill_with_limit W limit full req A = (written, req', A')"
  shows "lr_flag_assigned req' @ held_events A' = lr_flag_assigned req @ held_events A"
proof -
  let ?limit = "limit - log_request_len W req"
  obtain queue waiting pb where t: "take_events W ?limit (al_assigned A) (al_pending A) (al_pending_bytes A) = (queue, waiting, pb)"
    by (cases "take_events W ?limit (al_assigned A) (al_pending A) (al_pending_bytes A)")
  obtain w waiting' out where wr: "write_events ?limit (log_request_len W req) 0 waiting (lr_flag_assigned req) = (w, waiting', out)"
    by (cases "write_events ?limit (log_request_len W req) 0 waiting (lr_flag_assigned req)")
  have "out @ map fst waiting' @ queue = lr_flag_assigned req @ map fst (al_pending A) @ al_assigned A"
    using take_events_keeps [OF t] write_events_keeps [OF wr] by (metis append.assoc)
  with take_events_keeps [OF t] assms show ?thesis
    by (auto simp: checkpoint_fill_with_limit_def t wr held_events_def Let_def split: if_splits)
qed

lemma held_log_assigns [simp]:
  "held_events (log_assigns resolve_id flags client sdk A) = held_events A @ [build_flag_assigned resolve_id flags client sdk]"
  by (simp add: held_events_def log_assigns_def)

text \<open>What an event of the resolver adds to the assignment events, and to the table.\<close>

definition event_records :: "guest \<Rightarrow> host_event \<Rightarrow> guest \<Rightarrow> flag_assigned list \<Rightarrow> bool" where
  "event_records g e g' new \<longleftrightarrow> (case e of
       LogResolve _ _ _ _ \<Rightarrow> new = [] \<and> gu_apply_dedup g' = gu_apply_dedup g
     | LogAssign resolve_id flags client sdk \<Rightarrow>
         (\<exists>kept. new = (if kept = [] \<and> flags \<noteq> [] then [] else [build_flag_assigned resolve_id kept client sdk])
            \<and> booked (gu_dedup_enabled g) flags kept (gu_apply_dedup g) (gu_apply_dedup g')))"

lemma event_recordsE:
  assumes "event_records g e g' new" "e = LogAssign resolve_id flags client sdk"
  obtains kept where "new = (if kept = [] \<and> flags \<noteq> [] then [] else [build_flag_assigned resolve_id kept client sdk])"
    "booked (gu_dedup_enabled g) flags kept (gu_apply_dedup g) (gu_apply_dedup g')"
  using assms by (auto simp: event_records_def)

lemma deliver_event_records:
  "\<exists>new. held_events (gu_assign_logger (deliver_event G draw e g)) = held_events (gu_assign_logger g) @ new
     \<and> event_records g e (deliver_event G draw e g) new \<and> gu_dedup_enabled (deliver_event G draw e g) = gu_dedup_enabled g"
proof (cases e)
  case (LogResolve resolve_id ctx rvs client)
  then show ?thesis by (simp add: event_records_def guest_log_resolve_def)
next
  case (LogAssign resolve_id flags client sdk)
  show ?thesis
  proof (cases "flags = [] \<or> \<not> gu_dedup_enabled g")
    case True
    then have "deliver_event G draw e g = g\<lparr>gu_assign_logger := log_assigns resolve_id flags client sdk (gu_assign_logger g)\<rparr>"
      by (auto simp: LogAssign guest_log_assign_def)
    then show ?thesis using booked_all [OF True] True by (auto simp: event_records_def LogAssign)
  next
    case False
    let ?now = "case first_opt flags of Some f \<Rightarrow> seconds (fta_applied_time f) | None \<Rightarrow> 0"
    obtain r D where f: "filter_duplicates flags ?now (gu_apply_dedup g) = (r, D)"
      by (cases "filter_duplicates flags ?now (gu_apply_dedup g)")
    let ?kept = "dedup_collect r flags"
    have "deliver_event G draw e g =
        (if ?kept = [] then g\<lparr>gu_apply_dedup := D\<rparr>
         else g\<lparr>gu_apply_dedup := D, gu_assign_logger := log_assigns resolve_id ?kept client sdk (gu_assign_logger g)\<rparr>)"
      using False filter_duplicates_cover(5) [OF f] by (auto simp: LogAssign guest_log_assign_def f dedup_is_empty_collect [OF f] Let_def)
    then show ?thesis using booked_filter [OF f] False by (auto simp: event_records_def LogAssign)
  qed
qed

text \<open>The guest is a host of the resolver.\<close>

interpretation gu: event_host "deliver_event G draw" "\<lambda>g. concat (map fg_flags (held_events (gu_assign_logger g)))" gu_apply_dedup gu_dedup_enabled
proof
  fix e g show "gu_dedup_enabled (deliver_event G draw e g) = gu_dedup_enabled g" using deliver_event_records by blast
next
  fix i fs rvs c g
  show "concat (map fg_flags (held_events (gu_assign_logger (deliver_event G draw (LogResolve i fs rvs c) g))))
      = concat (map fg_flags (held_events (gu_assign_logger g)))"
    "gu_apply_dedup (deliver_event G draw (LogResolve i fs rvs c) g) = gu_apply_dedup g"
    by (simp_all add: guest_log_resolve_def)
next
  fix i flags c k g
  let ?g = "deliver_event G draw (LogAssign i flags c k) g"
  obtain new where "held_events (gu_assign_logger ?g) = held_events (gu_assign_logger g) @ new" "event_records g (LogAssign i flags c k) ?g new"
    using deliver_event_records by blast
  then show "\<exists>kept. concat (map fg_flags (held_events (gu_assign_logger ?g))) = concat (map fg_flags (held_events (gu_assign_logger g))) @ map applied_event_of kept
      \<and> booked (gu_dedup_enabled g) flags kept (gu_apply_dedup g) (gu_apply_dedup ?g)"
    by (elim event_recordsE [OF _ refl]) (auto simp: build_flag_assigned_def)
qed

text \<open>The flush calls and the other calls only move events into the returned request.\<close>

lemma sweep_seen: "seen_hashes (sweep now D) \<subseteq> seen_hashes D"
  by (auto simp: sweep_def seen_hashes_def)

lemma sweep_counts [simp]:
  "ad_applies_total (sweep now D) = ad_applies_total D" "ad_applies_deduped (sweep now D) = ad_applies_deduped D"
  by (simp_all add: sweep_def)

definition same_counts :: "apply_dedup \<Rightarrow> apply_dedup \<Rightarrow> bool" where
  "same_counts D D' \<longleftrightarrow> ad_applies_total D' = ad_applies_total D \<and> ad_applies_deduped D' = ad_applies_deduped D"

lemma sweep_fields [simp]:
  "gu_resolver_state (sweep_apply_dedup now g) = gu_resolver_state g" "gu_telemetry (sweep_apply_dedup now g) = gu_telemetry g"
  "gu_resolve_logger (sweep_apply_dedup now g) = gu_resolve_logger g" "gu_last_flushed (sweep_apply_dedup now g) = gu_last_flushed g"
  "gu_assign_logger (sweep_apply_dedup now g) = gu_assign_logger g" "gu_dedup_enabled (sweep_apply_dedup now g) = gu_dedup_enabled g"
  "gu_last_dedup (sweep_apply_dedup now g) = gu_last_dedup g"
  "gu_apply_dedup (sweep_apply_dedup now g) = sweep (seconds now) (gu_apply_dedup g)"
  by (simp_all add: sweep_apply_dedup_def)

lemma attach_dedup_fields:
  "attach_dedup td g = (td', g') \<Longrightarrow> gu_resolver_state g' = gu_resolver_state g \<and> gu_telemetry g' = gu_telemetry g
     \<and> gu_resolve_logger g' = gu_resolve_logger g \<and> gu_last_flushed g' = gu_last_flushed g
     \<and> gu_assign_logger g' = gu_assign_logger g \<and> gu_dedup_enabled g' = gu_dedup_enabled g
     \<and> gu_apply_dedup g' = gu_apply_dedup g"
  by (auto simp: attach_dedup_def Let_def split: if_splits option.splits)

text \<open>The run of a bounded flush, with the telemetry it attaches.\<close>

lemma bounded_flush_logs_run:
  obtains td g1 req A where "bounded_flush_logs G now g = (req, g1\<lparr>gu_assign_logger := A\<rparr>)"
    "lr_flag_assigned req @ held_events A = held_events (gu_assign_logger g)"
    "gu_apply_dedup g1 = sweep (seconds now) (gu_apply_dedup g)"
    "lr_telemetry_data req = Some td"
    "\<exists>sdk. attach_dedup ((fst (delta_snapshot (ge_telemetry G) (gu_telemetry g) (gu_last_flushed g)))\<lparr>td_sdk := sdk\<rparr>)
       ((sweep_apply_dedup now g)\<lparr>gu_resolve_logger := resolve_info_new,
          gu_last_flushed := snd (delta_snapshot (ge_telemetry G) (gu_telemetry g) (gu_last_flushed g))\<rparr>) = (td, g1)"
proof -
  let ?d = "delta_snapshot (ge_telemetry G) (gu_telemetry g) (gu_last_flushed g)"
  let ?td = "case gu_resolver_state g of Some state \<Rightarrow> (fst ?d)\<lparr>td_sdk := rs_sdk state\<rparr> | None \<Rightarrow> fst ?d"
  let ?g = "(sweep_apply_dedup now g)\<lparr>gu_resolve_logger := resolve_info_new, gu_last_flushed := snd ?d\<rparr>"
  obtain td g1 where a: "attach_dedup ?td ?g = (td, g1)" by (cases "attach_dedup ?td ?g")
  note f = attach_dedup_fields [OF a]
  let ?req = "(resolve_log_message (gu_resolve_logger g))\<lparr>lr_telemetry_data := Some td\<rparr>"
  obtain w req A where c: "checkpoint_fill_with_limit (ge_wire G) LOG_TARGET_BYTES False ?req (gu_assign_logger g) = (w, req, A)"
    by (cases "checkpoint_fill_with_limit (ge_wire G) LOG_TARGET_BYTES False ?req (gu_assign_logger g)")
  have run: "bounded_flush_logs G now g = (req, g1\<lparr>gu_assign_logger := A\<rparr>)"
    using a c f by (simp add: bounded_flush_logs_def resolve_checkpoint_def split_beta Let_def cong: option.case_cong)
  have td: "lr_telemetry_data req = Some td"
    using c by (auto simp: checkpoint_fill_with_limit_def Let_def split: prod.splits if_splits)
  obtain sdk where sdk: "?td = (fst ?d)\<lparr>td_sdk := sdk\<rparr>"
    by (cases "gu_resolver_state g") (metis option.case telemetry_data.surjective telemetry_data.update_convs(1))+
  from checkpoint_keeps [OF c] have "lr_flag_assigned req @ held_events A = held_events (gu_assign_logger g)"
    by (simp add: resolve_log_message_def)
  with that [OF run _ _ td] a f sdk show thesis by auto
qed

lemma quiet_call:
  assumes "guest_step G c g = (r, g')" "guest_events G c g = []"
  shows "recorded (logs @ reply_logs r) g' = recorded logs g \<and> seen_hashes (gu_apply_dedup g') \<subseteq> seen_hashes (gu_apply_dedup g)
    \<and> same_counts (gu_apply_dedup g) (gu_apply_dedup g')"
proof (cases c)
  case (SetResolverState state account sdk enable disable)
  then show ?thesis using assms
    by (auto simp: guest_set_resolver_state_def recorded_def same_counts_def split: sum.splits)
next
  case (ResolveFlags now resolve_id draw request)
  then show ?thesis using assms
    by (cases "fst (guest_resolve G now resolve_id request g)") (auto simp: recorded_def same_counts_def split: prod.splits)
next
  case (RegisterResolve latency reason)
  then show ?thesis using assms by (auto simp: register_resolve_def recorded_def same_counts_def)
next
  case (FlushLogs now)
  obtain w req A where c: "checkpoint_fill (ge_wire G) (resolve_log_message (gu_resolve_logger g)) (gu_assign_logger g) = (w, req, A)"
    by (cases "checkpoint_fill (ge_wire G) (resolve_log_message (gu_resolve_logger g)) (gu_assign_logger g)")
  from checkpoint_keeps [OF c [unfolded checkpoint_fill_def]] have "lr_flag_assigned req @ held_events A = held_events (gu_assign_logger g)"
    by (simp add: resolve_log_message_def)
  then show ?thesis using assms FlushLogs sweep_seen [THEN subsetD]
    by (auto simp: flush_logs_def sweep_apply_dedup_def resolve_checkpoint_def c recorded_def same_counts_def)
next
  case (BoundedFlushLogs now)
  obtain td g1 req A where b: "bounded_flush_logs G now g = (req, g1\<lparr>gu_assign_logger := A\<rparr>)"
    "lr_flag_assigned req @ held_events A = held_events (gu_assign_logger g)" "gu_apply_dedup g1 = sweep (seconds now) (gu_apply_dedup g)"
    by (rule bounded_flush_logs_run [of G now g])
  then show ?thesis using assms BoundedFlushLogs sweep_seen [THEN subsetD]
    by (auto simp: recorded_def same_counts_def)
next
  case (BoundedFlushAssign now)
  obtain w req A where c: "checkpoint_fill_with_limit (ge_wire G) LOG_TARGET_BYTES True log_request_default (gu_assign_logger g) = (w, req, A)"
    by (cases "checkpoint_fill_with_limit (ge_wire G) LOG_TARGET_BYTES True log_request_default (gu_assign_logger g)")
  from checkpoint_keeps [OF c] have "lr_flag_assigned req @ held_events A = held_events (gu_assign_logger g)"
    by (simp add: log_request_default_def)
  then show ?thesis using assms BoundedFlushAssign sweep_seen [THEN subsetD]
    by (auto simp: bounded_flush_assign_def checkpoint_with_limit_def sweep_apply_dedup_def c recorded_def same_counts_def)
next
  case (ApplyFlags now request)
  then show ?thesis using assms
    by (cases "fst (guest_apply G now request g)") (auto simp: recorded_def same_counts_def split: prod.splits)
qed

text \<open>The calls that reach the resolver deliver its events.\<close>

lemma resolver_call:
  assumes "guest_step G c g = (r, g')" "guest_events G c g \<noteq> []"
  obtains draw where "g' = fold (deliver_event G draw) (guest_events G c g) g" "reply_logs r = []"
  using assms by (cases c) (auto split: prod.splits)

text \<open>Induction over a history, one event of the resolver or one quiet call at a time.\<close>

lemma deliver_events_induct:
  assumes "P es (recorded logs g) g"
    and "\<And>es R g e g' new. P es R g \<Longrightarrow> event_records g e g' new \<Longrightarrow> P (es @ [(gu_dedup_enabled g, e)]) (R @ new) g'"
  shows "P (es @ map (Pair (gu_dedup_enabled g)) events) (recorded logs (fold (deliver_event G draw) events g))
    (fold (deliver_event G draw) events g)"
  using assms(1)
proof (induction events arbitrary: es g)
  case (Cons e events)
  obtain new where n: "held_events (gu_assign_logger (deliver_event G draw e g)) = held_events (gu_assign_logger g) @ new"
    "event_records g e (deliver_event G draw e g) new" "gu_dedup_enabled (deliver_event G draw e g) = gu_dedup_enabled g"
    using deliver_event_records by blast
  have "recorded logs (deliver_event G draw e g) = recorded logs g @ new" using n(1) by (simp add: recorded_def)
  then have "P (es @ [(gu_dedup_enabled g, e)]) (recorded logs (deliver_event G draw e g)) (deliver_event G draw e g)"
    using assms(2) [OF Cons.prems n(2)] by simp
  from Cons.IH [OF this] n(3) show ?case by simp
qed simp

lemma history_induct_events:
  assumes "guest_history G es logs g" and "P [] [] guest_new"
    and event: "\<And>es R g e g' new. P es R g \<Longrightarrow> event_records g e g' new \<Longrightarrow> P (es @ [(gu_dedup_enabled g, e)]) (R @ new) g'"
    and quiet: "\<And>es R g g'. P es R g \<Longrightarrow> seen_hashes (gu_apply_dedup g') \<subseteq> seen_hashes (gu_apply_dedup g) \<Longrightarrow>
      same_counts (gu_apply_dedup g) (gu_apply_dedup g') \<Longrightarrow> P es R g'"
  shows "P es (recorded logs g) g"
  using assms(1)
proof (induction rule: guest_history.induct)
  case Boot
  then show ?case using assms(2) by (simp add: recorded_def guest_new_def assign_logger_new_def held_events_def)
next
  case (Call es logs g c r g')
  show ?case
  proof (cases "guest_events G c g = []")
    case True
    with quiet_call [OF Call.hyps(2) True, of logs] quiet [OF Call.IH] show ?thesis by simp
  next
    case False
    obtain draw where "g' = fold (deliver_event G draw) (guest_events G c g) g" "reply_logs r = []"
      by (rule resolver_call [OF Call.hyps(2) False])
    with deliver_events_induct [where P = P, OF Call.IH event] show ?thesis by simp
  qed
qed

section \<open>No apply is lost\<close>

definition applied_in :: "(bool \<times> host_event) list \<Rightarrow> flag_to_apply \<Rightarrow> bool" where
  "applied_in es f \<longleftrightarrow> (\<exists>b resolve_id flags client sdk. (b, LogAssign resolve_id flags client sdk) \<in> set es \<and> f \<in> set flags)"

text \<open>The identities of the applies that an assignment event records.\<close>

definition known :: "(bool \<times> host_event) list \<Rightarrow> flag_assigned list \<Rightarrow> u64 set" where
  "known es R = hash_of ` {f. applied_in es f \<and> (\<exists>a \<in> set R. applied_event_of f \<in> set (fg_flags a))}"

definition genuine :: "(bool \<times> host_event) list \<Rightarrow> flag_assigned \<Rightarrow> bool" where
  "genuine es a \<longleftrightarrow> (\<exists>b resolve_id flags client sdk kept. (b, LogAssign resolve_id flags client sdk) \<in> set es
     \<and> set kept \<subseteq> set flags \<and> a = build_flag_assigned resolve_id kept client sdk)"

definition covers :: "(bool \<times> host_event) list \<Rightarrow> flag_assigned list \<Rightarrow> guest \<Rightarrow> bool" where
  "covers es R g \<longleftrightarrow> (\<forall>f. applied_in es f \<longrightarrow> hash_of f \<in> known es R) \<and> seen_hashes (gu_apply_dedup g) \<subseteq> known es R
     \<and> list_all (genuine es) R"

lemma known_mono: "set es \<subseteq> set es' \<Longrightarrow> set R \<subseteq> set R' \<Longrightarrow> known es R \<subseteq> known es' R'"
  by (fastforce simp: known_def applied_in_def)

lemma genuine_mono: "genuine es a \<Longrightarrow> set es \<subseteq> set es' \<Longrightarrow> genuine es' a"
  unfolding genuine_def by blast

lemma known_kept:
  assumes "set kept \<subseteq> set flags" "(b, LogAssign resolve_id flags client sdk) \<in> set es"
    "build_flag_assigned resolve_id kept client sdk \<in> set R"
  shows "hash_of ` set kept \<subseteq> known es R"
proof
  fix h assume "h \<in> hash_of ` set kept"
  then obtain f where f: "f \<in> set kept" "h = hash_of f" by auto
  then have "applied_in es f" using assms(1,2) unfolding applied_in_def by blast
  moreover have "applied_event_of f \<in> set (fg_flags (build_flag_assigned resolve_id kept client sdk))"
    using f(1) by (simp add: build_flag_assigned_def)
  ultimately show "h \<in> known es R" using assms(3) f(2) by (auto simp: known_def)
qed

lemma covers_event:
  assumes "covers es R g" "event_records g e g' new"
  shows "covers (es @ [(gu_dedup_enabled g, e)]) (R @ new) g'"
proof (cases e)
  case (LogResolve resolve_id ctx rvs client)
  let ?es = "es @ [(gu_dedup_enabled g, e)]"
  have "new = []" "gu_apply_dedup g' = gu_apply_dedup g" using assms(2) LogResolve by (simp_all add: event_records_def)
  moreover have "applied_in ?es f \<longleftrightarrow> applied_in es f" for f by (auto simp: applied_in_def LogResolve)
  moreover have "known es R \<subseteq> known ?es R" by (intro known_mono) auto
  moreover have "genuine ?es a" if "genuine es a" for a by (rule genuine_mono [OF that]) auto
  ultimately show ?thesis using assms(1) unfolding covers_def list_all_iff by auto
next
  case (LogAssign resolve_id flags client sdk)
  let ?es = "es @ [(gu_dedup_enabled g, e)]" and ?R = "R @ new"
  obtain kept where k0: "new = (if kept = [] \<and> flags \<noteq> [] then [] else [build_flag_assigned resolve_id kept client sdk])"
    "booked (gu_dedup_enabled g) flags kept (gu_apply_dedup g) (gu_apply_dedup g')"
    by (rule event_recordsE [OF assms(2) LogAssign])
  note k = booked_seen(1) [OF k0(2)] k0(1) booked_seen(2,3) [OF k0(2)]
  have kept: "hash_of ` set kept \<subseteq> known ?es ?R"
  proof (cases "kept = []")
    case False
    then show ?thesis using k(2) by (intro known_kept [OF k(1)]) (auto simp: LogAssign)
  qed simp
  have old: "known es R \<subseteq> known ?es ?R" by (intro known_mono) auto
  have "hash_of ` set flags \<subseteq> known ?es ?R" "seen_hashes (gu_apply_dedup g') \<subseteq> known ?es ?R"
    using k(3,4) kept old assms(1) unfolding covers_def by blast+
  moreover have "hash_of f \<in> known ?es ?R" if "applied_in es f" for f
    using old that assms(1) unfolding covers_def by blast
  moreover have "applied_in ?es f \<longleftrightarrow> applied_in es f \<or> f \<in> set flags" for f
    by (simp add: applied_in_def LogAssign) blast
  moreover have "genuine ?es a" if "a \<in> set ?R" for a
  proof (cases "a \<in> set R")
    case True
    then show ?thesis using assms(1) genuine_mono [of es a ?es] by (auto simp: covers_def list_all_iff)
  next
    case False
    then have "a = build_flag_assigned resolve_id kept client sdk" using that k(2) by (auto split: if_splits)
    moreover have "(gu_dedup_enabled g, LogAssign resolve_id flags client sdk) \<in> set ?es" by (simp add: LogAssign)
    ultimately show ?thesis using k(1) unfolding genuine_def by blast
  qed
  ultimately show ?thesis by (auto simp: covers_def list_all_iff)
qed

text \<open>C22: Over any sequence of calls of the guest, whatever the deduplication switch, the sweeps and the flushes
  in between, each apply that the resolver reports has its identity on record: an assignment event that
  was returned by a flush, or is still held, contains an apply with the same dedup hash that the
  resolver reported. Conversely each event on record holds only flags of one reported apply, under
  its resolve id, client and SDK.\<close>

theorem guest_accounts_for_applies:
  assumes "guest_history G es logs g"
  shows "(\<forall>f. applied_in es f \<longrightarrow> (\<exists>f'. applied_in es f' \<and> hash_of f' = hash_of f
      \<and> (\<exists>a \<in> set (recorded logs g). applied_event_of f' \<in> set (fg_flags a))))
    \<and> (\<forall>a \<in> set (recorded logs g). genuine es a)"
proof -
  have "covers es (recorded logs g) g"
  proof (rule history_induct_events [OF assms])
    show "covers [] [] guest_new"
      by (simp add: covers_def applied_in_def guest_new_def apply_dedup_new_def seen_hashes_def)
    show "covers es R g'" if "covers es R g" "seen_hashes (gu_apply_dedup g') \<subseteq> seen_hashes (gu_apply_dedup g)"
      "same_counts (gu_apply_dedup g) (gu_apply_dedup g')" for es R g g'
      using that unfolding covers_def by blast
  qed (rule covers_event)
  then have c: "\<And>f. applied_in es f \<Longrightarrow> hash_of f \<in> known es (recorded logs g)" "\<forall>a \<in> set (recorded logs g). genuine es a"
    by (auto simp: covers_def list_all_iff)
  have "\<exists>f'. applied_in es f' \<and> hash_of f' = hash_of f
      \<and> (\<exists>a \<in> set (recorded logs g). applied_event_of f' \<in> set (fg_flags a))" if "applied_in es f" for f
    using c(1) [OF that] by (auto simp: known_def)
  with c(2) show ?thesis by blast
qed

fun assign_event :: "host_event \<Rightarrow> flag_assigned option" where
  "assign_event (LogAssign resolve_id flags client sdk) = Some (build_flag_assigned resolve_id flags client sdk)"
| "assign_event (LogResolve resolve_id ctx rvs client) = None"

text \<open>While deduplication is off, the assignment events returned by the flushes, followed by those still held, are
  exactly the applies that the resolver reported, one event each, in order.\<close>

lemma guest_without_dedup:
  assumes "guest_history G es logs g" "list_all (\<lambda>(enabled, _). \<not> enabled) es"
  shows "recorded logs g = List.map_filter (assign_event \<circ> snd) es"
proof -
  have "list_all (\<lambda>(enabled, _). \<not> enabled) es \<longrightarrow> recorded logs g = List.map_filter (assign_event \<circ> snd) es"
  proof (rule history_induct_events [OF assms(1)])
    fix es R g e g' new
    assume "list_all (\<lambda>(enabled, _). \<not> enabled) es \<longrightarrow> R = List.map_filter (assign_event \<circ> snd) es" "event_records g e g' new"
    then show "list_all (\<lambda>(enabled, _). \<not> enabled) (es @ [(gu_dedup_enabled g, e)]) \<longrightarrow>
        R @ new = List.map_filter (assign_event \<circ> snd) (es @ [(gu_dedup_enabled g, e)])"
      by (cases e) (auto simp: event_records_def booked_def List.map_filter_def)
  qed (simp_all add: List.map_filter_def)
  with assms(2) show ?thesis by simp
qed

section \<open>Failing calls\<close>

lemma resolve_failure_silent: "resolve_flags L H resolve_id R request = (Inl e, events) \<Longrightarrow> events = []"
  by (auto simp: resolve_flags_def respond_def Let_def split: sum.splits option.splits if_splits prod.splits)

lemma apply_failure_silent: "apply_flags L H R request = (Inl e, events) \<Longrightarrow> events = []"
  by (auto simp: apply_flags_def split: sum.splits if_splits prod.splits)

text \<open>A call that fails changes nothing: no setting, no log, no counter. A state that
  does not decode or load leaves the resolver, the deduplication switch and the exposure setting
  as they were.\<close>

lemma failed_call_changes_nothing:
  assumes "guest_step G c g = (Inl e, g')"
  shows "g' = g"
proof (cases c)
  case (SetResolverState state account sdk enable disable)
  then show ?thesis using assms by (auto simp: guest_set_resolver_state_def map_ok_def split: sum.splits)
next
  case (ResolveFlags now resolve_id draw request)
  obtain r events where run: "guest_resolve G now resolve_id request g = (r, events)" by force
  then have "r = Inl e" "g' = fold (deliver_event G draw) events g"
    using assms ResolveFlags by (auto simp: map_ok_def split: sum.splits)
  moreover from this(1) run have "events = []"
    by (auto simp: guest_resolve_def dest: resolve_failure_silent split: sum.splits)
  ultimately show ?thesis by simp
next
  case (ApplyFlags now request)
  obtain r events where run: "guest_apply G now request g = (r, events)" by force
  then have "r = Inl e" "g' = fold (deliver_event G 0) events g"
    using assms ApplyFlags by (auto simp: map_ok_def split: sum.splits)
  moreover from this(1) run have "events = []"
    by (auto simp: guest_apply_def map_err_def dest: apply_failure_silent split: sum.splits prod.splits)
  ultimately show ?thesis by simp
qed (use assms in \<open>auto split: prod.splits\<close>)

section \<open>Deduplication counters\<close>

text \<open>The applies the resolver reported, those of them that went through the filter, and those on record.\<close>

fun event_applies :: "host_event \<Rightarrow> nat" where
  "event_applies (LogAssign resolve_id flags client sdk) = length flags"
| "event_applies (LogResolve resolve_id ctx rvs client) = 0"

definition applies :: "(bool \<times> host_event) list \<Rightarrow> nat" where
  "applies es = sum_list (map (event_applies \<circ> snd) es)"

definition filtered_applies :: "(bool \<times> host_event) list \<Rightarrow> nat" where
  "filtered_applies es = sum_list (map (event_applies \<circ> snd) (filter fst es))"

definition recorded_applies :: "flag_assigned list \<Rightarrow> nat" where
  "recorded_applies R = sum_list (map (length \<circ> fg_flags) R)"

lemma applies_simps [simp]:
  "applies [] = 0" "applies (es @ es') = applies es + applies es'"
  "filtered_applies [] = 0" "filtered_applies (es @ es') = filtered_applies es + filtered_applies es'"
  "recorded_applies [] = 0" "recorded_applies (R @ R') = recorded_applies R + recorded_applies R'"
  by (simp_all add: applies_def filtered_applies_def recorded_applies_def)

lemma filtered_le_applies: "filtered_applies es \<le> applies es"
  by (induction es) (auto simp: applies_def filtered_applies_def)

definition counts_agree :: "(bool \<times> host_event) list \<Rightarrow> flag_assigned list \<Rightarrow> apply_dedup \<Rightarrow> bool" where
  "counts_agree es R D \<longleftrightarrow> ad_applies_total D = of_nat (filtered_applies es)
     \<and> ad_applies_deduped D = of_nat (applies es - recorded_applies R)
     \<and> recorded_applies R \<le> applies es \<and> applies es - recorded_applies R \<le> filtered_applies es"

lemma counts_agree_event:
  assumes "counts_agree es R (gu_apply_dedup g)" "event_records g e g' new"
  shows "counts_agree (es @ [(gu_dedup_enabled g, e)]) (R @ new) (gu_apply_dedup g')"
proof (cases e)
  case (LogResolve resolve_id ctx rvs client)
  then have "new = []" "gu_apply_dedup g' = gu_apply_dedup g" using assms(2) by (simp_all add: event_records_def)
  moreover have "applies [(gu_dedup_enabled g, e)] = 0" "filtered_applies [(gu_dedup_enabled g, e)] = 0"
    by (simp_all add: LogResolve applies_def filtered_applies_def)
  ultimately show ?thesis using assms(1) by (simp only: counts_agree_def applies_simps append_Nil2 add_0_right)
next
  case (LogAssign resolve_id flags client sdk)
  obtain kept where k0: "new = (if kept = [] \<and> flags \<noteq> [] then [] else [build_flag_assigned resolve_id kept client sdk])"
    "booked (gu_dedup_enabled g) flags kept (gu_apply_dedup g) (gu_apply_dedup g')"
    by (rule event_recordsE [OF assms(2) LogAssign])
  note k = k0(1) booked_counts [OF k0(2)]
  have new: "recorded_applies new = length kept" by (auto simp: k(1) recorded_applies_def build_flag_assigned_def)
  have es: "applies [(gu_dedup_enabled g, e)] = length flags"
    "filtered_applies [(gu_dedup_enabled g, e)] = (if gu_dedup_enabled g then length flags else 0)"
    by (simp_all add: applies_def filtered_applies_def LogAssign)
  have old: "recorded_applies R \<le> applies es" "applies es - recorded_applies R \<le> filtered_applies es"
    using assms(1) by (auto simp: counts_agree_def)
  then have split: "(applies es + length flags) - (recorded_applies R + length kept) =
      (applies es - recorded_applies R) + (length flags - length kept)" using k(3) by simp
  have "ad_applies_total (gu_apply_dedup g') = of_nat (filtered_applies (es @ [(gu_dedup_enabled g, e)]))"
    using assms(1) k(4) by (simp only: counts_agree_def applies_simps es of_nat_add)
  moreover have "ad_applies_deduped (gu_apply_dedup g') =
      of_nat (applies (es @ [(gu_dedup_enabled g, e)]) - recorded_applies (R @ new))"
    using assms(1) k(5) by (simp only: counts_agree_def applies_simps es new split of_nat_add)
  moreover have "recorded_applies (R @ new) \<le> applies (es @ [(gu_dedup_enabled g, e)])"
    "applies (es @ [(gu_dedup_enabled g, e)]) - recorded_applies (R @ new) \<le> filtered_applies (es @ [(gu_dedup_enabled g, e)])"
    unfolding applies_simps es new split using old k(2,3) by auto
  ultimately show ?thesis by (simp add: counts_agree_def)
qed

lemma history_counts: "guest_history G es logs g \<Longrightarrow> counts_agree es (recorded logs g) (gu_apply_dedup g)"
proof (erule history_induct_events [where P = "\<lambda>es R g. counts_agree es R (gu_apply_dedup g)"])
  show "counts_agree [] [] (gu_apply_dedup guest_new)"
    by (simp add: counts_agree_def guest_new_def apply_dedup_new_def)
  show "counts_agree es R (gu_apply_dedup g')" if "counts_agree es R (gu_apply_dedup g)"
    "same_counts (gu_apply_dedup g) (gu_apply_dedup g')" for es R g g'
    using that unfolding counts_agree_def same_counts_def by metis
qed (rule counts_agree_event)

text \<open>What the flushes reported of a counter.\<close>

definition log_dedup :: "log_request \<Rightarrow> dedup_telemetry option" where
  "log_dedup req = Option.bind (lr_telemetry_data req) td_apply_dedup"

definition reported :: "(dedup_telemetry \<Rightarrow> u32) \<Rightarrow> log_request list \<Rightarrow> nat" where
  "reported sel logs = sum_list (map (\<lambda>req. case log_dedup req of Some d \<Rightarrow> unat (sel d) | None \<Rightarrow> 0) logs)"

lemma reported_simps [simp]: "reported sel [] = 0" "reported sel (logs @ logs') = reported sel logs + reported sel logs'"
  by (simp_all add: reported_def)

lemma checkpoint_telemetry: "checkpoint_fill_with_limit W limit full req A = (w, req', A') \<Longrightarrow> lr_telemetry_data req' = lr_telemetry_data req"
  by (auto simp: checkpoint_fill_with_limit_def Let_def split: prod.splits if_splits)

lemma fold_last_dedup [simp]: "gu_last_dedup (fold (deliver_event G draw) events g) = gu_last_dedup g"
proof (induction events arbitrary: g)
  case (Cons e events)
  have "gu_last_dedup (deliver_event G draw e g) = gu_last_dedup g"
    by (cases e) (simp_all add: guest_log_resolve_def guest_log_assign_def Let_def split_beta)
  with Cons show ?case by simp
qed simp

lemma attach_dedup_report:
  assumes "attach_dedup td g = (td', g')" "td_apply_dedup td = None"
  shows "(gu_last_dedup g' = gu_last_dedup g \<and> td_apply_dedup td' = None)
    \<or> (gu_last_dedup g' = telemetry_snapshot (gu_apply_dedup g')
        \<and> td_apply_dedup td' = Some (to_proto_delta (gu_last_dedup g') (gu_last_dedup g)))"
proof (cases "gu_dedup_enabled g")
  case True
  show ?thesis
  proof (cases "delta_to_report (guest_dedup_snapshot g) (gu_last_dedup g)")
    case (Some delta)
    then have "delta = to_proto_delta (guest_dedup_snapshot g) (gu_last_dedup g)"
      by (simp add: delta_to_report_def Let_def split: if_splits)
    then show ?thesis using assms True Some by (auto simp: attach_dedup_def guest_dedup_snapshot_def Let_def)
  qed (use assms True in \<open>auto simp: attach_dedup_def Let_def\<close>)
qed (use assms in \<open>auto simp: attach_dedup_def Let_def\<close>)

text \<open>A call either keeps the baseline and reports nothing, or reports the difference to the new baseline.\<close>

lemma step_report:
  assumes "guest_step G c g = (r, g')"
  shows "(gu_last_dedup g' = gu_last_dedup g \<and> reported sel (reply_logs r) = 0)
    \<or> (gu_last_dedup g' = telemetry_snapshot (gu_apply_dedup g')
        \<and> reported sel (reply_logs r) = unat (sel (to_proto_delta (gu_last_dedup g') (gu_last_dedup g))))"
proof (cases c)
  case (SetResolverState state account sdk enable disable)
  then show ?thesis using assms by (auto simp: guest_set_resolver_state_def split: sum.splits)
next
  case (ResolveFlags now resolve_id draw request)
  then show ?thesis using assms by (auto split: prod.splits)
next
  case (RegisterResolve latency reason)
  then show ?thesis using assms by (auto simp: register_resolve_def)
next
  case (FlushLogs now)
  obtain w req A where c: "checkpoint_fill (ge_wire G) (resolve_log_message (gu_resolve_logger g)) (gu_assign_logger g) = (w, req, A)"
    by (cases "checkpoint_fill (ge_wire G) (resolve_log_message (gu_resolve_logger g)) (gu_assign_logger g)")
  from checkpoint_telemetry [OF c [unfolded checkpoint_fill_def]] have "lr_telemetry_data req = None"
    by (simp add: resolve_log_message_def)
  then show ?thesis using assms FlushLogs
    by (auto simp: flush_logs_def resolve_checkpoint_def c reported_def log_dedup_def)
next
  case (BoundedFlushLogs now)
  obtain td g1 req A sdk where b: "bounded_flush_logs G now g = (req, g1\<lparr>gu_assign_logger := A\<rparr>)" "lr_telemetry_data req = Some td"
    "attach_dedup ((fst (delta_snapshot (ge_telemetry G) (gu_telemetry g) (gu_last_flushed g)))\<lparr>td_sdk := sdk\<rparr>)
       ((sweep_apply_dedup now g)\<lparr>gu_resolve_logger := resolve_info_new,
          gu_last_flushed := snd (delta_snapshot (ge_telemetry G) (gu_telemetry g) (gu_last_flushed g))\<rparr>) = (td, g1)"
    by (rule bounded_flush_logs_run [of G now g]) blast
  have none: "td_apply_dedup (fst (delta_snapshot E t prev)) = None" for E t prev
    by (simp add: delta_snapshot_def Let_def telemetry_default_def)
  have r: "reported sel (reply_logs r) = (case td_apply_dedup td of Some d \<Rightarrow> unat (sel d) | None \<Rightarrow> 0)" "g' = g1\<lparr>gu_assign_logger := A\<rparr>"
    using assms b by (auto simp: BoundedFlushLogs reported_def log_dedup_def)
  show ?thesis using attach_dedup_report [OF b(3)] none by (auto simp: r)
next
  case (BoundedFlushAssign now)
  obtain w req A where c: "checkpoint_fill_with_limit (ge_wire G) LOG_TARGET_BYTES True log_request_default (gu_assign_logger g) = (w, req, A)"
    by (cases "checkpoint_fill_with_limit (ge_wire G) LOG_TARGET_BYTES True log_request_default (gu_assign_logger g)")
  from checkpoint_telemetry [OF c] have "lr_telemetry_data req = None"
    by (simp add: log_request_default_def)
  then show ?thesis using assms BoundedFlushAssign
    by (auto simp: bounded_flush_assign_def checkpoint_with_limit_def c reported_def log_dedup_def)
next
  case (ApplyFlags now request)
  then show ?thesis using assms by (auto split: prod.splits)
qed

text \<open>Reported so far plus not yet reported is the counter, for a counter that only grows.\<close>

lemma unat_of_nat_64: "n < 2 ^ 64 \<Longrightarrow> unat (of_nat n :: u64) = n"
  by (simp add: unat_of_nat take_bit_nat_eq_self)

lemma unat_diff_of_nat: "t \<le> n \<Longrightarrow> n < 2 ^ 64 \<Longrightarrow> unat (of_nat n - of_nat t :: u64) = n - t"
  using unat_of_nat_64 [of "n - t"] by (simp add: of_nat_diff)

lemma report_tracks:
  assumes "guest_history G es logs g"
    and proto: "\<And>c p. dt_sel (to_proto_delta c p) = narrow (ds_sel c - ds_sel p)" and zero: "ds_sel dedup_snapshot_default = 0"
    and current: "\<And>es logs g. guest_history G es logs g \<Longrightarrow> ds_sel (telemetry_snapshot (gu_apply_dedup g)) = of_nat (v es (recorded logs g))"
    and mono: "\<And>es logs g c r g'. guest_history G es logs g \<Longrightarrow> guest_step G c g = (r, g') \<Longrightarrow>
      v es (recorded logs g) \<le> v (es @ map (Pair (gu_dedup_enabled g)) (guest_events G c g)) (recorded (logs @ reply_logs r) g')"
    and small: "v es (recorded logs g) < 2 ^ 32"
  shows "ds_sel (gu_last_dedup g) = of_nat (reported dt_sel logs) \<and> reported dt_sel logs \<le> v es (recorded logs g)"
  using assms(1) small
proof (induction rule: guest_history.induct)
  case Boot
  then show ?case using zero by (simp add: guest_new_def)
next
  case (Call es logs g c r g')
  let ?v = "v es (recorded logs g)"
  let ?v' = "v (es @ map (Pair (gu_dedup_enabled g)) (guest_events G c g)) (recorded (logs @ reply_logs r) g')"
  have le: "?v \<le> ?v'" by (rule mono [OF Call.hyps])
  then have IH: "ds_sel (gu_last_dedup g) = of_nat (reported dt_sel logs)" "reported dt_sel logs \<le> ?v"
    using Call.IH Call.prems by auto
  have now: "ds_sel (telemetry_snapshot (gu_apply_dedup g')) = of_nat ?v'"
    by (rule current [OF guest_history.Call [OF Call.hyps]])
  from step_report [OF Call.hyps(2), of dt_sel] show ?case
  proof (elim disjE conjE)
    assume "gu_last_dedup g' = gu_last_dedup g" "reported dt_sel (reply_logs r) = 0"
    then show ?thesis using IH le by simp
  next
    assume new: "gu_last_dedup g' = telemetry_snapshot (gu_apply_dedup g')"
      and rep: "reported dt_sel (reply_logs r) = unat (dt_sel (to_proto_delta (gu_last_dedup g') (gu_last_dedup g)))"
    have "unat (of_nat ?v' - of_nat (reported dt_sel logs) :: u64) = ?v' - reported dt_sel logs"
      using IH le Call.prems by (intro unat_diff_of_nat) auto
    then have "reported dt_sel (reply_logs r) = ?v' - reported dt_sel logs"
      using Call.prems by (simp add: rep proto new now IH unat_narrow)
    then have "reported dt_sel (logs @ reply_logs r) = ?v'" using IH le by simp
    then show ?thesis using new now by simp
  qed
qed

text \<open>The events on record never outgrow the applies of a call.\<close>

lemma step_records:
  assumes "guest_step G c g = (r, g')"
  shows "\<exists>new. recorded (logs @ reply_logs r) g' = recorded logs g @ new
     \<and> recorded_applies new \<le> applies (map (Pair (gu_dedup_enabled g)) (guest_events G c g))"
proof (cases "guest_events G c g = []")
  case True
  then show ?thesis using quiet_call [OF assms True, of logs] by (intro exI [of _ "[]"]) simp
next
  case False
  have fold: "\<exists>new. recorded logs (fold (deliver_event G draw) events g) = recorded logs g @ new
      \<and> recorded_applies new \<le> applies (map (Pair b) events)" for draw events b
  proof (induction events arbitrary: g)
    case (Cons e events)
    obtain new where n: "held_events (gu_assign_logger (deliver_event G draw e g)) = held_events (gu_assign_logger g) @ new"
      "event_records g e (deliver_event G draw e g) new" using deliver_event_records by blast
    have "recorded_applies new \<le> event_applies e"
      using n(2) by (cases e) (auto simp: event_records_def booked_def recorded_applies_def build_flag_assigned_def split: if_splits)
    moreover obtain more where "recorded logs (fold (deliver_event G draw) (e # events) g) = recorded logs g @ new @ more"
      "recorded_applies more \<le> applies (map (Pair b) events)"
      using Cons.IH [of "deliver_event G draw e g"] n(1) by (auto simp: recorded_def)
    ultimately show ?case by (intro exI [of _ "new @ more"]) (simp add: applies_def)
  qed (simp add: recorded_applies_def)
  obtain draw where "g' = fold (deliver_event G draw) (guest_events G c g) g" "reply_logs r = []"
    by (rule resolver_call [OF assms False])
  with fold [of draw "guest_events G c g" "gu_dedup_enabled g"] show ?thesis by simp
qed

text \<open>C23: The books of the deduplication balance. At any moment the applies that went through the filter are those the
  flushes have reported plus those counted since the last report, and the applies of the resolver are
  those on record plus the reported and the not yet reported duplicates; no flush reports one twice, as long
  as the filter saw fewer than \<open>2 ^ 32\<close> applies.\<close>

theorem dedup_reports_balance:
  assumes "guest_history G es logs g" "filtered_applies es < 2 ^ 32"
  shows "reported dt_applies_total logs + unat (ad_applies_total (gu_apply_dedup g) - ds_applies_total (gu_last_dedup g))
      = filtered_applies es
    \<and> recorded_applies (recorded logs g) + reported dt_applies_deduped logs
        + unat (ad_applies_deduped (gu_apply_dedup g) - ds_applies_deduped (gu_last_dedup g)) = applies es"
proof -
  note books = history_counts [OF assms(1), unfolded counts_agree_def]
  let ?dropped = "\<lambda>es R. applies es - recorded_applies R"
  have small: "?dropped es (recorded logs g) < 2 ^ 32" using books assms(2) by linarith
  have total: "ds_applies_total (gu_last_dedup g) = of_nat (reported dt_applies_total logs)
      \<and> reported dt_applies_total logs \<le> filtered_applies es"
  proof (rule report_tracks [OF assms(1), where v = "\<lambda>es R. filtered_applies es"])
    show "ds_applies_total (telemetry_snapshot (gu_apply_dedup g)) = of_nat (filtered_applies es)"
      if "guest_history G es logs g" for es logs g
      using history_counts [OF that] by (simp add: counts_agree_def telemetry_snapshot_def)
  qed (use assms(2) in \<open>simp_all add: to_proto_delta_def dedup_snapshot_default_def\<close>)
  have dropped: "ds_applies_deduped (gu_last_dedup g) = of_nat (reported dt_applies_deduped logs)
      \<and> reported dt_applies_deduped logs \<le> ?dropped es (recorded logs g)"
  proof (rule report_tracks [OF assms(1), where v = ?dropped])
    show "ds_applies_deduped (telemetry_snapshot (gu_apply_dedup g)) = of_nat (?dropped es (recorded logs g))"
      if "guest_history G es logs g" for es logs g
      using history_counts [OF that] unfolding counts_agree_def by (simp only: telemetry_snapshot_def dedup_snapshot.simps)
    show "?dropped es (recorded logs g) \<le> ?dropped (es @ map (Pair (gu_dedup_enabled g)) (guest_events G c g)) (recorded (logs @ reply_logs r) g')"
      if "guest_history G es logs g" "guest_step G c g = (r, g')" for es logs g c r g'
      using step_records [OF that(2), of logs] by auto
  qed (use small in \<open>simp_all add: to_proto_delta_def dedup_snapshot_default_def\<close>)
  have "unat (ad_applies_total (gu_apply_dedup g) - ds_applies_total (gu_last_dedup g))
      = filtered_applies es - reported dt_applies_total logs"
    using total assms(2) books unat_diff_of_nat [of "reported dt_applies_total logs" "filtered_applies es"] by simp
  moreover have "unat (ad_applies_deduped (gu_apply_dedup g) - ds_applies_deduped (gu_last_dedup g))
      = ?dropped es (recorded logs g) - reported dt_applies_deduped logs"
    using dropped small books unat_diff_of_nat [of "reported dt_applies_deduped logs" "?dropped es (recorded logs g)"]
    by (simp only:) simp
  ultimately show ?thesis using total dropped books by auto
qed

section \<open>Instances\<close>

text \<open>A guest that is given a state with deduplication on and then an apply of the same flag twice.\<close>

definition example_token :: resolve_token where
  "example_token = \<lparr>token_of = Some \<lparr>tk_evaluation_context = None,
     tk_assignments = [(''f'', assigned_flag_default\<lparr>af_flag := ''f''\<rparr>)], tk_resolve_id = ''id'', tk_account = []\<rparr>\<rparr>"

definition example_guest_env :: guest_env where
  "example_guest_env = \<lparr>ge_libs = example_libs, ge_tables = example_tables, ge_wire = example_wire, ge_telemetry = example_env,
     ge_codecs = example_host example_token (fresh_state (example_request True)),
     ge_decode_resolver_state = (\<lambda>bs. if bs = [] then Inr clients_message else Inl ''bad'')\<rparr>"

definition example_time :: timestamp where
  "example_time = \<lparr>seconds = 100, nanos = 0\<rparr>"

definition example_apply_call :: guest_call where
  "example_apply_call = ApplyFlags example_time
     \<lparr>aq_flags = replicate 2 \<lparr>ap_flag = ''f'', ap_apply_time = Some \<lparr>seconds = 4, nanos = 5\<rparr>\<rparr>, aq_client_secret = ''s2'',
      aq_resolve_token = [], aq_send_time = Some \<lparr>seconds = 7, nanos = 5\<rparr>, aq_sdk = None\<rparr>"

definition example_fta :: flag_to_apply where
  "example_fta = \<lparr>fta_assigned_flag = assigned_flag_default\<lparr>af_flag := ''f''\<rparr>, fta_applied_time = \<lparr>seconds = 97, nanos = 0\<rparr>\<rparr>"

definition example_guest :: "bool \<Rightarrow> guest" where
  "example_guest enable = snd (guest_step example_guest_env (SetResolverState [] ''acc'' None enable False) guest_new)"

lemma example_guest_history: "guest_history example_guest_env [] [] (example_guest enable)"
proof -
  have "guest_step example_guest_env (SetResolverState [] ''acc'' None enable False) guest_new = (Inr Void, example_guest enable)"
    by (simp add: example_guest_def example_guest_env_def guest_set_resolver_state_def from_proto_def clients_message_def
        map_err_def map_ok_def)
  from guest_history.Call [OF guest_history.Boot this] show ?thesis by simp
qed

lemma example_guest_fields [simp]: "gu_dedup_enabled (example_guest enable) = enable"
  by (simp add: example_guest_def example_guest_env_def guest_set_resolver_state_def from_proto_def clients_message_def
      map_err_def map_ok_def)

lemma example_apply_event:
  "\<exists>client. guest_apply example_guest_env example_time (case example_apply_call of ApplyFlags _ rq \<Rightarrow> rq) (example_guest enable)
     = (Inr (), [LogAssign ''id'' [example_fta, example_fta] client None])"
  by (simp add: example_guest_def example_guest_env_def example_apply_call_def guest_set_resolver_state_def from_proto_def
      clients_message_def guest_new_def map_err_def map_ok_def guest_apply_def get_resolver_state_def or_fail_def get_resolver_def
      load_secrets_def load_credential_def str_starts_with_def credential_client_def resolver_new_def with_disable_exposure_collection_def
      apply_flags_def wasm_host_def example_time_def to_date_time_utc_def example_libs_def timestamp_to_datetime_def bind_ok_def
      decrypt_resolve_token_def example_host_def example_token_def datetime_to_timestamp_def u32_of_i32_def numeral_2_eq_2 example_fta_def)

lemma example_apply_history:
  "\<exists>client g. guest_history example_guest_env [(enable, LogAssign ''id'' [example_fta, example_fta] client None)] [] g"
proof -
  obtain client where c: "guest_apply example_guest_env example_time (case example_apply_call of ApplyFlags _ rq \<Rightarrow> rq) (example_guest enable)
     = (Inr (), [LogAssign ''id'' [example_fta, example_fta] client None])"
    using example_apply_event by blast
  obtain r g where run: "guest_step example_guest_env example_apply_call (example_guest enable) = (r, g)" by force
  have "guest_events example_guest_env example_apply_call (example_guest enable) = [LogAssign ''id'' [example_fta, example_fta] client None]"
    and "reply_logs r = []"
    using run c by (auto simp: example_apply_call_def)
  with guest_history.Call [OF example_guest_history run] show ?thesis by auto
qed

theorem guest_accounts_for_applies_witness:
  "\<exists>client g f'. guest_history example_guest_env [(True, LogAssign ''id'' [example_fta, example_fta] client None)] [] g
     \<and> hash_of f' = hash_of example_fta \<and> (\<exists>a \<in> set (recorded [] g). applied_event_of f' \<in> set (fg_flags a))"
proof -
  obtain client g where h: "guest_history example_guest_env [(True, LogAssign ''id'' [example_fta, example_fta] client None)] [] g"
    using example_apply_history by blast
  have "applied_in [(True, LogAssign ''id'' [example_fta, example_fta] client None)] example_fta" by (auto simp: applied_in_def)
  with guest_accounts_for_applies [OF h] h show ?thesis by blast
qed

theorem guest_without_dedup_witness:
  "\<exists>client g. guest_history example_guest_env [(False, LogAssign ''id'' [example_fta, example_fta] client None)] [] g
     \<and> recorded [] g = [build_flag_assigned ''id'' [example_fta, example_fta] client None]"
proof -
  obtain client g where h: "guest_history example_guest_env [(False, LogAssign ''id'' [example_fta, example_fta] client None)] [] g"
    using example_apply_history by blast
  with guest_without_dedup [OF h] show ?thesis by (auto simp: List.map_filter_def)
qed

theorem dedup_reports_balance_witness:
  "\<exists>client g. guest_history example_guest_env [(True, LogAssign ''id'' [example_fta, example_fta] client None)] [] g
     \<and> unat (ad_applies_total (gu_apply_dedup g) - ds_applies_total (gu_last_dedup g)) = 2"
proof -
  obtain client g where h: "guest_history example_guest_env [(True, LogAssign ''id'' [example_fta, example_fta] client None)] [] g"
    using example_apply_history by blast
  have "filtered_applies [(True, LogAssign ''id'' [example_fta, example_fta] client None)] = 2" by (simp add: filtered_applies_def)
  with dedup_reports_balance [OF h] h show ?thesis by (intro exI [of _ client] exI [of _ g]) simp
qed

theorem failed_call_changes_nothing_witness:
  "\<exists>e. guest_step example_guest_env (SetResolverState [1] ''acc'' None True True) guest_new = (Inl e, guest_new)"
proof -
  obtain e g where run: "guest_step example_guest_env (SetResolverState [1] ''acc'' None True True) guest_new = (Inl e, g)"
    by (simp add: example_guest_env_def guest_set_resolver_state_def map_ok_def)
  from failed_call_changes_nothing [OF this] run show ?thesis by blast
qed

end
