(* ===== verification/Provider_Logs.thy ===== *)
theory Provider_Logs
  imports Provider_State Wasm_Guest
begin

text \<open>
  The log manager of the OpenFeature provider (\<open>openfeature-provider/rust/src/logger.rs\<close>): what a flush takes from the loggers, the
  report of the initialisation, and the sender with its retries and its fallback. The HTTP exchange, the sleep, the
  jitter and the protobuf encoding are parameters; the trace of the posts, with what became of them, belongs to the specification.
  Delays are milliseconds. The flushes of a provider run one after the other in its background task and its shutdown.
\<close>

section \<open>The sender\<close>

datatype log_body = Plain bytes | Ingest string bytes

record 'w sender =
  sd_post :: "string \<Rightarrow> string \<Rightarrow> log_body \<Rightarrow> 'w \<Rightarrow> (string + nat \<times> string option) \<times> 'w"
  sd_sleep :: "nat \<Rightarrow> 'w \<Rightarrow> 'w"
  sd_jitter :: "nat \<Rightarrow> 'w \<Rightarrow> nat \<times> 'w"
  sd_parse_seconds :: "string \<Rightarrow> nat option"
  sd_encode :: "log_request \<Rightarrow> bytes"

definition EDGE_URL :: string where
  [model_defs]: "EDGE_URL = ''https://resolver.confidence.dev/v1/clientFlagLogs:write''"

definition CLOUDFLARE_URL :: string where
  [model_defs]: "CLOUDFLARE_URL = ''https://epx-flags-logs.experimentation-platform.workers.dev/v1/flagLogs:ingest''"

definition MAX_ATTEMPTS :: nat where [model_defs]: "MAX_ATTEMPTS = 3"
definition RETRY_BASE_DELAY_MS :: nat where [model_defs]: "RETRY_BASE_DELAY_MS = 500"
definition RETRY_BACKOFF_MULTIPLIER :: nat where [model_defs]: "RETRY_BACKOFF_MULTIPLIER = 2"

definition is_retryable_status :: "nat \<Rightarrow> bool" where
  [model_defs]: "is_retryable_status code \<longleftrightarrow> 500 \<le> code \<and> code < 600 \<or> code = 408 \<or> code = 429"

text \<open>The header, trimmed and parsed as whole seconds by the parameter.\<close>

definition parse_retry_after :: "'w sender \<Rightarrow> string option \<Rightarrow> nat option" where
  [model_defs]: "parse_retry_after S header =
     (case header of None \<Rightarrow> None | Some v \<Rightarrow> map_option (\<lambda>s. 1000 * s) (sd_parse_seconds S v))"

definition wait_before_retry :: "'w sender \<Rightarrow> nat option \<Rightarrow> nat \<Rightarrow> 'w \<Rightarrow> 'w" where
  [model_defs]: "wait_before_retry S server_delay delay w =
     (case server_delay of
        Some d \<Rightarrow> sd_sleep S d w
      | None \<Rightarrow> (case sd_jitter S delay w of (d, w) \<Rightarrow> sd_sleep S d w))"

type_synonym 'w posting = "'w \<times> (log_destination \<times> bool) list"

fun send_with_retry :: "'w sender \<Rightarrow> string \<Rightarrow> string \<Rightarrow> log_body \<Rightarrow> log_destination \<Rightarrow> nat list \<Rightarrow> nat \<Rightarrow> 'w posting \<Rightarrow> bool \<times> 'w posting" where
  "send_with_retry S url content_type body dest [] delay (w, posts) = (False, w, posts)"
| "send_with_retry S url content_type body dest (attempt # attempts) delay (w, posts) =
     (case sd_post S url content_type body w of
        (Inr (code, retry_after), w) \<Rightarrow>
          if 200 \<le> code \<and> code < 300 then (True, w, posts @ [(dest, True)])
          else if is_retryable_status code \<and> attempt < MAX_ATTEMPTS then
            send_with_retry S url content_type body dest attempts (delay * RETRY_BACKOFF_MULTIPLIER)
              (wait_before_retry S (parse_retry_after S retry_after) delay w, posts @ [(dest, False)])
          else (False, w, posts @ [(dest, False)])
      | (Inl e, w) \<Rightarrow>
          if attempt < MAX_ATTEMPTS then
            send_with_retry S url content_type body dest attempts (delay * RETRY_BACKOFF_MULTIPLIER)
              (wait_before_retry S None delay w, posts @ [(dest, False)])
          else (False, w, posts @ [(dest, False)]))"

definition send_to_destination :: "'w sender \<Rightarrow> log_destination \<Rightarrow> bytes \<Rightarrow> string option \<Rightarrow> 'w posting \<Rightarrow> bool \<times> 'w posting" where
  [model_defs]: "send_to_destination S dest logs account_id s =
     (case dest of
        Edge \<Rightarrow> send_with_retry S EDGE_URL ''application/x-protobuf'' (Plain logs) dest [1..<Suc MAX_ATTEMPTS] RETRY_BASE_DELAY_MS s
      | Cloudflare \<Rightarrow> send_with_retry S CLOUDFLARE_URL ''application/protobuf''
          (Ingest (case account_id of Some a \<Rightarrow> a | None \<Rightarrow> []) logs) dest [1..<Suc MAX_ATTEMPTS] RETRY_BASE_DELAY_MS s)"

text \<open>The result of the fallback is ignored, and so is in the end the result of both.\<close>

definition send_logs :: "'w sender \<Rightarrow> log_destination list \<Rightarrow> string option \<Rightarrow> bytes \<Rightarrow> 'w posting \<Rightarrow> (provider_error + unit) \<times> 'w posting" where
  [model_defs]: "send_logs S destinations account_id logs s =
     (if logs = [] then (Inr (), s)
      else
        (let destinations = (if destinations = [] then [Edge] else destinations);
             fallback = nth_opt destinations 1 in
         case send_to_destination S (hd destinations) logs account_id s of
           (ok, s) \<Rightarrow>
             (case fallback of
                Some fb \<Rightarrow> if \<not> ok then (Inr (), snd (send_to_destination S fb logs account_id s)) else (Inr (), s)
              | None \<Rightarrow> (Inr (), s))))"

section \<open>The log manager\<close>

definition PROVIDER_LOG_BYTES :: nat where [model_defs]: "PROVIDER_LOG_BYTES = 4 * 1024 * 1024"

datatype init_state = InitPending | InitSending | InitSent

definition init_claim :: "init_state \<Rightarrow> bool \<times> init_state" where
  [model_defs]: "init_claim i = (if i = InitPending then (True, InitSending) else (False, i))"

definition init_complete :: "bool \<Rightarrow> init_state" where
  [model_defs]: "init_complete success = (if success then InitSent else InitPending)"

record log_manager =
  lm_sdk :: sdk
  lm_init_labels :: "string fields"
  lm_init_state :: init_state
  lm_resolve_logger :: resolve_info_state
  lm_assign_logger :: assign_logger
  lm_telemetry :: telemetry
  lm_last_flushed :: tel_snapshot

definition has_logs :: "log_request \<Rightarrow> bool" where
  [model_defs]: "has_logs req \<longleftrightarrow> lr_flag_assigned req \<noteq> [] \<or> lr_client_resolve_info req \<noteq> [] \<or> lr_flag_resolve_info req \<noteq> []
     \<or> lr_telemetry_data req \<noteq> None"

text \<open>What a flush takes from the loggers: the request, whether it reports the initialisation, and the manager it leaves.\<close>

definition take_all_logs :: "wire \<Rightarrow> telemetry_env \<Rightarrow> log_manager \<Rightarrow> log_request \<times> bool \<times> log_manager" where
  [model_defs]: "take_all_logs W E M =
     (case resolve_checkpoint (lm_resolve_logger M) of (req, resolves) \<Rightarrow>
     (case checkpoint_fill_with_limit W PROVIDER_LOG_BYTES False req (lm_assign_logger M) of (_, req, assigns) \<Rightarrow>
     (case delta_snapshot E (lm_telemetry M) (lm_last_flushed M) of (td, flushed) \<Rightarrow>
     (case init_claim (lm_init_state M) of (include_init, init) \<Rightarrow>
       (let td = td\<lparr>td_sdk := Some (lm_sdk M)\<rparr>;
            td = (if include_init
                  then td\<lparr>td_provider_init_rate := td_provider_init_rate td @ [\<lparr>pi_count = 1, pi_labels = lm_init_labels M\<rparr>]\<rparr> else td) in
        (req\<lparr>lr_telemetry_data := Some td\<rparr>, include_init,
         M\<lparr>lm_init_state := init, lm_resolve_logger := resolves, lm_assign_logger := assigns, lm_last_flushed := flushed\<rparr>))))))"

definition provider_flush_all ::
  "wire \<Rightarrow> telemetry_env \<Rightarrow> 'w sender \<Rightarrow> shared_state \<Rightarrow> log_manager \<Rightarrow> 'w posting \<Rightarrow> (provider_error + unit) \<times> log_manager \<times> 'w posting" where
  [model_defs]: "provider_flush_all W E S shared M s =
     (case take_all_logs W E M of (req, include_init, M) \<Rightarrow>
       (let encoded = sd_encode S req in
        if encoded \<noteq> [] \<and> has_logs req then
          (case send_logs S (ss_log_destinations shared) (ss_account_id shared) encoded s of
             (Inl e, s) \<Rightarrow> (Inl e, if include_init then M\<lparr>lm_init_state := init_complete False\<rparr> else M, s)
           | (Inr _, s) \<Rightarrow> (Inr (), if include_init then M\<lparr>lm_init_state := init_complete True\<rparr> else M, s))
        else (Inr (), M, s)))"

definition provider_flush_assign ::
  "wire \<Rightarrow> 'w sender \<Rightarrow> shared_state \<Rightarrow> log_manager \<Rightarrow> 'w posting \<Rightarrow> (provider_error + unit) \<times> log_manager \<times> 'w posting" where
  [model_defs]: "provider_flush_assign W S shared M s =
     (case checkpoint_with_limit W PROVIDER_LOG_BYTES True (lm_assign_logger M) of (req, assigns) \<Rightarrow>
       (let M = M\<lparr>lm_assign_logger := assigns\<rparr>; encoded = sd_encode S req in
        if encoded \<noteq> [] \<and> has_logs req then
          (case send_logs S (ss_log_destinations shared) (ss_account_id shared) encoded s of (r, s) \<Rightarrow> (r, M, s))
        else (Inr (), M, s)))"

section \<open>Properties of the sender\<close>

text \<open>Posts of which at most the last was accepted.\<close>

definition one_accepted :: "bool \<Rightarrow> (log_destination \<times> bool) list \<Rightarrow> bool" where
  "one_accepted ok posts \<longleftrightarrow> (if ok then posts \<noteq> [] \<and> snd (last posts) \<and> (\<forall>p\<in>set (butlast posts). \<not> snd p) else (\<forall>p\<in>set posts. \<not> snd p))"

lemma send_with_retry_posts:
  "send_with_retry S url content_type body dest attempts delay (w, posts) = (ok, w', posts') \<Longrightarrow>
     \<exists>new. posts' = posts @ new \<and> length new \<le> length attempts \<and> fst ` set new \<subseteq> {dest} \<and> one_accepted ok new"
proof (induction attempts arbitrary: delay w posts)
  case Nil
  then show ?case by (simp add: one_accepted_def)
next
  case (Cons attempt attempts)
  obtain reply w1 where post: "sd_post S url content_type body w = (reply, w1)" by (cases "sd_post S url content_type body w")
  have again: ?case if run: "send_with_retry S url content_type body dest attempts d (w2, posts @ [(dest, False)]) = (ok, w', posts')" for d w2
  proof -
    obtain new where "posts' = (posts @ [(dest, False)]) @ new" "length new \<le> length attempts" "fst ` set new \<subseteq> {dest}" "one_accepted ok new"
      using Cons.IH [OF run] by blast
    then show ?thesis by (intro exI [of _ "(dest, False) # new"]) (auto simp: one_accepted_def)
  qed
  have stop: ?case if "posts' = posts @ [(dest, ok)]"
    using that by (intro exI [of _ "[(dest, ok)]"]) (auto simp: one_accepted_def)
  show ?case
  proof (cases reply)
    case (Inl e)
    then show ?thesis using Cons.prems post again stop by (auto split: if_splits)
  next
    case (Inr answer)
    then show ?thesis using Cons.prems post again stop by (cases answer) (auto split: if_splits)
  qed
qed

lemma send_to_destination_posts:
  assumes "send_to_destination S dest logs account_id (w, posts) = (ok, w', posts')"
  shows "\<exists>new. posts' = posts @ new \<and> length new \<le> 3 \<and> fst ` set new \<subseteq> {dest} \<and> one_accepted ok new"
  using assms send_with_retry_posts [of S _ _ _ dest "[1..<Suc MAX_ATTEMPTS]" RETRY_BASE_DELAY_MS w posts ok w' posts']
  by (cases dest) (auto simp: send_to_destination_def MAX_ATTEMPTS_def)

text \<open>C34: A flush ends after a bounded number of posts and is accepted at most once. Whatever the platform answers, sending a batch posts
  it at most three times to the first destination and, only if all of these failed, at most three times to the second; nothing is
  posted after an acceptance. The sender reports success in every case.\<close>

theorem provider_send_bounded:
  assumes "send_logs S destinations account_id logs (w, posts) = (r, w', posts')"
  shows "r = Inr () \<and> (\<exists>primary backup. posts' = posts @ primary @ backup \<and> length primary \<le> 3 \<and> length backup \<le> 3
    \<and> fst ` set primary \<subseteq> {hd (destinations @ [Edge])} \<and> fst ` set backup \<subseteq> set (take 1 (drop 1 destinations))
    \<and> (\<forall>p\<in>set (butlast (primary @ backup)). \<not> snd p) \<and> (backup \<noteq> [] \<longrightarrow> (\<forall>p\<in>set primary. \<not> snd p)))"
proof (cases "logs = []")
  case True
  then show ?thesis using assms by (intro conjI exI [of _ "[]"]) (simp_all add: send_logs_def)
next
  case False
  let ?ds = "if destinations = [] then [Edge] else destinations"
  have first: "hd ?ds = hd (destinations @ [Edge])" by simp
  obtain ok w1 posts1 where one: "send_to_destination S (hd ?ds) logs account_id (w, posts) = (ok, w1, posts1)"
    by (cases "send_to_destination S (hd ?ds) logs account_id (w, posts)")
  obtain ps where p: "posts1 = posts @ ps" "length ps \<le> 3" "fst ` set ps \<subseteq> {hd ?ds}" "one_accepted ok ps"
    using send_to_destination_posts [OF one] by blast
  have quiet: "\<forall>q\<in>set (butlast ps). \<not> snd q" using p(4) by (auto simp: one_accepted_def dest: in_set_butlastD split: if_splits)
  show ?thesis
  proof (cases "nth_opt ?ds 1 = None \<or> ok")
    case True
    then have "r = Inr ()" "posts' = posts @ ps" using assms False one p(1) by (auto simp: send_logs_def Let_def split: option.splits)
    then show ?thesis using p quiet first by (intro conjI exI [of _ ps] exI [of _ "[]"]) auto
  next
    case False
    then obtain fb where fb: "nth_opt ?ds 1 = Some fb" "\<not> ok" by auto
    then have second: "set (take 1 (drop 1 destinations)) = {fb}" by (cases destinations; cases "tl destinations") auto
    obtain ok2 w2 posts2 where two: "send_to_destination S fb logs account_id (w1, posts1) = (ok2, w2, posts2)"
      by (cases "send_to_destination S fb logs account_id (w1, posts1)")
    obtain qs where q: "posts2 = posts1 @ qs" "length qs \<le> 3" "fst ` set qs \<subseteq> {fb}" "one_accepted ok2 qs"
      using send_to_destination_posts [OF two] by blast
    have "r = Inr ()" "posts' = posts @ ps @ qs" using assms \<open>logs \<noteq> []\<close> one two fb p(1) q(1) by (auto simp: send_logs_def Let_def)
    moreover have "\<forall>x\<in>set (butlast (ps @ qs)). \<not> snd x"
      using p(4) q(4) fb(2) by (auto simp: one_accepted_def butlast_append dest: in_set_butlastD split: if_splits)
    moreover have "\<forall>x\<in>set ps. \<not> snd x" using p(4) fb(2) by (simp add: one_accepted_def)
    ultimately show ?thesis using p q first second by (intro conjI exI [of _ ps] exI [of _ qs]) simp_all
  qed
qed

definition flaky_sender :: "nat sender" where
  "flaky_sender = \<lparr>sd_post = (\<lambda>url content_type body w. (if w < 3 then Inr (503, None) else Inr (200, None), w + 1)),
     sd_sleep = (\<lambda>d w. w), sd_jitter = (\<lambda>d w. (d, w)), sd_parse_seconds = (\<lambda>_. None), sd_encode = (\<lambda>_. [0])\<rparr>"

theorem provider_send_bounded_witness:
  "\<exists>primary backup. [(Cloudflare, False), (Cloudflare, False), (Cloudflare, False), (Edge, True)] = [] @ primary @ backup
    \<and> length primary \<le> 3 \<and> length backup \<le> 3 \<and> fst ` set primary \<subseteq> {hd ([Cloudflare, Edge] @ [Edge])}
    \<and> fst ` set backup \<subseteq> set (take 1 (drop 1 [Cloudflare, Edge]))
    \<and> (\<forall>p\<in>set (butlast (primary @ backup)). \<not> snd p) \<and> (backup \<noteq> [] \<longrightarrow> (\<forall>p\<in>set primary. \<not> snd p))"
proof -
  have "send_logs flaky_sender [Cloudflare, Edge] None [1] (0, [])
      = (Inr (), 4, [(Cloudflare, False), (Cloudflare, False), (Cloudflare, False), (Edge, True)])"
    by (simp add: send_logs_def send_to_destination_def flaky_sender_def MAX_ATTEMPTS_def is_retryable_status_def wait_before_retry_def
        parse_retry_after_def upt_rec)
  from provider_send_bounded [OF this] show ?thesis by blast
qed

section \<open>Properties of the manager\<close>

text \<open>The requests that reach the sender, and the reports of the initialisation they carry.\<close>

definition handed :: "'w sender \<Rightarrow> log_request \<Rightarrow> log_request list" where
  "handed S req = (if sd_encode S req \<noteq> [] \<and> has_logs req then [req] else [])"

definition init_reports :: "log_request list \<Rightarrow> nat" where
  "init_reports reqs = sum_list (map (\<lambda>req. case lr_telemetry_data req of Some td \<Rightarrow> length (td_provider_init_rate td) | None \<Rightarrow> 0) reqs)"

lemma init_reports_append: "init_reports (xs @ ys) = init_reports xs + init_reports ys"
  by (simp add: init_reports_def)

text \<open>The two flushes, seen by the books.\<close>

lemma take_all_logs_books:
  assumes "take_all_logs W E M = (req, incl, M')"
  shows "lr_flag_assigned req @ held_events (lm_assign_logger M') = held_events (lm_assign_logger M)"
    and "has_logs req" and "init_reports [req] = (if lm_init_state M = InitPending then 1 else 0)"
    and "incl = (lm_init_state M = InitPending)" and "lm_init_state M' = (if incl then InitSending else lm_init_state M)"
proof -
  obtain wr req1 A where cp: "checkpoint_fill_with_limit W PROVIDER_LOG_BYTES False (fst (resolve_checkpoint (lm_resolve_logger M))) (lm_assign_logger M)
      = (wr, req1, A)" by (cases "checkpoint_fill_with_limit W PROVIDER_LOG_BYTES False (fst (resolve_checkpoint (lm_resolve_logger M))) (lm_assign_logger M)")
  have init: "td_provider_init_rate (fst (delta_snapshot E (lm_telemetry M) (lm_last_flushed M))) = []"
    by (simp add: delta_snapshot_def telemetry_default_def Let_def)
  have empty: "lr_flag_assigned (fst (resolve_checkpoint (lm_resolve_logger M))) = []"
    by (simp add: resolve_checkpoint_def resolve_log_message_def log_request_default_def Let_def)
  have "lr_flag_assigned req = lr_flag_assigned req1" "lm_assign_logger M' = A"
    using assms cp by (auto simp: take_all_logs_def split_beta Let_def)
  then show "lr_flag_assigned req @ held_events (lm_assign_logger M') = held_events (lm_assign_logger M)"
    using checkpoint_keeps [OF cp] empty by simp
  show "has_logs req" "init_reports [req] = (if lm_init_state M = InitPending then 1 else 0)"
    "incl = (lm_init_state M = InitPending)" "lm_init_state M' = (if incl then InitSending else lm_init_state M)"
    using assms init by (auto simp: take_all_logs_def split_beta Let_def has_logs_def init_reports_def init_claim_def split: if_splits)
qed

lemma send_logs_reports_success: "fst (send_logs S destinations account_id logs s) = Inr ()"
  by (auto simp: send_logs_def Let_def split: prod.split option.split)

lemma flush_all_books:
  assumes "provider_flush_all W E S shared M s = (r, M', s')" "sd_encode S (fst (take_all_logs W E M)) \<noteq> []"
  shows "r = Inr ()" "lr_flag_assigned (fst (take_all_logs W E M)) @ held_events (lm_assign_logger M') = held_events (lm_assign_logger M)"
    "lm_init_state M' = (if lm_init_state M = InitPending then InitSent else lm_init_state M)"
    "init_reports [fst (take_all_logs W E M)] = (if lm_init_state M = InitPending then 1 else 0)"
    "handed S (fst (take_all_logs W E M)) = [fst (take_all_logs W E M)]"
proof -
  obtain req incl M1 where t: "take_all_logs W E M = (req, incl, M1)" by (cases "take_all_logs W E M")
  note books = take_all_logs_books [OF t]
  obtain s1 where sent: "send_logs S (ss_log_destinations shared) (ss_account_id shared) (sd_encode S req) s = (Inr (), s1)"
    using send_logs_reports_success [of S "ss_log_destinations shared" "ss_account_id shared" "sd_encode S req" s]
    by (cases "send_logs S (ss_log_destinations shared) (ss_account_id shared) (sd_encode S req) s") auto
  have res: "r = Inr ()" "M' = (if incl then M1\<lparr>lm_init_state := InitSent\<rparr> else M1)"
    using assms books(2) by (auto simp: provider_flush_all_def t sent init_complete_def Let_def)
  then show "r = Inr ()" "lr_flag_assigned (fst (take_all_logs W E M)) @ held_events (lm_assign_logger M') = held_events (lm_assign_logger M)"
    "lm_init_state M' = (if lm_init_state M = InitPending then InitSent else lm_init_state M)"
    "init_reports [fst (take_all_logs W E M)] = (if lm_init_state M = InitPending then 1 else 0)"
    "handed S (fst (take_all_logs W E M)) = [fst (take_all_logs W E M)]"
    using books assms(2) by (auto simp: t handed_def)
qed

lemma flush_assign_books:
  assumes "provider_flush_assign W S shared M s = (r, M', s')" "\<And>req. has_logs req \<Longrightarrow> sd_encode S req \<noteq> []"
  defines "out \<equiv> handed S (fst (checkpoint_with_limit W PROVIDER_LOG_BYTES True (lm_assign_logger M)))"
  shows "concat (map lr_flag_assigned out) @ held_events (lm_assign_logger M') = held_events (lm_assign_logger M)"
    "lm_init_state M' = lm_init_state M" "init_reports out = 0"
proof -
  obtain wr req A where cp: "checkpoint_fill_with_limit W PROVIDER_LOG_BYTES True log_request_default (lm_assign_logger M) = (wr, req, A)"
    by (cases "checkpoint_fill_with_limit W PROVIDER_LOG_BYTES True log_request_default (lm_assign_logger M)")
  have M': "M' = M\<lparr>lm_assign_logger := A\<rparr>"
    using assms(1) by (auto simp: provider_flush_assign_def checkpoint_with_limit_def cp Let_def split: if_splits prod.splits)
  have out: "out = handed S req" by (simp add: out_def checkpoint_with_limit_def cp)
  have "lr_telemetry_data req = None" using checkpoint_telemetry [OF cp] by (simp add: log_request_default_def)
  then show "init_reports out = 0" by (simp add: out handed_def init_reports_def)
  have "concat (map lr_flag_assigned out) = lr_flag_assigned req"
    using assms(2) [of req] by (cases "has_logs req") (auto simp: out handed_def has_logs_def)
  then show "concat (map lr_flag_assigned out) @ held_events (lm_assign_logger M') = held_events (lm_assign_logger M)"
    using checkpoint_keeps [OF cp] by (simp add: M' log_request_default_def)
  show "lm_init_state M' = lm_init_state M" by (simp add: M')
qed

definition witness_manager :: log_manager where
  "witness_manager = \<lparr>lm_sdk = \<lparr>sdk_id = None, sdk_version = []\<rparr>, lm_init_labels = [], lm_init_state = InitPending, lm_resolve_logger = resolve_info_new,
     lm_assign_logger = assign_logger_new, lm_telemetry = telemetry_new, lm_last_flushed = snapshot_default\<rparr>"

definition witness_wire :: wire where
  "witness_wire = \<lparr>flag_assigned_len = (\<lambda>_. 1), log_request_len = (\<lambda>_. 0), length_delimiter_len = (\<lambda>_. 1)\<rparr>"

definition witness_telemetry_env :: telemetry_env where
  "witness_telemetry_env = \<lparr>te_ln_bucket = (\<lambda>_. 0), te_ln_ratio = 0, te_memory_bytes = 0, te_version = []\<rparr>"

text \<open>
  The error branch of the full flush is dead code: with a platform that refuses every post the logs are gone, the flush reports
  success and the initialisation counts as reported.
\<close>

definition dead_sender :: "nat sender" where
  "dead_sender = flaky_sender\<lparr>sd_post := (\<lambda>url content_type body w. (Inr (500, None), w + 1))\<rparr>"

lemma lost_logs_reported_as_sent:
  "case provider_flush_all witness_wire witness_telemetry_env dead_sender shared_state_new witness_manager (0, []) of
     (r, M, w, posts) \<Rightarrow> r = Inr () \<and> lm_init_state M = InitSent \<and> posts = replicate 3 (Edge, False)"
proof (cases "provider_flush_all witness_wire witness_telemetry_env dead_sender shared_state_new witness_manager (0, [])")
  case (fields r M w posts)
  note books = flush_all_books [OF fields]
  have sent: "send_logs dead_sender [Edge] None [0] (0, []) = (Inr (), 3, replicate 3 (Edge, False))"
    by (simp add: send_logs_def send_to_destination_def dead_sender_def flaky_sender_def MAX_ATTEMPTS_def is_retryable_status_def
        wait_before_retry_def parse_retry_after_def upt_rec numeral_3_eq_3)
  obtain req incl M1 where t: "take_all_logs witness_wire witness_telemetry_env witness_manager = (req, incl, M1)"
    by (cases "take_all_logs witness_wire witness_telemetry_env witness_manager")
  have "posts = replicate 3 (Edge, False)"
    using fields take_all_logs_books(2) [OF t] sent
    by (simp add: provider_flush_all_def t shared_state_new_def dead_sender_def flaky_sender_def Let_def)
  moreover have "r = Inr ()" "lm_init_state M = InitSent"
    using books(1,3) by (simp_all add: dead_sender_def flaky_sender_def witness_manager_def)
  ultimately show ?thesis unfolding fields by simp
qed

end
