(* ===== verification/Provider.thy ===== *)
theory Provider
  imports Provider_Evaluation Provider_Logs
begin

text \<open>
  The OpenFeature provider as a whole (\<open>provider.rs\<close>, \<open>host.rs\<close>): its options, its construction, the native host, the background
  task and the shutdown, over the state, the evaluation and the logs of the other theories. One provider runs in the process, so the global
  loggers of \<open>host.rs\<close> are part of its log manager. What the timers and the select do is an arbitrary order of actions.
\<close>

section \<open>Options and construction\<close>

datatype 'w store_config = ConfidenceRemote | CustomStore "'w store"

record 'w options =
  po_client_secret :: string
  po_initialize_timeout :: "nat option"
  po_state_poll_interval :: "nat option"
  po_flush_interval :: "nat option"
  po_assign_flush_interval :: "nat option"
  po_store :: "'w store_config option"
  po_gateway_url :: "string option"
  po_encryption_key :: string
  po_disable_exposure :: bool

definition options_new :: "string \<Rightarrow> string \<Rightarrow> 'w options" where
  [model_defs]: "options_new client_secret key =
     \<lparr>po_client_secret = client_secret, po_initialize_timeout = None, po_state_poll_interval = None, po_flush_interval = None,
      po_assign_flush_interval = None, po_store = None, po_gateway_url = None, po_encryption_key = key,
      po_disable_exposure = False\<rparr>"

definition with_initialize_timeout :: "nat \<Rightarrow> 'w options \<Rightarrow> 'w options" where
  [model_defs]: "with_initialize_timeout ms opts = opts\<lparr>po_initialize_timeout := Some ms\<rparr>"

definition with_state_poll_interval :: "nat \<Rightarrow> 'w options \<Rightarrow> 'w options" where
  [model_defs]: "with_state_poll_interval ms opts = opts\<lparr>po_state_poll_interval := Some ms\<rparr>"

definition with_confidence_materialization_store :: "'w options \<Rightarrow> 'w options" where
  [model_defs]: "with_confidence_materialization_store opts = opts\<lparr>po_store := Some ConfidenceRemote\<rparr>"

definition with_materialization_store :: "'w store \<Rightarrow> 'w options \<Rightarrow> 'w options" where
  [model_defs]: "with_materialization_store store opts = opts\<lparr>po_store := Some (CustomStore store)\<rparr>"

definition with_gateway_url :: "string \<Rightarrow> 'w options \<Rightarrow> 'w options" where
  [model_defs]: "with_gateway_url url opts = opts\<lparr>po_gateway_url := Some url\<rparr>"

definition with_encryption_key :: "string \<Rightarrow> 'w options \<Rightarrow> 'w options" where
  [model_defs]: "with_encryption_key key opts = opts\<lparr>po_encryption_key := key\<rparr>"

definition with_exposure_disabled :: "'w options \<Rightarrow> 'w options" where
  [model_defs]: "with_exposure_disabled opts = opts\<lparr>po_disable_exposure := True\<rparr>"

definition DEFAULT_INITIALIZE_TIMEOUT_MS :: nat where [model_defs]: "DEFAULT_INITIALIZE_TIMEOUT_MS = 30000"
definition DEFAULT_FLUSH_INTERVAL_MS :: nat where [model_defs]: "DEFAULT_FLUSH_INTERVAL_MS = 15000"
definition DEFAULT_ASSIGN_FLUSH_INTERVAL_MS :: nat where [model_defs]: "DEFAULT_ASSIGN_FLUSH_INTERVAL_MS = 100"
definition PROVIDER_VERSION :: string where [model_defs]: "PROVIDER_VERSION = ''0.13.0''"

definition provider_sdk :: sdk where
  [model_defs]: "provider_sdk = \<lparr>sdk_id = Some (Inl 9), sdk_version = PROVIDER_VERSION\<rparr>"

definition log_manager_new :: "sdk \<Rightarrow> string fields \<Rightarrow> log_manager" where
  [model_defs]: "log_manager_new sdk init_labels =
     \<lparr>lm_sdk = sdk, lm_init_labels = init_labels, lm_init_state = InitPending, lm_resolve_logger = resolve_info_new,
      lm_assign_logger = assign_logger_new, lm_telemetry = telemetry_new, lm_last_flushed = snapshot_default\<rparr>"

record 'w confidence_provider =
  cp_client_secret :: string
  cp_state :: provider
  cp_log_manager :: log_manager
  cp_store :: "'w store option"
  cp_initialize_timeout :: nat
  cp_state_poll_interval :: nat
  cp_flush_interval :: nat
  cp_assign_flush_interval :: nat
  cp_disable_exposure :: bool

text \<open>\<open>GatewayMiddleware::from_str\<close>; the URL parser is a parameter.\<close>

definition gateway_from_str :: "(string \<Rightarrow> string option) \<Rightarrow> string \<Rightarrow> provider_error + unit" where
  [model_defs]: "gateway_from_str url_error url =
     (case url_error url of Some e \<Rightarrow> Inl (Configuration (''invalid gateway URL: '' @ e)) | None \<Rightarrow> Inr ())"

datatype new_failure = NewPanic | NewError provider_error

definition provider_new ::
  "platform \<Rightarrow> (string \<Rightarrow> string option) \<Rightarrow> 'w remote \<Rightarrow> 'w options \<Rightarrow> new_failure + 'w confidence_provider" where
  [model_defs]: "provider_new P url_error R opts =
     (case decode_encryption_key P (po_encryption_key opts) of
        Inl e \<Rightarrow> Inl (NewError e)
      | Inr _ \<Rightarrow>
          if (case po_gateway_url opts of Some url \<Rightarrow> gateway_from_str url_error url \<noteq> Inr () | None \<Rightarrow> False) then Inl NewPanic
          else
            (case state_fetcher_new P (po_client_secret opts) (Some provider_sdk) (po_encryption_key opts) of
               Inl e \<Rightarrow> Inl (NewError e)
             | Inr fetcher \<Rightarrow>
                 Inr \<lparr>cp_client_secret = po_client_secret opts,
                      cp_state = \<lparr>pv_polling = False, pv_fetcher = fetcher, pv_shared = shared_state_new\<rparr>,
                      cp_log_manager = log_manager_new provider_sdk [(''encryption'', ''true'')],
                      cp_store = (case po_store opts of
                          Some ConfidenceRemote \<Rightarrow> Some (remote_store R (po_client_secret opts))
                        | Some (CustomStore store) \<Rightarrow> Some store
                        | None \<Rightarrow> None),
                      cp_initialize_timeout = (case po_initialize_timeout opts of Some ms \<Rightarrow> ms | None \<Rightarrow> DEFAULT_INITIALIZE_TIMEOUT_MS),
                      cp_state_poll_interval = (case po_state_poll_interval opts of Some ms \<Rightarrow> ms | None \<Rightarrow> DEFAULT_STATE_POLL_INTERVAL_MS),
                      cp_flush_interval = (case po_flush_interval opts of Some ms \<Rightarrow> ms | None \<Rightarrow> DEFAULT_FLUSH_INTERVAL_MS),
                      cp_assign_flush_interval = (case po_assign_flush_interval opts of Some ms \<Rightarrow> ms | None \<Rightarrow> DEFAULT_ASSIGN_FLUSH_INTERVAL_MS),
                      cp_disable_exposure = po_disable_exposure opts\<rparr>))"

section \<open>The native host and an evaluation\<close>

text \<open>What the process gives the provider; the store and the sender act on one world.\<close>

record 'w runtime =
  rt_platform :: platform
  rt_libs :: libs
  rt_tables :: locale_tables
  rt_wire :: wire
  rt_telemetry :: telemetry_env
  rt_sender :: "'w sender"

fun native_host :: "libs \<Rightarrow> locale_tables \<Rightarrow> nat \<Rightarrow> host_event \<Rightarrow> log_manager \<Rightarrow> log_manager" where
  "native_host L T draw (LogResolve resolve_id fs rvs client) M =
     M\<lparr>lm_resolve_logger := log_resolve L T draw fs (client_credential_name client) rvs (lm_resolve_logger M)\<rparr>"
| "native_host L T draw (LogAssign resolve_id flags client sdk) M =
     M\<lparr>lm_assign_logger := log_assigns resolve_id flags client sdk (lm_assign_logger M)\<rparr>"

definition evaluator_of :: "'w confidence_provider \<Rightarrow> 'w evaluator" where
  [model_defs]: "evaluator_of C =
     \<lparr>el_client_secret = cp_client_secret C, el_shared = pv_shared (cp_state C), el_store = cp_store C,
      el_disable_exposure = cp_disable_exposure C, el_sdk = provider_sdk\<rparr>"

datatype eval_kind = AsBool | AsInt | AsFloat | AsString | AsStruct

definition registered_reason :: "eval_kind \<Rightarrow> pick \<Rightarrow> eval_failure + resolve_result \<Rightarrow> resolve_reason option" where
  [model_defs]: "registered_reason kind pick outcome =
     (case kind of
        AsBool \<Rightarrow> snd (resolve_bool_value pick outcome)
      | AsInt \<Rightarrow> snd (resolve_int_value pick outcome)
      | AsFloat \<Rightarrow> snd (resolve_float_value pick outcome)
      | AsString \<Rightarrow> snd (resolve_string_value pick outcome)
      | AsStruct \<Rightarrow> snd (resolve_struct_value outcome))"

text \<open>An evaluation: the clock and key of the host, the ids, the random draw, the latency and the hash order vary from call to call.\<close>

record call =
  ca_host :: host
  ca_ids :: "string \<times> string"
  ca_draw :: nat
  ca_latency_us :: u32
  ca_pick :: pick

definition provider_evaluate ::
  "'w runtime \<Rightarrow> call \<Rightarrow> eval_kind \<Rightarrow> string \<Rightarrow> eval_context \<Rightarrow> 'w confidence_provider \<Rightarrow> 'w \<Rightarrow>
   'w confidence_provider \<times> 'w \<times> host_event list" where
  [model_defs]: "provider_evaluate T c kind flag_key ctx C w =
     (case provider_resolve_flag (rt_libs T) (ca_host c) (ca_ids c) (evaluator_of C) flag_key ctx w of
        (outcome, w, events) \<Rightarrow>
          (let M = fold (native_host (rt_libs T) (rt_tables T) (ca_draw c)) events (cp_log_manager C);
               M = M\<lparr>lm_telemetry := snd (register (rt_telemetry T) (ca_latency_us c) ((), registered_reason kind (ca_pick c) outcome)
                       (lm_telemetry M))\<rparr> in
           (C\<lparr>cp_log_manager := M\<rparr>, w, events)))"

section \<open>A run of the provider\<close>

text \<open>
  After the initialisation: evaluations, the branches of the background task as long as it runs (a round of the refresh loop, the two flush
  timers, of which the second stands still when exposure is disabled), and the shutdown with its last flush. Beside the provider and the
  world with its posts go the events of the resolver and the requests that were handed to the sender.
\<close>

datatype provider_action =
    Evaluate call eval_kind string eval_context
  | Poll "(string + cdn_response) option"
  | FlushTick
  | AssignTick
  | Shutdown

type_synonym 'w provider_run = "'w confidence_provider \<times> 'w posting \<times> host_event list \<times> log_request list"

definition flush_everything :: "'w runtime \<Rightarrow> 'w provider_run \<Rightarrow> 'w provider_run" where
  [model_defs]: "flush_everything T = (\<lambda>(C, s, events, out).
     let req = fst (take_all_logs (rt_wire T) (rt_telemetry T) (cp_log_manager C)) in
     case provider_flush_all (rt_wire T) (rt_telemetry T) (rt_sender T) (pv_shared (cp_state C)) (cp_log_manager C) s of
       (_, M, s) \<Rightarrow> (C\<lparr>cp_log_manager := M\<rparr>, s, events, out @ handed (rt_sender T) req))"

definition flush_assigns :: "'w runtime \<Rightarrow> 'w provider_run \<Rightarrow> 'w provider_run" where
  [model_defs]: "flush_assigns T = (\<lambda>(C, s, events, out).
     let req = fst (checkpoint_with_limit (rt_wire T) PROVIDER_LOG_BYTES True (lm_assign_logger (cp_log_manager C))) in
     case provider_flush_assign (rt_wire T) (rt_sender T) (pv_shared (cp_state C)) (cp_log_manager C) s of
       (_, M, s) \<Rightarrow> (C\<lparr>cp_log_manager := M\<rparr>, s, events, out @ handed (rt_sender T) req))"

fun provider_step :: "'w runtime \<Rightarrow> provider_action \<Rightarrow> 'w provider_run \<Rightarrow> 'w provider_run" where
  "provider_step T (Evaluate c kind flag_key ctx) (C, (w, posts), events, out) =
     (case provider_evaluate T c kind flag_key ctx C w of (C, w, new) \<Rightarrow> (C, (w, posts), events @ new, out))"
| "provider_step T (Poll answer) (C, s, events, out) =
     (C\<lparr>cp_state := poll (rt_platform T) (rt_libs T) answer (cp_state C)\<rparr>, s, events, out)"
| "provider_step T FlushTick (C, s, events, out) =
     (if pv_polling (cp_state C) then flush_everything T (C, s, events, out) else (C, s, events, out))"
| "provider_step T AssignTick (C, s, events, out) =
     (if pv_polling (cp_state C) \<and> \<not> cp_disable_exposure C then flush_assigns T (C, s, events, out) else (C, s, events, out))"
| "provider_step T Shutdown (C, s, events, out) =
     flush_everything T (C\<lparr>cp_state := (cp_state C)\<lparr>pv_polling := False\<rparr>\<rparr>, s, events, out)"

definition initialized :: "'w runtime \<Rightarrow> (string + cdn_response) option \<Rightarrow> 'w confidence_provider \<Rightarrow> 'w confidence_provider" where
  [model_defs]: "initialized T answer C =
     C\<lparr>cp_state := snd (init_provider (rt_platform T) (rt_libs T) answer (pv_fetcher (cp_state C)))\<rparr>"

section \<open>What is reported\<close>

fun exposures :: "host_event list \<Rightarrow> flag_assigned list" where
  "exposures [] = []"
| "exposures (LogAssign i flags client sdk # events) = build_flag_assigned i flags client sdk # exposures events"
| "exposures (LogResolve i fs rvs client # events) = exposures events"

lemma exposures_append: "exposures (xs @ ys) = exposures xs @ exposures ys"
  by (induction xs rule: exposures.induct) simp_all

lemma native_host_books:
  "held_events (lm_assign_logger (fold (native_host L T draw) events M)) = held_events (lm_assign_logger M) @ exposures events
   \<and> lm_init_state (fold (native_host L T draw) events M) = lm_init_state M"
  by (induction events arbitrary: M rule: exposures.induct) (simp_all add: held_log_assigns)

text \<open>The native host is a host of the resolver that deduplicates nothing.\<close>

interpretation nh: event_host "native_host L T draw" "\<lambda>M. concat (map fg_flags (held_events (lm_assign_logger M)))" "\<lambda>_. D" "\<lambda>_. False"
proof
  fix i flags c k M
  show "\<exists>kept. concat (map fg_flags (held_events (lm_assign_logger (native_host L T draw (LogAssign i flags c k) M))))
      = concat (map fg_flags (held_events (lm_assign_logger M))) @ map applied_event_of kept \<and> booked False flags kept D D"
    using booked_all [of flags False D] by (intro exI [of _ flags]) (simp add: build_flag_assigned_def)
qed simp_all

lemma native_host_reports_all:
  "concat (map fg_flags (held_events (lm_assign_logger (fold (native_host L T draw) events M))))
     = concat (map fg_flags (held_events (lm_assign_logger M))) @ map applied_event_of (applied_of events)"
  by (rule nh.reports_all) simp

text \<open>The option reaches every call of the resolver, also when it fails or suspends.\<close>

lemma disabled_resolve_exposes_nothing:
  "disable_exposure_collection R \<Longrightarrow> exposures (snd (resolve_flags L H i R request)) = []"
  by (auto simp: resolve_flags_def respond_def expose_def bind_ok_def Let_def split: sum.splits option.splits prod.splits if_splits)

lemma disabled_run_exposes_nothing:
  assumes "disable_exposure_collection R" "run_resolver L H ids V R request w = (r, w', events)"
  shows "exposures events = []"
proof -
  have quiet: "exposures ev = []" if "resolve_flags L H i R q = (x, ev)" for i q x ev
    using disabled_resolve_exposes_nothing [OF assms(1), of L H i q] that by simp
  obtain r1 ev1 where one: "resolve_flags L H (fst ids) R request = (r1, ev1)" by (cases "resolve_flags L H (fst ids) R request")
  note q1 = quiet [OF one]
  show ?thesis
    using assms(2) one q1
    by (auto simp: run_resolver_def exposures_append split: sum.splits option.splits process_response.splits prod.splits dest!: quiet)
qed

lemma disabled_evaluation_exposes_nothing:
  assumes "el_disable_exposure V" "provider_resolve_flag L H ids V flag_key ctx w = (r, w', events)"
  shows "exposures events = []"
  using assms
  by (auto simp: provider_resolve_flag_def Let_def with_disable_exposure_collection_def
      split: sum.splits option.splits prod.splits dest: disabled_run_exposes_nothing [rotated])

text \<open>What a step adds to the books: the events of an evaluation, at most one report of the initialisation.\<close>

definition balanced :: "'w provider_run \<Rightarrow> bool" where
  "balanced run \<longleftrightarrow>
     (case run of (C, s, events, out) \<Rightarrow>
       concat (map lr_flag_assigned out) @ held_events (lm_assign_logger (cp_log_manager C)) = exposures events
       \<and> (lm_init_state (cp_log_manager C), init_reports out) \<in> {(InitPending, 0), (InitSent, 1)}
       \<and> (cp_disable_exposure C \<longrightarrow> exposures events = []))"

lemma balanced_flush_everything:
  assumes "\<And>req. has_logs req \<Longrightarrow> sd_encode (rt_sender T) req \<noteq> []" "balanced run"
  shows "balanced (flush_everything T run)"
proof (cases run)
  case (fields C s events out)
  let ?M = "cp_log_manager C"
  obtain r M' s' where flush: "provider_flush_all (rt_wire T) (rt_telemetry T) (rt_sender T) (pv_shared (cp_state C)) ?M s = (r, M', s')"
    by (cases "provider_flush_all (rt_wire T) (rt_telemetry T) (rt_sender T) (pv_shared (cp_state C)) ?M s")
  obtain req incl M1 where t: "take_all_logs (rt_wire T) (rt_telemetry T) ?M = (req, incl, M1)"
    by (cases "take_all_logs (rt_wire T) (rt_telemetry T) ?M")
  have "sd_encode (rt_sender T) (fst (take_all_logs (rt_wire T) (rt_telemetry T) ?M)) \<noteq> []"
    using assms(1) take_all_logs_books(2) [OF t] by (simp add: t)
  note books = flush_all_books [OF flush this]
  have "flush_everything T run = (C\<lparr>cp_log_manager := M'\<rparr>, s', events, out @ [req])"
    using books(5) by (simp add: flush_everything_def fields flush t)
  then show ?thesis
    using assms(2) books(2-4) by (auto simp: balanced_def fields t init_reports_append)
qed

lemma balanced_flush_assigns:
  assumes "\<And>req. has_logs req \<Longrightarrow> sd_encode (rt_sender T) req \<noteq> []" "balanced run"
  shows "balanced (flush_assigns T run)"
proof (cases run)
  case (fields C s events out)
  let ?M = "cp_log_manager C"
  obtain r M' s' where flush: "provider_flush_assign (rt_wire T) (rt_sender T) (pv_shared (cp_state C)) ?M s = (r, M', s')"
    by (cases "provider_flush_assign (rt_wire T) (rt_sender T) (pv_shared (cp_state C)) ?M s")
  note books = flush_assign_books [OF flush assms(1)]
  show ?thesis
    using assms(2) books by (auto simp: flush_assigns_def fields flush balanced_def init_reports_append)
qed

lemma balanced_evaluate:
  assumes "balanced (C, (w, posts), events, out)"
  shows "balanced (provider_step T (Evaluate c kind flag_key ctx) (C, (w, posts), events, out))"
proof -
  obtain r w' new where run: "provider_resolve_flag (rt_libs T) (ca_host c) (ca_ids c) (evaluator_of C) flag_key ctx w = (r, w', new)"
    by (cases "provider_resolve_flag (rt_libs T) (ca_host c) (ca_ids c) (evaluator_of C) flag_key ctx w")
  have "exposures new = []" if "cp_disable_exposure C"
    using disabled_evaluation_exposes_nothing [OF _ run] that by (simp add: evaluator_of_def)
  then show ?thesis
    using assms native_host_books [of "rt_libs T" "rt_tables T" "ca_draw c" new "cp_log_manager C"]
    by (auto simp: provider_evaluate_def run balanced_def exposures_append Let_def simp flip: append_assoc)
qed

lemma balanced_step:
  assumes "\<And>req. has_logs req \<Longrightarrow> sd_encode (rt_sender T) req \<noteq> []" "balanced run"
  shows "balanced (provider_step T action run)"
proof -
  obtain C w posts events out where run: "run = (C, (w, posts), events, out)" by (cases run) auto
  have keep: "balanced (C\<lparr>cp_state := st\<rparr>, s, ev, o2) = balanced (C, s, ev, o2)" for C :: "'a confidence_provider" and st s ev o2
    by (simp add: balanced_def)
  show ?thesis
  proof (cases action)
    case (Evaluate c kind flag_key ctx)
    then show ?thesis using assms(2) balanced_evaluate by (simp add: run del: provider_step.simps)
  qed (use assms(2) balanced_flush_everything [OF assms(1)] balanced_flush_assigns [OF assms(1)] keep in \<open>auto simp: run\<close>)
qed


section \<open>Instances\<close>

definition example_remote :: "nat remote" where
  "example_remote = \<lparr>rm_read = (\<lambda>secret ops w. (Inl ''down'', w)), rm_write = (\<lambda>secret ops w. (Inl ''down'', w)),
     rm_decode = (\<lambda>raw. Inr []), rm_status_text = (\<lambda>n. show_nat n)\<rparr>"

definition example_runtime :: "nat runtime" where
  "example_runtime = \<lparr>rt_platform = example_platform, rt_libs = example_libs, rt_tables = example_tables, rt_wire = witness_wire,
     rt_telemetry = witness_telemetry_env, rt_sender = flaky_sender\<rparr>"

definition example_actions :: "provider_action list" where
  "example_actions =
     [Poll (Some (Inr \<lparr>cr_status = 200, cr_etag = Some ''t'', cr_body = Inr (replicate 12 0)\<rparr>)),
      Evaluate \<lparr>ca_host = provider_host, ca_ids = (''i1'', ''i2''), ca_draw = 0, ca_latency_us = 7, ca_pick = first_opt\<rparr> AsBool ''f.on'' example_eval_context,
      FlushTick, AssignTick, Shutdown]"


text \<open>An invalid gateway URL panics although the construction returns its errors and the parser of the gateway reports one.\<close>

lemma invalid_gateway_panics:
  assumes "decode_encryption_key P (po_encryption_key opts) = Inr key" "url_error url = Some e"
  shows "provider_new P url_error R (with_gateway_url url opts) = Inl NewPanic"
    and "gateway_from_str url_error url = Inl (Configuration (''invalid gateway URL: '' @ e))"
  using assms by (simp_all add: provider_new_def with_gateway_url_def gateway_from_str_def)

end
