(* ===== verification/Event_Engine.thy ===== *)
theory Event_Engine
  imports Assign_Log
begin

text \<open>
  The event engine: the queue of tracked events (\<open>confidence-event-engine/src/event_logger.rs\<close>) and the exported functions of
  its module (\<open>wasm/event-guest/src/lib.rs\<close>). Encoded sizes are parameters; \<open>usize\<close> is that of the WebAssembly build, the mutex
  serialises the flushes, and the lock-free queue is the list of its elements.
\<close>

section \<open>Events\<close>

record event =
  ev_definition :: string
  ev_time :: "timestamp option"
  ev_payload :: "gstruct option"

record track_event_request =
  tr_event_name :: string
  tr_event_time :: "timestamp option"
  tr_value :: "f64 option"
  tr_context :: "gstruct option"
  tr_data :: "gstruct option"

definition EVENT_DEF_PREFIX :: string where [model_defs]: "EVENT_DEF_PREFIX = ''eventDefinitions/''"

definition build_payload :: "track_event_request \<Rightarrow> gstruct option" where
  [model_defs]: "build_payload req =
     (let fs = (case tr_data req of Some data \<Rightarrow> fold (\<lambda>(k, v). hm_insert k v) data [] | None \<Rightarrow> []);
          fs = (case tr_value req of Some v \<Rightarrow> hm_insert ''value'' (Some (NumberValue v)) fs | None \<Rightarrow> fs);
          fs = (case tr_context req of Some ctx \<Rightarrow> hm_insert ''context'' (Some (StructValue ctx)) fs | None \<Rightarrow> fs) in
      if fs = [] then None else Some fs)"

definition event_of :: "track_event_request \<Rightarrow> event" where
  [model_defs]: "event_of req =
     \<lparr>ev_definition = EVENT_DEF_PREFIX @ tr_event_name req, ev_time = tr_event_time req, ev_payload = build_payload req\<rparr>"

section \<open>The queue\<close>

record event_wire =
  ew_event_len :: "event \<Rightarrow> nat"
  ew_response_len :: "event list \<Rightarrow> nat"
  ew_delimiter_len :: "nat \<Rightarrow> nat"

record event_logger =
  eq_queue :: "event list"
  eq_pending :: "(event \<times> nat) list"
  eq_pending_bytes :: nat

definition event_logger_new :: event_logger where
  [model_defs]: "event_logger_new = \<lparr>eq_queue = [], eq_pending = [], eq_pending_bytes = 0\<rparr>"

definition track :: "event \<Rightarrow> event_logger \<Rightarrow> event_logger" where
  [model_defs]: "track e A = A\<lparr>eq_queue := eq_queue A @ [e]\<rparr>"

definition tracked_len :: "event_wire \<Rightarrow> event \<Rightarrow> nat" where
  [model_defs]: "tracked_len W e = (let len = ew_event_len W e in usize_add (usize_add len (ew_delimiter_len W len)) 1)"

fun pull_events :: "event_wire \<Rightarrow> nat \<Rightarrow> event list \<Rightarrow> (event \<times> nat) list \<Rightarrow> nat \<Rightarrow> event list \<times> (event \<times> nat) list \<times> nat" where
  "pull_events W limit [] waiting pending_bytes = ([], waiting, pending_bytes)"
| "pull_events W limit (e # queue) waiting pending_bytes =
     (if pending_bytes < limit
      then pull_events W limit queue (waiting @ [(e, tracked_len W e)]) (usize_add pending_bytes (tracked_len W e))
      else (e # queue, waiting, pending_bytes))"

fun emit_events :: "nat \<Rightarrow> nat \<Rightarrow> nat \<Rightarrow> (event \<times> nat) list \<Rightarrow> event list \<Rightarrow> nat \<times> (event \<times> nat) list \<times> event list" where
  "emit_events limit start written [] out = (written, [], out)"
| "emit_events limit start written ((e, len) # waiting) out =
     (if limit < usize_add written len \<and> \<not> (written = 0 \<and> start = 0) then (written, (e, len) # waiting, out)
      else emit_events limit start (usize_add written len) waiting (out @ [e]))"

definition flush_fill :: "event_wire \<Rightarrow> nat \<Rightarrow> bool \<Rightarrow> event list \<Rightarrow> event_logger \<Rightarrow> nat \<times> event list \<times> event_logger" where
  [model_defs]: "flush_fill W limit_bytes require_full req A =
     (let start = ew_response_len W req;
          limit_bytes = limit_bytes - start;
          (queue, waiting, pending_bytes) = pull_events W limit_bytes (eq_queue A) (eq_pending A) (eq_pending_bytes A) in
      if limit_bytes \<le> pending_bytes \<or> \<not> require_full then
        (case emit_events limit_bytes start 0 waiting req of (written, waiting, out) \<Rightarrow>
           (written, out, \<lparr>eq_queue = queue, eq_pending = waiting, eq_pending_bytes = pending_bytes - written\<rparr>))
      else (0, req, \<lparr>eq_queue = queue, eq_pending = waiting, eq_pending_bytes = pending_bytes\<rparr>))"

definition bounded_flush :: "event_wire \<Rightarrow> nat \<Rightarrow> bool \<Rightarrow> event_logger \<Rightarrow> event list \<times> event_logger" where
  [model_defs]: "bounded_flush W limit_bytes require_full A = snd (flush_fill W limit_bytes require_full [] A)"

section \<open>The module\<close>

definition EVENT_TARGET_BYTES :: nat where [model_defs]: "EVENT_TARGET_BYTES = 2 * 1024 * 1024"

datatype engine_call = TrackEvent track_event_request | BoundedFlushEvents

fun engine_step :: "event_wire \<Rightarrow> engine_call \<Rightarrow> event_logger \<times> event list list \<Rightarrow> event_logger \<times> event list list" where
  "engine_step W (TrackEvent req) (A, responses) = (track (event_of req) A, responses)"
| "engine_step W BoundedFlushEvents (A, responses) =
     (case bounded_flush W EVENT_TARGET_BYTES False A of (response, A) \<Rightarrow> (A, responses @ [response]))"

section \<open>Properties\<close>

definition engine_held :: "event_logger \<Rightarrow> event list" where
  "engine_held A = map fst (eq_pending A) @ eq_queue A"

definition events_size :: "event_wire \<Rightarrow> event list \<Rightarrow> nat" where
  "events_size W es = sum_list (map (tracked_len W) es)"

definition engine_inv :: "event_wire \<Rightarrow> event_logger \<Rightarrow> bool" where
  "engine_inv W A \<longleftrightarrow> map snd (eq_pending A) = map (tracked_len W) (map fst (eq_pending A))
     \<and> eq_pending_bytes A = events_size W (map fst (eq_pending A)) \<and> events_size W (engine_held A) \<le> USIZE_MAX"

lemma events_size_simps [simp]:
  "events_size W [] = 0" "events_size W (e # es) = tracked_len W e + events_size W es"
  "events_size W (es @ es') = events_size W es + events_size W es'"
  by (simp_all add: events_size_def)

lemma tracked_len_pos: "0 < tracked_len W e"
  by (simp add: tracked_len_def usize_add_def USIZE_MAX_def Let_def)

lemma pull_events_result:
  "pull_events W limit queue waiting pb = (queue', waiting', pb') \<Longrightarrow>
     map snd waiting = map (tracked_len W) (map fst waiting) \<Longrightarrow> pb = events_size W (map fst waiting) \<Longrightarrow>
     events_size W (map fst waiting @ queue) \<le> USIZE_MAX \<Longrightarrow>
     map fst waiting' @ queue' = map fst waiting @ queue \<and> map snd waiting' = map (tracked_len W) (map fst waiting')
     \<and> pb' = events_size W (map fst waiting') \<and> (limit \<le> pb' \<or> queue' = [])"
  by (induction W limit queue waiting pb rule: pull_events.induct) (auto simp: usize_add_id split: if_splits)

lemma emit_events_result:
  "emit_events limit start written waiting out = (w, waiting', out') \<Longrightarrow>
     map snd waiting = map (tracked_len W) (map fst waiting) \<Longrightarrow> written + events_size W (map fst waiting) \<le> USIZE_MAX \<Longrightarrow>
     \<exists>moved. map fst waiting = moved @ map fst waiting' \<and> out' = out @ moved \<and> w = written + events_size W moved
       \<and> map snd waiting' = map (tracked_len W) (map fst waiting')
       \<and> (moved = [] \<or> w \<le> limit \<or> written = 0 \<and> start = 0 \<and> length moved = 1)
       \<and> (waiting = [] \<or> start \<noteq> 0 \<or> written \<noteq> 0 \<or> moved \<noteq> [])"
proof (induction limit start written waiting out rule: emit_events.induct)
  case (2 limit start written e len waiting out)
  have len: "len = tracked_len W e" "0 < len" using "2.prems"(2) tracked_len_pos by auto
  have add: "usize_add written len = written + len" using "2.prems"(3) len by (simp add: usize_add_id)
  show ?case
  proof (cases "limit < written + len \<and> \<not> (written = 0 \<and> start = 0)")
    case True
    then show ?thesis using "2.prems" by (intro exI [of _ "[]"]) (auto simp: add)
  next
    case False
    have run: "emit_events limit start (written + len) waiting (out @ [e]) = (w, waiting', out')"
      using "2.prems"(1) False by (simp add: add split: if_splits)
    have "written + len + events_size W (map fst waiting) \<le> USIZE_MAX" using "2.prems"(3) len by simp
    with "2.IH" [unfolded add, OF False run] "2.prems"(2) obtain moved where
      m: "map fst waiting = moved @ map fst waiting'" "out' = (out @ [e]) @ moved" "w = written + len + events_size W moved"
        "map snd waiting' = map (tracked_len W) (map fst waiting')" "moved = [] \<or> w \<le> limit"
      using len(2) by auto
    have "w \<le> limit \<or> written = 0 \<and> start = 0 \<and> length (e # moved) = 1" using m(3,5) False by auto
    then show ?thesis using m len by (intro exI [of _ "e # moved"]) auto
  qed
qed (auto intro!: exI [of _ "[]"])

text \<open>One flush: what it returns was held first, fits or is one event, and is something when anything is held.\<close>

lemma bounded_flush_result:
  assumes "engine_inv W A" "ew_response_len W [] = 0" "bounded_flush W EVENT_TARGET_BYTES False A = (response, A')"
  shows "engine_inv W A' \<and> engine_held A = response @ engine_held A'
    \<and> (events_size W response \<le> EVENT_TARGET_BYTES \<or> length response = 1) \<and> (engine_held A \<noteq> [] \<longrightarrow> response \<noteq> [])"
proof -
  obtain queue waiting pb where p: "pull_events W EVENT_TARGET_BYTES (eq_queue A) (eq_pending A) (eq_pending_bytes A) = (queue, waiting, pb)"
    by (cases "pull_events W EVENT_TARGET_BYTES (eq_queue A) (eq_pending A) (eq_pending_bytes A)")
  obtain w waiting' out where e: "emit_events EVENT_TARGET_BYTES 0 0 waiting [] = (w, waiting', out)"
    by (cases "emit_events EVENT_TARGET_BYTES 0 0 waiting []")
  have inv: "map snd (eq_pending A) = map (tracked_len W) (map fst (eq_pending A))" "eq_pending_bytes A = events_size W (map fst (eq_pending A))"
    "events_size W (map fst (eq_pending A) @ eq_queue A) \<le> USIZE_MAX"
    using assms(1) by (auto simp: engine_inv_def engine_held_def)
  note r = pull_events_result [OF p inv]
  have "events_size W (map fst waiting @ queue) \<le> USIZE_MAX" using r inv(3) by metis
  then have fits: "0 + events_size W (map fst waiting) \<le> USIZE_MAX" by simp
  have res: "response = out" "A' = \<lparr>eq_queue = queue, eq_pending = waiting', eq_pending_bytes = pb - w\<rparr>"
    using assms(2,3) p e by (auto simp: bounded_flush_def flush_fill_def)
  obtain moved where m: "map fst waiting = moved @ map fst waiting'" "out = moved" "w = events_size W moved"
    "map snd waiting' = map (tracked_len W) (map fst waiting')" "moved = [] \<or> w \<le> EVENT_TARGET_BYTES \<or> length moved = 1"
    "waiting = [] \<or> moved \<noteq> []"
    using emit_events_result [OF e _ fits] r by auto
  have held: "engine_held A = response @ engine_held A'"
    using r m by (auto simp: engine_held_def res)
  have "response \<noteq> []" if "engine_held A \<noteq> []"
  proof (cases "waiting = []")
    case True
    then have "queue \<noteq> []" "pb = 0" using r that by (auto simp: engine_held_def)
    then show ?thesis using r by (auto simp: EVENT_TARGET_BYTES_def)
  qed (use m res in auto)
  moreover have "events_size W (engine_held A') \<le> USIZE_MAX"
  proof -
    have "events_size W (engine_held A) \<le> USIZE_MAX" using inv(3) by (simp add: engine_held_def)
    then show ?thesis unfolding held by simp
  qed
  then have "engine_inv W A'" using r m by (simp add: engine_inv_def res)
  ultimately show ?thesis using held m res by auto
qed

fun tracked_events :: "engine_call list \<Rightarrow> event list" where
  "tracked_events [] = []"
| "tracked_events (TrackEvent req # calls) = event_of req # tracked_events calls"
| "tracked_events (BoundedFlushEvents # calls) = tracked_events calls"

lemma tracked_events_append: "tracked_events (xs @ ys) = tracked_events xs @ tracked_events ys"
  by (induction xs rule: tracked_events.induct) simp_all

lemma engine_run:
  assumes "ew_response_len W [] = 0" "events_size W (tracked_events calls) \<le> USIZE_MAX"
    and "fold (engine_step W) calls (event_logger_new, []) = (A, responses)"
  shows "engine_inv W A \<and> concat responses @ engine_held A = tracked_events calls
    \<and> (\<forall>r\<in>set responses. events_size W r \<le> EVENT_TARGET_BYTES \<or> length r = 1)"
  using assms(2,3)
proof (induction calls arbitrary: A responses rule: rev_induct)
  case Nil
  then show ?case by (auto simp: event_logger_new_def engine_inv_def engine_held_def)
next
  case (snoc call calls)
  obtain A1 rs1 where before: "fold (engine_step W) calls (event_logger_new, []) = (A1, rs1)"
    by (cases "fold (engine_step W) calls (event_logger_new, [])")
  have "events_size W (tracked_events calls) \<le> USIZE_MAX" using snoc.prems(1) by (simp add: tracked_events_append)
  note IH = snoc.IH [OF this before]
  show ?case
  proof (cases call)
    case (TrackEvent req)
    then have A: "A = track (event_of req) A1" "responses = rs1" using snoc.prems(2) before by simp_all
    then have held: "engine_held A = engine_held A1 @ [event_of req]" by (simp add: engine_held_def track_def)
    then have books: "concat responses @ engine_held A = tracked_events (calls @ [call])"
      using IH by (simp add: A(2) TrackEvent tracked_events_append)
    then have "events_size W (concat responses @ engine_held A) \<le> USIZE_MAX" using snoc.prems(1) by simp
    then have "engine_inv W A" using IH by (auto simp: engine_inv_def A track_def engine_held_def)
    then show ?thesis using IH books A(2) by simp
  next
    case BoundedFlushEvents
    obtain r A2 where f: "bounded_flush W EVENT_TARGET_BYTES False A1 = (r, A2)"
      by (cases "bounded_flush W EVENT_TARGET_BYTES False A1")
    then have A: "A = A2" "responses = rs1 @ [r]" using snoc.prems(2) before BoundedFlushEvents by simp_all
    show ?thesis using bounded_flush_result [OF _ assms(1) f] IH by (auto simp: A BoundedFlushEvents tracked_events_append)
  qed
qed

lemma flushes_drain:
  assumes "ew_response_len W [] = 0" "engine_inv W A" "length (engine_held A) \<le> n"
  shows "engine_held (fst (fold (engine_step W) (replicate n BoundedFlushEvents) (A, responses))) = []"
  using assms(2,3)
proof (induction n arbitrary: A responses)
  case (Suc n)
  obtain r A2 where f: "bounded_flush W EVENT_TARGET_BYTES False A = (r, A2)"
    by (cases "bounded_flush W EVENT_TARGET_BYTES False A")
  note res = bounded_flush_result [OF Suc.prems(1) assms(1) f]
  have "length (engine_held A2) \<le> n" using res Suc.prems(2) by (cases r) auto
  with res Suc.IH [of A2] show ?case by (simp add: f)
qed simp

text \<open>C36: The event engine hands over every tracked event once, and flushing drains it. As long as the tracked events fit the address space,
  over any calls of the module the flushed responses followed by what is held are the tracked events in their order, each response
  is within two megabytes or a single event, and as many flushes as events are held leave nothing behind, so an oversized event never blocks the queue.\<close>

theorem events_delivered_in_order:
  assumes "ew_response_len W [] = 0" "events_size W (tracked_events calls) \<le> USIZE_MAX"
    and "fold (engine_step W) calls (event_logger_new, []) = (A, responses)"
  shows "concat responses @ engine_held A = tracked_events calls
    \<and> (\<forall>r\<in>set responses. events_size W r \<le> EVENT_TARGET_BYTES \<or> length r = 1)
    \<and> engine_held (fst (fold (engine_step W) (replicate (length (engine_held A)) BoundedFlushEvents) (A, responses))) = []"
  using engine_run [OF assms] flushes_drain [OF assms(1)] by blast

definition example_event_wire :: event_wire where
  "example_event_wire = \<lparr>ew_event_len = (\<lambda>e. if ev_definition e = ''eventDefinitions/big'' then 3000000 else 10), ew_response_len = length,
     ew_delimiter_len = (\<lambda>n. 3)\<rparr>"

definition example_track :: "string \<Rightarrow> track_event_request" where
  "example_track name = \<lparr>tr_event_name = name, tr_event_time = None, tr_value = None, tr_context = None, tr_data = None\<rparr>"

theorem events_delivered_in_order_witness:
  "\<exists>A r r'. fold (engine_step example_event_wire)
      [TrackEvent (example_track ''big''), TrackEvent (example_track ''a''), BoundedFlushEvents, BoundedFlushEvents] (event_logger_new, []) = (A, [r, r'])
    \<and> r @ r' @ engine_held A = [event_of (example_track ''big''), event_of (example_track ''a'')]
    \<and> (events_size example_event_wire r \<le> EVENT_TARGET_BYTES \<or> length r = 1)"
proof -
  let ?calls = "[TrackEvent (example_track ''big''), TrackEvent (example_track ''a''), BoundedFlushEvents, BoundedFlushEvents]"
  obtain A responses where run: "fold (engine_step example_event_wire) ?calls (event_logger_new, []) = (A, responses)"
    by (cases "fold (engine_step example_event_wire) ?calls (event_logger_new, [])")
  then obtain r r' where rs: "responses = [r, r']" by (auto split: prod.splits)
  show ?thesis
    using events_delivered_in_order [OF _ _ run] run unfolding rs
    by (auto simp: example_event_wire_def example_track_def tracked_len_def usize_add_def USIZE_MAX_def event_of_def EVENT_DEF_PREFIX_def)
qed

lemma map_of_inserts: "map_of (fold (\<lambda>(k, v). hm_insert k v) data m) key = (case map_of (rev data) key of Some v \<Rightarrow> Some v | None \<Rightarrow> map_of m key)"
  by (induction data arbitrary: m) (auto simp: map_add_def split: option.splits)

lemma keys_inserts: "fst ` set (fold (\<lambda>(k, v). hm_insert k v) data m) = fst ` set data \<union> fst ` set m"
proof (induction data arbitrary: m)
  case (Cons kv data)
  then show ?case by (cases kv) (simp add: set_keys_hm_insert)
qed simp

lemma inserts_empty [simp]: "fold (\<lambda>(k, v). hm_insert k v) data [] = [] \<longleftrightarrow> data = []" "hm_insert k v m \<noteq> []"
  using keys_inserts [of data "[]"] set_keys_hm_insert [of k v m] by auto

text \<open>The payload of an event. A field of the payload is the context under its reserved key when one was given, the numeric value under its
  reserved key when one was given, and the custom data's field otherwise; there is no payload exactly when there is nothing of the three.\<close>

lemma payload_reserves_its_keys:
  "(case build_payload req of Some fs \<Rightarrow> map_of fs key | None \<Rightarrow> None) =
     (if key = ''context'' \<and> tr_context req \<noteq> None then map_option (\<lambda>ctx. Some (StructValue ctx)) (tr_context req)
      else if key = ''value'' \<and> tr_value req \<noteq> None then map_option (\<lambda>v. Some (NumberValue v)) (tr_value req)
      else (case tr_data req of Some data \<Rightarrow> map_of (rev data) key | None \<Rightarrow> None))
   \<and> (build_payload req = None) = (tr_context req = None \<and> tr_value req = None \<and> (tr_data req = None \<or> tr_data req = Some []))"
  by (cases "tr_data req"; cases "tr_value req"; cases "tr_context req") (simp_all add: build_payload_def map_of_inserts split: option.split)

end
