(* ===== verification/Prometheus.thy ===== *)
theory Prometheus
  imports Flag_Log_Consumer Wasm_Guest
begin

text \<open>
  The rendering of a telemetry snapshot as Prometheus or OpenMetrics text (\<open>confidence-resolver/src/telemetry.rs\<close>), and its two
  callers: \<open>prometheus_snapshot\<close> of the guest and \<open>render_metrics\<close> of the Cloudflare worker. The decimal text of a
  bucket's upper boundary, \<open>exp ((i + 1) * LN_RATIO)\<close>, is a parameter.
\<close>

section \<open>Lines\<close>

definition QUOTE :: string where "QUOTE = [CHR 0x22]"
definition BACKSLASH :: char where "BACKSLASH = CHR 0x5C"
definition NEWLINE :: char where "NEWLINE = CHR 0x0A"

record prometheus_config =
  buckets_per_decade :: nat
  openmetrics :: bool

definition prometheus_config_default :: prometheus_config where
  [model_defs]: "prometheus_config_default = \<lparr>buckets_per_decade = 18, openmetrics = False\<rparr>"

definition suffix_of :: "prometheus_config \<Rightarrow> string" where
  [model_defs]: "suffix_of cfg = (if openmetrics cfg then ''.0'' else [])"

definition help_line :: "string \<Rightarrow> string \<Rightarrow> string" where
  [model_defs]: "help_line name txt = ''# HELP '' @ name @ '' '' @ txt @ [NEWLINE]"

definition type_line :: "string \<Rightarrow> string \<Rightarrow> string" where
  [model_defs]: "type_line name kind = ''# TYPE '' @ name @ '' '' @ kind @ [NEWLINE]"

text \<open>A sample: the labels come after the resolver id, each with its comma.\<close>

definition sample_line :: "string \<Rightarrow> string \<Rightarrow> string \<Rightarrow> nat \<Rightarrow> string \<Rightarrow> string" where
  [model_defs]: "sample_line name resolver_id labels val sfx =
     name @ ''{resolver_id='' @ QUOTE @ resolver_id @ QUOTE @ labels @ ''} '' @ show_nat val @ sfx @ [NEWLINE]"

text \<open>A counter keeps \<open>_total\<close> on its sample; its type and help lose it in OpenMetrics.\<close>

definition counter_name :: "prometheus_config \<Rightarrow> string \<Rightarrow> string" where
  [model_defs]: "counter_name cfg base = (if openmetrics cfg then base else base @ ''_total'')"

definition counter_header :: "prometheus_config \<Rightarrow> string \<Rightarrow> string \<Rightarrow> string" where
  [model_defs]: "counter_header cfg base txt = help_line (counter_name cfg base) txt @ type_line (counter_name cfg base) ''counter''"

definition counter_block :: "prometheus_config \<Rightarrow> string \<Rightarrow> string \<Rightarrow> string \<Rightarrow> nat \<Rightarrow> string" where
  [model_defs]: "counter_block cfg resolver_id base txt val =
     counter_header cfg base txt @ sample_line (base @ ''_total'') resolver_id [] val (suffix_of cfg)"

definition gauge_block :: "prometheus_config \<Rightarrow> string \<Rightarrow> string \<Rightarrow> string \<Rightarrow> nat \<Rightarrow> string" where
  [model_defs]: "gauge_block cfg resolver_id name txt val =
     help_line name txt @ type_line name ''gauge'' @ sample_line name resolver_id [] val (suffix_of cfg)"

section \<open>The histogram\<close>

definition effective_bpd :: "nat \<Rightarrow> nat" where
  [model_defs]: "effective_bpd configured = (if configured = 0 then 18 else min (max configured 1) 18)"

definition bucket_stride :: "nat \<Rightarrow> nat" where
  [model_defs]: "bucket_stride bpd = (18 + bpd - 1) div bpd"

text \<open>The loop over the buckets: the emitted boundaries with the cumulative counts.\<close>

fun bucket_points :: "nat \<Rightarrow> nat \<Rightarrow> nat \<Rightarrow> u64 \<Rightarrow> u64 list \<Rightarrow> (nat \<times> u64) list" where
  "bucket_points stride i next_emit cumulative [] = []"
| "bucket_points stride i next_emit cumulative (c # buckets) =
     (let cumulative = cumulative + c in
      if i \<noteq> next_emit then bucket_points stride (Suc i) next_emit cumulative buckets
      else if cumulative = 0 then bucket_points stride (Suc i) (next_emit + stride) cumulative buckets
      else (i, cumulative) # bucket_points stride (Suc i) (next_emit + stride) cumulative buckets)"

definition emitted_points :: "prometheus_config \<Rightarrow> histogram \<Rightarrow> (nat \<times> u64) list" where
  [model_defs]: "emitted_points cfg h =
     (let stride = bucket_stride (effective_bpd (buckets_per_decade cfg)) in bucket_points stride 0 (stride - 1) 0 (hg_buckets h))"

definition le_label :: "string \<Rightarrow> string" where
  [model_defs]: "le_label boundary = '',le='' @ QUOTE @ boundary @ QUOTE"

definition write_histogram :: "(nat \<Rightarrow> string) \<Rightarrow> string \<Rightarrow> prometheus_config \<Rightarrow> histogram \<Rightarrow> string" where
  [model_defs]: "write_histogram boundary resolver_id cfg h =
     (if hg_count h = 0 then []
      else
        help_line ''confidence_resolve_latency_microseconds'' ''Latency of flag resolve operations in microseconds.''
        @ type_line ''confidence_resolve_latency_microseconds'' ''histogram''
        @ concat (map (\<lambda>(i, cumulative). sample_line ''confidence_resolve_latency_microseconds_bucket'' resolver_id (le_label (boundary i))
                    (unat cumulative) (suffix_of cfg)) (emitted_points cfg h))
        @ sample_line ''confidence_resolve_latency_microseconds_bucket'' resolver_id (le_label ''+Inf'') (unat (hg_count h)) (suffix_of cfg)
        @ sample_line ''confidence_resolve_latency_microseconds_sum'' resolver_id [] (unat (hg_sum h)) (suffix_of cfg)
        @ sample_line ''confidence_resolve_latency_microseconds_count'' resolver_id [] (unat (hg_count h)) (suffix_of cfg))"

section \<open>Counters and gauges\<close>

definition reason_label :: "nat \<Rightarrow> string" where
  [model_defs]: "reason_label i =
     (case nth_opt reasons i of
        None \<Rightarrow> ''UNKNOWN''
      | Some r \<Rightarrow> ''RESOLVE_REASON_'' @
          (case r of
             RUnspecified \<Rightarrow> ''UNSPECIFIED''
           | RMatch \<Rightarrow> ''MATCH''
           | RNoSegmentMatch \<Rightarrow> ''NO_SEGMENT_MATCH''
           | RNoTreatmentMatch \<Rightarrow> ''NO_TREATMENT_MATCH''
           | RFlagArchived \<Rightarrow> ''FLAG_ARCHIVED''
           | RTargetingKeyError \<Rightarrow> ''TARGETING_KEY_ERROR''
           | RError \<Rightarrow> ''ERROR''
           | RUnrecognizedTargetingRule \<Rightarrow> ''UNRECOGNIZED_TARGETING_RULE''
           | RMaterializationNotSupported \<Rightarrow> ''MATERIALIZATION_NOT_SUPPORTED''
           | RTypeMismatch \<Rightarrow> ''TYPE_MISMATCH''
           | RFlagNotFound \<Rightarrow> ''FLAG_NOT_FOUND''))"

definition write_resolve_rates :: "string \<Rightarrow> prometheus_config \<Rightarrow> u64 list \<Rightarrow> string" where
  [model_defs]: "write_resolve_rates resolver_id cfg rates =
     (if \<not> list_ex (\<lambda>c. 0 < c) rates then []
      else counter_header cfg ''confidence_resolves'' ''Total number of flag resolve operations.''
        @ concat (map (\<lambda>(i, c). if c = 0 then []
            else sample_line ''confidence_resolves_total'' resolver_id ('',reason='' @ QUOTE @ reason_label i @ QUOTE) (unat c) (suffix_of cfg))
            (enumerate 0 rates)))"

definition write_memory :: "string \<Rightarrow> prometheus_config \<Rightarrow> u64 \<Rightarrow> string" where
  [model_defs]: "write_memory resolver_id cfg memory_bytes =
     (if memory_bytes = 0 then []
      else gauge_block cfg resolver_id ''confidence_memory_bytes'' ''Current memory usage of the resolver in bytes.'' (unat memory_bytes))"

definition write_apply_dedup :: "string \<Rightarrow> prometheus_config \<Rightarrow> dedup_snapshot option \<Rightarrow> string" where
  [model_defs]: "write_apply_dedup resolver_id cfg dedup =
     (case dedup of
        None \<Rightarrow> []
      | Some ad \<Rightarrow>
          if \<not> has_activity ad then []
          else
            counter_block cfg resolver_id ''confidence_apply_dedup_applies'' ''Total flag apply events processed by dedup.'' (unat (ds_applies_total ad))
            @ counter_block cfg resolver_id ''confidence_apply_dedup_deduped'' ''Duplicate apply events filtered out.'' (unat (ds_applies_deduped ad))
            @ counter_block cfg resolver_id ''confidence_apply_dedup_overflow''
                ''Unique apply events that passed the dedup filter but could not be cached (map full).'' (unat (ds_overflow ad))
            @ counter_block cfg resolver_id ''confidence_apply_dedup_sweeps'' ''Number of dedup map sweep operations.'' (unat (ds_sweeps ad))
            @ gauge_block cfg resolver_id ''confidence_apply_dedup_map_size'' ''Current entries in the dedup map.'' (unat (ds_map_size ad))
            @ gauge_block cfg resolver_id ''confidence_apply_dedup_map_capacity'' ''Maximum entries allowed in the dedup map.'' (unat (ds_map_capacity ad)))"

definition write_flush :: "string \<Rightarrow> prometheus_config \<Rightarrow> flush_snapshot \<Rightarrow> string" where
  [model_defs]: "write_flush resolver_id cfg f =
     (if fl_succeeded f = 0 \<and> fl_failed f = 0 then []
      else counter_block cfg resolver_id ''confidence_flush_succeeded'' ''Successful WriteFlagLogs batch deliveries.'' (unat (fl_succeeded f))
        @ counter_block cfg resolver_id ''confidence_flush_failed'' ''Failed WriteFlagLogs batch deliveries.'' (unat (fl_failed f)))"

definition write_event_counters :: "string \<Rightarrow> prometheus_config \<Rightarrow> events_snapshot \<Rightarrow> string" where
  [model_defs]: "write_event_counters resolver_id cfg e =
     (if ev_published e = 0 \<and> ev_batches_succeeded e = 0 \<and> ev_batches_failed e = 0 \<and> ev_events_rejected e = 0 then []
      else (if 0 < ev_published e
          then counter_block cfg resolver_id ''confidence_events_published'' ''Total events published.'' (unat (ev_published e)) else [])
        @ (if 0 < ev_batches_succeeded e
          then counter_block cfg resolver_id ''confidence_event_batches_succeeded'' ''Successful event batch deliveries.'' (unat (ev_batches_succeeded e)) else [])
        @ (if 0 < ev_batches_failed e
          then counter_block cfg resolver_id ''confidence_event_batches_failed'' ''Failed event batch deliveries.'' (unat (ev_batches_failed e)) else [])
        @ (if 0 < ev_events_rejected e
          then counter_block cfg resolver_id ''confidence_events_rejected'' ''Total events rejected by the events service.'' (unat (ev_events_rejected e)) else []))"

section \<open>Labels of an SDK\<close>

definition ascii_alphabetic :: "char \<Rightarrow> bool" where
  [model_defs]: "ascii_alphabetic c \<longleftrightarrow> (97 \<le> (of_char c :: nat) \<and> (of_char c :: nat) \<le> 122) \<or> (65 \<le> (of_char c :: nat) \<and> (of_char c :: nat) \<le> 90)"

definition is_valid_label_name :: "string \<Rightarrow> bool" where
  [model_defs]: "is_valid_label_name name =
     (case name of
        [] \<Rightarrow> False
      | c # cs \<Rightarrow> (ascii_alphabetic c \<or> c = CHR ''_'') \<and> list_all (\<lambda>c. ascii_alphabetic c \<or> ascii_digit c \<or> c = CHR ''_'') cs)"

definition escape_char :: "char \<Rightarrow> string" where
  [model_defs]: "escape_char c =
     (if c = BACKSLASH then [BACKSLASH, BACKSLASH] else if [c] = QUOTE then BACKSLASH # QUOTE
      else if c = NEWLINE then [BACKSLASH, CHR ''n''] else [c])"

definition escape_label_value :: "string \<Rightarrow> string" where
  [model_defs]: "escape_label_value val =
     (if \<not> list_ex (\<lambda>c. c = BACKSLASH \<or> [c] = QUOTE \<or> c = NEWLINE) val then val else concat (map escape_char val))"

definition label_kept :: "string \<Rightarrow> bool" where
  [model_defs]: "label_kept key \<longleftrightarrow> is_valid_label_name key \<and> take 2 key \<noteq> ''__'' \<and> key \<noteq> ''resolver_id''"

definition render_label :: "string \<times> string \<Rightarrow> string" where
  [model_defs]: "render_label kv = '','' @ fst kv @ ''='' @ QUOTE @ escape_label_value (snd kv) @ QUOTE"

definition render_labels :: "string fields \<Rightarrow> string" where
  [model_defs]: "render_labels labels = concat (map render_label (filter (\<lambda>kv. label_kept (fst kv)) labels))"

definition write_provider_init :: "string \<Rightarrow> prometheus_config \<Rightarrow> provider_init_snapshot list \<Rightarrow> string" where
  [model_defs]: "write_provider_init resolver_id cfg entries =
     (if \<not> list_ex (\<lambda>e. 0 < ps_count e) entries then []
      else counter_header cfg ''confidence_provider_init'' ''Total provider initializations.''
        @ concat (map (\<lambda>e. if ps_count e = 0 then []
            else sample_line ''confidence_provider_init_total'' resolver_id (render_labels (ps_labels e)) (unat (ps_count e)) (suffix_of cfg)) entries))"

definition to_prometheus :: "(nat \<Rightarrow> string) \<Rightarrow> tel_snapshot \<Rightarrow> string \<Rightarrow> prometheus_config \<Rightarrow> string" where
  [model_defs]: "to_prometheus boundary s resolver_id cfg =
     write_histogram boundary resolver_id cfg (sn_latency s)
     @ write_resolve_rates resolver_id cfg (sn_resolve_rates s)
     @ write_memory resolver_id cfg (sn_memory_bytes s)
     @ write_apply_dedup resolver_id cfg (sn_apply_dedup s)
     @ write_flush resolver_id cfg (sn_flush s)
     @ write_event_counters resolver_id cfg (sn_events s)
     @ write_provider_init resolver_id cfg (sn_provider_init_rate s)
     @ (if openmetrics cfg then ''# EOF'' @ [NEWLINE] else [])"

section \<open>The callers\<close>

definition guest_prometheus_snapshot :: "telemetry_env \<Rightarrow> (nat \<Rightarrow> string) \<Rightarrow> string \<Rightarrow> nat \<Rightarrow> bool \<Rightarrow> guest \<Rightarrow> string" where
  [model_defs]: "guest_prometheus_snapshot E boundary inst bpd om g =
     (let snap = snapshot E (gu_telemetry g);
          snap = (if gu_dedup_enabled g then snap\<lparr>sn_apply_dedup := Some (guest_dedup_snapshot g)\<rparr> else snap) in
      to_prometheus boundary snap inst \<lparr>buckets_per_decade = bpd, openmetrics = om\<rparr>)"

definition render_metrics :: "(nat \<Rightarrow> string) \<Rightarrow> metrics_kv \<Rightarrow> string" where
  [model_defs]: "render_metrics boundary kv = to_prometheus boundary (total_metrics kv) ''cf-resolver'' prometheus_config_default"

section \<open>Reading labels back\<close>

text \<open>A reader of a label list as the exposition format defines it: the value up to the first quote that is not escaped, and the labels.\<close>

fun read_value :: "string \<Rightarrow> (string \<times> string) option" where
  "read_value [] = None"
| "read_value (c # cs) =
     (if [c] = QUOTE then Some ([], cs)
      else if c = NEWLINE then None
      else if c = BACKSLASH then
        (case cs of
           [] \<Rightarrow> None
         | d # ds \<Rightarrow> map_option (\<lambda>(v, rest). ((if d = CHR ''n'' then NEWLINE else d) # v, rest)) (read_value ds))
      else map_option (\<lambda>(v, rest). (c # v, rest)) (read_value cs))"

fun read_labels :: "nat \<Rightarrow> string \<Rightarrow> (string \<times> string) list option" where
  "read_labels n [] = Some []"
| "read_labels 0 (c # cs) = None"
| "read_labels (Suc n) (c # cs) =
     (let key = takeWhile (\<lambda>c. c \<noteq> CHR ''='') cs; rest = dropWhile (\<lambda>c. c \<noteq> CHR ''='') cs in
      if c \<noteq> CHR '','' \<or> take 2 rest \<noteq> ''='' @ QUOTE then None
      else case read_value (drop 2 rest) of
          None \<Rightarrow> None
        | Some (v, rest) \<Rightarrow> map_option (\<lambda>ls. (key, v) # ls) (read_labels n rest))"

lemma escaped_chars: "escape_label_value val = concat (map escape_char val)"
proof -
  have "concat (map escape_char val) = val" if "\<not> list_ex (\<lambda>c. c = BACKSLASH \<or> [c] = QUOTE \<or> c = NEWLINE) val"
    using that by (induction val) (auto simp: escape_char_def)
  then show ?thesis by (simp add: escape_label_value_def)
qed

lemma read_escaped: "read_value (concat (map escape_char val) @ QUOTE @ rest) = Some (val, rest)"
  by (induction val) (auto simp: escape_char_def QUOTE_def BACKSLASH_def NEWLINE_def)

lemma valid_name_chars:
  assumes "is_valid_label_name key" "c \<in> set key"
  shows "c \<noteq> CHR ''='' \<and> c \<noteq> CHR '','' \<and> c \<noteq> NEWLINE \<and> [c] \<noteq> QUOTE"
  using assms by (cases key) (auto simp: is_valid_label_name_def list_all_iff ascii_alphabetic_def ascii_digit_def QUOTE_def NEWLINE_def)

lemma read_rendered:
  assumes "is_valid_label_name key"
  shows "read_labels (Suc n) (render_label (key, val) @ rest) = map_option (\<lambda>ls. (key, val) # ls) (read_labels n rest)"
proof -
  have "takeWhile (\<lambda>c. c \<noteq> CHR ''='') (key @ CHR ''='' # more) = key" "dropWhile (\<lambda>c. c \<noteq> CHR ''='') (key @ CHR ''='' # more) = CHR ''='' # more" for more
    using valid_name_chars [OF assms] by (auto simp: takeWhile_append dropWhile_append)
  then show ?thesis
    using read_escaped [of val rest] by (simp add: render_label_def escaped_chars QUOTE_def)
qed

lemma read_rendered_labels:
  "\<forall>kv\<in>set labels. is_valid_label_name (fst kv) \<Longrightarrow> read_labels (length labels) (concat (map render_label labels)) = Some labels"
  by (induction labels) (auto simp: read_rendered simp del: read_labels.simps(3))

lemma newline_escaped: "NEWLINE \<notin> set (escape_label_value val)"
  by (auto simp: escaped_chars escape_char_def QUOTE_def BACKSLASH_def NEWLINE_def)

text \<open>C37: Labels of an SDK cannot break the metrics. Whatever names and values an SDK supplies, the rendered list stays on its line and reads back,
  by the rules of the exposition format, as exactly the supplied labels whose names are valid, not reserved and not the resolver id, with
  their values unchanged.\<close>

theorem labels_read_back:
  "read_labels (length (filter (\<lambda>kv. label_kept (fst kv)) labels)) (render_labels labels) = Some (filter (\<lambda>kv. label_kept (fst kv)) labels)
   \<and> NEWLINE \<notin> set (render_labels labels)"
proof
  show "read_labels (length (filter (\<lambda>kv. label_kept (fst kv)) labels)) (render_labels labels) = Some (filter (\<lambda>kv. label_kept (fst kv)) labels)"
    unfolding render_labels_def by (rule read_rendered_labels) (auto simp: label_kept_def)
  have "NEWLINE \<notin> set (render_label kv)" if "label_kept (fst kv)" for kv
    using that newline_escaped [of "snd kv"] valid_name_chars [of "fst kv" NEWLINE]
    by (auto simp: render_label_def label_kept_def QUOTE_def NEWLINE_def)
  then show "NEWLINE \<notin> set (render_labels labels)" by (auto simp: render_labels_def)
qed

text \<open>Two initialisation entries whose labels differ only in dropped ones become samples with the same name and labels.\<close>

lemma dropped_labels_collide:
  "render_labels [(''sdk-name'', ''a'')] = render_labels [(''sdk-name'', ''b'')]"
  by (simp add: render_labels_def label_kept_def is_valid_label_name_def ascii_alphabetic_def ascii_digit_def)

section \<open>The buckets\<close>

definition bucket_sum :: "u64 list \<Rightarrow> nat" where
  "bucket_sum buckets = sum_list (map unat buckets)"

lemma bucket_sum_simps [simp]: "bucket_sum [] = 0" "bucket_sum (c # cs) = unat c + bucket_sum cs"
  by (simp_all add: bucket_sum_def)

lemma unat_add_bound: "unat a + unat b < 2 ^ 64 \<Longrightarrow> unat (a + b) = unat a + unat b" for a b :: u64
  by (simp add: unat_word_ariths)

lemma bucket_points_set:
  assumes "unat cumulative + bucket_sum buckets < 2 ^ 64" "0 < stride" "i \<le> next_emit"
  shows "(j, c) \<in> set (bucket_points stride i next_emit cumulative buckets) \<longleftrightarrow>
    next_emit \<le> j \<and> j < i + length buckets \<and> stride dvd (j - next_emit)
    \<and> unat c = unat cumulative + bucket_sum (take (Suc j - i) buckets) \<and> 0 < c"
  using assms
proof (induction stride i next_emit cumulative buckets rule: bucket_points.induct)
  case (2 stride i next_emit cumulative b buckets)
  have add: "unat (cumulative + b) = unat cumulative + unat b" using "2.prems"(1) by (intro unat_add_bound) simp
  have bound: "unat (cumulative + b) + bucket_sum buckets < 2 ^ 64" using "2.prems"(1) by (simp add: add)
  have shift: "bucket_sum (take (Suc j - i) (b # buckets)) = unat b + bucket_sum (take (Suc j - Suc i) buckets)" if "i \<le> j"
    using that by (simp add: Suc_diff_le)
  show ?case
  proof (cases "i = next_emit")
    case False
    then have "Suc i \<le> next_emit" using "2.prems"(3) by simp
    note IH = "2.IH"(1) [OF refl False bound "2.prems"(2) this]
    show ?thesis using False IH shift "2.prems"(3) by (auto simp: add Let_def)
  next
    case True
    have later: "(j, c) \<in> set (bucket_points stride (Suc i) (next_emit + stride) (cumulative + b) buckets) \<longleftrightarrow>
      next_emit + stride \<le> j \<and> j < Suc i + length buckets \<and> stride dvd (j - (next_emit + stride))
      \<and> unat c = unat (cumulative + b) + bucket_sum (take (Suc j - Suc i) buckets) \<and> 0 < c"
      using "2.IH"(2,3) [OF refl] True bound "2.prems"(2,3) by (cases "cumulative + b = 0") auto
    have next_or: "next_emit \<le> j \<and> stride dvd (j - next_emit) \<longleftrightarrow>
        j = next_emit \<or> next_emit + stride \<le> j \<and> stride dvd (j - (next_emit + stride))"
    proof (cases "next_emit < j")
      case True
      show ?thesis
      proof (cases "next_emit + stride \<le> j")
        case far: True
        then obtain d where "j = next_emit + stride + d" using le_Suc_ex by blast
        then show ?thesis using "2.prems"(2) by simp
      next
        case False
        then show ?thesis using True dvd_imp_le [of stride "j - next_emit"] by auto
      qed
    qed (use "2.prems"(2) in auto)
    have here: "(j, c) = (i, cumulative + b) \<longleftrightarrow> j = next_emit \<and> unat c = unat cumulative + bucket_sum (take (Suc j - i) (b # buckets))"
      using True add by (auto simp: word_eq_iff_unsigned unsigned_word_eqI word_unat_eq_iff)
    show ?thesis
    proof (cases "j = next_emit")
      case True
      then show ?thesis using \<open>i = next_emit\<close> later here add "2.prems"(2)
        by (auto simp: Let_def word_neq_0_conv)
    next
      case False
      then show ?thesis using \<open>i = next_emit\<close> later shift next_or add by (auto simp: Let_def)
    qed
  qed
qed simp

lemma bucket_points_sorted:
  "i \<le> next_emit \<Longrightarrow> 0 < stride \<Longrightarrow> sorted_wrt (<) (map fst (bucket_points stride i next_emit cumulative buckets))
    \<and> (\<forall>p\<in>set (bucket_points stride i next_emit cumulative buckets). i \<le> fst p)"
proof (induction stride i next_emit cumulative buckets rule: bucket_points.induct)
  case (2 stride i next_emit cumulative b buckets)
  have "Suc i \<le> next_emit + stride" using "2.prems" by simp
  then show ?case using "2.IH"(1) [OF refl] "2.IH"(2) [OF refl] "2.IH"(3) [OF refl] "2.prems"
    by (auto simp: Let_def Suc_le_eq less_imp_le)
qed simp

lemma stride_covers: "0 < bpd \<Longrightarrow> 18 \<le> bucket_stride bpd * bpd"
proof -
  assume "0 < bpd"
  then have "17 + bpd < Suc ((17 + bpd) div bpd) * bpd" by (metis dividend_less_div_times mult.commute mult_Suc)
  then show ?thesis by (simp add: bucket_stride_def)
qed

lemma few_multiples:
  assumes "0 < stride" "18 \<le> stride * m" "finite J" "\<forall>j\<in>J. stride dvd Suc j \<and> l \<le> j \<and> j < l + 18"
  shows "card J \<le> m"
proof (cases "J = {}")
  case False
  define K where "K = (\<lambda>j. Suc j div stride) ` J"
  have inj: "inj_on (\<lambda>j. Suc j div stride) J"
    using assms(1,4) by (intro inj_onI) (metis dvd_div_mult_self Suc_inject)
  have fin: "finite K" "K \<noteq> {}" using assms(3) False by (simp_all add: K_def)
  have mult: "l + 1 \<le> k * stride \<and> k * stride \<le> l + 18" if "k \<in> K" for k
    using that assms(4) by (auto simp: K_def)
  have "K \<subseteq> {Min K..<Min K + m}"
  proof
    fix k assume k: "k \<in> K"
    have "k * stride < (Min K + m) * stride"
      using mult [OF k] mult [OF Min_in [OF fin]] assms(2) by (simp add: algebra_simps)
    then show "k \<in> {Min K..<Min K + m}" using Min_le [OF fin(1) k] by simp
  qed
  then have "card K \<le> m" using card_mono [of "{Min K..<Min K + m}" K] by simp
  then show ?thesis by (simp add: K_def card_image [OF inj])
qed simp

text \<open>
  The emitted buckets. As long as the counts do not wrap, the boundaries ascend, they are exactly the ones at the stride whose cumulative count
  is positive, each with the sum of the counts up to it, and no decade has more of them than configured.
\<close>

lemma histogram_points_exact:
  assumes "bucket_sum (hg_buckets h) < 2 ^ 64"
    and bpd_def: "bpd = effective_bpd (buckets_per_decade cfg)"
  shows "sorted_wrt (<) (map fst (emitted_points cfg h))"
    and "(j, c) \<in> set (emitted_points cfg h) \<longleftrightarrow> j < length (hg_buckets h) \<and> bucket_stride bpd dvd Suc j
      \<and> unat c = bucket_sum (take (Suc j) (hg_buckets h)) \<and> 0 < c"
    and "length (filter (\<lambda>p. 18 * d \<le> fst p \<and> fst p < 18 * d + 18) (emitted_points cfg h)) \<le> bpd"
proof -
  let ?s = "bucket_stride bpd" and ?pts = "emitted_points cfg h"
  have bpd: "0 < bpd" by (simp add: bpd_def effective_bpd_def)
  have cover: "18 \<le> ?s * bpd" by (rule stride_covers [OF bpd])
  then have s: "0 < ?s" by (cases ?s) auto
  have pts: "?pts = bucket_points ?s 0 (?s - 1) 0 (hg_buckets h)" by (simp add: emitted_points_def bpd_def Let_def)
  show sorted: "sorted_wrt (<) (map fst ?pts)" unfolding pts using bucket_points_sorted [of 0 "?s - 1" ?s 0 "hg_buckets h"] s by simp
  have at_stride: "?s - 1 \<le> j \<and> ?s dvd (j - (?s - 1)) \<longleftrightarrow> ?s dvd Suc j" for j
  proof (cases "?s - 1 \<le> j")
    case True
    then have "Suc j = (j - (?s - 1)) + ?s" using s by simp
    then show ?thesis using True by (metis dvd_add_triv_right_iff)
  next
    case False
    then show ?thesis using dvd_imp_le [of ?s "Suc j"] by auto
  qed
  show mem: "(j, c) \<in> set ?pts \<longleftrightarrow> j < length (hg_buckets h) \<and> ?s dvd Suc j \<and> unat c = bucket_sum (take (Suc j) (hg_buckets h)) \<and> 0 < c" for j c
    unfolding pts using bucket_points_set [of 0 "hg_buckets h" ?s 0 "?s - 1" j c] assms(1) s at_stride [of j] by auto
  let ?in = "filter (\<lambda>p. 18 * d \<le> fst p \<and> fst p < 18 * d + 18) ?pts"
  have "distinct (map fst ?pts)" using sorted by (simp add: strict_sorted_iff)
  then have "distinct (map fst ?in)" by (rule distinct_map_filter)
  then have "length ?in = card (fst ` set ?in)" using distinct_card [of "map fst ?in"] by simp
  also have "\<dots> \<le> bpd"
    by (rule few_multiples [OF s cover, where l = "18 * d"]) (auto simp: mem)
  finally show "length ?in \<le> bpd" .
qed

end
