(* ===== verification/Cloudflare_Worker.thy ===== *)
theory Cloudflare_Worker
  imports Prometheus
begin

text \<open>
  The Cloudflare worker (\<open>confidence-cloudflare-resolver/src\<close>): the materialization store over its key-value namespace
  (\<open>materialization.rs\<close>), and of \<open>lib.rs\<close> the host callbacks of the resolver, the requests it serves and the consumer of the
  events queue. A request is handled to its end before the next one; its background work comes after the response. The
  decoders of the bodies, the clock and the codecs of the resolver are parameters, a value of the key-value namespace is what was put last,
  and the HTTP objects are reduced to what the code reads and sets.
\<close>

section \<open>materialization.rs\<close>

definition encode_component :: "string \<Rightarrow> string" where
  [model_defs]: "encode_component s =
     concat (map (\<lambda>c. if c = CHR ''%'' then ''%25'' else if c = CHR '':'' then ''%3A'' else [c]) s)"

definition kv_key :: "materialization_record \<Rightarrow> string" where
  [model_defs]: "kv_key r =
     ''mat:'' @ encode_component (mr_unit r) @ '':'' @ encode_component (mr_materialization r) @ '':'' @ encode_component (mr_rule r)"

definition kv_prefix :: "string \<Rightarrow> string \<Rightarrow> string" where
  [model_defs]: "kv_prefix unit materialization = ''mat:'' @ encode_component unit @ '':'' @ encode_component materialization @ '':''"

text \<open>An exchange with the namespace may fail: the parameter says for which keys and prefixes.\<close>

type_synonym mat_kv = "string fields"

definition kv_read_record :: "(string \<Rightarrow> bool) \<Rightarrow> mat_kv \<Rightarrow> materialization_record \<Rightarrow> materialization_record option" where
  [model_defs]: "kv_read_record fails kv r =
     (if mr_rule r = [] then
        (let pre = kv_prefix (mr_unit r) (mr_materialization r) in
         if \<not> fails pre \<and> list_ex (\<lambda>(k, _). take (length pre) k = pre) kv
         then Some \<lparr>mr_unit = mr_unit r, mr_materialization = mr_materialization r, mr_rule = [], mr_variant = []\<rparr> else None)
      else if fails (kv_key r) then None
      else map_option (\<lambda>v. r\<lparr>mr_variant := v\<rparr>) (map_of kv (kv_key r)))"

definition kv_read_materializations :: "(string \<Rightarrow> bool) \<Rightarrow> mat_kv \<Rightarrow> materialization_record list \<Rightarrow> materialization_record list" where
  [model_defs]: "kv_read_materializations fails kv rs = List.map_filter (kv_read_record fails kv) rs"

definition kv_write_materializations :: "(string \<Rightarrow> bool) \<Rightarrow> materialization_record list \<Rightarrow> mat_kv \<Rightarrow> mat_kv" where
  [model_defs]: "kv_write_materializations fails rs kv =
     fold (\<lambda>r kv. if fails (kv_key r) then kv else hm_insert (kv_key r) (mr_variant r) kv) (filter (\<lambda>r. mr_rule r \<noteq> []) rs) kv"

section \<open>The host\<close>

record worker =
  wk_dedup :: apply_dedup
  wk_last_dedup :: dedup_snapshot
  wk_dedup_enabled :: bool
  wk_mat_kv :: mat_kv
  wk_events_queue :: "string list list"

definition worker_new :: "worker" where
  [model_defs]: "worker_new = \<lparr>wk_dedup = apply_dedup_new 120 100000, wk_last_dedup = dedup_snapshot_default, wk_dedup_enabled = False,
     wk_mat_kv = [], wk_events_queue = []\<rparr>"

datatype reply_body =
    NoBody
  | ErrorBody string
  | MetricsBody string
  | EtagBody string string
  | ResolveBody resolve_response
  | ApplyBody
  | EventsBody

record http_reply =
  rp_status :: nat
  rp_body :: reply_body
  rp_cors :: bool

text \<open>
  What the worker runs with: the variables of the environment, the bindings, the state of the deployment, and the parameters.
\<close>

record worker_env =
  we_libs :: libs
  we_tables :: locale_tables
  we_telemetry :: telemetry_env
  we_trim :: "string \<Rightarrow> string"
  we_boundary :: "nat \<Rightarrow> string"
  we_state :: resolver_state
  we_version :: string
  we_token_key :: bytes
  we_client_secret :: "string option"
  we_force_apply :: "string option"
  we_enable_dedup :: "string option"
  we_state_etag :: "string option"
  we_deployer_version :: "string option"
  we_metrics_kv :: bool
  we_mat_kv :: bool
  we_events_binding :: bool
  we_kv_fails :: "string \<Rightarrow> bool"
  we_queue_fails :: "string list \<Rightarrow> bool"
  we_unmatched :: http_reply
  we_parse_resolve :: "bytes \<Rightarrow> string + resolve_request"
  we_parse_apply :: "bytes \<Rightarrow> string + apply_request"
  we_probe_secret :: "bool \<Rightarrow> bytes \<Rightarrow> string + string"
  we_parse_events :: "bool \<Rightarrow> bytes \<Rightarrow> string + string list"

text \<open>
  The state comes with the deployment: where its log goes, and the resolver state. The worker panics, here \<open>None\<close>, on a state it cannot load.
\<close>

record cdn_state =
  cd_state :: bytes
  cd_account_id :: string
  cd_log_destinations :: "int list"

definition cdn_log_destinations :: "cdn_state \<Rightarrow> log_destination list" where
  [model_defs]: "cdn_log_destinations cdn =
     (let parsed = map log_destination_from (cd_log_destinations cdn) in if parsed = [] then [Edge] else parsed)"

definition worker_state :: "libs \<Rightarrow> (bytes \<Rightarrow> resolver_state_pb option) \<Rightarrow> cdn_state \<Rightarrow> resolver_state option" where
  [model_defs]: "worker_state L decode cdn =
     (case state_pb_of_bytes decode (cd_state cdn) of
        Inl e \<Rightarrow> None
      | Inr state_pb \<Rightarrow> (case from_proto L state_pb (cd_account_id cdn) None of Inl e \<Rightarrow> None | Inr state \<Rightarrow> Some state))"

text \<open>The callbacks write into the log that \<open>with_log\<close> installs; the clock is in seconds.\<close>

definition worker_log_resolve :: "worker_env \<Rightarrow> gstruct \<Rightarrow> resolved_value list \<Rightarrow> client \<Rightarrow> log_request \<Rightarrow> log_request" where
  [model_defs]: "worker_log_resolve E eval_context rvs client log =
     (case build_resolve_log (we_libs E) (we_tables E) eval_context (client_credential_name client) rvs of
        (flag_infos, client_info) \<Rightarrow>
          log\<lparr>lr_flag_resolve_info := lr_flag_resolve_info log @ flag_infos, lr_client_resolve_info := lr_client_resolve_info log @ [client_info]\<rparr>)"

definition push_assigned :: "string \<Rightarrow> flag_to_apply list \<Rightarrow> client \<Rightarrow> sdk option \<Rightarrow> log_request \<Rightarrow> log_request" where
  [model_defs]: "push_assigned resolve_id flags client sdk log =
     log\<lparr>lr_flag_assigned := lr_flag_assigned log @ [build_flag_assigned resolve_id flags client sdk]\<rparr>"

definition worker_log_assign ::
  "bool \<Rightarrow> int \<Rightarrow> string \<Rightarrow> flag_to_apply list \<Rightarrow> client \<Rightarrow> sdk option \<Rightarrow> log_request \<times> apply_dedup \<Rightarrow> log_request \<times> apply_dedup" where
  [model_defs]: "worker_log_assign dedup_on now_seconds resolve_id flags client sdk LD =
     (case LD of (log, D) \<Rightarrow>
       (if flags \<noteq> [] \<and> dedup_on then
          (case filter_duplicates flags now_seconds D of (result, D) \<Rightarrow>
             if dedup_is_empty result then (log, D)
             else if kept_count result < length flags then (push_assigned resolve_id (dedup_collect result flags) client sdk log, D)
             else (push_assigned resolve_id flags client sdk log, D))
        else (push_assigned resolve_id flags client sdk log, D)))"

fun worker_event :: "worker_env \<Rightarrow> bool \<Rightarrow> int \<Rightarrow> host_event \<Rightarrow> log_request \<times> apply_dedup \<Rightarrow> log_request \<times> apply_dedup" where
  "worker_event E dedup_on now (LogResolve resolve_id eval_context rvs client) (log, D) = (worker_log_resolve E eval_context rvs client log, D)"
| "worker_event E dedup_on now (LogAssign resolve_id flags client sdk) (log, D) = worker_log_assign dedup_on now resolve_id flags client sdk (log, D)"

definition with_log :: "worker_env \<Rightarrow> int \<Rightarrow> host_event list \<Rightarrow> log_request \<times> worker \<Rightarrow> log_request \<times> worker" where
  [model_defs]: "with_log E now events LW =
     (case fold (worker_event E (wk_dedup_enabled (snd LW)) now) events (fst LW, wk_dedup (snd LW)) of
        (log, D) \<Rightarrow> (log, (snd LW)\<lparr>wk_dedup := D\<rparr>))"

definition dedup_telemetry_delta :: "worker \<Rightarrow> dedup_telemetry option \<times> worker" where
  [model_defs]: "dedup_telemetry_delta S =
     (if \<not> wk_dedup_enabled S then (None, S)
      else
        (let current = telemetry_snapshot (wk_dedup S) in
         case delta_to_report current (wk_last_dedup S) of
           None \<Rightarrow> (None, S)
         | Some delta \<Rightarrow> (Some delta, S\<lparr>wk_last_dedup := current\<rparr>)))"

definition worker_sdk :: "worker_env \<Rightarrow> sdk" where
  [model_defs]: "worker_sdk E = \<lparr>sdk_id = Some (Inl 25), sdk_version = we_version E\<rparr>"

section \<open>Resolving\<close>

text \<open>The moment of a request: the host's clock and key, the ids of two runs, the seconds of its clock and the measured latency.\<close>

record moment =
  mo_host :: host
  mo_ids :: "string \<times> string"
  mo_seconds :: int
  mo_elapsed_us :: "u32 option"

definition resolve_with_sticky ::
  "worker_env \<Rightarrow> moment \<Rightarrow> account_resolver \<Rightarrow> process_request option \<Rightarrow> bool \<Rightarrow> log_request \<times> worker \<Rightarrow>
   (failure + resolve_response \<times> materialization_record list) \<times> log_request \<times> worker" where
  [model_defs]: "resolve_with_sticky E t R request have_kv LW =
     (case resolve_flags (we_libs E) (mo_host t) (fst (mo_ids t)) R request of
        (Inl e, events) \<Rightarrow> (Inl e, with_log E (mo_seconds t) events LW)
      | (Inr result, events) \<Rightarrow>
          (let LW = with_log E (mo_seconds t) events LW in
           case result of
             None \<Rightarrow> (Inl (Failed ''Empty process response''), LW)
           | Some (Resolved None ws) \<Rightarrow> (Inl (Failed ''Empty resolve response''), LW)
           | Some (Resolved (Some response) ws) \<Rightarrow> (Inr (response, ws), LW)
           | Some (Suspended reads state) \<Rightarrow>
               if \<not> have_kv then (Inl (Failed ''Materializations required but KV not available''), LW)
               else
                 (case resolve_flags (we_libs E) (mo_host t) (snd (mo_ids t)) R
                      (resume (kv_read_materializations (we_kv_fails E) (wk_mat_kv (snd LW)) reads) state) of
                    (Inl e, events) \<Rightarrow> (Inl e, with_log E (mo_seconds t) events LW)
                  | (Inr resumed, events) \<Rightarrow>
                      (or_fail (Failed ''Still suspended after resume'') (into_resolved resumed), with_log E (mo_seconds t) events LW))))"

section \<open>Requests\<close>

text \<open>The router of the runtime gives the route; the path of the last is what follows \<open>/v1/\<close>.\<close>

datatype route = Preflight | Metrics | StateEtag | V1 string | Unmatched

record http_request =
  hr_route :: route
  hr_authorization :: "string option"
  hr_content_type :: "string option"
  hr_body :: bytes

text \<open>
  A response: its status, its body and whether it carries the CORS headers; the log that is emitted, the sticky writes for the background, and whether
  \<open>queue_flag_log\<close> is scheduled there. A handler that panics or returns an error to the runtime has none of this.
\<close>

record handled =
  hd_reply :: http_reply
  hd_log :: "log_request option"
  hd_writes :: "materialization_record list"
  hd_queued :: bool

definition reply_only :: "nat \<Rightarrow> reply_body \<Rightarrow> handled" where
  [model_defs]: "reply_only status body = \<lparr>hd_reply = \<lparr>rp_status = status, rp_body = body, rp_cors = True\<rparr>, hd_log = None, hd_writes = [], hd_queued = False\<rparr>"

definition flag_of_env :: "worker_env \<Rightarrow> string option \<Rightarrow> bool" where
  [model_defs]: "flag_of_env E var = (case var of None \<Rightarrow> True | Some v \<Rightarrow> \<not> eq_ignore_ascii_case (we_trim E v) ''false'')"

text \<open>\<open>strip_prefix("ClientSecret ")\<close>.\<close>

definition header_secret :: "string option \<Rightarrow> string option" where
  [model_defs]: "header_secret header =
     (case header of
        None \<Rightarrow> None
      | Some v \<Rightarrow> if take 13 v = ''ClientSecret '' then Some (drop 13 v) else None)"

definition metrics_authorized :: "worker_env \<Rightarrow> http_request \<Rightarrow> bool" where
  [model_defs]: "metrics_authorized E r =
     (case we_client_secret E of
        None \<Rightarrow> True
      | Some expected \<Rightarrow>
          (case hr_authorization r of
             None \<Rightarrow> False
           | Some v \<Rightarrow> (case header_secret (Some v) of Some s \<Rightarrow> s | None \<Rightarrow> []) = expected))"

definition handle_metrics :: "worker_env \<Rightarrow> metrics_kv \<Rightarrow> http_request \<Rightarrow> handled" where
  [model_defs]: "handle_metrics E metrics r =
     (if \<not> metrics_authorized E r then reply_only 401 (ErrorBody ''Unauthorized'')
      else reply_only 200 (MetricsBody (if we_metrics_kv E then render_metrics (we_boundary E) metrics else [])))"

definition handle_etag :: "worker_env \<Rightarrow> handled" where
  [model_defs]: "handle_etag E =
     reply_only 200 (EtagBody (case we_state_etag E of Some v \<Rightarrow> v | None \<Rightarrow> []) (case we_deployer_version E of Some v \<Rightarrow> v | None \<Rightarrow> []))"

definition handle_resolve :: "worker_env \<Rightarrow> moment \<Rightarrow> bytes \<Rightarrow> worker \<Rightarrow> handled option \<times> worker" where
  [model_defs]: "handle_resolve E t body S =
     (case we_parse_resolve E body of
        Inl e \<Rightarrow> (Some (reply_only 400 (ErrorBody (''Invalid request payload: '' @ e))), S)
      | Inr req \<Rightarrow>
          (let req = (if flag_of_env E (we_force_apply E) then req\<lparr>rq_apply := True\<rparr> else req);
               ctx = (case rq_evaluation_context req of Some fs \<Rightarrow> fs | None \<Rightarrow> []);
               (outcome, log, S) =
                 (case get_resolver (we_state E) (rq_client_secret req) ctx (we_token_key E) of
                    Inl e \<Rightarrow> (Inl e, log_request_default, S)
                  | Inr R \<Rightarrow> resolve_with_sticky E t R (if we_mat_kv E then deferred_materializations req else without_materializations req)
                               (we_mat_kv E) (log_request_default, S)) in
           case outcome of
             Inl Panic \<Rightarrow> (None, S)
           | _ \<Rightarrow>
               (let (reasons, status, body, ws) =
                      (case outcome of
                         Inl (Failed msg) \<Rightarrow> ([RError], 500, ErrorBody msg, [])
                       | Inr (response, ws) \<Rightarrow>
                           (map (\<lambda>f. reason_of_number (rf_reason f)) (rr_resolved_flags response), 200, ResolveBody response,
                            if we_mat_kv E then ws else []));
                    (delta, S) = dedup_telemetry_delta S;
                    td = (build_request_telemetry (we_telemetry E) (mo_elapsed_us t) reasons)\<lparr>td_sdk := Some (worker_sdk E), td_apply_dedup := delta\<rparr> in
                (Some \<lparr>hd_reply = \<lparr>rp_status = status, rp_body = body, rp_cors = True\<rparr>,
                       hd_log = Some (log\<lparr>lr_telemetry_data := Some td\<rparr>), hd_writes = ws, hd_queued = True\<rparr>, S))))"

text \<open>The successful response of an apply goes without CORS headers.\<close>

definition handle_apply :: "worker_env \<Rightarrow> moment \<Rightarrow> bytes \<Rightarrow> worker \<Rightarrow> handled option \<times> worker" where
  [model_defs]: "handle_apply E t body S =
     (case we_parse_apply E body of
        Inl e \<Rightarrow> (Some (reply_only 400 (ErrorBody (''Invalid request payload: '' @ e))), S)
      | Inr req \<Rightarrow>
          if aq_resolve_token req = [] then (Some (reply_only 200 ApplyBody), S)
          else
            (let (outcome, log, S) =
                   (case get_resolver (we_state E) (aq_client_secret req) [] (we_token_key E) of
                      Inl e \<Rightarrow> (Inl e, log_request_default, S)
                    | Inr R \<Rightarrow>
                        (case apply_flags (we_libs E) (mo_host t) R req of
                           (outcome, events) \<Rightarrow> (outcome, with_log E (mo_seconds t) events (log_request_default, S)))) in
             case outcome of
               Inl Panic \<Rightarrow> (None, S)
             | _ \<Rightarrow>
                 (let (delta, S) = dedup_telemetry_delta S;
                      log = (case delta of None \<Rightarrow> log
                             | Some d \<Rightarrow> log\<lparr>lr_telemetry_data := Some ((case lr_telemetry_data log of Some td \<Rightarrow> td | None \<Rightarrow> telemetry_default)
                                  \<lparr>td_apply_dedup := Some d\<rparr>)\<rparr>) in
                  (Some \<lparr>hd_reply = (case outcome of
                            Inl (Failed msg) \<Rightarrow> \<lparr>rp_status = 500, rp_body = ErrorBody msg, rp_cors = True\<rparr>
                          | _ \<Rightarrow> \<lparr>rp_status = 200, rp_body = ApplyBody, rp_cors = False\<rparr>),
                         hd_log = (if log \<noteq> log_request_default then Some log else None), hd_writes = [], hd_queued = True\<rparr>, S))))"

definition is_protobuf :: "http_request \<Rightarrow> bool" where
  [model_defs]: "is_protobuf r = str_contains (case hr_content_type r of Some v \<Rightarrow> v | None \<Rightarrow> []) ''protobuf''"

text \<open>Whether the events of a request may be published: by its header, or by the secret in its body.\<close>

definition publish_decision :: "worker_env \<Rightarrow> http_request \<Rightarrow> (nat \<times> string) option" where
  [model_defs]: "publish_decision E r =
     (case we_client_secret E of
        None \<Rightarrow> None
      | Some expected \<Rightarrow>
          (case header_secret (hr_authorization r) of
             Some got \<Rightarrow> if got \<noteq> expected then Some (401, ''Unauthorized'') else None
           | None \<Rightarrow>
               (case we_probe_secret E (is_protobuf r) (hr_body r) of
                  Inl msg \<Rightarrow> Some (400, ''Invalid request payload: '' @ msg)
                | Inr probed \<Rightarrow> if probed \<noteq> expected then Some (401, ''Unauthorized'') else None)))"

definition handle_publish :: "worker_env \<Rightarrow> http_request \<Rightarrow> worker \<Rightarrow> handled option \<times> worker" where
  [model_defs]: "handle_publish E r S =
     (case publish_decision E r of
        Some (status, msg) \<Rightarrow> (Some (reply_only status (ErrorBody msg)), S)
      | None \<Rightarrow>
          if \<not> we_events_binding E then (Some (reply_only 503 (ErrorBody ''Event tracking not available'')), S)
          else
            (case we_parse_events E (is_protobuf r) (hr_body r) of
               Inl msg \<Rightarrow> (Some (reply_only 400 (ErrorBody (''Invalid request payload: '' @ msg))), S)
             | Inr events \<Rightarrow>
                 if events = [] then (Some (reply_only 200 EventsBody), S)
                 else if we_queue_fails E events then (None, S)
                 else (Some (reply_only 200 EventsBody), S\<lparr>wk_events_queue := wk_events_queue S @ [events]\<rparr>)))"

definition worker_handle :: "worker_env \<Rightarrow> moment \<Rightarrow> metrics_kv \<Rightarrow> http_request \<Rightarrow> worker \<Rightarrow> handled option \<times> worker" where
  [model_defs]: "worker_handle E t metrics r S =
     (let S = S\<lparr>wk_dedup_enabled := flag_of_env E (we_enable_dedup E)\<rparr> in
      case hr_route r of
        Preflight \<Rightarrow> (Some (reply_only 200 NoBody), S)
      | Metrics \<Rightarrow> (Some (handle_metrics E metrics r), S)
      | StateEtag \<Rightarrow> (Some (handle_etag E), S)
      | V1 path \<Rightarrow>
          if path = ''flags:resolve'' then handle_resolve E t (hr_body r) S
          else if path = ''flags:apply'' then handle_apply E t (hr_body r) S
          else if path = ''telemetry:upload'' then (Some (reply_only 200 NoBody), S)
          else if path = ''events:publish'' then handle_publish E r S
          else (Some (reply_only 404 (ErrorBody ''Not found'')), S)
      | Unmatched \<Rightarrow> (Some \<lparr>hd_reply = we_unmatched E, hd_log = None, hd_writes = [], hd_queued = False\<rparr>, S))"

text \<open>The background work of a request: the sticky writes, and the sweep of the dedup table before the log is sent.\<close>

definition worker_background :: "worker_env \<Rightarrow> int \<Rightarrow> handled option \<Rightarrow> worker \<Rightarrow> worker" where
  [model_defs]: "worker_background E now_seconds h S =
     (case h of
        None \<Rightarrow> S
      | Some h \<Rightarrow>
          (let S = S\<lparr>wk_mat_kv := kv_write_materializations (we_kv_fails E) (hd_writes h) (wk_mat_kv S)\<rparr> in
           if hd_queued h \<and> wk_dedup_enabled S then S\<lparr>wk_dedup := sweep now_seconds (wk_dedup S)\<rparr> else S))"

text \<open>The key of the resolve tokens; without a valid one the worker panics.\<close>

definition init_resolve_token_key :: "(string \<Rightarrow> string) \<Rightarrow> (string \<Rightarrow> bytes option) \<Rightarrow> string option \<Rightarrow> string option \<Rightarrow> bytes option" where
  [model_defs]: "init_resolve_token_key trim decode64 secret var =
     (case (case secret of Some s \<Rightarrow> Some s | None \<Rightarrow> var) of None \<Rightarrow> None | Some s \<Rightarrow> decode64 (trim s))"

section \<open>The events queue\<close>

record 'w events_api =
  ea_parse :: "string \<Rightarrow> string list option"
  ea_send :: "string \<Rightarrow> string list \<Rightarrow> 'w \<Rightarrow> (string + nat \<times> nat option) \<times> 'w"

definition is_events_queue :: "string \<Rightarrow> bool" where
  [model_defs]: "is_events_queue queue_name = str_ends_with queue_name ''events-queue''"

definition aggregate_events :: "'w events_api \<Rightarrow> string list \<Rightarrow> string list" where
  [model_defs]: "aggregate_events A messages = concat (List.map_filter (ea_parse A) messages)"

text \<open>The answer of the events service: its status, and how many errors its body lists, if it can be read.\<close>

definition consume_events_queue ::
  "'w events_api \<Rightarrow> string option \<Rightarrow> bool \<Rightarrow> string list \<Rightarrow> metrics_kv \<Rightarrow> 'w \<Rightarrow> (string + unit) \<times> metrics_kv \<times> 'w" where
  [model_defs]: "consume_events_queue A client_secret have_kv messages metrics w =
     (let all_events = aggregate_events A messages in
      if all_events = [] then (Inr (), metrics, w)
      else
        (case client_secret of
           None \<Rightarrow> (Inl ''client secret not configured'', metrics, w)
         | Some secret \<Rightarrow>
             (case ea_send A secret all_events w of (answer, w) \<Rightarrow>
               (let (delivered, rejected) =
                      (case answer of
                         Inr (status, errors) \<Rightarrow> if status < 400 then (True, case errors of Some n \<Rightarrow> n | None \<Rightarrow> 0) else (False, 0)
                       | Inl e \<Rightarrow> (False, 0));
                    metrics = (if have_kv
                       then update_kv_snapshot EventsPipeline None None (Some (length all_events - rejected, rejected, delivered)) metrics
                       else metrics) in
                (if delivered then Inr () else Inl ''events delivery failed'', metrics, w)))))"

section \<open>Keys of the namespace\<close>

lemma encode_simps [simp]:
  "encode_component [] = []"
  "encode_component (c # cs) = (if c = CHR ''%'' then ''%25'' else if c = CHR '':'' then ''%3A'' else [c]) @ encode_component cs"
  by (simp_all add: encode_component_def)

lemma encode_no_colon: "encode_component b @ CHR '':'' # y \<noteq> [] \<and> (CHR '':'' # x = encode_component b @ CHR '':'' # y \<longleftrightarrow> b = [] \<and> x = y)"
  by (cases b) auto

text \<open>An encoded component ends at the colon, and tells which component it was.\<close>

lemma encode_split: "encode_component a @ CHR '':'' # x = encode_component b @ CHR '':'' # y \<longleftrightarrow> a = b \<and> x = y"
proof (induction a arbitrary: b)
  case Nil
  then show ?case using encode_no_colon by auto
next
  case (Cons c a)
  show ?case
  proof (cases b)
    case Nil
    then show ?thesis by auto
  next
    case b: (Cons d b')
    then show ?thesis using Cons.IH [of b'] by auto
  qed
qed

lemma encode_inj: "encode_component a = encode_component b \<longleftrightarrow> a = b"
  using encode_split [of a "[]" b "[]"] by simp

lemma kv_key_eq:
  "kv_key r = kv_key q \<longleftrightarrow> mr_unit r = mr_unit q \<and> mr_materialization r = mr_materialization q \<and> mr_rule r = mr_rule q"
  by (simp add: kv_key_def encode_split encode_inj)

lemma kv_prefix_of_key: "take (length (kv_prefix u m)) (kv_key r) = kv_prefix u m \<longleftrightarrow> mr_unit r = u \<and> mr_materialization r = m"
proof -
  have "(\<exists>z. kv_key r = kv_prefix u m @ z) \<longleftrightarrow> mr_unit r = u \<and> mr_materialization r = m"
    by (auto simp: kv_key_def kv_prefix_def encode_split)
  moreover have "take (length (kv_prefix u m)) (kv_key r) = kv_prefix u m \<longleftrightarrow> (\<exists>z. kv_key r = kv_prefix u m @ z)"
    by (metis append_eq_conv_conj append_take_drop_id)
  ultimately show ?thesis by simp
qed

lemma list_ex_insert: "list_ex (\<lambda>(k, _). P k) (hm_insert k v m) \<longleftrightarrow> P k \<or> list_ex (\<lambda>(k, _). P k) m"
  by (induction k v m rule: hm_insert.induct) auto

lemma read_after_put:
  assumes "mr_rule w \<noteq> []"
  shows "kv_read_record (\<lambda>_. False) (hm_insert (kv_key w) v kv) q =
    (if mr_unit w = mr_unit q \<and> mr_materialization w = mr_materialization q \<and> (mr_rule q = [] \<or> mr_rule w = mr_rule q)
     then Some (q\<lparr>mr_variant := if mr_rule q = [] then [] else v\<rparr>) else kv_read_record (\<lambda>_. False) kv q)"
proof (cases "mr_rule q = []")
  case True
  then show ?thesis by (auto simp: kv_read_record_def list_ex_insert kv_prefix_of_key Let_def)
next
  case False
  then show ?thesis by (auto simp: kv_read_record_def kv_key_eq)
qed


section \<open>What a request reports\<close>

definition reported_flags :: "log_request \<Rightarrow> applied_event list" where
  "reported_flags log = concat (map fg_flags (lr_flag_assigned log))"

lemma worker_log_assign_books:
  assumes "worker_log_assign b now i flags c s (log, D) = (log', D')"
  shows "\<exists>kept. reported_flags log' = reported_flags log @ map applied_event_of kept \<and> booked b flags kept D D'"
proof (cases "flags \<noteq> [] \<and> b")
  case True
  obtain r D1 where f: "filter_duplicates flags now D = (r, D1)" by (cases "filter_duplicates flags now D")
  note cover = filter_duplicates_cover [OF f]
  have "reported_flags log' = reported_flags log @ map applied_event_of (dedup_collect r flags)" "D' = D1"
    using assms True f cover(4,5,8)
    by (auto simp: worker_log_assign_def push_assigned_def build_flag_assigned_def reported_flags_def dedup_is_empty_collect [OF f] split: if_splits)
  then show ?thesis using booked_filter [OF f] True by auto
next
  case False
  then show ?thesis using assms booked_all [of flags b]
    by (intro exI [of _ flags]) (auto simp: worker_log_assign_def push_assigned_def build_flag_assigned_def reported_flags_def)
qed

text \<open>The host callbacks of a request: its log and the table of the isolate are the host.\<close>

interpretation wk: event_host "worker_event E b now" "\<lambda>s. reported_flags (fst s)" snd "\<lambda>_. b"
proof
  fix e s show "b = b" ..
next
  fix i fs rvs c s
  show "reported_flags (fst (worker_event E b now (LogResolve i fs rvs c) s)) = reported_flags (fst s)"
    "snd (worker_event E b now (LogResolve i fs rvs c) s) = snd s"
    by (cases s; auto simp: worker_log_resolve_def reported_flags_def split: prod.splits)+
next
  fix i flags c k s
  obtain log D log' D' where s: "s = (log, D)" "worker_log_assign b now i flags c k (log, D) = (log', D')"
    by (metis prod.exhaust)
  show "\<exists>kept. reported_flags (fst (worker_event E b now (LogAssign i flags c k) s)) = reported_flags (fst s) @ map applied_event_of kept
      \<and> booked b flags kept (snd s) (snd (worker_event E b now (LogAssign i flags c k) s))"
    using worker_log_assign_books [OF s(2)] by (simp add: s)
qed

text \<open>The events the resolver emits while a request is handled.\<close>

definition sticky_events :: "worker_env \<Rightarrow> moment \<Rightarrow> account_resolver \<Rightarrow> process_request option \<Rightarrow> mat_kv \<Rightarrow> host_event list" where
  "sticky_events E t R request kv =
     (case resolve_flags (we_libs E) (mo_host t) (fst (mo_ids t)) R request of
        (Inr (Some (Suspended reads state)), events) \<Rightarrow>
          (if we_mat_kv E
           then events @ snd (resolve_flags (we_libs E) (mo_host t) (snd (mo_ids t)) R (resume (kv_read_materializations (we_kv_fails E) kv reads) state))
           else events)
      | (_, events) \<Rightarrow> events)"

definition worker_request_events :: "worker_env \<Rightarrow> moment \<Rightarrow> http_request \<Rightarrow> mat_kv \<Rightarrow> host_event list" where
  "worker_request_events E t r kv =
     (case hr_route r of
        V1 path \<Rightarrow>
          if path = ''flags:resolve'' then
            (case we_parse_resolve E (hr_body r) of
               Inl _ \<Rightarrow> []
             | Inr req \<Rightarrow>
                 (let req = (if flag_of_env E (we_force_apply E) then req\<lparr>rq_apply := True\<rparr> else req) in
                  case get_resolver (we_state E) (rq_client_secret req) (case rq_evaluation_context req of Some fs \<Rightarrow> fs | None \<Rightarrow> []) (we_token_key E) of
                    Inl _ \<Rightarrow> []
                  | Inr R \<Rightarrow> sticky_events E t R (if we_mat_kv E then deferred_materializations req else without_materializations req) kv))
          else if path = ''flags:apply'' then
            (case we_parse_apply E (hr_body r) of
               Inl _ \<Rightarrow> []
             | Inr req \<Rightarrow>
                 (if aq_resolve_token req = [] then []
                  else case get_resolver (we_state E) (aq_client_secret req) [] (we_token_key E) of
                    Inl _ \<Rightarrow> []
                  | Inr R \<Rightarrow> snd (apply_flags (we_libs E) (mo_host t) R req)))
          else []
      | _ \<Rightarrow> [])"

lemma with_log_append: "with_log E now (xs @ ys) LW = with_log E now ys (with_log E now xs LW)"
  by (simp add: with_log_def split: prod.split)

lemma with_log_nil [simp]: "with_log E now [] LW = LW"
  by (cases LW) (simp add: with_log_def)

lemma with_log_keeps [simp]:
  "wk_mat_kv (snd (with_log E now events LW)) = wk_mat_kv (snd LW)"
  "wk_events_queue (snd (with_log E now events LW)) = wk_events_queue (snd LW)"
  "wk_dedup_enabled (snd (with_log E now events LW)) = wk_dedup_enabled (snd LW)"
  by (simp_all add: with_log_def split: prod.split)

lemma resolve_with_sticky_log:
  "snd (resolve_with_sticky E t R request (we_mat_kv E) LW) = with_log E (mo_seconds t) (sticky_events E t R request (wk_mat_kv (snd LW))) LW"
  by (simp add: resolve_with_sticky_def sticky_events_def with_log_append Let_def
      split: prod.split sum.split option.split process_response.split)

lemma dedup_telemetry_keeps [simp]:
  "wk_dedup (snd (dedup_telemetry_delta S)) = wk_dedup S" "wk_events_queue (snd (dedup_telemetry_delta S)) = wk_events_queue S"
  "wk_dedup_enabled (snd (dedup_telemetry_delta S)) = wk_dedup_enabled S" "wk_mat_kv (snd (dedup_telemetry_delta S)) = wk_mat_kv S"
  by (simp_all add: dedup_telemetry_delta_def Let_def split: option.split)

lemma dedup_telemetry_dedup: "dedup_telemetry_delta W = (d, S') \<Longrightarrow> wk_dedup S' = wk_dedup W \<and> wk_events_queue S' = wk_events_queue W"
  using dedup_telemetry_keeps [of W] by simp

definition emitted_flags :: "handled \<Rightarrow> applied_event list" where
  "emitted_flags h = (case hd_log h of Some log \<Rightarrow> reported_flags log | None \<Rightarrow> [])"

lemma with_log_books:
  assumes "with_log E now events (log_request_default, S) = (log, S')"
  shows "\<exists>kept. reported_flags log = map applied_event_of kept \<and> booked (wk_dedup_enabled S) (applied_of events) kept (wk_dedup S) (wk_dedup S')"
proof -
  obtain D where f: "fold (worker_event E (wk_dedup_enabled S) now) events (log_request_default, wk_dedup S) = (log, D)" "S' = S\<lparr>wk_dedup := D\<rparr>"
    using assms by (auto simp: with_log_def split: prod.splits)
  have "reported_flags log_request_default = []" by (simp add: reported_flags_def log_request_default_def)
  then show ?thesis using wk.events_books [of E "wk_dedup_enabled S" now events "(log_request_default, wk_dedup S)"] by (simp add: f)
qed

lemma reported_update [simp]: "reported_flags (log\<lparr>lr_telemetry_data := td\<rparr>) = reported_flags log" "reported_flags log_request_default = []"
  by (simp_all add: reported_flags_def log_request_default_def)

lemma empty_log: "log\<lparr>lr_telemetry_data := td\<rparr> = log_request_default \<Longrightarrow> reported_flags log = []"
  by (metis reported_update)

lemma reply_only_log [simp]: "emitted_flags (reply_only status body) = []" "rp_body (hd_reply (reply_only status body)) = body"
  by (simp_all add: emitted_flags_def reply_only_def)

text \<open>How a handler of the resolver ends, given the log and the worker its events leave.\<close>

definition outcome_of :: "handled option \<Rightarrow> log_request \<Rightarrow> worker \<Rightarrow> worker \<Rightarrow> bool" where
  "outcome_of res log W S' \<longleftrightarrow> wk_dedup S' = wk_dedup W \<and> wk_events_queue S' = wk_events_queue W
     \<and> (\<forall>h. res = Some h \<longrightarrow> emitted_flags h = reported_flags log \<and> (\<forall>txt. rp_body (hd_reply h) \<noteq> MetricsBody txt))"

lemma handle_resolve_log:
  assumes "handle_resolve E t (hr_body r) S = (res, S')" "hr_route r = V1 ''flags:resolve''"
  shows "\<exists>log W. with_log E (mo_seconds t) (worker_request_events E t r (wk_mat_kv S)) (log_request_default, S) = (log, W) \<and> outcome_of res log W S'"
proof (cases "we_parse_resolve E (hr_body r)")
  case (Inl e)
  then show ?thesis using assms by (auto simp: handle_resolve_def worker_request_events_def outcome_of_def)
next
  case parsed: (Inr req0)
  define req where "req = (if flag_of_env E (we_force_apply E) then req0\<lparr>rq_apply := True\<rparr> else req0)"
  let ?ctx = "case rq_evaluation_context req of Some fs \<Rightarrow> fs | None \<Rightarrow> []"
  let ?request = "if we_mat_kv E then deferred_materializations req else without_materializations req"
  obtain outcome log W where run: "(case get_resolver (we_state E) (rq_client_secret req) ?ctx (we_token_key E) of
      Inl e \<Rightarrow> (Inl e, log_request_default, S)
    | Inr R \<Rightarrow> resolve_with_sticky E t R ?request (we_mat_kv E) (log_request_default, S)) = (outcome, log, W)"
    by (metis prod_cases3)
  have logged: "with_log E (mo_seconds t) (worker_request_events E t r (wk_mat_kv S)) (log_request_default, S) = (log, W)"
  proof (cases "get_resolver (we_state E) (rq_client_secret req) ?ctx (we_token_key E)")
    case (Inl e)
    then show ?thesis using run parsed assms(2) by (simp add: worker_request_events_def req_def [symmetric] Let_def)
  next
    case (Inr R)
    then show ?thesis using run parsed assms(2) resolve_with_sticky_log [of E t R ?request "(log_request_default, S)"]
      by (simp add: worker_request_events_def req_def [symmetric] Let_def)
  qed
  have "outcome_of res log W S'"
  proof (cases outcome)
    case (Inl f)
    then show ?thesis using assms(1) parsed run
      by (cases f) (auto simp: handle_resolve_def req_def [symmetric] Let_def emitted_flags_def outcome_of_def split: prod.splits dest: dedup_telemetry_dedup empty_log)
  next
    case (Inr res)
    then show ?thesis using assms(1) parsed run
      by (auto simp: handle_resolve_def req_def [symmetric] Let_def emitted_flags_def outcome_of_def split: prod.splits dest: dedup_telemetry_dedup empty_log)
  qed
  with logged show ?thesis by blast
qed

lemma handle_apply_log:
  assumes "handle_apply E t (hr_body r) S = (res, S')" "hr_route r = V1 ''flags:apply''"
  shows "\<exists>log W. with_log E (mo_seconds t) (worker_request_events E t r (wk_mat_kv S)) (log_request_default, S) = (log, W) \<and> outcome_of res log W S'"
proof (cases "we_parse_apply E (hr_body r)")
  case (Inl e)
  then show ?thesis using assms by (auto simp: handle_apply_def worker_request_events_def outcome_of_def)
next
  case parsed: (Inr req)
  show ?thesis
  proof (cases "aq_resolve_token req = []")
    case True
    then show ?thesis using assms parsed by (auto simp: handle_apply_def worker_request_events_def outcome_of_def)
  next
    case token: False
    obtain outcome log W where run: "(case get_resolver (we_state E) (aq_client_secret req) [] (we_token_key E) of
        Inl e \<Rightarrow> (Inl e, log_request_default, S)
      | Inr R \<Rightarrow> (case apply_flags (we_libs E) (mo_host t) R req of
           (outcome, events) \<Rightarrow> (outcome, with_log E (mo_seconds t) events (log_request_default, S)))) = (outcome, log, W)"
      by (metis prod_cases3)
    have logged: "with_log E (mo_seconds t) (worker_request_events E t r (wk_mat_kv S)) (log_request_default, S) = (log, W)"
      using run parsed token assms(2) by (auto simp: worker_request_events_def split: sum.splits prod.splits)
    have "outcome_of res log W S'"
    proof (cases outcome)
      case (Inl f)
      then show ?thesis using assms(1) parsed token run
        by (cases f) (auto simp: handle_apply_def Let_def emitted_flags_def outcome_of_def split: prod.splits option.splits if_splits dest: dedup_telemetry_dedup empty_log)
    next
      case (Inr u)
      then show ?thesis using assms(1) parsed token run
        by (auto simp: handle_apply_def Let_def emitted_flags_def outcome_of_def split: prod.splits option.splits if_splits dest: dedup_telemetry_dedup empty_log)
    qed
    with logged show ?thesis by blast
  qed
qed

text \<open>C38: Every apply a request causes is in its log or was reported before. For each request the worker answers, whatever its route, body and outcome,
  the flags of the log it emits are, in order, flags the resolver applied for it; without deduplication all of them, and with it one for every identity
  that the table did not hold, while the counters advance by the number of applies and of those left out. Nothing is reported for a request that applies nothing.\<close>

theorem worker_reports_applies:
  assumes "worker_handle E t metrics r S = (Some h, S')"
  shows "\<exists>kept. emitted_flags h = map applied_event_of kept
    \<and> booked (flag_of_env E (we_enable_dedup E)) (applied_of (worker_request_events E t r (wk_mat_kv S))) kept (wk_dedup S) (wk_dedup S')"
proof -
  define S1 where "S1 = S\<lparr>wk_dedup_enabled := flag_of_env E (we_enable_dedup E)\<rparr>"
  have S1: "wk_dedup S1 = wk_dedup S" "wk_mat_kv S1 = wk_mat_kv S" "wk_dedup_enabled S1 = flag_of_env E (we_enable_dedup E)"
    by (simp_all add: S1_def)
  have books: ?thesis if "\<exists>log W. with_log E (mo_seconds t) (worker_request_events E t r (wk_mat_kv S1)) (log_request_default, S1) = (log, W) \<and> outcome_of (Some h) log W S'"
    using that with_log_books [of E "mo_seconds t" "worker_request_events E t r (wk_mat_kv S1)" S1] by (auto simp: S1 outcome_of_def)
  have quiet: ?thesis if "worker_request_events E t r (wk_mat_kv S) = []" "emitted_flags h = []" "wk_dedup S' = wk_dedup S"
    using that by (intro exI [of _ "[]"]) (simp add: booked_def applied_of_def)
  show ?thesis
  proof (cases "hr_route r = V1 ''flags:resolve'' \<or> hr_route r = V1 ''flags:apply''")
    case True
    then show ?thesis
    proof
      assume route: "hr_route r = V1 ''flags:resolve''"
      then have "handle_resolve E t (hr_body r) S1 = (Some h, S')" using assms by (simp add: worker_handle_def S1_def)
      then show ?thesis using handle_resolve_log route books by blast
    next
      assume route: "hr_route r = V1 ''flags:apply''"
      then have "handle_apply E t (hr_body r) S1 = (Some h, S')" using assms by (simp add: worker_handle_def S1_def)
      then show ?thesis using handle_apply_log route books by blast
    qed
  next
    case False
    then have "worker_request_events E t r (wk_mat_kv S) = []" by (auto simp: worker_request_events_def split: route.split)
    moreover have "emitted_flags h = [] \<and> wk_dedup S' = wk_dedup S"
      using assms False
      by (auto simp: worker_handle_def Let_def handle_metrics_def handle_etag_def handle_publish_def emitted_flags_def reply_only_def
          split: route.splits if_splits option.splits sum.splits prod.splits)
    ultimately show ?thesis using quiet by simp
  qed
qed

lemma header_secret_some: "header_secret header = Some got \<Longrightarrow> header = Some (''ClientSecret '' @ got)"
proof -
  assume "header_secret header = Some got"
  then obtain v where v: "header = Some v" "take 13 v = ''ClientSecret ''" "got = drop 13 v"
    by (auto simp: header_secret_def split: option.splits if_splits)
  have "v = ''ClientSecret '' @ got" unfolding v(2) [symmetric] v(3) by simp
  then show ?thesis unfolding v(1) by (rule arg_cong)
qed

lemma publish_guard:
  assumes "we_client_secret E = Some secret" "handle_publish E r S = (h, S')"
  shows "wk_events_queue S' \<noteq> wk_events_queue S \<Longrightarrow>
      (hr_authorization r = Some (''ClientSecret '' @ secret)
         \<or> header_secret (hr_authorization r) = None \<and> we_probe_secret E (is_protobuf r) (hr_body r) = Inr secret)
      \<and> (\<exists>events. we_parse_events E (is_protobuf r) (hr_body r) = Inr events \<and> events \<noteq> [] \<and> wk_events_queue S' = wk_events_queue S @ [events])"
    and "h \<noteq> None \<Longrightarrow> rp_body (hd_reply (the h)) \<noteq> MetricsBody txt"
proof -
  assume changed: "wk_events_queue S' \<noteq> wk_events_queue S"
  have "publish_decision E r = None" and added: "\<exists>events. we_parse_events E (is_protobuf r) (hr_body r) = Inr events \<and> events \<noteq> []
      \<and> wk_events_queue S' = wk_events_queue S @ [events]"
    using assms(2) changed by (simp add: handle_publish_def split: option.splits sum.splits if_splits prod.splits; auto)+
  then have "hr_authorization r = Some (''ClientSecret '' @ secret)
      \<or> header_secret (hr_authorization r) = None \<and> we_probe_secret E (is_protobuf r) (hr_body r) = Inr secret"
    using assms(1) header_secret_some [of "hr_authorization r"]
    by (simp add: publish_decision_def split: option.splits sum.splits if_splits)
  with added show "(hr_authorization r = Some (''ClientSecret '' @ secret)
         \<or> header_secret (hr_authorization r) = None \<and> we_probe_secret E (is_protobuf r) (hr_body r) = Inr secret)
      \<and> (\<exists>events. we_parse_events E (is_protobuf r) (hr_body r) = Inr events \<and> events \<noteq> [] \<and> wk_events_queue S' = wk_events_queue S @ [events])" by blast
next
  show "h \<noteq> None \<Longrightarrow> rp_body (hd_reply (the h)) \<noteq> MetricsBody txt"
    using assms(2) by (auto simp: handle_publish_def split: option.splits sum.splits if_splits prod.splits)
qed

text \<open>C39: The client secret guards the events and the metrics. When the worker has a secret, a request puts events on the queue only if
  its header carries the secret, or it has no such header and its body's secret is that one, and then exactly the
  events of its body in one message; metrics are served only to a request whose header carries the secret, an empty secret excepted.\<close>

theorem secret_guards_worker:
  assumes "we_client_secret E = Some secret" "worker_handle E t metrics r S = (h, S')"
  shows "(wk_events_queue S' \<noteq> wk_events_queue S \<longrightarrow>
      hr_route r = V1 ''events:publish''
      \<and> (hr_authorization r = Some (''ClientSecret '' @ secret)
         \<or> header_secret (hr_authorization r) = None \<and> we_probe_secret E (is_protobuf r) (hr_body r) = Inr secret)
      \<and> (\<exists>events. we_parse_events E (is_protobuf r) (hr_body r) = Inr events \<and> events \<noteq> [] \<and> wk_events_queue S' = wk_events_queue S @ [events]))
    \<and> (\<forall>txt. h \<noteq> None \<and> rp_body (hd_reply (the h)) = MetricsBody txt \<and> hr_route r \<noteq> Unmatched \<longrightarrow>
         hr_authorization r = Some (''ClientSecret '' @ secret) \<or> secret = [])"
proof -
  define S1 where "S1 = S\<lparr>wk_dedup_enabled := flag_of_env E (we_enable_dedup E)\<rparr>"
  have queue: "wk_events_queue S1 = wk_events_queue S" by (simp add: S1_def)
  have quiet: ?thesis if ex: "\<exists>log W. with_log E (mo_seconds t) (worker_request_events E t r (wk_mat_kv S1)) (log_request_default, S1) = (log, W) \<and> outcome_of h log W S'"
  proof -
    obtain log W where w: "with_log E (mo_seconds t) (worker_request_events E t r (wk_mat_kv S1)) (log_request_default, S1) = (log, W)" "outcome_of h log W S'"
      using ex by blast
    have "wk_events_queue S' = wk_events_queue S"
      using w(2) with_log_keeps(2) [of E "mo_seconds t" "worker_request_events E t r (wk_mat_kv S1)" "(log_request_default, S1)"] queue
      by (simp add: outcome_of_def w(1))
    then show ?thesis using w(2) by (auto simp: outcome_of_def)
  qed
  consider (resolve) "hr_route r = V1 ''flags:resolve''" | (applying) "hr_route r = V1 ''flags:apply''" | (publish) "hr_route r = V1 ''events:publish''"
    | (metrics) "hr_route r = Metrics"
    | (other) "hr_route r \<notin> {V1 ''flags:resolve'', V1 ''flags:apply'', V1 ''events:publish'', Metrics}" by blast
  then show ?thesis
  proof cases
    case resolve
    then have "handle_resolve E t (hr_body r) S1 = (h, S')" using assms(2) by (simp add: worker_handle_def S1_def)
    then show ?thesis using handle_resolve_log resolve quiet by blast
  next
    case applying
    then have "handle_apply E t (hr_body r) S1 = (h, S')" using assms(2) by (simp add: worker_handle_def S1_def)
    then show ?thesis using handle_apply_log applying quiet by blast
  next
    case publish
    then have run: "handle_publish E r S1 = (h, S')" using assms(2) by (simp add: worker_handle_def S1_def)
    show ?thesis using publish_guard [OF assms(1) run] publish unfolding queue by blast
  next
    case metrics
    have "hr_authorization r = Some (''ClientSecret '' @ secret) \<or> secret = []" if "metrics_authorized E r"
      using that assms(1) header_secret_some [of "hr_authorization r"]
      by (simp add: metrics_authorized_def split: option.splits)
    then show ?thesis using assms(2) metrics
      by (auto simp: worker_handle_def handle_metrics_def Let_def split: if_splits)
  next
    case other
    then show ?thesis using assms(2) by (auto simp: worker_handle_def handle_etag_def Let_def split: route.splits if_splits)
  qed
qed

section \<open>Instances\<close>

definition example_apply :: apply_request where
  "example_apply = \<lparr>aq_flags = [\<lparr>ap_flag = ''flags/f'', ap_apply_time = Some \<lparr>seconds = 4, nanos = 5\<rparr>\<rparr>], aq_client_secret = ''s'',
     aq_resolve_token = [1], aq_send_time = Some \<lparr>seconds = 7, nanos = 5\<rparr>, aq_sdk = None\<rparr>"

definition example_worker_env :: worker_env where
  "example_worker_env = \<lparr>we_libs = example_libs, we_tables = example_tables,
     we_telemetry = \<lparr>te_ln_bucket = (\<lambda>_. 0), te_ln_ratio = 0, te_memory_bytes = 0, te_version = []\<rparr>, we_trim = (\<lambda>s. s), we_boundary = show_nat,
     we_state = (ar_state example_resolver_open)\<lparr>rs_secrets := [(''s'', example_client)]\<rparr>, we_version = ''1'', we_token_key = [],
     we_client_secret = Some ''s'', we_force_apply = None, we_enable_dedup = Some ''false'', we_state_etag = None, we_deployer_version = None, we_metrics_kv = False,
     we_mat_kv = False, we_events_binding = True, we_kv_fails = (\<lambda>_. False), we_queue_fails = (\<lambda>_. False),
     we_unmatched = \<lparr>rp_status = 404, rp_body = NoBody, rp_cors = False\<rparr>,
     we_parse_resolve = (\<lambda>_. Inl ''bad''), we_parse_apply = (\<lambda>_. Inr example_apply),
     we_probe_secret = (\<lambda>_ _. Inr ''s''), we_parse_events = (\<lambda>_ _. Inr [''e1'', ''e2''])\<rparr>"

definition example_moment :: moment where
  "example_moment = \<lparr>mo_host = example_host_open, mo_ids = (''i1'', ''i2''), mo_seconds = 7, mo_elapsed_us = None\<rparr>"

definition request_to :: "route \<Rightarrow> string option \<Rightarrow> http_request" where
  "request_to route auth = \<lparr>hr_route = route, hr_authorization = auth, hr_content_type = None, hr_body = []\<rparr>"

theorem worker_reports_applies_witness:
  "\<exists>h S'. worker_handle example_worker_env example_moment [] (request_to (V1 ''flags:apply'') None) worker_new = (Some h, S')
     \<and> length (emitted_flags h) = 1"
proof -
  let ?r = "request_to (V1 ''flags:apply'') None"
  note defs = example_libs_def to_date_time_utc_def timestamp_to_datetime_def datetime_to_timestamp_def u32_of_i32_def
    or_fail_def bind_ok_def map_err_def map_ok_def decrypt_resolve_token_def null_decrypt_def example_moment_def resolver_new_def
    example_host_open_def example_host_def example_resolver_open_def resolver_with_def sticky_resolver_def token_for_def example_apply_def
  obtain R where R: "get_resolver (we_state example_worker_env) ''s'' [] (we_token_key example_worker_env) = Inr R"
    "R = resolver_new example_client (we_state example_worker_env) (merge_context (client_managed_context example_client) []) []"
    by (simp add: get_resolver_def example_worker_env_def)
  obtain i flags c sdk where run: "apply_flags example_libs (mo_host example_moment) R example_apply = (Inr (), [LogAssign i flags c sdk])" "length flags = 1"
    by (simp add: R(2) apply_flags_def example_value_applies defs example_worker_env_def)
  have env: "we_parse_apply example_worker_env (hr_body ?r) = Inr example_apply" "we_libs example_worker_env = example_libs"
    "flag_of_env example_worker_env (we_enable_dedup example_worker_env) = False"
    by (simp_all add: example_worker_env_def flag_of_env_def eq_ignore_ascii_case_def)
  obtain h S' where handle: "worker_handle example_worker_env example_moment [] ?r worker_new = (Some h, S')"
  proof -
    let ?S = "worker_new\<lparr>wk_dedup_enabled := False\<rparr>"
    obtain log W where w: "with_log example_worker_env (mo_seconds example_moment) [LogAssign i flags c sdk] (log_request_default, ?S) = (log, W)"
      by (cases "with_log example_worker_env (mo_seconds example_moment) [LogAssign i flags c sdk] (log_request_default, ?S)")
    obtain d X where "dedup_telemetry_delta W = (d, X)" by (cases "dedup_telemetry_delta W")
    then have "\<exists>h. worker_handle example_worker_env example_moment [] ?r worker_new = (Some h, X)"
      using R(1) run(1) env w
      by (simp add: worker_handle_def request_to_def handle_apply_def Let_def) (simp add: example_apply_def Let_def)
    then show thesis using that by blast
  qed
  have "worker_request_events example_worker_env example_moment ?r (wk_mat_kv worker_new) = [LogAssign i flags c sdk]"
    using R(1) run(1) env by (simp add: worker_request_events_def request_to_def example_apply_def)
  then have "applied_of (worker_request_events example_worker_env example_moment ?r (wk_mat_kv worker_new)) = flags"
    by (simp add: applied_of_def)
  then show ?thesis using worker_reports_applies [OF handle] handle run(2) by (auto simp: booked_def env(3))
qed

theorem secret_guards_worker_witness:
  "\<exists>h S'. worker_handle example_worker_env example_moment [] (request_to (V1 ''events:publish'') None) worker_new = (h, S')
    \<and> wk_events_queue S' = [[''e1'', ''e2'']] \<and> we_probe_secret example_worker_env (is_protobuf (request_to (V1 ''events:publish'') None)) [] = Inr ''s''"
proof -
  obtain h S' where run: "worker_handle example_worker_env example_moment [] (request_to (V1 ''events:publish'') None) worker_new = (h, S')"
    "wk_events_queue S' \<noteq> wk_events_queue worker_new"
    by (simp add: worker_handle_def request_to_def handle_publish_def publish_decision_def header_secret_def example_worker_env_def worker_new_def)
  have "we_client_secret example_worker_env = Some ''s''" by (simp add: example_worker_env_def)
  from secret_guards_worker [OF this run(1)] run show ?thesis
    by (auto simp: example_worker_env_def request_to_def worker_new_def)
qed

text \<open>A successful apply answers without the CORS headers that every other answer of the worker's own carries, its failures included.\<close>

lemma apply_answers_without_cors:
  assumes "we_parse_apply E body = Inr req" "aq_resolve_token req \<noteq> []"
    "get_resolver (we_state E) (aq_client_secret req) [] (we_token_key E) = Inr R" "apply_flags (we_libs E) (mo_host t) R req = (Inr (), events)"
  shows "\<exists>h. fst (handle_apply E t body S) = Some h \<and> rp_status (hd_reply h) = 200 \<and> \<not> rp_cors (hd_reply h)"
  using assms by (simp add: handle_apply_def Let_def split: prod.split)

text \<open>Without a secret of its own the worker serves its metrics to everyone.\<close>

lemma metrics_open_without_secret: "we_client_secret E = None \<Longrightarrow> metrics_authorized E r"
  by (simp add: metrics_authorized_def)

end
