(* ===== verification/Spec2Isabelle.thy ===== *)
theory Spec2Isabelle
  imports Token_Sealing Apply_Dedup Bounded_Set Assign_Log Flag_Log_Aggregation Resolve_Log_Protocol
    Telemetry_Pipeline Flag_Log_Buffer Provider Event_Engine Cloudflare_Worker
begin

text \<open>
  A verification development for the Confidence flag resolver: the resolver core (\<open>src/confidence-resolver\<close>), its WebAssembly guest
  (\<open>src/wasm/rust-guest\<close>), the event engine (\<open>src/confidence-event-engine\<close>, \<open>src/wasm/event-guest\<close>), the Cloudflare worker
  (\<open>src/confidence-cloudflare-resolver\<close>) and the OpenFeature provider for Rust (\<open>src/openfeature-provider/rust\<close>). Paths below are
  relative to the \<open>src\<close> directory of the crate they belong to. This root theory imports all others and holds nothing else.

  \<^bold>\<open>How the program works.\<close> A resolver state (flags, segments, bitsets, bloom filters, client secrets) arrives as a message. A client's
  secret opens a resolver for one account; a request names flags and carries an evaluation context. Each flag has rules; a rule
  names a segment (a boolean expression over targeting criteria, other segments, a packed bitset or bloom filter over
  the hashed unit) and an assignment spec of bucket ranges. A rule may read or write materializations, records of which variant a
  unit got. If the records are not at hand the run is suspended with the reads it needs and resumed with the answers. The response
  either logs the assignments at once or seals them in a token that a later apply logs. The host gets two kinds of events through the
  trait \<open>Host\<close>, resolves and assignments. The hosts deduplicate applies, count resolves, derive context schemas, queue assignment events,
  collect telemetry, and flush all of it as \<open>WriteFlagLogs\<close> requests, which the Cloudflare worker delivers directly, through a buffer or
  through queues whose consumer aggregates a batch, and which the provider posts to its log destinations.

  \<^bold>\<open>Conventions.\<close> Strings are byte strings (\<open>string\<close>, the UTF-8 encoding). A \<open>HashMap\<close> or \<open>BTreeMap\<close> is the association list of its
  entries in iteration order, updated by \<open>hm_insert\<close> and \<open>bt_insert\<close>. A fallible function returns \<open>error + value\<close>, a panic being an error value
  of its own where the code can reach one, and a function with a \<open>&mut\<close> argument returns it beside its result on every path. Fixed-width
  integers are words where they wrap or are hashed, and \<open>nat\<close> or \<open>int\<close> with the bound written out where the code saturates,
  narrows or only compares; arithmetic is that of a release build. \<open>usize\<close> has 32 bits, as in the WebAssembly build. An \<open>f64\<close> is its IEEE bit pattern.

  \<^bold>\<open>What is a parameter.\<close> Code outside the repository: Murmur3, the date functions of \<open>chrono\<close>, inflate and CRC-32 (record \<open>libs\<close>); Unicode case
  tables and country codes (\<open>locale_tables\<close>); token codecs and the clock (\<open>host\<close>); AES of the standard build (\<open>cipher\<close>); encoded sizes (\<open>wire\<close>); logarithm, memory and version
  of the telemetry (\<open>telemetry_env\<close>); HTTP, JSON sizes and time of the worker (\<open>net\<close>, \<open>worker_env\<close>); HTTP, SHA-256, AES-GCM, protobuf
  decoding, jitter and the remote store of the provider (\<open>platform\<close>, \<open>sender\<close>, \<open>remote\<close>). Random ids, reservoir draws and the first entry a hash
  map yields are arguments. Every property with a hypothesis on them has a closed instance.

  \<^bold>\<open>Shared theories.\<close>
  \<^item> \<open>Prelude\<close>: string operations, the two map insertions and their contract \<open>keyed_map\<close> (interpreted for both), error propagation.
  \<^item> \<open>Libraries\<close>: the third-party parameters, timestamps with their linear order. \<open>Float64\<close>: comparison, truncation, parsing and shortest printing of \<open>f64\<close>.
  \<^item> \<open>Resolver_Data\<close>, \<open>Log_Messages\<close>: the messages, with the constructors of the protobuf files.

  \<^bold>\<open>The resolver core\<close> (\<open>confidence-resolver/src\<close>).
  \<^item> \<open>Error_Codes\<close> (\<open>err.rs\<close>): 48-bit error codes from tags and locations, base64url rendering; the rendering is injective.
  \<^item> \<open>Evaluation_Context\<close> (\<open>managed_context.rs\<close>, \<open>get_attribute_value\<close> and \<open>get_targeting_key\<close> of \<open>lib.rs\<close>): unflattening and
    merging a managed context into the request's; the managed value wins and siblings survive.
  \<^item> \<open>Targeting_Values\<close> (\<open>value.rs\<close>): conversion to the expected type, versions, the trait \<open>Ord\<close> as the locale \<open>comparison\<close> with its four
    interpretations, every rule and \<open>evaluate_criterion\<close>; conversion is type sound, ranges are convex, versions round trip.
  \<^item> \<open>Expressions\<close> (\<open>evaluate_expression\<close>): the stateful evaluator computes strong Kleene logic; \<open>state_relation\<close> is the contract of a
    relation between contexts that evaluation keeps.
  \<^item> \<open>Bucketing\<close> (\<open>hash\<close>, \<open>bucket\<close>, \<open>bloom_filter.rs\<close>): bucket bounds, and no false negatives for filters in Guava's layout.
  \<^item> \<open>Materializations\<close>, \<open>Segments\<close>, \<open>Flag_Resolution\<close> (\<open>MaterializationContext\<close>, \<open>segment_match\<close>, \<open>resolve_flag\<close>): the recursion over
    segments ends because each call removes a segment from the open ones; the locale \<open>match_property\<close> carries a property of criteria
    through targeting, and its interpretations give that discovery is sound, that missing reads grow and when they are empty. A
    match is justified by a rule, a segment and an assignment; a stored variant is kept; full ranges assign everyone.
  \<^item> \<open>Resolver_State\<close> (\<open>gzip.rs\<close>, \<open>from_proto\<close>, \<open>get_resolver\<close>, \<open>mask_secret\<close>): loading the state; a credential opens its own client
    when no name is a prefix of another.
  \<^item> \<open>Resolve_Process\<close> (\<open>resolve_flags\<close>, \<open>apply_flags\<close>, tokens, the response): suspend and resume answer each flag once, deferred and immediate
    apply log the same, what an apply logs and when it fails; \<open>token_sealing\<close> is the contract of the two sealing functions.
  \<^item> \<open>Token_Sealing\<close>: the sealing of the standard build (\<open>encrypt_resolve_token\<close> and \<open>decrypt_resolve_token\<close> of \<open>Host\<close>); it keeps the contract if the
    cipher decrypts what it encrypted, so deferred apply works there too.
  \<^item> \<open>Apply_Dedup\<close> (\<open>apply_dedup.rs\<close>): the streaming hash, the table with capacity and sweep, the result mask that spills into words;
    the filter keeps exactly the first occurrences, the table is bounded and forgets what its window allows.
  \<^item> \<open>Bounded_Set\<close> (\<open>bounded_set.rs\<close>): the lock-free reservoir as interleaved atomic actions; each allocation has one owner.
  \<^item> \<open>Assign_Log\<close> (\<open>assign_logger.rs\<close>): checkpoints under a byte limit conserve events and order.
  \<^item> \<open>Schema_Derivation\<close> (\<open>schema_util.rs\<close>): the derived schema is the table of the context's leaves.
  \<^item> \<open>Resolve_Log\<close>, \<open>Resolve_Log_Protocol\<close> (\<open>resolve_logger.rs\<close>): the counters, and the double-buffered lock protocol as a step
    relation; each resolve is in one output under any interleaving. Live and stateless logs count alike.
  \<^item> \<open>Flag_Log_Aggregation\<close> (\<open>flag_logger.rs\<close>), \<open>Telemetry\<close>, \<open>Telemetry_Pipeline\<close>, \<open>Prometheus\<close> (\<open>telemetry.rs\<close>): saturated sums over a
    batch; a server that accumulates all deltas holds the collector's counters, aggregated in between or not; the text of the metrics, whose labels read back.

  \<^bold>\<open>The hosts.\<close>
  \<^item> \<open>Event_Host\<close>: the trait \<open>Host\<close> as the locale \<open>event_host\<close>. What a host reports of a batch of applies and what its table holds afterwards is
    in balance (\<open>booked\<close>), for one event by assumption and for a list by induction. The guest, the worker and the native host interpret it.
  \<^item> \<open>Wasm_Guest\<close> (\<open>wasm/rust-guest/src/lib.rs\<close>): all statics in one record, each exported call a constructor of \<open>guest_call\<close>. Over any
    history every reported apply has its identity on record, and the deduplication counters balance.
  \<^item> \<open>Event_Engine\<close> (\<open>event_logger.rs\<close>, \<open>event-guest/src/lib.rs\<close>): tracked events leave in order, within the limit unless alone, and flushing drains.
  \<^item> \<open>Flag_Log_Delivery\<close>, \<open>Flag_Log_Consumer\<close>, \<open>Flag_Log_Buffer\<close> (\<open>flag_log/mod.rs\<close>, \<open>queue.rs\<close>, \<open>shards.rs\<close>, \<open>buffer.rs\<close> and the
    delivery and metrics functions of the worker's \<open>lib.rs\<close>): budgets, destinations, retries and splitting; shards, queue consumer and the
    metrics snapshots; the buffer with its waiter as steps between two awaits. Outcomes say what landed, deliveries end by their deadline,
    telemetry is counted once, the isolate stays within its bounds and loses a log only by shedding.
  \<^item> \<open>Cloudflare_Worker\<close> (\<open>lib.rs\<close>, \<open>materialization.rs\<close>): the key-value store of materializations, each route of \<open>main\<close> with its background work,
    and the events consumer.
  \<^item> \<open>Provider_State\<close>, \<open>Provider_Evaluation\<close>, \<open>Provider_Logs\<close>, \<open>Provider\<close> (\<open>error.rs\<close>, \<open>state.rs\<close>, \<open>materialization.rs\<close>,
    \<open>logger.rs\<close>, \<open>host.rs\<close>, \<open>provider.rs\<close>): fetching and polling, the evaluation with its typed accessors, the sender, and the
    provider as an arbitrary order of evaluations, polls, timer ticks and shutdowns.

  \<^bold>\<open>Termination and bounds.\<close> Every definition is total. The recursions that are not structural have a measure of their own: the open segments, the
  weight of a stack of pieces that splitting halves, the buffered records, the bytes still to read, the decimal places still to try. No fuel is used; where the code may
  wait for ever (the polling loop, the waiter, the loggers that spin on an empty cell) it is a step relation or a function of the answers it
  gets, and progress is a property of its own.

  \<^bold>\<open>Assumptions on the setting.\<close> The fields of a struct are an ordered map, as in the build without the feature \<open>json\<close>; with it
  they are a hash map, which changes the order in which fields are visited and nothing else of the model. Times are whole milliseconds or seconds as the
  code uses them. A text stored in a key-value namespace decodes to the snapshot it was encoded from. The guest and an isolate run one
  task at a time; the worker handles a request to its end before the next. One provider runs in a process.

  \<^bold>\<open>Not modelled.\<close> The message passing of the modules (\<open>wasm-msg\<close>: raw memory and a macro); the URL rewriting of the gateway middleware, the router, bodies and bindings of the worker
  (HTTP objects); code generated from the protobuf files; the epoch guards and \<open>Drop\<close> of the lock-free containers; logging to
  the console; the mock server, the benchmarks and the tests; the providers in other languages, which wrap the same module.

  \<^bold>\<open>Findings\<close> stated as lemmas: \<open>bloom_zero_bits_panics\<close>, \<open>discovery_key_error_differs\<close>, \<open>unknown_secret_panics\<close>, \<open>client_prefix_takes_secret\<close>, \<open>decrypt_failure_is_internal\<close>,
  \<open>stale_semantic_type\<close>, \<open>kindless_first_element\<close>, \<open>oversized_carry_drops_flags\<close>, \<open>struct_answers_any_member\<close>, \<open>skip_field_reaches_context\<close>,
  \<open>lost_logs_reported_as_sent\<close>, \<open>invalid_gateway_panics\<close>, \<open>dropped_labels_collide\<close>, \<open>apply_answers_without_cors\<close>, \<open>metrics_open_without_secret\<close>.
\<close>

end
